(* ===== verification/MB_Prelude.thy ===== *)
theory MB_Prelude
  imports Complex_Main
begin

text \<open>
  Shared vocabulary of the development.

  \<^item> Python values: \<open>int\<close> is unbounded (\<open>int\<close>), \<open>float\<close> time stamps are \<open>real\<close>, \<open>str\<close> is
    \<open>string\<close>. A HOL \<open>string\<close> is a list of 8-bit characters, so the text the model speaks about
    is ASCII text: case folding is the ASCII one, which is also what SQLite's \<open>NOCASE\<close> collation
    and the firmware use.
  \<^item> An exception is the left injection of a result \<open>py_error + 'a\<close>; the text of an error
    message is not modelled, its kind is.
  \<^item> A Python \<open>dict\<close> is an association list in insertion order (\<open>dget\<close>, \<open>dset\<close>, \<open>ddel\<close>).
  \<^item> An SQLite table is the list of its rows in row-id order, which is insertion order
    (\<open>row_get\<close>, \<open>row_upd\<close>, \<open>row_del\<close>, appending for \<open>INSERT\<close>); the column that is the
    primary key is an argument.
  The locale \<open>keyed_rows\<close> collects the laws the table operations promise; each table of the
  program is an interpretation of it.
\<close>

subsection \<open>Results and errors\<close>

datatype py_error =
    ValueError
  | TypeError
  | KeyError
  | OverflowError
  | IndexError
  | AssertionError
  | AmbiguousNameError "string option list"

type_synonym 'a result = "py_error + 'a"

text \<open>A decoded JSON value; an object is a dictionary in insertion order. Python's decoder also accepts the
  literals \<open>Infinity\<close> (of either sign) and \<open>NaN\<close>.\<close>

datatype json =
    JNull
  | JBool bool
  | JInt int
  | JFloat real
  | JInfinity
  | JNaN
  | JStr string
  | JArr "json list"
  | JObj "(string \<times> json) list"

named_theorems op_defs \<open>definitions of the operations of a component\<close>
named_theorems inv_intros \<open>every operation keeps the invariant of its component\<close>

subsection \<open>Characters and strings\<close>

definition ascii_lower :: "char \<Rightarrow> char" where
  "ascii_lower c = (if 65 \<le> (of_char c :: nat) \<and> (of_char c :: nat) \<le> 90
                    then char_of ((of_char c :: nat) + 32) else c)"

definition ascii_upper :: "char \<Rightarrow> char" where
  "ascii_upper c = (if 97 \<le> (of_char c :: nat) \<and> (of_char c :: nat) \<le> 122
                    then char_of ((of_char c :: nat) - 32) else c)"

definition str_lower :: "string \<Rightarrow> string" where
  "str_lower s = map ascii_lower s"

definition str_upper :: "string \<Rightarrow> string" where
  "str_upper s = map ascii_upper s"

definition is_digit_char :: "char \<Rightarrow> bool" where
  "is_digit_char c \<longleftrightarrow> 48 \<le> (of_char c :: nat) \<and> (of_char c :: nat) \<le> 57"

definition is_alpha_char :: "char \<Rightarrow> bool" where
  "is_alpha_char c \<longleftrightarrow> 65 \<le> (of_char c :: nat) \<and> (of_char c :: nat) \<le> 90
                    \<or> 97 \<le> (of_char c :: nat) \<and> (of_char c :: nat) \<le> 122"

text \<open>The ASCII characters \<open>str.isspace\<close> and \<open>str.strip()\<close> treat as white space.\<close>

definition is_space_char :: "char \<Rightarrow> bool" where
  "is_space_char c \<longleftrightarrow> (of_char c :: nat) \<in> {9, 10, 11, 12, 13, 28, 29, 30, 31, 32}"

definition newline :: char where
  "newline = CHR 0x0A"

definition starts_with :: "'a list \<Rightarrow> 'a list \<Rightarrow> bool" where
  "starts_with p s \<longleftrightarrow> take (length p) s = p"

definition ends_with :: "'a list \<Rightarrow> 'a list \<Rightarrow> bool" where
  "ends_with p s \<longleftrightarrow> length p \<le> length s \<and> drop (length s - length p) s = p"

text \<open>\<open>p in s\<close> on strings.\<close>

fun contains_str :: "'a list \<Rightarrow> 'a list \<Rightarrow> bool" where
  "contains_str p [] \<longleftrightarrow> p = []"
| "contains_str p (c # s) \<longleftrightarrow> starts_with p (c # s) \<or> contains_str p s"

text \<open>\<open>str.strip(chars)\<close>, with the characters to strip given by a predicate.\<close>

definition strip_if :: "('a \<Rightarrow> bool) \<Rightarrow> 'a list \<Rightarrow> 'a list" where
  "strip_if p s = rev (dropWhile p (rev (dropWhile p s)))"

abbreviation py_strip :: "string \<Rightarrow> string" where
  "py_strip s \<equiv> strip_if is_space_char s"

text \<open>\<open>str.split(sep)\<close> for a one-character separator: never empty.\<close>

fun split_on :: "'a \<Rightarrow> 'a list \<Rightarrow> 'a list list" where
  "split_on sep [] = [[]]"
| "split_on sep (c # s) =
     (case split_on sep s of
        [] \<Rightarrow> [[c]]
      | w # ws \<Rightarrow> if c = sep then [] # w # ws else (c # w) # ws)"

text \<open>\<open>sep.join(parts)\<close> for a one-character separator.\<close>

fun join_with :: "'a \<Rightarrow> 'a list list \<Rightarrow> 'a list" where
  "join_with sep [] = []"
| "join_with sep [w] = w"
| "join_with sep (w # v # ws) = w @ sep # join_with sep (v # ws)"

text \<open>\<open>str.rpartition(sep)\<close>: the parts before and after the last separator, \<open>None\<close> where there
  is none.\<close>

definition rpartition :: "'a \<Rightarrow> 'a list \<Rightarrow> ('a list \<times> 'a list) option" where
  "rpartition sep s =
     (if sep \<in> set s
      then Some (rev (tl (dropWhile (\<lambda>c. c \<noteq> sep) (rev s))),
                 rev (takeWhile (\<lambda>c. c \<noteq> sep) (rev s)))
      else None)"

fun str_index :: "'a list \<Rightarrow> 'a \<Rightarrow> nat option" where
  "str_index [] c = None"
| "str_index (x # xs) c = (if x = c then Some 0 else map_option Suc (str_index xs c))"

text \<open>\<open>str(n)\<close> for an \<open>int\<close>, and \<open>int(x)\<close> for a \<open>float\<close> (truncation toward zero).\<close>

fun show_nat :: "nat \<Rightarrow> string" where
  "show_nat n = (if n < 10 then [char_of (48 + n)] else show_nat (n div 10) @ [char_of (48 + n mod 10)])"

declare show_nat.simps [simp del]

definition show_int :: "int \<Rightarrow> string" where
  "show_int i = (if i < 0 then ''-'' @ show_nat (nat (- i)) else show_nat (nat i))"

definition read_nat :: "string \<Rightarrow> nat" where
  "read_nat s = foldl (\<lambda>n c. n * 10 + (of_char c - 48)) 0 s"

definition py_trunc :: "real \<Rightarrow> int" where
  "py_trunc x = (if x < 0 then \<lceil>x\<rceil> else \<lfloor>x\<rfloor>)"

text \<open>\<open>int(s)\<close> in base ten, \<open>None\<close> for its \<open>ValueError\<close>.\<close>

definition py_int :: "string \<Rightarrow> int option" where
  "py_int s =
     (let t = py_strip s;
          neg = starts_with ''-'' t;
          u = (if neg \<or> starts_with ''+'' t then drop 1 t else t);
          parts = split_on (CHR ''_'') u
      in if \<forall>p\<in>set parts. p \<noteq> [] \<and> (\<forall>c\<in>set p. is_digit_char c)
         then Some ((if neg then - 1 else 1) * int (read_nat (concat parts))) else None)"

text \<open>\<open>int(x)\<close> of a decoded JSON value.\<close>

definition json_int :: "json \<Rightarrow> int result" where
  "json_int x =
     (case x of
        JInt i \<Rightarrow> Inr i
      | JBool b \<Rightarrow> Inr (if b then 1 else 0)
      | JFloat f \<Rightarrow> Inr (py_trunc f)
      | JInfinity \<Rightarrow> Inl OverflowError
      | JNaN \<Rightarrow> Inl ValueError
      | JStr t \<Rightarrow> (case py_int t of None \<Rightarrow> Inl ValueError | Some i \<Rightarrow> Inr i)
      | _ \<Rightarrow> Inl TypeError)"

subsection \<open>Dictionaries in insertion order\<close>

type_synonym ('k, 'v) dict = "('k \<times> 'v) list"

definition dget :: "('k, 'v) dict \<Rightarrow> 'k \<Rightarrow> 'v option" where
  "dget d k = map_of d k"

definition dset :: "'k \<Rightarrow> 'v \<Rightarrow> ('k, 'v) dict \<Rightarrow> ('k, 'v) dict" where
  "dset k v d = (if k \<in> fst ` set d
                 then map (\<lambda>p. if fst p = k then (k, v) else p) d
                 else d @ [(k, v)])"

definition ddel :: "'k \<Rightarrow> ('k, 'v) dict \<Rightarrow> ('k, 'v) dict" where
  "ddel k d = filter (\<lambda>p. fst p \<noteq> k) d"

text \<open>\<open>req.get(key)\<close> and \<open>req.get(key, default)\<close> on a decoded object: \<open>None\<close> is \<open>JNull\<close>.\<close>

definition jget :: "(string, json) dict \<Rightarrow> string \<Rightarrow> json" where
  "jget req k = (case dget req k of None \<Rightarrow> JNull | Some v \<Rightarrow> v)"

definition jget_default :: "(string, json) dict \<Rightarrow> string \<Rightarrow> json \<Rightarrow> json" where
  "jget_default req k dflt = (case dget req k of None \<Rightarrow> dflt | Some v \<Rightarrow> v)"

definition dict_ok :: "('k, 'v) dict \<Rightarrow> bool" where
  "dict_ok d \<longleftrightarrow> distinct (map fst d)"

subsection \<open>Tables keyed by a column\<close>

definition row_get :: "('r \<Rightarrow> 'k) \<Rightarrow> 'r list \<Rightarrow> 'k \<Rightarrow> 'r option" where
  "row_get key rows k = find (\<lambda>r. key r = k) rows"

definition row_upd :: "('r \<Rightarrow> 'k) \<Rightarrow> 'k \<Rightarrow> ('r \<Rightarrow> 'r) \<Rightarrow> 'r list \<Rightarrow> 'r list" where
  "row_upd key k f rows = map (\<lambda>r. if key r = k then f r else r) rows"

definition row_del :: "('r \<Rightarrow> 'k) \<Rightarrow> 'k \<Rightarrow> 'r list \<Rightarrow> 'r list" where
  "row_del key k rows = filter (\<lambda>r. key r \<noteq> k) rows"

definition unique_key :: "('r \<Rightarrow> 'k) \<Rightarrow> 'r list \<Rightarrow> bool" where
  "unique_key key rows \<longleftrightarrow> distinct (map key rows)"

subsection \<open>Lemmas on strings\<close>

lemma split_on_not_Nil [simp]: "split_on sep s \<noteq> []"
  by (cases s) (auto split: list.splits)

lemma join_split_on: "join_with sep (split_on sep s) = s"
proof (induction s)
  case Nil
  show ?case by simp
next
  case (Cons c s)
  obtain w ws where w: "split_on sep s = w # ws"
    by (cases "split_on sep s") auto
  with Cons show ?case by (cases ws) auto
qed

lemma split_on_no_sep: "sep \<notin> set w \<Longrightarrow> split_on sep w = [w]"
  by (induction w) auto

lemma split_on_append: "sep \<notin> set w \<Longrightarrow> split_on sep (w @ sep # s) = w # split_on sep s"
proof (induction w)
  case Nil
  then show ?case by (simp split: list.splits)
next
  case (Cons c w)
  then show ?case by auto
qed

lemma split_on_parts_free: "w \<in> set (split_on sep s) \<Longrightarrow> sep \<notin> set w"
proof (induction s arbitrary: w)
  case (Cons c s)
  then show ?case by (auto split: list.splits if_splits)
qed simp

lemma starts_with_append [simp]: "starts_with p (p @ s)"
  by (simp add: starts_with_def)

lemma starts_with_iff: "starts_with p s \<longleftrightarrow> (\<exists>t. s = p @ t)"
proof
  assume "starts_with p s"
  then have "s = p @ drop (length p) s"
    by (metis append_take_drop_id starts_with_def)
  then show "\<exists>t. s = p @ t" ..
next
  assume "\<exists>t. s = p @ t"
  then show "starts_with p s" by (auto simp: starts_with_def)
qed

lemma contains_str_iff: "contains_str p s \<longleftrightarrow> (\<exists>a b. s = a @ p @ b)"
proof (induction s)
  case Nil
  show ?case by auto
next
  case (Cons c s)
  show ?case
  proof
    assume "contains_str p (c # s)"
    then consider "starts_with p (c # s)" | "contains_str p s" by auto
    then show "\<exists>a b. c # s = a @ p @ b"
    proof cases
      case 1
      then obtain t where "c # s = p @ t" by (auto simp: starts_with_iff)
      then have "c # s = [] @ p @ t" by simp
      then show ?thesis by blast
    next
      case 2
      then obtain a b where "s = a @ p @ b" using Cons by blast
      then have "c # s = (c # a) @ p @ b" by simp
      then show ?thesis by blast
    qed
  next
    assume "\<exists>a b. c # s = a @ p @ b"
    then obtain a b where ab: "c # s = a @ p @ b" by blast
    show "contains_str p (c # s)"
    proof (cases a)
      case Nil
      with ab have "starts_with p (c # s)" by (simp only: append_Nil starts_with_append)
      then show ?thesis by simp
    next
      case (Cons x a')
      with ab have "s = a' @ p @ b" by simp
      with Cons.IH show ?thesis by auto
    qed
  qed
qed

lemma strip_if_none: "\<forall>c\<in>set s. \<not> p c \<Longrightarrow> strip_if p s = s"
proof (cases s)
  case (Cons c t)
  assume a: "\<forall>c\<in>set s. \<not> p c"
  then have "dropWhile p s = s" by (simp add: Cons)
  moreover have "dropWhile p (rev s) = rev s"
    using a by (cases "rev s") (auto dest: arg_cong [where f = set])
  ultimately show ?thesis by (simp add: strip_if_def)
qed (simp add: strip_if_def)

lemma set_strip_if: "set (strip_if p s) \<subseteq> set s"
proof
  fix x assume "x \<in> set (strip_if p s)"
  then have "x \<in> set (dropWhile p (rev (dropWhile p s)))" by (simp add: strip_if_def)
  then have "x \<in> set (rev (dropWhile p s))" by (rule set_dropWhileD)
  then have "x \<in> set (dropWhile p s)" by simp
  then show "x \<in> set s" by (rule set_dropWhileD)
qed

lemma hd_strip_if: "strip_if p s \<noteq> [] \<Longrightarrow> \<not> p (last (strip_if p s))"
proof -
  assume a: "strip_if p s \<noteq> []"
  then have "dropWhile p (rev (dropWhile p s)) \<noteq> []" by (simp add: strip_if_def)
  then have "\<not> p (hd (dropWhile p (rev (dropWhile p s))))" by (rule hd_dropWhile)
  then show ?thesis using a by (simp add: strip_if_def last_rev)
qed

lemma rpartition_Some:
  assumes "rpartition sep s = Some (a, b)"
  shows "s = a @ sep # b" and "sep \<notin> set b"
proof -
  from assms have m: "sep \<in> set (rev s)"
    by (simp add: rpartition_def split: if_splits)
  let ?d = "dropWhile (\<lambda>c. c \<noteq> sep) (rev s)"
  have ne: "?d \<noteq> []" using m by (auto simp: dropWhile_eq_Nil_conv)
  have hd: "hd ?d = sep" using hd_dropWhile [OF ne] by simp
  have b: "b = rev (takeWhile (\<lambda>c. c \<noteq> sep) (rev s))" and a: "a = rev (tl ?d)"
    using assms by (simp_all add: rpartition_def split: if_splits)
  have "rev s = takeWhile (\<lambda>c. c \<noteq> sep) (rev s) @ sep # tl ?d"
    using hd ne by (metis list.collapse takeWhile_dropWhile_id)
  then have "rev s = rev b @ sep # rev a" using a b by simp
  then have "rev (rev s) = rev (rev b @ sep # rev a)" by (rule arg_cong)
  then show "s = a @ sep # b" by simp
  show "sep \<notin> set b" unfolding b by (auto dest: set_takeWhileD)
qed

lemma rpartition_append: "sep \<notin> set b \<Longrightarrow> rpartition sep (a @ sep # b) = Some (a, b)"
proof -
  assume b: "sep \<notin> set b"
  have "takeWhile (\<lambda>c. c \<noteq> sep) (rev b @ sep # rev a) = rev b"
    using b by (subst takeWhile_append2) auto
  moreover have "dropWhile (\<lambda>c. c \<noteq> sep) (rev b @ sep # rev a) = sep # rev a"
    using b by (subst dropWhile_append2) auto
  ultimately show ?thesis by (simp add: rpartition_def)
qed

lemma rpartition_None: "rpartition sep s = None \<longleftrightarrow> sep \<notin> set s"
  by (simp add: rpartition_def)

lemma str_index_nth: "str_index xs c = Some i \<Longrightarrow> i < length xs \<and> xs ! i = c"
  by (induction xs arbitrary: i) (auto split: if_splits)

lemma str_index_distinct:
  "distinct xs \<Longrightarrow> i < length xs \<Longrightarrow> str_index xs (xs ! i) = Some i"
proof (induction xs arbitrary: i)
  case (Cons x xs)
  then show ?case by (cases i) auto
qed simp

lemma str_index_None: "str_index xs c = None \<longleftrightarrow> c \<notin> set xs"
  by (induction xs) auto

subsection \<open>Lemmas on dictionaries\<close>

lemma dget_dset [simp]: "dget (dset k v d) j = (if j = k then Some v else dget d j)"
proof (cases "k \<in> fst ` set d")
  case True
  have "k \<in> fst ` set e \<Longrightarrow> map_of (map (\<lambda>p. if fst p = k then (k, v) else p) e) j
             = (if j = k then Some v else map_of e j)" for e
  proof (induction e)
    case (Cons p e)
    have "k \<notin> fst ` set e \<Longrightarrow> map (\<lambda>p. if fst p = k then (k, v) else p) e = e"
      by (rule map_idI) force
    with Cons show ?case by (cases p, cases "k \<in> fst ` set e") auto
  qed simp
  with True show ?thesis by (simp add: dget_def dset_def)
next
  case False
  then have "map_of d k = None" by (simp add: map_of_eq_None_iff)
  with False show ?thesis
    by (cases "map_of d j") (auto simp: dget_def dset_def map_add_def)
qed

lemma dget_ddel [simp]: "dget (ddel k d) j = (if j = k then None else dget d j)"
  by (induction d) (auto simp: dget_def ddel_def)

lemma dget_Nil [simp]: "dget [] k = None"
  by (simp add: dget_def)

lemma map_fst_dset_hit: "map fst (map (\<lambda>p. if fst p = k then (k, v) else p) d) = map fst d"
  by (induction d) auto

lemma map_fst_dset:
  "map fst (dset k v d) = (if k \<in> fst ` set d then map fst d else map fst d @ [k])"
  using map_fst_dset_hit [of k v d] by (simp only: dset_def split: if_split) simp

lemma keys_dset: "fst ` set (dset k v d) = insert k (fst ` set d)"
proof -
  have "fst ` set (dset k v d) = set (map fst (dset k v d))" by simp
  also have "\<dots> = insert k (fst ` set d)"
    unfolding map_fst_dset by (cases "k \<in> fst ` set d") auto
  finally show ?thesis .
qed

lemma keys_ddel: "fst ` set (ddel k d) = fst ` set d - {k}"
  by (auto simp: ddel_def)

lemma dict_ok_Nil [simp]: "dict_ok []"
  by (simp add: dict_ok_def)

lemma dict_ok_dset [intro, simp]: "dict_ok d \<Longrightarrow> dict_ok (dset k v d)"
  by (auto simp: dict_ok_def map_fst_dset)

lemma dict_ok_ddel [intro, simp]: "dict_ok d \<Longrightarrow> dict_ok (ddel k d)"
  by (auto simp: dict_ok_def ddel_def intro: distinct_map_filter)

lemma dget_None_iff: "dget d k = None \<longleftrightarrow> k \<notin> fst ` set d"
  by (simp add: dget_def map_of_eq_None_iff)

lemma dget_Some_in: "dget d k = Some v \<Longrightarrow> (k, v) \<in> set d"
  by (simp add: dget_def map_of_SomeD)

lemma in_dget: "dict_ok d \<Longrightarrow> (k, v) \<in> set d \<Longrightarrow> dget d k = Some v"
  by (simp add: dget_def dict_ok_def)

subsection \<open>Lemmas on keyed tables\<close>

lemma row_get_Some: "row_get key rows k = Some r \<Longrightarrow> r \<in> set rows \<and> key r = k"
  by (auto simp: row_get_def find_Some_iff)

lemma row_get_None: "row_get key rows k = None \<longleftrightarrow> (\<forall>r\<in>set rows. key r \<noteq> k)"
  by (auto simp: row_get_def find_None_iff)

lemma row_get_in: "unique_key key rows \<Longrightarrow> r \<in> set rows \<Longrightarrow> row_get key rows (key r) = Some r"
  by (induction rows) (auto simp: row_get_def unique_key_def)

lemma row_get_append:
  "row_get key (rows @ [r]) k
     = (case row_get key rows k of Some x \<Rightarrow> Some x | None \<Rightarrow> if key r = k then Some r else None)"
  by (induction rows) (auto simp: row_get_def)

lemma row_get_upd:
  assumes "\<And>r. key r = k \<Longrightarrow> key (f r) = k"
  shows "row_get key (row_upd key k f rows) j
           = (if j = k then map_option f (row_get key rows k) else row_get key rows j)"
  using assms by (induction rows) (auto simp: row_get_def row_upd_def)

lemma row_get_del:
  "row_get key (row_del key k rows) j = (if j = k then None else row_get key rows j)"
  by (induction rows) (auto simp: row_get_def row_del_def)

lemma unique_key_Nil [simp]: "unique_key key []"
  by (simp add: unique_key_def)

lemma unique_key_append:
  "unique_key key rows \<Longrightarrow> row_get key rows (key r) = None \<Longrightarrow> unique_key key (rows @ [r])"
  by (auto simp: unique_key_def row_get_None)

lemma map_key_row_upd:
  assumes "\<And>r. key r = k \<Longrightarrow> key (f r) = k"
  shows "map key (row_upd key k f rows) = map key rows"
  using assms by (induction rows) (auto simp: row_upd_def)

lemma unique_key_upd:
  "(\<And>r. key r = k \<Longrightarrow> key (f r) = k) \<Longrightarrow> unique_key key rows
    \<Longrightarrow> unique_key key (row_upd key k f rows)"
  by (simp only: unique_key_def map_key_row_upd)

lemma unique_key_filter [intro, simp]: "unique_key key rows \<Longrightarrow> unique_key key (filter p rows)"
  by (auto simp: unique_key_def intro: distinct_map_filter)

lemma unique_key_del: "unique_key key rows \<Longrightarrow> unique_key key (row_del key k rows)"
  by (simp add: row_del_def)

lemmas row_simps = row_get_append row_get_upd row_get_del


subsection \<open>The contract of a keyed table\<close>

locale keyed_rows =
  fixes get :: "'t \<Rightarrow> 'k \<Rightarrow> 'r option"
    and key :: "'r \<Rightarrow> 'k"
    and ins :: "'r \<Rightarrow> 't \<Rightarrow> 't"
    and upd :: "'k \<Rightarrow> ('r \<Rightarrow> 'r) \<Rightarrow> 't \<Rightarrow> 't"
    and del :: "'k \<Rightarrow> 't \<Rightarrow> 't"
    and wf :: "'t \<Rightarrow> bool"
  assumes get_key: "get t k = Some r \<Longrightarrow> key r = k"
    and get_ins: "get t (key r) = None \<Longrightarrow> get (ins r t) = (get t)(key r \<mapsto> r)"
    and get_upd: "(\<And>r. key (f r) = key r) \<Longrightarrow> get (upd k f t) = (get t)(k := map_option f (get t k))"
    and get_del: "get (del k t) = (get t)(k := None)"
    and wf_ins: "wf t \<Longrightarrow> get t (key r) = None \<Longrightarrow> wf (ins r t)"
    and wf_upd: "wf t \<Longrightarrow> (\<And>r. key (f r) = key r) \<Longrightarrow> wf (upd k f t)"
    and wf_del: "wf t \<Longrightarrow> wf (del k t)"
begin

text \<open>The \<open>INSERT\<close>-or-\<open>UPDATE\<close> pattern of the store: one row for the key afterwards, every other row
  as before.\<close>

lemma get_upsert:
  assumes "\<And>r. key (f r) = key r" and "key r = k"
  shows "get (if get t k = None then ins r t else upd k f t)
           = (get t)(k \<mapsto> (case get t k of None \<Rightarrow> r | Some x \<Rightarrow> f x))"
  using get_ins [of t r] get_upd [of f k t] assms by (cases "get t k") auto

lemma wf_upsert:
  assumes "wf t" and "\<And>r. key (f r) = key r" and "key r = k"
  shows "wf (if get t k = None then ins r t else upd k f t)"
  using wf_ins [of t r] wf_upd [of t f k] assms by auto

text \<open>\<open>DELETE\<close> then \<open>INSERT\<close>, the replacing write.\<close>

lemma get_replace: "get (ins r (del (key r) t)) = (get t)(key r \<mapsto> r)"
  using get_ins [of "del (key r) t" r] by (simp add: get_del)

lemma wf_replace: "wf t \<Longrightarrow> wf (ins r (del (key r) t))"
  by (intro wf_ins wf_del) (simp_all add: get_del)

lemma del_absent: "get t k = None \<Longrightarrow> get (del k t) = get t"
  by (simp add: get_del fun_upd_idem)

end

lemma keyed_rows_lists:
  "keyed_rows (row_get key) key (\<lambda>r rows. rows @ [r]) (row_upd key) (row_del key) (unique_key key)"
proof
  show "row_get key (row_upd key k f t) = (row_get key t)(k := map_option f (row_get key t k))"
    if "\<And>r. key (f r) = key r" for f t k
    using that by (auto simp: row_get_upd fun_eq_iff)
  show "unique_key key (row_upd key k f t)" if "unique_key key t" "\<And>r. key (f r) = key r" for f t k
    using that by (intro unique_key_upd) simp_all
qed (auto simp: row_get_append row_get_del unique_key_append unique_key_del fun_eq_iff
      dest: row_get_Some split: option.splits)

end
