(* ===== verification/MB_Naming.thy ===== *)
theory MB_Naming
  imports MB_Prelude
begin

text \<open>
  Model of \<open>src/mbtools/relay/naming.py\<close>: the five-letter micro:bit name as a base-5 number and
  the radio address \<open>(channel, group)\<close> that number derives, with both inverse maps; and of
  \<open>friendly_name\<close> of \<open>src/mbtools/registry/identity.py\<close>, the name CODAL computes from the chip's
  32-bit device id. The locale \<open>partial_codec\<close> is the contract of an encoder with its inverse; the
  name codec and the radio-address codec both satisfy it.
\<close>

subsection \<open>The module's constants\<close>

definition CONSONANTS :: string where "CONSONANTS = ''zvgpt''"
definition VOWELS :: string where "VOWELS = ''uoiea''"
definition NAME_LEN :: nat where "NAME_LEN = 5"
definition SPACE :: int where "SPACE = 5 ^ NAME_LEN"

definition CHANNEL_MIN :: int where "CHANNEL_MIN = 11"
definition CHANNEL_MAX :: int where "CHANNEL_MAX = 83"
definition CHANNELS :: int where "CHANNELS = 73"
definition GROUP_MIN :: int where "GROUP_MIN = 15"
definition GROUP_MAX :: int where "GROUP_MAX = 255"
definition GROUPS :: int where "GROUPS = 241"
definition CHANNELS_INVERSE :: int where "CHANNELS_INVERSE = 208"

lemmas naming_consts = NAME_LEN_def SPACE_def CHANNEL_MIN_def CHANNEL_MAX_def CHANNELS_def
  GROUP_MIN_def GROUP_MAX_def GROUPS_def CHANNELS_INVERSE_def

subsection \<open>The functions of the module, in its order\<close>

definition alphabet :: "nat \<Rightarrow> string" where
  "alphabet position = (if position mod 2 = 0 then CONSONANTS else VOWELS)"

definition is_ascii_ws :: "char \<Rightarrow> bool" where
  "is_ascii_ws c \<longleftrightarrow> (of_char c :: nat) \<in> {32, 9, 13, 10, 12, 11}"

definition normalize :: "string \<Rightarrow> string" where
  "normalize name = map ascii_lower (strip_if is_ascii_ws name)"

text \<open>\<open>NAME_RE.match\<close>. The \<open>$\<close> of a Python pattern also matches before a final newline.\<close>

definition five_letters :: "string \<Rightarrow> bool" where
  "five_letters s \<longleftrightarrow> length s = NAME_LEN \<and> (\<forall>p<NAME_LEN. s ! p \<in> set (alphabet p))"

definition NAME_RE_match :: "string \<Rightarrow> bool" where
  "NAME_RE_match s \<longleftrightarrow> five_letters s
     \<or> (s \<noteq> [] \<and> last s = newline \<and> five_letters (butlast s))"

definition validate :: "string \<Rightarrow> string result" where
  "validate name = (let n = normalize name in if NAME_RE_match n then Inr n else Inl ValueError)"

fun decode_from :: "nat \<Rightarrow> int \<Rightarrow> string \<Rightarrow> int result" where
  "decode_from p n [] = Inr n"
| "decode_from p n (ch # s) =
     (case str_index (alphabet p) ch of
        None \<Rightarrow> Inl ValueError
      | Some i \<Rightarrow> decode_from (Suc p) (n * 5 + int i) s)"

definition decode :: "string \<Rightarrow> int result" where
  "decode name = (case validate name of Inl e \<Rightarrow> Inl e | Inr s \<Rightarrow> decode_from 0 0 s)"

text \<open>The loop \<open>for p in range(NAME_LEN - 1, -1, -1)\<close>: the first argument is \<open>p + 1\<close>.\<close>

fun encode_loop :: "nat \<Rightarrow> int \<Rightarrow> string list \<Rightarrow> string list" where
  "encode_loop 0 n out = out"
| "encode_loop (Suc p) n out = encode_loop p (n div 5) (out[p := [alphabet p ! nat (n mod 5)]])"

definition encode :: "int \<Rightarrow> string result" where
  "encode n = (if \<not> (0 \<le> n \<and> n < SPACE) then Inl ValueError
               else Inr (concat (encode_loop NAME_LEN n (replicate NAME_LEN []))))"

definition address :: "int \<Rightarrow> int \<times> int" where
  "address n = (CHANNEL_MIN + n mod CHANNELS, GROUP_MIN + n mod GROUPS)"

definition name_to_radio :: "string \<Rightarrow> (int \<times> int) result" where
  "name_to_radio name = (case decode name of Inl e \<Rightarrow> Inl e | Inr n \<Rightarrow> Inr (address n))"

definition radio_to_name :: "int \<Rightarrow> int \<Rightarrow> string result" where
  "radio_to_name channel grp =
     (if \<not> (CHANNEL_MIN \<le> channel \<and> channel \<le> CHANNEL_MAX) then Inl ValueError
      else if \<not> (GROUP_MIN \<le> grp \<and> grp \<le> GROUP_MAX) then Inl ValueError
      else let c = channel - CHANNEL_MIN; g = grp - GROUP_MIN;
               n = c + CHANNELS * (((g - c + GROUPS) * CHANNELS_INVERSE) mod GROUPS)
           in if n \<ge> SPACE then Inl ValueError else encode n)"

text \<open>One line of \<open>canonical_form\<close>: name, channel, group and, in version 2, the two columns the
  decoder and the reverse map compute (as values, not as text).\<close>

type_synonym canonical_line = "string \<times> int \<times> int \<times> (int \<times> int) option"

definition canonical_line :: "int \<Rightarrow> int \<Rightarrow> canonical_line result" where
  "canonical_line version n =
     (case encode n of Inl e \<Rightarrow> Inl e | Inr name \<Rightarrow>
        let (channel, grp) = address n in
        if version = 1 then Inr (name, channel, grp, None)
        else case radio_to_name channel grp of Inl e \<Rightarrow> Inl e | Inr back_name \<Rightarrow>
             (case decode back_name of Inl e \<Rightarrow> Inl e | Inr back \<Rightarrow>
             (case decode name of Inl e \<Rightarrow> Inl e | Inr d \<Rightarrow>
                Inr (name, channel, grp, Some (d, back)))))"

fun collect_results :: "('a \<Rightarrow> 'b result) \<Rightarrow> 'a list \<Rightarrow> 'b list result" where
  "collect_results f [] = Inr []"
| "collect_results f (x # xs) =
     (case f x of Inl e \<Rightarrow> Inl e
      | Inr y \<Rightarrow> (case collect_results f xs of Inl e \<Rightarrow> Inl e | Inr ys \<Rightarrow> Inr (y # ys)))"

definition canonical_form :: "int \<Rightarrow> canonical_line list result" where
  "canonical_form version =
     (if version \<noteq> 1 \<and> version \<noteq> 2 then Inl ValueError
      else collect_results (canonical_line version) [0..SPACE - 1])"

text \<open>\<open>identity.friendly_name\<close>: digit \<open>i\<close>, least significant first, selects the letter of column
  \<open>i\<close> of the code book and lands at position \<open>4 - i\<close>.\<close>

definition NAME_CODEBOOK :: "string list" where
  "NAME_CODEBOOK = [''zvgpt'', ''uoiea'', ''zvgpt'', ''uoiea'', ''zvgpt'']"

fun friendly_loop :: "nat list \<Rightarrow> int \<Rightarrow> string list \<Rightarrow> string list" where
  "friendly_loop [] n letters = letters"
| "friendly_loop (i # is) n letters =
     friendly_loop is (n div 5) (letters[4 - i := [NAME_CODEBOOK ! i ! nat (n mod 5)]])"

definition friendly_name :: "int \<Rightarrow> string" where
  "friendly_name device_id = concat (friendly_loop [0..<5] (device_id mod 2 ^ 32) (replicate 5 []))"

subsection \<open>The contract of an encoder with its inverse\<close>

locale partial_codec =
  fixes enc :: "'a \<Rightarrow> 'e + 'b"
    and dec :: "'b \<Rightarrow> 'e + 'a"
    and dom_ok :: "'a \<Rightarrow> bool"
  assumes enc_total: "dom_ok x \<Longrightarrow> \<exists>y. enc x = Inr y"
    and enc_only: "enc x = Inr y \<Longrightarrow> dom_ok x"
    and dec_enc: "enc x = Inr y \<Longrightarrow> dec y = Inr x"
begin

lemma enc_inj:
  assumes "enc x = Inr y" and "enc x' = Inr y"
  shows "x = x'"
proof -
  have "Inr x = (Inr x' :: 'e + 'a)"
    using dec_enc [OF assms(1)] dec_enc [OF assms(2)] by simp
  then show ?thesis by simp
qed

lemma dec_surj: "dom_ok x \<Longrightarrow> \<exists>y. dec y = Inr x"
  using enc_total dec_enc by blast

lemma enc_iff: "(\<exists>y. enc x = Inr y) \<longleftrightarrow> dom_ok x"
  using enc_total enc_only by blast

end

subsection \<open>Base-5 digits and letters\<close>

lemma alphabet_facts [simp]:
  "length (alphabet p) = 5" "distinct (alphabet p)"
  by (simp_all add: alphabet_def CONSONANTS_def VOWELS_def)

lemma alphabet_index: "i < 5 \<Longrightarrow> str_index (alphabet p) (alphabet p ! i) = Some i"
  by (simp add: str_index_distinct)

lemma alphabet_nth_in: "i < 5 \<Longrightarrow> alphabet p ! i \<in> set (alphabet p)"
  by simp

lemma alphabet_lower:
  "c \<in> set (alphabet p) \<Longrightarrow> ascii_lower c = c \<and> \<not> is_ascii_ws c \<and> c \<noteq> newline"
  by (auto simp: alphabet_def CONSONANTS_def VOWELS_def ascii_lower_def is_ascii_ws_def
      newline_def split: if_splits)

lemma normalize_id: "\<forall>c\<in>set s. ascii_lower c = c \<and> \<not> is_ascii_ws c \<Longrightarrow> normalize s = s"
  by (simp add: normalize_def strip_if_none map_idI)

lemma five_letters_explode:
  "five_letters s \<Longrightarrow> \<exists>a b c d e. s = [a, b, c, d, e] \<and> a \<in> set (alphabet 0)
     \<and> b \<in> set (alphabet 1) \<and> c \<in> set (alphabet 2) \<and> d \<in> set (alphabet 3) \<and> e \<in> set (alphabet 4)"
proof -
  assume a: "five_letters s"
  then have "length s = Suc (Suc (Suc (Suc (Suc 0))))"
    by (simp add: five_letters_def NAME_LEN_def)
  then obtain v w x y z where s: "s = [v, w, x, y, z]"
    by (auto simp: length_Suc_conv)
  from a have h: "\<forall>p<5. s ! p \<in> set (alphabet p)"
    by (simp add: five_letters_def NAME_LEN_def)
  have "s ! 0 \<in> set (alphabet 0)" "s ! 1 \<in> set (alphabet 1)" "s ! 2 \<in> set (alphabet 2)"
    "s ! 3 \<in> set (alphabet 3)" "s ! 4 \<in> set (alphabet 4)"
    using h by simp_all
  with s show ?thesis by (auto simp: eval_nat_numeral)
qed

lemma five_letters_normal: "five_letters s \<Longrightarrow> normalize s = s"
  by (rule normalize_id) (auto dest!: five_letters_explode alphabet_lower)

text \<open>A normalized name never ends in a newline, so the looser \<open>$\<close> accepts nothing more.\<close>

lemma ascii_lower_newline: "ascii_lower c = newline \<Longrightarrow> c = newline"
proof -
  assume a: "ascii_lower c = newline"
  have n: "(of_char newline :: nat) = 10" by (simp add: newline_def)
  show ?thesis
  proof (cases "65 \<le> (of_char c :: nat) \<and> (of_char c :: nat) \<le> 90")
    case True
    with a have "(of_char (char_of ((of_char c :: nat) + 32)) :: nat) = 10"
      by (simp add: ascii_lower_def n)
    then have "((of_char c :: nat) + 32) mod 256 = 10" by simp
    with True show ?thesis by simp
  next
    case False
    with a show ?thesis by (simp add: ascii_lower_def split: if_splits)
  qed
qed

lemma normalize_last: "normalize s \<noteq> [] \<Longrightarrow> last (normalize s) \<noteq> newline"
proof
  assume ne: "normalize s \<noteq> []" and l: "last (normalize s) = newline"
  from ne have ne': "strip_if is_ascii_ws s \<noteq> []" by (simp add: normalize_def)
  have "ascii_lower (last (strip_if is_ascii_ws s)) = newline"
    using l ne' by (simp add: normalize_def last_map)
  then have "last (strip_if is_ascii_ws s) = newline" by (rule ascii_lower_newline)
  moreover have "is_ascii_ws newline" by (simp add: is_ascii_ws_def newline_def)
  ultimately show False using hd_strip_if [OF ne'] by simp
qed

lemma validate_Inr: "validate name = Inr s \<longleftrightarrow> s = normalize name \<and> five_letters s"
  using normalize_last [of name] by (auto simp: validate_def NAME_RE_match_def Let_def)

lemma validate_five: "five_letters s \<Longrightarrow> validate s = Inr s"
  by (simp add: validate_Inr five_letters_normal)

subsection \<open>Encoding and decoding names\<close>

fun digit5 :: "int \<Rightarrow> nat \<Rightarrow> nat" where
  "digit5 n 0 = nat (n mod 5)"
| "digit5 n (Suc k) = digit5 (n div 5) k"

lemma digit5_less [simp]: "digit5 n k < 5"
  by (induction k arbitrary: n) (simp_all add: nat_less_iff)

lemma digit5_horner:
  "w < 5 \<Longrightarrow> digit5 (x * 5 + int w) 0 = w"
  "w < 5 \<Longrightarrow> digit5 (x * 5 + int w) (Suc k) = digit5 x k"
  "w < 5 \<Longrightarrow> digit5 (int w) 0 = w"
  by simp_all

lemma small_nats: "(1::nat) = Suc 0" "(2::nat) = Suc (Suc 0)" "(3::nat) = Suc (Suc (Suc 0))"
  "(4::nat) = Suc (Suc (Suc (Suc 0)))"
  by simp_all

lemma all_less_5: "(\<forall>p<5::nat. P p) \<longleftrightarrow> P 0 \<and> P 1 \<and> P 2 \<and> P 3 \<and> P 4"
proof -
  have "p < 5 \<longleftrightarrow> p = 0 \<or> p = 1 \<or> p = 2 \<or> p = 3 \<or> p = 4" for p :: nat by linarith
  then show ?thesis by (simp only:) blast
qed

lemma five_letters_Cons:
  "five_letters [v, w, x, y, z] \<longleftrightarrow> v \<in> set (alphabet 0) \<and> w \<in> set (alphabet 1)
     \<and> x \<in> set (alphabet 2) \<and> y \<in> set (alphabet 3) \<and> z \<in> set (alphabet 4)"
  by (simp add: five_letters_def NAME_LEN_def all_less_5)

lemma encode_loop_5:
  "encode_loop 5 n [a, b, c, d, e]
     = [[alphabet 0 ! digit5 n 4], [alphabet 1 ! digit5 n 3], [alphabet 2 ! digit5 n 2],
        [alphabet 3 ! digit5 n 1], [alphabet 4 ! digit5 n 0]]"
proof -
  have five: "5 = Suc 4" "4 = Suc 3" "3 = Suc 2" "2 = Suc (1::nat)" "1 = Suc 0" by simp_all
  show ?thesis
    by (simp only: five(1)) (simp only: five encode_loop.simps digit5.simps list_update.simps nat.case)
qed

lemma encode_digits:
  assumes "0 \<le> n" "n < SPACE"
  shows "encode n = Inr [alphabet 0 ! digit5 n 4, alphabet 1 ! digit5 n 3, alphabet 2 ! digit5 n 2,
                         alphabet 3 ! digit5 n 1, alphabet 4 ! digit5 n 0]"
proof -
  have "replicate 5 [] = [[], [], [], [], [] :: string]" by (simp add: numeral_eq_Suc)
  with assms show ?thesis by (simp only: encode_def NAME_LEN_def encode_loop_5) simp
qed
lemma base5_sum:
  assumes "0 \<le> n" "n < SPACE"
  shows "(((int (digit5 n 4) * 5 + int (digit5 n 3)) * 5 + int (digit5 n 2)) * 5
           + int (digit5 n 1)) * 5 + int (digit5 n 0) = n"
proof -
  define a b c d where "a = n div 5" and "b = a div 5" and "c = b div 5" and "d = c div 5"
  have p: "int (digit5 n 0) = n mod 5" "int (digit5 n 1) = a mod 5" "int (digit5 n 2) = b mod 5"
    "int (digit5 n 3) = c mod 5" "int (digit5 n 4) = d mod 5"
    unfolding a_def b_def c_def d_def by (simp_all add: eval_nat_numeral)
  have e: "n = 5 * a + n mod 5" "a = 5 * b + a mod 5" "b = 5 * c + b mod 5" "c = 5 * d + c mod 5"
    unfolding a_def b_def c_def d_def by simp_all
  have m: "0 \<le> n mod 5" "0 \<le> a mod 5" "0 \<le> b mod 5" "0 \<le> c mod 5" by simp_all
  have m5: "n mod 5 < 5" "a mod 5 < 5" "b mod 5 < 5" "c mod 5 < 5" by simp_all
  have n5: "n < 3125" using assms(2) by (simp add: SPACE_def NAME_LEN_def)
  have "0 \<le> d" using e m5 assms(1) by linarith
  moreover have "d < 5" using e m n5 by linarith
  ultimately have "d mod 5 = d" by simp
  then have "(((d mod 5 * 5 + c mod 5) * 5 + b mod 5) * 5 + a mod 5) * 5 + n mod 5
      = 5 * (5 * (5 * (5 * d + c mod 5) + b mod 5) + a mod 5) + n mod 5"
    by (simp add: mult.commute)
  then show ?thesis unfolding p by (simp only: e [symmetric])
qed

lemma encode_five_letters: "encode n = Inr s \<Longrightarrow> five_letters s"
proof -
  assume a: "encode n = Inr s"
  then have r: "0 \<le> n" "n < SPACE" by (auto simp: encode_def split: if_splits)
  from a have "s = [alphabet 0 ! digit5 n 4, alphabet 1 ! digit5 n 3, alphabet 2 ! digit5 n 2,
                    alphabet 3 ! digit5 n 1, alphabet 4 ! digit5 n 0]"
    unfolding encode_digits [OF r] by simp
  then show ?thesis by (simp only: five_letters_Cons alphabet_nth_in digit5_less simp_thms)
qed

lemma decode_digits:
  assumes "a < 5" "b < 5" "c < 5" "d < 5" "e < 5"
  shows "decode_from 0 0 [alphabet 0 ! a, alphabet 1 ! b, alphabet 2 ! c, alphabet 3 ! d,
                          alphabet 4 ! e]
           = Inr ((((int a * 5 + int b) * 5 + int c) * 5 + int d) * 5 + int e)"
  using assms by (simp add: alphabet_index eval_nat_numeral)

lemma decode_encode: "encode n = Inr s \<Longrightarrow> decode s = Inr n"
proof -
  assume a: "encode n = Inr s"
  then have r: "0 \<le> n" "n < SPACE" by (auto simp: encode_def split: if_splits)
  have v: "validate s = Inr s" using a by (intro validate_five encode_five_letters)
  have s: "s = [alphabet 0 ! digit5 n 4, alphabet 1 ! digit5 n 3, alphabet 2 ! digit5 n 2,
                alphabet 3 ! digit5 n 1, alphabet 4 ! digit5 n 0]"
    using a unfolding encode_digits [OF r] by simp
  have "decode_from 0 0 s
          = Inr ((((int (digit5 n 4) * 5 + int (digit5 n 3)) * 5 + int (digit5 n 2)) * 5
                  + int (digit5 n 1)) * 5 + int (digit5 n 0))"
    unfolding s by (rule decode_digits) simp_all
  also have "\<dots> = Inr n"
    by (simp only: base5_sum [OF r])
  finally show ?thesis by (simp add: decode_def v)
qed

lemma in_alphabet_index: "c \<in> set (alphabet p) \<Longrightarrow> \<exists>i<5. c = alphabet p ! i"
  by (metis alphabet_facts(1) in_set_conv_nth)

lemma five_letters_digits:
  "five_letters s \<Longrightarrow> \<exists>a b c d e. a < 5 \<and> b < 5 \<and> c < 5 \<and> d < 5 \<and> e < 5
     \<and> s = [alphabet 0 ! a, alphabet 1 ! b, alphabet 2 ! c, alphabet 3 ! d, alphabet 4 ! e]"
proof -
  assume "five_letters s"
  then obtain v w x y z where s: "s = [v, w, x, y, z]" and m: "v \<in> set (alphabet 0)"
    "w \<in> set (alphabet 1)" "x \<in> set (alphabet 2)" "y \<in> set (alphabet 3)" "z \<in> set (alphabet 4)"
    using five_letters_explode by blast
  from m [THEN in_alphabet_index] show ?thesis unfolding s by blast
qed

lemma decode_range: "decode s = Inr n \<Longrightarrow> 0 \<le> n \<and> n < SPACE"
proof -
  assume a: "decode s = Inr n"
  then obtain t where v: "validate s = Inr t" and d: "decode_from 0 0 t = Inr n"
    by (auto simp: decode_def split: sum.splits)
  from v have "five_letters t" by (auto simp: validate_Inr)
  then obtain p q r u w where lt: "p < 5" "q < 5" "r < 5" "u < 5" "w < 5" and
    t: "t = [alphabet 0 ! p, alphabet 1 ! q, alphabet 2 ! r, alphabet 3 ! u, alphabet 4 ! w]"
    using five_letters_digits by blast
  have "n = (((int p * 5 + int q) * 5 + int r) * 5 + int u) * 5 + int w"
    using d decode_digits [OF lt] unfolding t by simp
  with lt show ?thesis by (simp add: SPACE_def NAME_LEN_def)
qed

lemma encode_decode: "decode s = Inr n \<Longrightarrow> encode n = Inr (normalize s)"
proof -
  assume a: "decode s = Inr n"
  then obtain t where v: "validate s = Inr t" and d: "decode_from 0 0 t = Inr n"
    by (auto simp: decode_def split: sum.splits)
  from v have n: "t = normalize s" and f: "five_letters t" by (auto simp: validate_Inr)
  from f obtain p q r u w where lt: "p < 5" "q < 5" "r < 5" "u < 5" "w < 5" and
    t: "t = [alphabet 0 ! p, alphabet 1 ! q, alphabet 2 ! r, alphabet 3 ! u, alphabet 4 ! w]"
    using five_letters_digits by blast
  have nd: "n = (((int p * 5 + int q) * 5 + int r) * 5 + int u) * 5 + int w"
    using d decode_digits [OF lt] unfolding t by simp
  have range: "0 \<le> n" "n < SPACE" using decode_range [OF a] by simp_all
  have "digit5 n 4 = p" "digit5 n 3 = q" "digit5 n 2 = r" "digit5 n 1 = u" "digit5 n 0 = w"
    unfolding nd by (simp_all only: small_nats digit5_horner lt)
  with encode_digits [OF range] have "encode n = Inr t" unfolding t by simp
  then show ?thesis using n by simp
qed


subsection \<open>Radio addresses\<close>

lemma crt_back:
  fixes n :: int
  assumes "0 \<le> n" "n < 3125"
  shows "n mod 73 + 73 * (((n mod 241 - n mod 73 + 241) * 208) mod 241) = n"
proof -
  define q where "q = n div 73"
  define k where "k = n div 241"
  have n1: "n mod 73 = n - 73 * q" unfolding q_def by (simp add: minus_mult_div_eq_mod [symmetric])
  have n2: "n mod 241 = n - 241 * k" unfolding k_def by (simp add: minus_mult_div_eq_mod [symmetric])
  have q: "0 \<le> q" "q < 241" using assms unfolding q_def by auto
  have "(n mod 241 - n mod 73 + 241) * 208 = q + (63 * q + 208 - 208 * k) * 241"
    unfolding n1 n2 by (simp add: algebra_simps)
  then have "((n mod 241 - n mod 73 + 241) * 208) mod 241 = q mod 241"
    by (simp only: mod_mult_self1)
  also have "\<dots> = q" using q by simp
  finally have "((n mod 241 - n mod 73 + 241) * 208) mod 241 = q" .
  then show ?thesis using n1 by simp
qed

lemma crt_forward:
  fixes c g :: int
  assumes "0 \<le> c" "c < 73" "0 \<le> g" "g < 241"
  defines "n \<equiv> c + 73 * (((g - c + 241) * 208) mod 241)"
  shows "n mod 73 = c" and "n mod 241 = g" and "0 \<le> n"
proof -
  let ?m = "((g - c + 241) * 208) mod 241"
  show "n mod 73 = c" using assms(1,2) unfolding n_def by simp
  have "n mod 241 = (c + 73 * ((g - c + 241) * 208)) mod 241"
    unfolding n_def by (metis mod_add_right_eq mod_mult_right_eq)
  also have "c + 73 * ((g - c + 241) * 208) = g + (63 * (g - c) + 15184) * 241"
    by (simp add: algebra_simps)
  also have "(g + (63 * (g - c) + 15184) * 241) mod 241 = g mod 241"
    by (simp only: mod_mult_self1)
  also have "\<dots> = g" using assms(3,4) by simp
  finally show "n mod 241 = g" .
  have "0 \<le> ?m" by simp
  with assms(1) show "0 \<le> n" unfolding n_def by linarith
qed

lemma radio_to_name_address:
  assumes "0 \<le> n" "n < SPACE"
  shows "radio_to_name (fst (address n)) (snd (address n)) = encode n"
proof -
  have n: "0 \<le> n" "n < 3125" using assms by (simp_all add: SPACE_def NAME_LEN_def)
  have b: "0 \<le> n mod 73" "n mod 73 \<le> 72" "0 \<le> n mod 241" "n mod 241 \<le> 240"
    by simp_all
  show ?thesis
    using crt_back [OF n] assms b by (simp add: radio_to_name_def address_def naming_consts Let_def)
qed

lemma radio_to_name_InrE:
  assumes "radio_to_name channel grp = Inr s"
  obtains n where "encode n = Inr s" "address n = (channel, grp)"
proof -
  let ?c = "channel - 11" and ?g = "grp - 15"
  let ?n = "?c + 73 * (((?g - ?c + 241) * 208) mod 241)"
  have e: "encode ?n = Inr s" and r: "0 \<le> ?c" "?c < 73" "0 \<le> ?g" "?g < 241"
    using assms by (auto simp: radio_to_name_def naming_consts Let_def split: if_splits)
  have "address ?n = (channel, grp)"
    using crt_forward [OF r] by (simp add: address_def naming_consts)
  with e that show ?thesis by blast
qed

lemma address_inj:
  assumes "0 \<le> m" "m < SPACE" "0 \<le> n" "n < SPACE" "address m = address n"
  shows "m = n"
proof -
  have eq: "n mod 73 = m mod 73" "n mod 241 = m mod 241"
    using assms(5) by (simp_all add: address_def naming_consts)
  have lt: "m < 3125" "n < 3125" using assms(2,4) by (simp_all add: SPACE_def NAME_LEN_def)
  show ?thesis
    using crt_back [OF assms(1) lt(1)] crt_back [OF assms(3) lt(2)] unfolding eq by (rule trans [OF sym])
qed

text \<open>The codec of names, and the codec between names in normal form and their radio address.\<close>

interpretation name_codec: partial_codec encode decode "\<lambda>n. 0 \<le> n \<and> n < SPACE"
  by unfold_locales (auto simp: encode_def intro: decode_encode split: if_splits)

interpretation radio_codec: partial_codec
  "\<lambda>(channel, grp). radio_to_name channel grp" name_to_radio
  "\<lambda>a. \<exists>n. 0 \<le> n \<and> n < SPACE \<and> address n = a"
proof unfold_locales
  fix x :: "int \<times> int"
  assume "\<exists>n. 0 \<le> n \<and> n < SPACE \<and> address n = x"
  then show "\<exists>y. (case x of (channel, grp) \<Rightarrow> radio_to_name channel grp) = Inr y"
    by (metis name_codec.enc_total prod.case_eq_if radio_to_name_address)
next
  fix x :: "int \<times> int" and y
  assume "(case x of (channel, grp) \<Rightarrow> radio_to_name channel grp) = Inr y"
  then obtain n where n: "encode n = Inr y" "address n = x"
    by (cases x) (auto elim: radio_to_name_InrE)
  then show "\<exists>n. 0 \<le> n \<and> n < SPACE \<and> address n = x"
    using name_codec.enc_only by blast
  show "name_to_radio y = Inr x"
    using n decode_encode [of n y] by (simp add: name_to_radio_def)
qed

lemma name_to_radio_Inr:
  "name_to_radio s = Inr a \<longleftrightarrow> (\<exists>n. decode s = Inr n \<and> address n = a)"
  by (auto simp: name_to_radio_def split: sum.splits)

lemma validate_idem: "validate s = Inr t \<Longrightarrow> validate t = Inr t"
  using validate_five by (auto simp: validate_Inr [of s])

lemma name_to_radio_validated: "validate s = Inr t \<Longrightarrow> name_to_radio t = name_to_radio s"
  by (simp add: name_to_radio_def decode_def validate_idem)

lemma name_to_radio_total: "validate s = Inr t \<Longrightarrow> \<exists>a. name_to_radio s = Inr a"
proof -
  assume v: "validate s = Inr t"
  then have "five_letters t" by (auto simp: validate_Inr)
  then obtain p q r u w where lt: "p < 5" "q < 5" "r < 5" "u < 5" "w < 5" and
    t: "t = [alphabet 0 ! p, alphabet 1 ! q, alphabet 2 ! r, alphabet 3 ! u, alphabet 4 ! w]"
    using five_letters_digits by blast
  show ?thesis
    using v decode_digits [OF lt] unfolding t by (simp add: name_to_radio_def decode_def)
qed


lemma friendly_loop_5:
  "friendly_loop [0..<5] n [a, b, c, d, e]
     = [[alphabet 0 ! digit5 n 4], [alphabet 1 ! digit5 n 3], [alphabet 2 ! digit5 n 2],
        [alphabet 3 ! digit5 n 1], [alphabet 4 ! digit5 n 0]]"
proof -
  have u: "[0..<5] = [0, 1, 2, 3, 4::nat]" by (simp add: upt_rec)
  have book: "NAME_CODEBOOK ! 0 = alphabet 4" "NAME_CODEBOOK ! 1 = alphabet 3"
    "NAME_CODEBOOK ! 2 = alphabet 2" "NAME_CODEBOOK ! 3 = alphabet 1" "NAME_CODEBOOK ! 4 = alphabet 0"
    by (simp_all add: NAME_CODEBOOK_def alphabet_def CONSONANTS_def VOWELS_def)
  have dig: "digit5 n 4 = nat (n div 5 div 5 div 5 div 5 mod 5)"
    "digit5 n 3 = nat (n div 5 div 5 div 5 mod 5)" "digit5 n 2 = nat (n div 5 div 5 mod 5)"
    "digit5 n 1 = nat (n div 5 mod 5)" "digit5 n 0 = nat (n mod 5)"
    by (simp_all only: small_nats digit5.simps)
  show ?thesis unfolding u dig friendly_loop.simps book by simp
qed

lemma digit5_mod: "digit5 (n mod 5 ^ (Suc k + j)) k = digit5 n k"
proof (induction k arbitrary: n)
  case 0
  then show ?case by (simp add: mod_mod_cancel)
next
  case (Suc k)
  have "n mod 5 ^ (Suc (Suc k) + j) div 5 = (n div 5) mod 5 ^ (Suc k + j)"
    using zmod_zmult2_eq [of "5 ^ (Suc k + j)" n 5] by simp
  then show ?case using Suc by simp
qed

lemma digit5_mod_3125: "k < 5 \<Longrightarrow> digit5 (n mod 3125) k = digit5 n k"
  using digit5_mod [of n k "4 - k"] by simp

lemma collect_results_map:
  "(\<And>x. x \<in> set xs \<Longrightarrow> f x = Inr (g x)) \<Longrightarrow> collect_results f xs = Inr (map g xs)"
  by (induction xs) simp_all

lemma radio_to_name_of:
  "name_to_radio s = Inr (channel, grp) \<Longrightarrow> normalize s = s \<Longrightarrow> radio_to_name channel grp = Inr s"
proof -
  assume a: "name_to_radio s = Inr (channel, grp)" "normalize s = s"
  then obtain n where n: "decode s = Inr n" "address n = (channel, grp)"
    by (auto simp: name_to_radio_Inr)
  then have "radio_to_name channel grp = encode n"
    using radio_to_name_address [of n] decode_range by simp
  with a n show "radio_to_name channel grp = Inr s" using encode_decode by simp
qed

subsection \<open>Properties\<close>

text \<open>C6: names and the numbers 0 to 3124 are in bijection: every number in range encodes to a name
  that decodes back to it, and a name that decodes (in any case and with surrounding blanks)
  re-encodes to its normal form.\<close>

theorem name_codec_bijective:
  "(\<forall>n. 0 \<le> n \<and> n < SPACE \<longrightarrow> (\<exists>s. encode n = Inr s \<and> decode s = Inr n))
   \<and> (\<forall>s n. decode s = Inr n \<longrightarrow> 0 \<le> n \<and> n < SPACE \<and> encode n = Inr (normalize s))"
  using name_codec.enc_total decode_encode decode_range encode_decode by blast

theorem name_codec_bijective_witness:
  "encode 3124 = Inr ''tatat'' \<and> decode ''tatat'' = Inr 3124
   \<and> decode '' TATAT'' = Inr 3124 \<and> encode 3124 = Inr (normalize '' TATAT'')"
proof -
  have e: "encode 3124 = Inr ''tatat''" by code_simp
  obtain s where "encode 3124 = Inr s" "decode s = Inr 3124"
    using name_codec_bijective [THEN conjunct1, rule_format, of 3124]
    by (auto simp: SPACE_def NAME_LEN_def)
  with e have d: "decode ''tatat'' = Inr 3124" by simp
  have d2: "decode '' TATAT'' = Inr 3124" by code_simp
  with name_codec_bijective have "encode 3124 = Inr (normalize '' TATAT'')" by blast
  with e d d2 show ?thesis by simp
qed

text \<open>\<open>radio_to_name\<close> is exactly the inverse of \<open>name_to_radio\<close> on names in normal form: it answers
  a name for a pair if and only if that name derives the pair, and no pair belongs to two names.\<close>

theorem radio_to_name_inverse:
  "radio_to_name channel grp = Inr s \<longleftrightarrow> name_to_radio s = Inr (channel, grp) \<and> normalize s = s"
proof
  assume a: "radio_to_name channel grp = Inr s"
  then obtain n where "encode n = Inr s" by (rule radio_to_name_InrE)
  then have "normalize s = s" by (intro five_letters_normal encode_five_letters)
  with a show "name_to_radio s = Inr (channel, grp) \<and> normalize s = s"
    using radio_codec.dec_enc [of "(channel, grp)"] by simp
next
  assume "name_to_radio s = Inr (channel, grp) \<and> normalize s = s"
  then show "radio_to_name channel grp = Inr s" by (blast intro: radio_to_name_of)
qed

text \<open>C7: a derived address never leaves the derived band (channels 11 to 83, groups 15 to 255), so it
  avoids the legacy channels and MakeCode's groups, and two names that derive the same pair are the
  same name.\<close>

theorem derived_address_band_and_unique:
  assumes "name_to_radio s = Inr (channel, grp)" and "name_to_radio t = Inr (channel, grp)"
  shows "11 \<le> channel \<and> channel \<le> 83 \<and> 15 \<le> grp \<and> grp \<le> 255 \<and> normalize s = normalize t"
proof -
  obtain m where m: "decode s = Inr m" "address m = (channel, grp)"
    using assms(1) by (auto simp: name_to_radio_Inr)
  obtain n where n: "decode t = Inr n" "address n = (channel, grp)"
    using assms(2) by (auto simp: name_to_radio_Inr)
  have "m = n" using m n decode_range by (intro address_inj) auto
  then have "(Inr (normalize s) :: string result) = Inr (normalize t)"
    using encode_decode m(1) n(1) by metis
  moreover have "channel = 11 + m mod 73" "grp = 15 + m mod 241"
    using m(2) by (simp_all add: address_def naming_consts)
  moreover have "0 \<le> m mod 73" "m mod 73 < 73" "0 \<le> m mod 241" "m mod 241 < 241" by simp_all
  ultimately show ?thesis by (intro conjI) (linarith | simp)+
qed

theorem derived_address_band_and_unique_witness:
  "name_to_radio ''vevov'' = Inr (20, 82) \<and> normalize ''vevov'' = normalize '' VEVOV ''"
proof -
  have v: "name_to_radio ''vevov'' = Inr (20, 82)" "name_to_radio '' VEVOV '' = Inr (20, 82)"
    by code_simp+
  show ?thesis using derived_address_band_and_unique [OF v] v(1) by simp
qed

text \<open>The canonical form of version 2, whose digest is the cross-repository contract, lists every
  number from 0 to 3124 in order with its name and address, and both check columns (what the decoder
  and the reverse map compute) are the number itself.\<close>

theorem canonical_form_columns:
  "\<exists>ls. canonical_form 2 = Inr ls \<and> map (\<lambda>(name, c, g, cols). cols) ls = map (\<lambda>n. Some (n, n)) [0..3124]
      \<and> map (\<lambda>(name, c, g, cols). (c, g)) ls = map address [0..3124]
      \<and> map (\<lambda>(name, c, g, cols). Inr name) ls = map encode [0..3124]"
proof -
  define nm where "nm n = (case encode n of Inr s \<Rightarrow> s | Inl _ \<Rightarrow> [])" for n
  define ln where "ln n = (nm n, fst (address n), snd (address n), Some (n, n))" for n
  have sp: "SPACE - 1 = 3124" by (simp add: SPACE_def NAME_LEN_def)
  have e: "encode n = Inr (nm n)" if "n \<in> set [0..3124]" for n
    using that by (simp add: nm_def encode_digits SPACE_def NAME_LEN_def)
  have l: "canonical_line 2 n = Inr (ln n)" if "n \<in> set [0..3124]" for n
  proof -
    have "0 \<le> n" "n < SPACE" using that by (simp_all add: SPACE_def NAME_LEN_def)
    then have r: "radio_to_name (fst (address n)) (snd (address n)) = Inr (nm n)"
      using radio_to_name_address e [OF that] by simp
    have d: "decode (nm n) = Inr n" using decode_encode e [OF that] by blast
    show ?thesis
      using r d e [OF that] by (simp add: canonical_line_def ln_def case_prod_beta)
  qed
  have "canonical_form 2 = Inr (map ln [0..3124])"
    using collect_results_map [of "[0..3124]" "canonical_line 2" ln] l
    by (simp add: canonical_form_def sp)
  moreover have "map (\<lambda>n. Inr (nm n)) [0..3124] = map encode [0..3124]"
    using e by (intro map_cong) simp_all
  ultimately show ?thesis by (simp add: ln_def comp_def)
qed

text \<open>The name the firmware computes from the 32-bit device id (\<open>identity.friendly_name\<close>) is the
  name-space encoding of the id modulo 3125, so the two modules agree on every chip.\<close>

theorem friendly_name_is_encoded_id:
  "encode (device_id mod 2 ^ 32 mod 3125) = Inr (friendly_name device_id)"
proof -
  let ?n = "device_id mod 2 ^ 32"
  have r: "0 \<le> ?n mod 3125" "?n mod 3125 < SPACE" by (simp_all add: SPACE_def NAME_LEN_def)
  have "replicate 5 [] = [[], [], [], [], [] :: string]" by (simp add: numeral_eq_Suc)
  then show ?thesis
    unfolding encode_digits [OF r] friendly_name_def
    by (simp add: friendly_loop_5 digit5_mod_3125 del: digit5.simps)
qed

end
