(* ===== verification/MB_Frames.thy ===== *)
theory MB_Frames
  imports MB_Prelude "HOL-Library.Word"
begin

text \<open>
  Model of \<open>src/mbtools/registry/stream_frame.py\<close> (the framed binary stream format
  \<open>[type][4-byte big-endian length][payload]\<close>) and of the two pieces of
  \<open>BaseAPIServer._handle_stream\<close> (\<open>src/mbtools/registry/_api_base.py\<close>) that drive it: the
  \<open>_read_exact\<close> closure over \<open>conn.recv\<close> and the loop that applies the client's frames to the
  serial port. The locale \<open>exact_reader\<close> is the contract \<open>read_frame\<close> states for its argument; the
  socket closure is proved to meet it for every way the network may cut the bytes into chunks.
\<close>

type_synonym byte = "8 word"

subsection \<open>\<open>stream_frame.py\<close>\<close>

definition FRAME_DATA :: int where "FRAME_DATA = 1"
definition FRAME_BREAK :: int where "FRAME_BREAK = 2"
definition FRAME_SET_DTR :: int where "FRAME_SET_DTR = 3"
definition FRAME_SET_RTS :: int where "FRAME_SET_RTS = 4"
definition FRAME_CLOSE :: int where "FRAME_CLOSE = 5"

lemmas frame_types = FRAME_DATA_def FRAME_BREAK_def FRAME_SET_DTR_def FRAME_SET_RTS_def
  FRAME_CLOSE_def

definition HEADER_SIZE :: nat where "HEADER_SIZE = 5"
definition MAX_FRAME_PAYLOAD :: nat where "MAX_FRAME_PAYLOAD = 2 ^ 20"

datatype frame_error = TruncatedHeader | OversizedLength | TruncatedPayload

text \<open>\<open>int.to_bytes(4, "big")\<close> (raising \<open>OverflowError\<close> when four bytes are too few) and
  \<open>int.from_bytes(\<dots>, "big")\<close>.\<close>

definition to_bytes4 :: "nat \<Rightarrow> byte list result" where
  "to_bytes4 n = (if n < 2 ^ 32
     then Inr [of_nat (n div 2 ^ 24), of_nat (n div 2 ^ 16), of_nat (n div 2 ^ 8), of_nat n]
     else Inl OverflowError)"

definition from_bytes :: "byte list \<Rightarrow> nat" where
  "from_bytes bs = foldl (\<lambda>n b. n * 256 + unat b) 0 bs"

text \<open>\<open>bytes((frame_type,))\<close> raises \<open>ValueError\<close> outside 0 to 255.\<close>

definition encode_frame :: "int \<Rightarrow> byte list \<Rightarrow> byte list result" where
  "encode_frame frame_type payload =
     (if \<not> (0 \<le> frame_type \<and> frame_type < 256) then Inl ValueError
      else case to_bytes4 (length payload) of
             Inl e \<Rightarrow> Inl e
           | Inr len \<Rightarrow> Inr ([of_int frame_type] @ len @ payload))"

definition read_frame ::
    "('s \<Rightarrow> nat \<Rightarrow> byte list \<times> 's) \<Rightarrow> 's \<Rightarrow> (frame_error + (int \<times> byte list) option) \<times> 's" where
  "read_frame read_exact s =
     (let (header, s1) = read_exact s HEADER_SIZE in
      if header = [] then (Inr None, s1)
      else if length header < HEADER_SIZE then (Inl TruncatedHeader, s1)
      else let frame_type = uint (header ! 0);
               len = from_bytes (take 4 (drop 1 header)) in
           if len > MAX_FRAME_PAYLOAD then (Inl OversizedLength, s1)
           else if len = 0 then (Inr (Some (frame_type, [])), s1)
           else let (payload, s2) = read_exact s1 len in
                if length payload < len then (Inl TruncatedPayload, s2)
                else (Inr (Some (frame_type, payload)), s2))"

subsection \<open>The reader over a socket\<close>

text \<open>A socket's pending input is the list of chunks the network delivers, none empty; \<open>recv n\<close>
  returns at most \<open>n\<close> bytes of the first one and \<open>b""\<close> once the peer has closed.\<close>

type_synonym socket = "byte list list"

definition socket_ok :: "socket \<Rightarrow> bool" where
  "socket_ok chunks \<longleftrightarrow> [] \<notin> set chunks"

fun recv :: "socket \<Rightarrow> nat \<Rightarrow> byte list \<times> socket" where
  "recv [] n = ([], [])"
| "recv (c # cs) n = (if length c \<le> n then (c, cs) else (take n c, drop n c # cs))"

text \<open>The loop of \<open>_read_exact\<close>: \<open>chunks\<close> collected so far, \<open>remaining\<close> bytes still wanted.\<close>

function read_exact_loop :: "byte list list \<Rightarrow> socket \<Rightarrow> nat \<Rightarrow> byte list \<times> socket" where
  "read_exact_loop chunks conn remaining =
     (if remaining > 0
      then let (chunk, conn') = recv conn remaining in
           if chunk = [] then (concat chunks, conn')
           else read_exact_loop (chunks @ [chunk]) conn' (remaining - length chunk)
      else (concat chunks, conn))"
  by pat_completeness auto
termination
  by (relation "measure (\<lambda>(chunks, conn, remaining). remaining)") auto

declare read_exact_loop.simps [simp del]

definition socket_read_exact :: "socket \<Rightarrow> nat \<Rightarrow> byte list \<times> socket" where
  "socket_read_exact conn n = read_exact_loop [] conn n"

subsection \<open>Applying frames to the serial port\<close>

datatype port_op =
    PortWrite "byte list"
  | PortBreak
  | PortDtr bool
  | PortRts bool

text \<open>What one frame asks of the port: the operation to attempt, nothing (a line-control frame with
  an empty payload), or to end the session.\<close>

datatype frame_action = Do port_op | Skip | Stop

definition frame_action :: "int \<Rightarrow> byte list \<Rightarrow> frame_action" where
  "frame_action frame_type payload =
     (if frame_type = FRAME_DATA then Do (PortWrite payload)
      else if frame_type = FRAME_BREAK then Do PortBreak
      else if frame_type = FRAME_SET_DTR
           then (case payload of [] \<Rightarrow> Skip | b # _ \<Rightarrow> Do (PortDtr (b \<noteq> 0)))
      else if frame_type = FRAME_SET_RTS
           then (case payload of [] \<Rightarrow> Skip | b # _ \<Rightarrow> Do (PortRts (b \<noteq> 0)))
      else if frame_type = FRAME_CLOSE then Stop
      else Stop)"

text \<open>Reading never loses or invents a byte, whatever the chunks are.\<close>

lemma recv_conserves: "recv conn n = (chunk, conn') \<Longrightarrow> concat conn = chunk @ concat conn'"
  by (cases conn) (auto split: if_splits)

lemma read_exact_conserves:
  "fst (read_exact_loop chunks conn n) @ concat (snd (read_exact_loop chunks conn n))
     = concat chunks @ concat conn"
proof (induction chunks conn n rule: read_exact_loop.induct)
  case (1 chunks conn n)
  obtain chunk conn' where r: "recv conn n = (chunk, conn')" by fastforce
  show ?case
    using 1 [OF _ r [symmetric] refl] recv_conserves [OF r] r
    by (subst (1 2) read_exact_loop.simps) (auto simp: Let_def)
qed

lemma read_frame_consumes:
  assumes "read_frame socket_read_exact conn = (Inr (Some f), conn')"
  shows "length (concat conn') < length (concat conn)"
proof -
  obtain h c1 where r1: "socket_read_exact conn HEADER_SIZE = (h, c1)" by fastforce
  define len where "len = from_bytes (take 4 (drop 1 h))"
  obtain p c2 where r2: "socket_read_exact c1 len = (p, c2)" by fastforce
  have "concat conn = h @ concat c1" "concat c1 = p @ concat c2"
    using read_exact_conserves [of "[]" conn HEADER_SIZE] read_exact_conserves [of "[]" c1 len]
      r1 r2 by (simp_all add: socket_read_exact_def)
  moreover have "h \<noteq> []" "conn' = c1 \<or> conn' = c2"
    using assms r2 unfolding read_frame_def r1 Let_def prod.case len_def [symmetric]
    by (auto split: if_splits)
  ultimately show ?thesis by auto
qed

text \<open>The main loop of \<open>_handle_stream\<close>. \<open>port_ok\<close> says whether the port accepts an operation
  after the ones already applied; an operation it refuses ends the session. The result is the
  operations the port received, in order, and what is left of the client's input.\<close>

function stream_loop ::
    "(port_op list \<Rightarrow> port_op \<Rightarrow> bool) \<Rightarrow> port_op list \<Rightarrow> socket \<Rightarrow> port_op list \<times> socket" where
  "stream_loop port_ok ops conn =
     (case read_frame socket_read_exact conn of
        (Inl e, conn') \<Rightarrow> (ops, conn')
      | (Inr None, conn') \<Rightarrow> (ops, conn')
      | (Inr (Some (frame_type, payload)), conn') \<Rightarrow>
          (case frame_action frame_type payload of
             Stop \<Rightarrow> (ops, conn')
           | Skip \<Rightarrow> stream_loop port_ok ops conn'
           | Do op \<Rightarrow> if port_ok ops op then stream_loop port_ok (ops @ [op]) conn'
                     else (ops, conn')))"
  by pat_completeness auto
termination
  by (relation "measure (\<lambda>(port_ok, ops, conn). length (concat conn))")
    (auto simp del: length_concat dest!: sym [of "(Inr (Some _), _)"] intro: read_frame_consumes)

declare stream_loop.simps [simp del]

subsection \<open>The reader's contract\<close>

locale exact_reader =
  fixes read :: "'s \<Rightarrow> nat \<Rightarrow> byte list \<times> 's"
    and content :: "'s \<Rightarrow> byte list"
    and ok :: "'s \<Rightarrow> bool"
  assumes read_bytes: "ok s \<Longrightarrow> fst (read s n) = take n (content s)"
    and read_rest: "ok s \<Longrightarrow> content (snd (read s n)) = drop n (content s)"
    and read_ok: "ok s \<Longrightarrow> ok (snd (read s n))"
begin

text \<open>What \<open>read_frame\<close> does depends on the bytes alone, not on how the reader holds them.\<close>

lemma read_frame_ok: "ok s \<Longrightarrow> ok (snd (read_frame read s))"
  by (auto simp: read_frame_def Let_def read_ok split: prod.split)
    (metis read_ok snd_conv)+

lemma read_frame_bytes:
  assumes "ok s"
  shows "fst (read_frame read s)
           = fst (read_frame (\<lambda>bs n. (take n bs, drop n bs)) (content s))"
    and "content (snd (read_frame read s))
           = snd (read_frame (\<lambda>bs n. (take n bs, drop n bs)) (content s))"
proof -
  obtain h s1 where r1: "read s HEADER_SIZE = (h, s1)" by fastforce
  have h: "h = take HEADER_SIZE (content s)" and c1: "content s1 = drop HEADER_SIZE (content s)"
    and ok1: "ok s1"
    using read_bytes [OF assms, of HEADER_SIZE] read_rest [OF assms, of HEADER_SIZE]
      read_ok [OF assms, of HEADER_SIZE] by (simp_all add: r1)
  define len where "len = from_bytes (take 4 (drop 1 h))"
  obtain p s2 where r2: "read s1 len = (p, s2)" by fastforce
  have p: "p = take len (content s1)" and c2: "content s2 = drop len (content s1)"
    using read_bytes [OF ok1, of len] read_rest [OF ok1, of len] by (simp_all add: r2)
  show "fst (read_frame read s)
           = fst (read_frame (\<lambda>bs n. (take n bs, drop n bs)) (content s))"
    "content (snd (read_frame read s))
           = snd (read_frame (\<lambda>bs n. (take n bs, drop n bs)) (content s))"
    using r2 p c2 unfolding read_frame_def r1 Let_def prod.case h [symmetric] c1 [symmetric]
      len_def [symmetric]
    by (simp_all add: c1)
qed

end

subsection \<open>The socket closure meets the contract\<close>

lemma recv_spec:
  assumes "socket_ok conn" "recv conn n = (chunk, conn')" "n > 0"
  shows "concat conn = chunk @ concat conn'" "length chunk \<le> n" "socket_ok conn'"
    "chunk = [] \<longleftrightarrow> conn = []"
  using assms by (cases conn; auto simp: socket_ok_def split: if_splits)+

lemma read_exact_loop_spec:
  assumes "socket_ok conn"
  shows "fst (read_exact_loop chunks conn n) = concat chunks @ take n (concat conn)
       \<and> concat (snd (read_exact_loop chunks conn n)) = drop n (concat conn)
       \<and> socket_ok (snd (read_exact_loop chunks conn n))"
  using assms
proof (induction chunks conn n rule: read_exact_loop.induct)
  case (1 chunks conn n)
  show ?case
  proof (cases "n > 0")
    case False
    then show ?thesis using 1 by (subst (1 2 3) read_exact_loop.simps) simp
  next
    case True
    obtain chunk conn' where r: "recv conn n = (chunk, conn')" by fastforce
    note sp = recv_spec [OF 1(2) r True]
    show ?thesis
    proof (cases "chunk = []")
      case True
      then show ?thesis using sp r \<open>n > 0\<close>
        by (subst (1 2 3) read_exact_loop.simps) (auto simp: socket_ok_def)
    next
      case False
      have IH: "fst (read_exact_loop (chunks @ [chunk]) conn' (n - length chunk))
                  = concat (chunks @ [chunk]) @ take (n - length chunk) (concat conn')
             \<and> concat (snd (read_exact_loop (chunks @ [chunk]) conn' (n - length chunk)))
                  = drop (n - length chunk) (concat conn')
             \<and> socket_ok (snd (read_exact_loop (chunks @ [chunk]) conn' (n - length chunk)))"
        using 1(1) [OF True r [symmetric] refl False sp(3)] .
      have "read_exact_loop chunks conn n
              = read_exact_loop (chunks @ [chunk]) conn' (n - length chunk)"
        using True r False by (subst read_exact_loop.simps) simp
      then show ?thesis using IH sp(1,2) by simp
    qed
  qed
qed

interpretation sock: exact_reader socket_read_exact concat socket_ok
  using read_exact_loop_spec [of _ "[]"] by unfold_locales (simp_all add: socket_read_exact_def)


subsection \<open>Frames as byte strings\<close>

abbreviation list_read :: "byte list \<Rightarrow> nat \<Rightarrow> byte list \<times> byte list" where
  "list_read bs n \<equiv> (take n bs, drop n bs)"

lemma unat_byte_of_nat: "unat (of_nat n :: byte) = n mod 256"
  by (simp add: unat_of_nat)

lemma unat_byte_less: "unat (b :: byte) < 256"
  using unsigned_less [of b] by simp

lemma bytes4_roundtrip: "to_bytes4 n = Inr bs \<Longrightarrow> length bs = 4 \<and> from_bytes bs = n"
proof -
  assume a: "to_bytes4 n = Inr bs"
  then have n: "n < 2 ^ 32" and bs: "bs = [of_nat (n div 2 ^ 24), of_nat (n div 2 ^ 16),
      of_nat (n div 2 ^ 8), of_nat n]"
    by (simp_all add: to_bytes4_def split: if_splits)
  define x y z where "x = n div 256" and "y = x div 256" and "z = y div 256"
  have d: "n div 2 ^ 24 = z" "n div 2 ^ 16 = y" "n div 2 ^ 8 = x"
    unfolding x_def y_def z_def by (simp_all add: div_mult2_eq [symmetric])
  have e: "n = 256 * x + n mod 256" "x = 256 * y + x mod 256" "y = 256 * z + y mod 256"
    unfolding x_def y_def z_def by simp_all
  have "z < 256" using n unfolding x_def y_def z_def by (simp add: div_mult2_eq [symmetric])
  then have "z mod 256 = z" by simp
  moreover have "from_bytes bs = ((z mod 256 * 256 + y mod 256) * 256 + x mod 256) * 256 + n mod 256"
    unfolding bs d from_bytes_def by (simp add: unat_byte_of_nat)
  moreover have "((z * 256 + y mod 256) * 256 + x mod 256) * 256 + n mod 256
      = 256 * (256 * (256 * z + y mod 256) + x mod 256) + n mod 256"
    by (simp add: mult.commute)
  ultimately have "from_bytes bs = n" by (simp only: e [symmetric])
  then show ?thesis unfolding bs by simp
qed

lemma from_bytes4_less: "length bs = 4 \<Longrightarrow> from_bytes bs < 2 ^ 32"
proof -
  assume "length bs = 4"
  then obtain a b c d where "bs = [a, b, c, d]"
    by (auto simp: numeral_eq_Suc length_Suc_conv)
  then show ?thesis
    using unat_byte_less [of a] unat_byte_less [of b] unat_byte_less [of c] unat_byte_less [of d]
    by (simp add: from_bytes_def)
qed

lemma base256: "(y::nat) < 256 \<Longrightarrow> y' < 256 \<Longrightarrow> x * 256 + y = x' * 256 + y' \<Longrightarrow> x = x' \<and> y = y'"
proof -
  assume lt: "y < 256" "y' < 256" and e: "x * 256 + y = x' * 256 + y'"
  have "(x * 256 + y) div 256 = x" "(x' * 256 + y') div 256 = x'" using lt by simp_all
  with e have "x = x'" by simp
  with e show ?thesis by simp
qed

lemma from_bytes_inj4:
  "length bs = 4 \<Longrightarrow> length cs = 4 \<Longrightarrow> from_bytes bs = from_bytes cs \<Longrightarrow> bs = cs"
proof -
  assume l: "length bs = 4" "length cs = 4" and e: "from_bytes bs = from_bytes cs"
  obtain a b c d where bs: "bs = [a, b, c, d]"
    using l(1) by (auto simp: numeral_eq_Suc length_Suc_conv)
  obtain p q r s where cs: "cs = [p, q, r, s]"
    using l(2) by (auto simp: numeral_eq_Suc length_Suc_conv)
  note lt = unat_byte_less
  have "((unat a * 256 + unat b) * 256 + unat c) * 256 + unat d
      = ((unat p * 256 + unat q) * 256 + unat r) * 256 + unat s"
    using e unfolding bs cs by (simp add: from_bytes_def)
  then have "unat a = unat p \<and> unat b = unat q \<and> unat c = unat r \<and> unat d = unat s"
    using base256 [OF lt lt] by metis
  then show ?thesis unfolding bs cs by (simp add: word_unat_eq_iff)
qed

lemma encode_frame_Inr:
  "encode_frame ft payload = Inr bs \<longleftrightarrow> 0 \<le> ft \<and> ft < 256 \<and> length payload < 2 ^ 32
     \<and> (\<exists>len. to_bytes4 (length payload) = Inr len \<and> bs = of_int ft # len @ payload)"
  by (auto simp: encode_frame_def to_bytes4_def split: sum.splits if_splits)

lemma read_frame_encoded:
  assumes "encode_frame ft payload = Inr bs" "length payload \<le> MAX_FRAME_PAYLOAD"
  shows "read_frame list_read (bs @ rest) = (Inr (Some (ft, payload)), rest)"
proof -
  obtain len where r: "0 \<le> ft" "ft < 256" and len: "to_bytes4 (length payload) = Inr len"
    and bs: "bs = of_int ft # len @ payload"
    using assms(1) by (auto simp: encode_frame_Inr)
  have l4: "length len = 4" and fb: "from_bytes len = length payload"
    using bytes4_roundtrip [OF len] by simp_all
  have u: "uint (of_int ft :: byte) = ft" using r by (simp add: uint_word_of_int)
  have h: "take HEADER_SIZE (bs @ rest) = of_int ft # len"
    and d: "drop HEADER_SIZE (bs @ rest) = payload @ rest"
    using l4 by (simp_all add: bs HEADER_SIZE_def)
  show ?thesis
    unfolding read_frame_def Let_def prod.case h d
    using assms(2) l4 fb u by (auto simp: HEADER_SIZE_def)
qed


lemma header_split:
  assumes "HEADER_SIZE \<le> length bs"
  obtains t len rest where "bs = t # len @ rest" "length len = 4"
    "take HEADER_SIZE bs = t # len" "drop HEADER_SIZE bs = rest"
proof -
  obtain t cs where bs: "bs = t # cs" using assms by (cases bs) (auto simp: HEADER_SIZE_def)
  have "cs = take 4 cs @ drop 4 cs" "length (take 4 cs) = 4"
    using assms by (simp_all add: bs HEADER_SIZE_def)
  moreover have "take HEADER_SIZE bs = t # take 4 cs" "drop HEADER_SIZE bs = drop 4 cs"
    by (simp_all add: bs HEADER_SIZE_def)
  ultimately show ?thesis using that [of t "take 4 cs" "drop 4 cs"] bs by simp
qed

lemma encode_frame_bytes:
  assumes "length len = 4" "from_bytes len = length payload"
  shows "encode_frame (uint (t :: byte)) payload = Inr (t # len @ payload)"
proof -
  have lt: "length payload < 2 ^ 32" using from_bytes4_less [OF assms(1)] assms(2) by simp
  then obtain len' where l: "to_bytes4 (length payload) = Inr len'"
    by (simp add: to_bytes4_def)
  then have "len' = len"
    using bytes4_roundtrip [OF l] assms by (intro from_bytes_inj4) simp_all
  moreover have "uint t < 2 ^ LENGTH(8)" by (rule unsigned_less)
  ultimately show ?thesis using l by (simp add: encode_frame_def)
qed

text \<open>Everything \<open>read_frame\<close> can answer, in terms of the bytes alone.\<close>

definition frame_outcome ::
    "byte list \<Rightarrow> frame_error + (int \<times> byte list) option \<Rightarrow> byte list \<Rightarrow> bool" where
  "frame_outcome bs res rest \<longleftrightarrow>
     (case res of
        Inr None \<Rightarrow> bs = [] \<and> rest = []
      | Inr (Some (ft, payload)) \<Rightarrow> length payload \<le> MAX_FRAME_PAYLOAD
          \<and> (\<exists>enc. encode_frame ft payload = Inr enc \<and> bs = enc @ rest)
      | Inl TruncatedHeader \<Rightarrow> 0 < length bs \<and> length bs < HEADER_SIZE
      | Inl OversizedLength \<Rightarrow> HEADER_SIZE \<le> length bs \<and> rest = drop HEADER_SIZE bs
          \<and> MAX_FRAME_PAYLOAD < from_bytes (take 4 (drop 1 bs))
      | Inl TruncatedPayload \<Rightarrow> HEADER_SIZE \<le> length bs
          \<and> length bs < HEADER_SIZE + from_bytes (take 4 (drop 1 bs))
          \<and> from_bytes (take 4 (drop 1 bs)) \<le> MAX_FRAME_PAYLOAD)"

lemma read_frame_list_outcome:
  "read_frame list_read bs = (res, rest) \<Longrightarrow> frame_outcome bs res rest"
proof (cases "HEADER_SIZE \<le> length bs")
  case False
  assume "read_frame list_read bs = (res, rest)"
  with False show ?thesis
    by (auto simp: read_frame_def frame_outcome_def HEADER_SIZE_def split: if_splits)
next
  case True
  assume r: "read_frame list_read bs = (res, rest)"
  obtain t len tail where bs: "bs = t # len @ tail" and l4: "length len = 4"
    and h: "take HEADER_SIZE bs = t # len" and d: "drop HEADER_SIZE bs = tail"
    using header_split [OF True] by blast
  have t4: "take 4 (drop 1 bs) = len" by (simp add: bs l4)
  show ?thesis
  proof (cases "from_bytes len > MAX_FRAME_PAYLOAD")
    case True
    then have "res = Inl OversizedLength" "rest = tail"
      using r l4 unfolding read_frame_def Let_def prod.case h d by (auto simp: HEADER_SIZE_def)
    with True show ?thesis
      unfolding frame_outcome_def using \<open>HEADER_SIZE \<le> length bs\<close> d t4 by simp
  next
    case small: False
    show ?thesis
    proof (cases "from_bytes len \<le> length tail")
      case True
      then have "res = Inr (Some (uint t, take (from_bytes len) tail))"
        "rest = drop (from_bytes len) tail"
        using r l4 small unfolding read_frame_def Let_def prod.case h d
        by (auto simp: HEADER_SIZE_def split: if_splits)
      moreover have "encode_frame (uint t) (take (from_bytes len) tail)
          = Inr (t # len @ take (from_bytes len) tail)"
        using True l4 by (intro encode_frame_bytes) simp_all
      ultimately show ?thesis unfolding frame_outcome_def using small bs by simp
    next
      case False
      then have "res = Inl TruncatedPayload"
        using r l4 small unfolding read_frame_def Let_def prod.case h d
        by (auto simp: HEADER_SIZE_def split: if_splits)
      with False small show ?thesis
        unfolding frame_outcome_def using \<open>HEADER_SIZE \<le> length bs\<close> t4 bs l4
        by (simp add: HEADER_SIZE_def)
    qed
  qed
qed

lemma read_frame_socket:
  assumes "socket_ok conn" "read_frame list_read (concat conn) = (res, rest)"
  shows "\<exists>conn'. read_frame socket_read_exact conn = (res, conn') \<and> concat conn' = rest
           \<and> socket_ok conn'"
  using sock.read_frame_bytes [OF assms(1)] sock.read_frame_ok [OF assms(1)] assms(2)
  by (metis fst_conv prod.collapse snd_conv)

lemma stream_loop_frame:
  assumes "encode_frame ft payload = Inr bs" "length payload \<le> MAX_FRAME_PAYLOAD"
    and "socket_ok conn" "concat conn = bs @ rest"
  obtains conn' where "concat conn' = rest" "socket_ok conn'"
    "stream_loop port_ok ops conn =
       (case frame_action ft payload of
          Stop \<Rightarrow> (ops, conn')
        | Skip \<Rightarrow> stream_loop port_ok ops conn'
        | Do op \<Rightarrow> if port_ok ops op then stream_loop port_ok (ops @ [op]) conn'
                  else (ops, conn'))"
proof -
  have "read_frame list_read (concat conn) = (Inr (Some (ft, payload)), rest)"
    using read_frame_encoded [OF assms(1,2)] assms(4) by simp
  from read_frame_socket [OF assms(3) this] obtain conn' where
    r: "read_frame socket_read_exact conn = (Inr (Some (ft, payload)), conn')"
    and c: "concat conn' = rest" "socket_ok conn'" by blast
  have "stream_loop port_ok ops conn =
       (case frame_action ft payload of
          Stop \<Rightarrow> (ops, conn')
        | Skip \<Rightarrow> stream_loop port_ok ops conn'
        | Do op \<Rightarrow> if port_ok ops op then stream_loop port_ok (ops @ [op]) conn'
                  else (ops, conn'))"
    using r by (subst stream_loop.simps) simp
  with that c show ?thesis by blast
qed

definition frame_ops :: "(int \<times> byte list) list \<Rightarrow> port_op list" where
  "frame_ops fs = List.maps (\<lambda>(ft, p). case frame_action ft p of Do op \<Rightarrow> [op] | _ \<Rightarrow> []) fs"

subsection \<open>Properties\<close>

text \<open>C5: a frame that was encoded is decoded to itself, however the network cuts its bytes and
  whatever follows it on the connection, and exactly its own bytes are consumed.\<close>

theorem frame_roundtrip_any_chunking:
  assumes "encode_frame ft payload = Inr bs" and "length payload \<le> MAX_FRAME_PAYLOAD"
    and "socket_ok conn" and "concat conn = bs @ rest"
  shows "\<exists>conn'. read_frame socket_read_exact conn = (Inr (Some (ft, payload)), conn')
           \<and> concat conn' = rest"
  using read_frame_socket [OF assms(3), of _ rest] read_frame_encoded [OF assms(1,2)] assms(4)
  by metis

theorem frame_roundtrip_any_chunking_witness:
  "\<exists>conn'. read_frame socket_read_exact [[1, 0], [0, 0, 2, 104], [105, 7]]
             = (Inr (Some (1, [104, 105])), conn') \<and> concat conn' = [7]"
  by (rule frame_roundtrip_any_chunking [where bs = "[1, 0, 0, 0, 2, 104, 105]"])
    (simp_all add: encode_frame_def to_bytes4_def MAX_FRAME_PAYLOAD_def socket_ok_def)

text \<open>\<open>read_frame\<close> answers correctly on every input: end of stream only on an empty stream, a frame
  only when the bytes are that frame's encoding followed by the rest, and one of the three errors
  exactly for a short header, a declared length over the limit (with nothing past the header read)
  or a short payload.\<close>

theorem read_frame_complete:
  assumes "socket_ok conn"
  shows "frame_outcome (concat conn) (fst (read_frame socket_read_exact conn))
           (concat (snd (read_frame socket_read_exact conn)))"
  unfolding sock.read_frame_bytes [OF assms] by (rule read_frame_list_outcome) simp

theorem read_frame_complete_witness:
  "frame_outcome [1, 255, 0, 0, 0, 9] (Inl OversizedLength) [9]"
proof -
  have "read_frame socket_read_exact [[1, 255], [0, 0, 0, 9]] = (Inl OversizedLength, [[9]])"
    by (simp add: read_frame_def socket_read_exact_def read_exact_loop.simps HEADER_SIZE_def
        from_bytes_def MAX_FRAME_PAYLOAD_def)
  then show ?thesis
    using read_frame_complete [of "[[1, 255], [0, 0, 0, 9]]"] by (simp add: socket_ok_def)
qed

lemma stream_loop_session:
  assumes "list_all2 (\<lambda>(ft, p) bs. encode_frame ft p = Inr bs \<and> length p \<le> MAX_FRAME_PAYLOAD) fs bss"
    and "\<forall>(ft, p) \<in> set fs. frame_action ft p \<noteq> Stop"
    and "encode_frame FRAME_CLOSE pay = Inr close" and "length pay \<le> MAX_FRAME_PAYLOAD"
    and "socket_ok conn" and "concat conn = concat bss @ close @ junk"
    and "\<And>before op. port_ok before op"
  shows "fst (stream_loop port_ok ops conn) = ops @ frame_ops fs"
  using assms(1,2,5,6)
proof (induction fs bss arbitrary: ops conn rule: list_all2_induct)
  case Nil
  then have "concat conn = close @ junk" by simp
  from stream_loop_frame [OF assms(3,4) \<open>socket_ok conn\<close> this, of port_ok ops] obtain conn' where
    "stream_loop port_ok ops conn = (ops, conn')"
    by (auto simp: frame_action_def frame_types)
  then show ?case by (simp add: frame_ops_def)
next
  case (Cons f fs bs bss)
  obtain ft p where f: "f = (ft, p)" by fastforce
  with Cons have e: "encode_frame ft p = Inr bs" "length p \<le> MAX_FRAME_PAYLOAD"
    and ns: "frame_action ft p \<noteq> Stop" by auto
  have "concat conn = bs @ (concat bss @ close @ junk)" using Cons.prems by simp
  from stream_loop_frame [OF e \<open>socket_ok conn\<close> this] obtain conn' where
    c: "concat conn' = concat bss @ close @ junk" "socket_ok conn'" and
    l: "stream_loop port_ok ops conn =
       (case frame_action ft p of
          Stop \<Rightarrow> (ops, conn')
        | Skip \<Rightarrow> stream_loop port_ok ops conn'
        | Do op \<Rightarrow> if port_ok ops op then stream_loop port_ok (ops @ [op]) conn'
                  else (ops, conn'))" by blast
  have IH: "fst (stream_loop port_ok d conn') = d @ frame_ops fs" for d
    using Cons.IH [of conn'] Cons.prems c by simp
  have ok: "port_ok ops op" for op by (rule assms(7))
  show ?case
    using ns by (cases "frame_action ft p") (simp_all add: l IH f frame_ops_def ok)
qed

text \<open>A client that sends frames and then a \<open>CLOSE\<close> frame gets exactly those frames applied to the
  serial port, each once and in order (line-control frames without a payload apply nothing), no
  matter how the bytes are chunked and what it sends after the \<open>CLOSE\<close>.\<close>

theorem stream_session_applies_frames:
  assumes "list_all2 (\<lambda>(ft, p) bs. encode_frame ft p = Inr bs \<and> length p \<le> MAX_FRAME_PAYLOAD) fs bss"
    and "\<forall>(ft, p) \<in> set fs. frame_action ft p \<noteq> Stop"
    and "encode_frame FRAME_CLOSE pay = Inr close" and "length pay \<le> MAX_FRAME_PAYLOAD"
    and "socket_ok conn" and "concat conn = concat bss @ close @ junk"
    and "\<And>before op. port_ok before op"
  shows "fst (stream_loop port_ok ops conn) = ops @ frame_ops fs"
  by (rule stream_loop_session [OF assms])

theorem stream_session_applies_frames_witness:
  "fst (stream_loop (\<lambda>_ _. True) [] [[1, 0, 0], [0, 1, 65, 2, 0, 0, 0], [0, 5, 0, 0, 0, 0]])
     = [PortWrite [65], PortBreak]"
proof -
  let ?fs = "[(1, [65]), (2, [])] :: (int \<times> byte list) list"
  have "fst (stream_loop (\<lambda>_ _. True) [] [[1, 0, 0], [0, 1, 65, 2, 0, 0, 0], [0, 5, 0, 0, 0, 0]])
      = [] @ frame_ops ?fs"
    by (rule stream_session_applies_frames
        [where bss = "[[1, 0, 0, 0, 1, 65], [2, 0, 0, 0, 0]]" and pay = "[]"
           and close = "[5, 0, 0, 0, 0]" and junk = "[]"])
      (simp_all add: encode_frame_def to_bytes4_def MAX_FRAME_PAYLOAD_def socket_ok_def
        frame_action_def frame_types)
  then show ?thesis by (simp add: frame_ops_def frame_action_def frame_types)
qed

end
