(* ===== verification/MB_Locks.thy ===== *)
theory MB_Locks
  imports MB_Prelude
begin

text \<open>
  Model of \<open>src/mbtools/registry/locks.py\<close>: the in-memory table of exclusive, kind-tagged device
  locks. The table is the \<open>dict\<close> of \<open>LockManager\<close>; the two callbacks are recorded as the list of
  events an operation fires, in order, for the components that register them (\<open>Daemon\<close>,
  \<open>PeerDiscovery\<close>, \<open>EventBus\<close>) to consume. Log lines are not modelled. The locale
  \<open>exclusive_locks\<close> is what the API servers and the daemon rely on.
\<close>

definition KIND_SERIAL :: string where "KIND_SERIAL = ''serial''"
definition KIND_RELAY :: string where "KIND_RELAY = ''relay''"
definition KIND_FLASH :: string where "KIND_FLASH = ''flash''"
definition KIND_DEBUG :: string where "KIND_DEBUG = ''debug''"

definition LOCK_KINDS :: "string list" where
  "LOCK_KINDS = [KIND_SERIAL, KIND_RELAY, KIND_FLASH, KIND_DEBUG]"

lemmas kind_defs = KIND_SERIAL_def KIND_RELAY_def KIND_FLASH_def KIND_DEBUG_def

record holder_ref =
  h_origin :: string
  h_ref :: string
  h_pid :: "int option"
  h_host :: "string option"

record lock_status =
  ls_kind :: string
  ls_holder :: holder_ref
  ls_label :: "string option"
  ls_since :: real

definition ls_pid :: "lock_status \<Rightarrow> int option" where
  "ls_pid st = h_pid (ls_holder st)"

type_synonym uid = string
type_synonym lock_table = "(uid, lock_status) dict"

datatype lock_event =
    FlashRelease uid
  | LockDisplay uid "string option" "string option" "string option" "real option"

definition show_opt_int :: "int option \<Rightarrow> string" where
  "show_opt_int x = (case x of None \<Rightarrow> ''None'' | Some i \<Rightarrow> show_int i)"

definition show_opt_str :: "string option \<Rightarrow> string" where
  "show_opt_str x = (case x of None \<Rightarrow> ''None'' | Some s \<Rightarrow> s)"

definition describe_holder :: "holder_ref \<Rightarrow> string" where
  "describe_holder holder =
     (if h_origin holder = ''local'' then ''pid '' @ show_opt_int (h_pid holder)
      else ''session '' @ h_ref holder @ '' on '' @ show_opt_str (h_host holder))"

definition format_age :: "real \<Rightarrow> string" where
  "format_age seconds0 =
     (let seconds = max 0 (py_trunc seconds0) in
      if seconds < 60 then show_int seconds @ ''s''
      else let minutes = seconds div 60 in
           if minutes < 60 then show_int minutes @ ''m''
           else show_int (minutes div 60) @ ''h'')"

definition format_lock_suffix :: "string option \<Rightarrow> real option \<Rightarrow> real \<Rightarrow> string" where
  "format_lock_suffix label since now =
     (case since of
        None \<Rightarrow> ''''
      | Some t \<Rightarrow>
          let age = format_age (now - t) in
          case label of
            Some (c # cs) \<Rightarrow> '' ('' @ (c # cs) @ '', '' @ age @ '')''
          | _ \<Rightarrow> '' ('' @ age @ '')'')"

subsection \<open>The lock manager\<close>

definition status :: "lock_table \<Rightarrow> uid \<Rightarrow> lock_status option" where
  "status m uid = dget m uid"

text \<open>\<open>_release\<close>: drop the entry, fire the flash-release callback for a flash lock, then the display
  callback.\<close>

definition release_entry :: "lock_table \<Rightarrow> uid \<Rightarrow> lock_status \<Rightarrow> lock_table \<times> lock_event list" where
  "release_entry m uid st =
     (ddel uid m,
      (if ls_kind st = KIND_FLASH then [FlashRelease uid] else [])
        @ [LockDisplay uid None None None None])"

text \<open>\<open>acquire\<close> raises \<open>LockHeldError\<close> (here \<open>Inl\<close> of the current holder) on a held lock; \<open>now\<close> is
  what the injected clock returns.\<close>

definition acquire ::
    "lock_table \<Rightarrow> real \<Rightarrow> uid \<Rightarrow> string \<Rightarrow> holder_ref \<Rightarrow> string option
       \<Rightarrow> lock_status + (lock_table \<times> lock_event list)" where
  "acquire m now uid kind holder label =
     (case dget m uid of
        Some current \<Rightarrow> Inl current
      | None \<Rightarrow>
          Inr (dset uid \<lparr>ls_kind = kind, ls_holder = holder, ls_label = label, ls_since = now\<rparr> m,
               [LockDisplay uid (Some kind) (Some (describe_holder holder)) label (Some now)]))"

definition release ::
    "lock_table \<Rightarrow> uid \<Rightarrow> holder_ref \<Rightarrow> bool \<times> lock_table \<times> lock_event list" where
  "release m uid holder =
     (case dget m uid of
        None \<Rightarrow> (False, m, [])
      | Some current \<Rightarrow>
          if ls_holder current \<noteq> holder then (False, m, [])
          else (True, release_entry m uid current))"

definition force_release ::
    "lock_table \<Rightarrow> uid \<Rightarrow> lock_status option \<times> lock_table \<times> lock_event list" where
  "force_release m uid =
     (case dget m uid of
        None \<Rightarrow> (None, m, [])
      | Some current \<Rightarrow> (Some current, release_entry m uid current))"

text \<open>The loop of \<open>sweep\<close> over the uids found dead. \<open>self._locks[uid]\<close> is always present there:
  the uids come from the table itself.\<close>

fun sweep_loop :: "lock_table \<Rightarrow> lock_event list \<Rightarrow> uid list \<Rightarrow> lock_table \<times> lock_event list" where
  "sweep_loop m ev [] = (m, ev)"
| "sweep_loop m ev (uid # uids) =
     (case dget m uid of
        None \<Rightarrow> sweep_loop m ev uids
      | Some st \<Rightarrow> let (m', ev') = release_entry m uid st in sweep_loop m' (ev @ ev') uids)"

definition sweep ::
    "lock_table \<Rightarrow> (holder_ref \<Rightarrow> bool) \<Rightarrow> uid list \<times> lock_table \<times> lock_event list" where
  "sweep m is_alive =
     (let dead_uids = map fst (filter (\<lambda>(uid, st). \<not> is_alive (ls_holder st)) m)
      in (dead_uids, sweep_loop m [] dead_uids))"

lemmas lock_ops [op_defs] = status_def acquire_def release_def force_release_def release_entry_def

subsection \<open>Sequences of operations\<close>

datatype lock_op =
    Acquire real uid string holder_ref "string option"
  | Release uid holder_ref
  | ForceRelease uid
  | Sweep "holder_ref \<Rightarrow> bool"

fun lock_step :: "lock_table \<Rightarrow> lock_op \<Rightarrow> lock_table \<times> lock_event list" where
  "lock_step m (Acquire now uid kind holder label) =
     (case acquire m now uid kind holder label of Inl _ \<Rightarrow> (m, []) | Inr r \<Rightarrow> r)"
| "lock_step m (Release uid holder) = snd (release m uid holder)"
| "lock_step m (ForceRelease uid) = snd (force_release m uid)"
| "lock_step m (Sweep is_alive) = snd (sweep m is_alive)"

fun lock_run :: "lock_table \<Rightarrow> lock_event list \<Rightarrow> lock_op list \<Rightarrow> lock_table \<times> lock_event list" where
  "lock_run m ev [] = (m, ev)"
| "lock_run m ev (op # ops) = (let (m', ev') = lock_step m op in lock_run m' (ev @ ev') ops)"

subsection \<open>The contract clients rely on\<close>

locale exclusive_locks =
  fixes holder_of :: "'m \<Rightarrow> 'u \<Rightarrow> 'h option"
    and grab :: "'m \<Rightarrow> 'u \<Rightarrow> 'h \<Rightarrow> 'm option"
    and give_back :: "'m \<Rightarrow> 'u \<Rightarrow> 'h \<Rightarrow> 'm"
  assumes grab_free: "holder_of m u = None \<Longrightarrow>
      \<exists>m'. grab m u h = Some m' \<and> holder_of m' = (holder_of m)(u \<mapsto> h)"
    and grab_held: "holder_of m u = Some h' \<Longrightarrow> grab m u h = None"
    and give_back_holder: "holder_of m u = Some h \<Longrightarrow>
      holder_of (give_back m u h) = (holder_of m)(u := None)"
    and give_back_other: "holder_of m u \<noteq> Some h \<Longrightarrow> holder_of (give_back m u h) = holder_of m"
begin

lemma grab_iff: "(\<exists>m'. grab m u h = Some m') \<longleftrightarrow> holder_of m u = None"
  using grab_free grab_held by (metis option.distinct(1) option.exhaust)

lemma grab_result: "grab m u h = Some m' \<Longrightarrow> holder_of m' = (holder_of m)(u \<mapsto> h)"
  using grab_free grab_held by (metis option.exhaust option.inject option.distinct(1))

lemma no_second_grab: "grab m u h = Some m' \<Longrightarrow> grab m' u h' = None"
  using grab_result grab_held by (metis fun_upd_same)

lemma give_back_frees_only_own:
  "holder_of (give_back m u h) v = (if v = u \<and> holder_of m u = Some h then None else holder_of m v)"
  using give_back_holder give_back_other by (metis fun_upd_apply)

lemma others_keep_lock:
  "holder_of m v = Some h' \<Longrightarrow> v \<noteq> u \<or> h' \<noteq> h \<Longrightarrow> holder_of (give_back m u h) v = Some h'"
  by (auto simp: give_back_frees_only_own)

text \<open>A client that gives back what it grabbed leaves the table as it found it.\<close>

lemma grab_give_back:
  "grab m u h = Some m' \<Longrightarrow> holder_of (give_back m' u h) = holder_of m"
  using grab_iff grab_result give_back_holder
  by (metis fun_upd_same fun_upd_triv fun_upd_upd)

fun give_back_all :: "'m \<Rightarrow> 'u list \<Rightarrow> 'h \<Rightarrow> 'm" where
  "give_back_all m [] h = m"
| "give_back_all m (u # us) h = give_back_all (give_back m u h) us h"

lemma give_back_all_holder:
  "holder_of (give_back_all m us h) v
     = (if v \<in> set us \<and> holder_of m v = Some h then None else holder_of m v)"
  by (induction us arbitrary: m) (auto simp: give_back_frees_only_own)

end

lemma status_release:
  "status (fst (snd (release m uid h))) v
     = (if v = uid \<and> map_option ls_holder (status m uid) = Some h then None else status m v)"
  by (auto simp: lock_ops split: option.splits)

interpretation lm: exclusive_locks
  "\<lambda>m u. map_option ls_holder (status m u)"
  "\<lambda>m u h. case acquire m now u kind h label of Inl _ \<Rightarrow> None | Inr r \<Rightarrow> Some (fst r)"
  "\<lambda>m u h. fst (snd (release m u h))"
  for now kind label
  by unfold_locales (auto simp: lock_ops fun_eq_iff split: option.splits)

subsection \<open>Well-formed tables\<close>

lemma release_entry_ok: "dict_ok m \<Longrightarrow> dict_ok (fst (release_entry m uid st))"
  by (simp add: release_entry_def)

lemma sweep_loop_ok: "dict_ok m \<Longrightarrow> dict_ok (fst (sweep_loop m ev uids))"
  by (induction m ev uids rule: sweep_loop.induct)
    (auto simp: release_entry_def split: option.splits)

lemma lock_step_ok [inv_intros]: "dict_ok m \<Longrightarrow> dict_ok (fst (lock_step m op))"
  by (cases op) (auto simp: acquire_def release_def force_release_def sweep_def Let_def
      release_entry_ok sweep_loop_ok split: option.splits sum.splits)

lemma lock_run_ok: "dict_ok m \<Longrightarrow> dict_ok (fst (lock_run m ev ops))"
proof (induction ops arbitrary: m ev)
  case (Cons op ops)
  then show ?case using lock_step_ok [OF Cons.prems, of op] by (cases "lock_step m op") simp
qed simp

subsection \<open>Sweeping\<close>

lemma sweep_loop_status:
  "status (fst (sweep_loop m ev uids)) v = (if v \<in> set uids then None else status m v)"
proof (induction uids arbitrary: m ev)
  case (Cons uid uids)
  show ?case
  proof (cases "dget m uid")
    case None
    then show ?thesis using Cons by (simp add: status_def)
  next
    case (Some st)
    then show ?thesis using Cons by (simp add: release_entry_def status_def)
  qed
qed simp

lemma dead_uids_iff:
  assumes "dict_ok m"
  shows "uid \<in> set (map fst (filter (\<lambda>(uid, st). \<not> is_alive (ls_holder st)) m))
           \<longleftrightarrow> (\<exists>st. status m uid = Some st \<and> \<not> is_alive (ls_holder st))"
proof
  assume "uid \<in> set (map fst (filter (\<lambda>(uid, st). \<not> is_alive (ls_holder st)) m))"
  then obtain st where "(uid, st) \<in> set m" "\<not> is_alive (ls_holder st)" by auto
  then show "\<exists>st. status m uid = Some st \<and> \<not> is_alive (ls_holder st)"
    using in_dget [OF assms] by (auto simp: status_def)
next
  assume "\<exists>st. status m uid = Some st \<and> \<not> is_alive (ls_holder st)"
  then obtain st where "(uid, st) \<in> set m" "\<not> is_alive (ls_holder st)"
    by (auto simp: status_def dest: dget_Some_in)
  then show "uid \<in> set (map fst (filter (\<lambda>(uid, st). \<not> is_alive (ls_holder st)) m))"
    by force
qed

lemma sweep_status:
  assumes "dict_ok m"
  shows "status (fst (snd (sweep m is_alive))) uid
           = (case status m uid of None \<Rightarrow> None
              | Some st \<Rightarrow> if is_alive (ls_holder st) then Some st else None)"
  using dead_uids_iff [OF assms, of uid is_alive]
  by (auto simp: sweep_def Let_def sweep_loop_status split: option.splits)


lemma distinct_dead_uids:
  "dict_ok m \<Longrightarrow> distinct (map fst (filter (\<lambda>(uid, st). \<not> is_alive (ls_holder st)) m))"
  by (auto simp: dict_ok_def intro: distinct_map_filter)

subsection \<open>What an operation may do to a lock\<close>

text \<open>The operations that can end the acquisition \<open>st\<close> of \<open>uid\<close>.\<close>

fun ends_lock :: "uid \<Rightarrow> lock_status \<Rightarrow> lock_op \<Rightarrow> bool" where
  "ends_lock uid st (Acquire now u kind holder label) = False"
| "ends_lock uid st (Release u holder) = (u = uid \<and> holder = ls_holder st)"
| "ends_lock uid st (ForceRelease u) = (u = uid)"
| "ends_lock uid st (Sweep is_alive) = (\<not> is_alive (ls_holder st))"

lemma lock_step_keeps:
  assumes "dict_ok m" "status m uid = Some st"
  shows "status (fst (lock_step m op)) uid = (if ends_lock uid st op then None else Some st)"
proof (cases op)
  case (Sweep is_alive)
  with sweep_status [OF assms(1), of is_alive uid] assms(2) show ?thesis by simp
next
  case (Release u h)
  with status_release [of m u h uid] assms(2) show ?thesis by auto
qed (use assms in \<open>auto simp: lock_ops split: option.splits sum.splits\<close>)

lemma lock_step_free:
  assumes "dict_ok m" "status m uid = None"
  shows "status (fst (lock_step m op)) uid =
     (case op of Acquire now u kind holder label \<Rightarrow>
        if u = uid then Some \<lparr>ls_kind = kind, ls_holder = holder, ls_label = label, ls_since = now\<rparr>
        else None
      | _ \<Rightarrow> None)"
proof (cases op)
  case (Sweep is_alive)
  with sweep_status [OF assms(1), of is_alive uid] assms(2) show ?thesis by simp
next
  case (Release u h)
  with status_release [of m u h uid] assms(2) show ?thesis by auto
qed (use assms in \<open>auto simp: lock_ops split: option.splits sum.splits\<close>)

subsection \<open>What an operation fires\<close>

definition flash_releases :: "uid \<Rightarrow> lock_event list \<Rightarrow> nat" where
  "flash_releases uid ev = count_list ev (FlashRelease uid)"

definition is_flash_locked :: "lock_table \<Rightarrow> uid \<Rightarrow> bool" where
  "is_flash_locked m uid \<longleftrightarrow> (\<exists>st. status m uid = Some st \<and> ls_kind st = KIND_FLASH)"

text \<open>The view a display consumer (a peer's cache, a \<open>watch\<close> client) builds from the events.\<close>

fun display_view :: "(uid \<Rightarrow> string option) \<Rightarrow> lock_event list \<Rightarrow> (uid \<Rightarrow> string option)" where
  "display_view v [] = v"
| "display_view v (FlashRelease u # ev) = display_view v ev"
| "display_view v (LockDisplay u kind display label since # ev) = display_view (v(u := kind)) ev"

definition lock_view :: "lock_table \<Rightarrow> uid \<Rightarrow> string option" where
  "lock_view m uid = map_option ls_kind (status m uid)"

lemma display_view_append: "display_view v (a @ b) = display_view (display_view v a) b"
proof (induction a arbitrary: v)
  case (Cons e a)
  then show ?case by (cases e) (auto simp: fun_upd_def)
qed simp

lemma lock_view_ddel: "lock_view (ddel u m) = (lock_view m)(u := None)"
  by (simp add: lock_view_def status_def fun_eq_iff)

lemma release_entry_view:
  "display_view (lock_view m) (snd (release_entry m uid st)) = lock_view (fst (release_entry m uid st))"
  by (simp add: release_entry_def lock_view_ddel)

lemma sweep_loop_events:
  "\<exists>ev'. snd (sweep_loop m ev uids) = ev @ ev'
       \<and> display_view (lock_view m) ev' = lock_view (fst (sweep_loop m ev uids))
       \<and> (distinct uids \<longrightarrow>
            (\<forall>u. flash_releases u ev' = (if u \<in> set uids \<and> is_flash_locked m u then 1 else 0)))"
proof (induction uids arbitrary: m ev)
  case Nil
  show ?case by (simp add: flash_releases_def)
next
  case (Cons uid uids)
  show ?case
  proof (cases "dget m uid")
    case None
    then have "\<not> is_flash_locked m uid" by (simp add: is_flash_locked_def status_def)
    with None Cons [of m ev] show ?thesis by auto
  next
    case (Some st)
    obtain m1 ev1 where r: "release_entry m uid st = (m1, ev1)" by fastforce
    have m1: "m1 = ddel uid m" using r by (simp add: release_entry_def)
    have v: "display_view (lock_view m) ev1 = lock_view m1"
      using release_entry_view [of m uid st] r by simp
    have fl: "is_flash_locked m u = (if u = uid then ls_kind st = KIND_FLASH else is_flash_locked m1 u)"
      "\<not> is_flash_locked m1 uid" for u
      using Some by (auto simp: is_flash_locked_def status_def m1)
    have c1: "flash_releases u ev1 = (if u = uid \<and> ls_kind st = KIND_FLASH then 1 else 0)" for u
      using r by (auto simp: release_entry_def flash_releases_def)
    obtain ev' where e: "snd (sweep_loop m1 (ev @ ev1) uids) = (ev @ ev1) @ ev'"
      and ve: "display_view (lock_view m1) ev' = lock_view (fst (sweep_loop m1 (ev @ ev1) uids))"
      and ce: "distinct uids \<longrightarrow>
        (\<forall>u. flash_releases u ev' = (if u \<in> set uids \<and> is_flash_locked m1 u then 1 else 0))"
      using Cons [of m1 "ev @ ev1"] by blast
    have s: "sweep_loop m ev (uid # uids) = sweep_loop m1 (ev @ ev1) uids"
      using Some r by simp
    have "display_view (lock_view m) (ev1 @ ev') = lock_view (fst (sweep_loop m ev (uid # uids)))"
      using v ve s by (simp add: display_view_append)
    moreover have "distinct (uid # uids) \<longrightarrow> (\<forall>u. flash_releases u (ev1 @ ev')
        = (if u \<in> set (uid # uids) \<and> is_flash_locked m u then 1 else 0))"
      using ce c1 fl by (auto simp: flash_releases_def)
    ultimately show ?thesis using e s by (intro exI [of _ "ev1 @ ev'"]) simp
  qed
qed

lemma lock_step_view: "display_view (lock_view m) (snd (lock_step m op)) = lock_view (fst (lock_step m op))"
proof (cases op)
  case (Sweep is_alive)
  then show ?thesis using sweep_loop_events [of m "[]"] by (auto simp: sweep_def Let_def)
qed (auto simp: acquire_def release_def force_release_def release_entry_view lock_view_def status_def
      fun_eq_iff split: option.splits)

text \<open>Every flash acquisition that a step ends fires exactly one flash release.\<close>

lemma lock_step_flash:
  assumes "dict_ok m"
  shows "flash_releases uid (snd (lock_step m op))
           = (if is_flash_locked m uid \<and> \<not> is_flash_locked (fst (lock_step m op)) uid then 1 else 0)"
proof (cases op)
  case (Sweep is_alive)
  let ?dead = "map fst (filter (\<lambda>(uid, st). \<not> is_alive (ls_holder st)) m)"
  obtain ev' where "snd (sweep_loop m [] ?dead) = ev'" and
    "\<forall>u. flash_releases u ev' = (if u \<in> set ?dead \<and> is_flash_locked m u then 1 else 0)"
    using sweep_loop_events [of m "[]" ?dead] distinct_dead_uids [OF assms] by auto
  then show ?thesis
    using sweep_loop_status [of m "[]" ?dead uid]
    by (auto simp: Sweep sweep_def Let_def is_flash_locked_def)
qed (auto simp: lock_ops flash_releases_def is_flash_locked_def split: option.splits)

text \<open>How often a sequence of operations acquired a flash lock on \<open>uid\<close>.\<close>

fun flash_acquires :: "lock_table \<Rightarrow> uid \<Rightarrow> lock_op list \<Rightarrow> nat" where
  "flash_acquires m uid [] = 0"
| "flash_acquires m uid (op # ops) =
     (case op of
        Acquire now u kind holder label \<Rightarrow>
          if u = uid \<and> kind = KIND_FLASH \<and> status m uid = None then 1 else 0
      | _ \<Rightarrow> 0) + flash_acquires (fst (lock_step m op)) uid ops"

lemma lock_step_flash_gain:
  assumes "dict_ok m"
  shows "is_flash_locked (fst (lock_step m op)) uid \<longrightarrow> is_flash_locked m uid \<or>
     (\<exists>now holder label. op = Acquire now uid KIND_FLASH holder label \<and> status m uid = None)"
proof (cases "status m uid")
  case None
  show ?thesis
    using lock_step_free [OF assms None, of op]
    by (auto simp: is_flash_locked_def None split: lock_op.splits if_splits)
next
  case (Some st)
  then show ?thesis
    using lock_step_keeps [OF assms Some, of op] by (auto simp: is_flash_locked_def)
qed


lemma lock_step_flash_balance:
  assumes "dict_ok m"
  shows "(if is_flash_locked m uid then 1 else 0) +
     (case op of Acquire now u kind holder label \<Rightarrow>
          if u = uid \<and> kind = KIND_FLASH \<and> status m uid = None then 1 else 0
      | _ \<Rightarrow> (0::nat))
     = flash_releases uid (snd (lock_step m op))
       + (if is_flash_locked (fst (lock_step m op)) uid then 1 else 0)"
proof (cases "status m uid")
  case None
  then have "\<not> is_flash_locked m uid" by (simp add: is_flash_locked_def)
  moreover have "is_flash_locked (fst (lock_step m op)) uid
      \<longleftrightarrow> (\<exists>now holder label. op = Acquire now uid KIND_FLASH holder label)"
    using lock_step_free [OF assms None, of op] by (auto simp: is_flash_locked_def split: lock_op.splits)
  ultimately show ?thesis
    using lock_step_flash [OF assms, of uid op] None by (auto split: lock_op.splits)
next
  case (Some st)
  then show ?thesis
    using lock_step_flash [OF assms, of uid op] lock_step_keeps [OF assms Some, of op]
    by (auto simp: is_flash_locked_def split: lock_op.splits)
qed

lemma flash_releases_append: "flash_releases u (a @ b) = flash_releases u a + flash_releases u b"
  by (simp add: flash_releases_def)

subsection \<open>Properties\<close>

text \<open>C1: mutual exclusion. From the moment a lock is held, no sequence of operations by anybody
  changes who holds it or with which kind, except the holder's own release, a forced release, or a
  sweep that finds the holder dead; and while it is held every further \<open>acquire\<close> is refused with the
  current holder and leaves the table untouched.\<close>

theorem lock_is_exclusive:
  assumes "dict_ok m" and "status m uid = Some st"
    and "\<forall>op \<in> set ops. \<not> ends_lock uid st op"
  shows "status (fst (lock_run m ev ops)) uid = Some st
       \<and> acquire (fst (lock_run m ev ops)) now uid kind holder label = Inl st"
proof -
  have "status (fst (lock_run m ev ops)) uid = Some st"
    using assms
  proof (induction ops arbitrary: m ev)
    case (Cons op ops)
    obtain m' ev' where st: "lock_step m op = (m', ev')" by fastforce
    have "dict_ok m'" "status m' uid = Some st"
      using lock_step_ok [OF Cons.prems(1), of op] lock_step_keeps [OF Cons.prems(1,2), of op]
        Cons.prems(3) st by simp_all
    with Cons st show ?case by simp
  qed simp
  then show ?thesis by (simp add: acquire_def status_def)
qed

definition demo_holder :: "int \<Rightarrow> holder_ref" where
  "demo_holder pid = \<lparr>h_origin = ''local'', h_ref = show_int pid, h_pid = Some pid, h_host = None\<rparr>"

theorem lock_is_exclusive_witness:
  "status (fst (lock_run
     [(''u'', \<lparr>ls_kind = KIND_FLASH, ls_holder = demo_holder 7, ls_label = None, ls_since = 1\<rparr>)] []
     [Acquire 2 ''u'' KIND_SERIAL (demo_holder 8) None, Release ''u'' (demo_holder 8),
      Sweep (\<lambda>h. h_pid h = Some 7)])) ''u''
   = Some \<lparr>ls_kind = KIND_FLASH, ls_holder = demo_holder 7, ls_label = None, ls_since = 1\<rparr>"
  by (rule lock_is_exclusive [THEN conjunct1])
    (simp_all add: dict_ok_def status_def dget_def demo_holder_def)

text \<open>\<open>acquire\<close> succeeds exactly when the device is unlocked, then records kind, holder, label and
  the clock's time for that device alone and announces it; \<open>release\<close> takes effect exactly for the
  full holder identity that acquired, and is a silent no-op for everybody else.\<close>

theorem acquire_release_contract:
  "(case acquire m now uid kind holder label of
      Inl current \<Rightarrow> status m uid = Some current
    | Inr (m', ev) \<Rightarrow> status m uid = None
        \<and> status m' = (status m)(uid \<mapsto>
            \<lparr>ls_kind = kind, ls_holder = holder, ls_label = label, ls_since = now\<rparr>)
        \<and> ev = [LockDisplay uid (Some kind) (Some (describe_holder holder)) label (Some now)])
   \<and> (case release m uid holder of (done_it, m', ev) \<Rightarrow>
        done_it = (map_option ls_holder (status m uid) = Some holder)
        \<and> status m' = (if done_it then (status m)(uid := None) else status m)
        \<and> (ev = [] \<longleftrightarrow> \<not> done_it))"
  by (auto simp: lock_ops fun_eq_iff split: option.splits sum.splits)

text \<open>A sweep reports exactly the devices whose holder is dead, frees exactly those, and keeps every
  live holder's lock.\<close>

theorem sweep_frees_exactly_the_dead:
  assumes "dict_ok m"
  shows "set (fst (sweep m is_alive)) = {uid. \<exists>st. status m uid = Some st \<and> \<not> is_alive (ls_holder st)}
       \<and> (\<forall>uid. status (fst (snd (sweep m is_alive))) uid
             = (if uid \<in> set (fst (sweep m is_alive)) then None else status m uid))"
  using dead_uids_iff [OF assms, of _ is_alive] by (auto simp: sweep_def Let_def sweep_loop_status)

theorem sweep_frees_exactly_the_dead_witness:
  "fst (sweep [(''a'', \<lparr>ls_kind = KIND_FLASH, ls_holder = demo_holder 7, ls_label = None, ls_since = 1\<rparr>),
               (''b'', \<lparr>ls_kind = KIND_SERIAL, ls_holder = demo_holder 8, ls_label = None, ls_since = 2\<rparr>)]
          (\<lambda>h. h_pid h = Some 8)) = [''a''] \<and>
   status (fst (snd (sweep
     [(''a'', \<lparr>ls_kind = KIND_FLASH, ls_holder = demo_holder 7, ls_label = None, ls_since = 1\<rparr>),
      (''b'', \<lparr>ls_kind = KIND_SERIAL, ls_holder = demo_holder 8, ls_label = None, ls_since = 2\<rparr>)]
          (\<lambda>h. h_pid h = Some 8)))) ''a'' = None"
  (is "fst ?s = _ \<and> _")
proof -
  have d: "fst ?s = [''a'']" by (simp add: sweep_def demo_holder_def)
  show ?thesis
    using sweep_frees_exactly_the_dead [of "[(''a'', \<lparr>ls_kind = KIND_FLASH,
        ls_holder = demo_holder 7, ls_label = None, ls_since = 1\<rparr>),
        (''b'', \<lparr>ls_kind = KIND_SERIAL, ls_holder = demo_holder 8, ls_label = None, ls_since = 2\<rparr>)]"
        "\<lambda>h. h_pid h = Some 8"] d
    by (simp add: dict_ok_def)
qed

text \<open>The flash-release callback, which triggers the re-probe after a flash, fires exactly once for
  every flash lock that ends, whichever way it ends: over any sequence of operations the releases
  fired for a device plus one if it is still flash-locked equal the flash locks granted plus one if
  it started flash-locked.\<close>

theorem flash_release_fires_exactly_once:
  assumes "dict_ok m"
  shows "flash_releases uid (snd (lock_run m ev ops))
           + (if is_flash_locked (fst (lock_run m ev ops)) uid then 1 else 0)
       = flash_releases uid ev + flash_acquires m uid ops + (if is_flash_locked m uid then 1 else 0)"
  using assms
proof (induction ops arbitrary: m ev)
  case (Cons op ops)
  obtain m' ev' where st: "lock_step m op = (m', ev')" by fastforce
  have ok: "dict_ok m'" using lock_step_ok [OF Cons.prems, of op] st by simp
  have "flash_releases uid (snd (lock_run m' (ev @ ev') ops))
          + (if is_flash_locked (fst (lock_run m' (ev @ ev') ops)) uid then 1 else 0)
      = flash_releases uid (ev @ ev') + flash_acquires m' uid ops
          + (if is_flash_locked m' uid then 1 else 0)"
    by (rule Cons.IH [OF ok])
  then show ?case
    using lock_step_flash_balance [OF Cons.prems, of uid op] st by (simp add: flash_releases_append)
qed simp

theorem flash_release_fires_exactly_once_witness:
  "flash_releases ''u'' (snd (lock_run [] []
     [Acquire 1 ''u'' KIND_FLASH (demo_holder 7) None, ForceRelease ''u'',
      Acquire 2 ''u'' KIND_SERIAL (demo_holder 7) None, Release ''u'' (demo_holder 7)])) = 1"
proof -
  let ?ops = "[Acquire 1 ''u'' KIND_FLASH (demo_holder 7) None, ForceRelease ''u'',
      Acquire 2 ''u'' KIND_SERIAL (demo_holder 7) None, Release ''u'' (demo_holder 7)]"
  have "flash_acquires [] ''u'' ?ops = 1" "\<not> is_flash_locked (fst (lock_run [] [] ?ops)) ''u''"
    by (simp_all add: lock_ops is_flash_locked_def dset_def ddel_def dget_def kind_defs)
  moreover have "\<not> is_flash_locked [] ''u''" "flash_releases ''u'' [] = 0"
    by (simp_all add: is_flash_locked_def status_def flash_releases_def)
  ultimately show ?thesis
    using flash_release_fires_exactly_once [of "[]" "''u''" "[]" ?ops]
    by (simp del: lock_run.simps flash_acquires.simps)
qed

text \<open>C8: the display callbacks are a faithful change feed: a consumer that starts from the current
  locks and applies every display event in order always shows exactly the kinds of the locks that
  are held (what \<open>watch\<close> clients and peers rely on).\<close>

theorem lock_display_feed_is_faithful:
  "display_view v0 ev = lock_view m
     \<Longrightarrow> display_view v0 (snd (lock_run m ev ops)) = lock_view (fst (lock_run m ev ops))"
proof (induction ops arbitrary: m ev)
  case (Cons op ops)
  obtain m' ev' where st: "lock_step m op = (m', ev')" by fastforce
  have "display_view v0 (ev @ ev') = lock_view m'"
    using lock_step_view [of m op] Cons.prems st by (simp add: display_view_append)
  from Cons.IH [OF this] st show ?case by simp
qed simp

theorem lock_display_feed_is_faithful_witness:
  "display_view (\<lambda>_. None) (snd (lock_run [] []
     [Acquire 1 ''u'' KIND_RELAY (demo_holder 7) None])) ''u'' = Some ''relay''"
  using lock_display_feed_is_faithful [of "\<lambda>_. None" "[]" "[]"
      "[Acquire 1 ''u'' KIND_RELAY (demo_holder 7) None]"]
  by (simp add: lock_view_def lock_ops dset_def dget_def kind_defs fun_eq_iff)

end
