(* ===== verification/MB_Identity.thy ===== *)
theory MB_Identity
  imports MB_Naming
begin

text \<open>
  Model of \<open>src/mbtools/registry/identity.py\<close>: the announcement parser of both dialects, the probe
  loop that listens for an announcement, the short form of a DAPLink uid, the relay test, and the
  chip-identity read over SWD. What the serial port or the debug probe delivers is an argument:
  the lines of the two listening windows of a probe, and the words the two attach attempts read.
\<close>

record probe_result =
  pr_role :: string
  pr_common_name :: string
  pr_device_name :: string
  pr_serial :: string
  pr_raw :: string

definition DAPLINK_VID_PID :: "int \<times> int" where
  "DAPLINK_VID_PID = (0x0D28, 0x0204)"

definition is_micro_bit_port :: "int option \<Rightarrow> int option \<Rightarrow> bool" where
  "is_micro_bit_port vid pid \<longleftrightarrow> (vid, pid) = (Some (fst DAPLINK_VID_PID), Some (snd DAPLINK_VID_PID))"

definition is_relay :: "string option \<Rightarrow> bool" where
  "is_relay role = (case role of
      None \<Rightarrow> False
    | Some r \<Rightarrow> r \<noteq> [] \<and> (contains_str ''RELAY'' (str_upper r) \<or> contains_str ''BRIDGE'' (str_upper r)))"

definition short_uid :: "string \<Rightarrow> string" where
  "short_uid uid = (if length uid \<ge> 32 then take 8 (drop 16 uid) else drop (length uid - 8) uid)"

text \<open>\<open>str.split()\<close>: the maximal runs of non-blank characters.\<close>

function split_ws :: "string \<Rightarrow> string list" where
  "split_ws s =
     (case dropWhile is_space_char s of
        [] \<Rightarrow> []
      | c # cs \<Rightarrow> takeWhile (\<lambda>x. \<not> is_space_char x) (c # cs)
                   # split_ws (dropWhile (\<lambda>x. \<not> is_space_char x) (c # cs)))"
  by pat_completeness auto
termination
proof (relation "measure length", simp)
  fix s c cs
  assume a: "dropWhile is_space_char s = c # cs"
  then have "\<not> is_space_char c"
    using hd_dropWhile [of is_space_char s] by simp
  then have "length (dropWhile (\<lambda>x. \<not> is_space_char x) (c # cs)) \<le> length cs"
    by (simp add: length_dropWhile_le)
  also have "length cs < length s"
    using a length_dropWhile_le [of is_space_char s] by simp
  finally show "(dropWhile (\<lambda>x. \<not> is_space_char x) (c # cs), s) \<in> measure length" by simp
qed

declare split_ws.simps [simp del]

definition parse_announcement :: "string \<Rightarrow> (string \<times> string \<times> string \<times> string) option" where
  "parse_announcement text =
     (if starts_with ''DEVICE:'' text then
        (let parts = split_on (CHR '':'') text in
         if length parts \<ge> 5
         then Some (parts ! 1, parts ! 2, parts ! 3, join_with (CHR '':'') (drop 4 parts))
         else None)
      else if starts_with ''device '' text then
        (let parts = split_ws text in
         if length parts \<ge> 5 then Some (parts ! 1, parts ! 2, parts ! 3, parts ! 4) else None)
      else None)"

text \<open>One listening window: the lines \<open>readline\<close> returns before the deadline (an empty one for a
  read that timed out). The result is the first announcement that parses, or the last malformed
  text seen so far.\<close>

fun probe_window :: "string option \<Rightarrow> string list \<Rightarrow> probe_result + string option" where
  "probe_window malformed [] = Inr malformed"
| "probe_window malformed (raw # rest) =
     (let text = py_strip raw in
      if raw = [] then probe_window malformed rest
      else if text = [] then probe_window malformed rest
      else case parse_announcement text of
             Some (role, common_name, device_name, serial_no) \<Rightarrow>
               Inl \<lparr>pr_role = role, pr_common_name = common_name, pr_device_name = device_name,
                    pr_serial = serial_no, pr_raw = text\<rparr>
           | None \<Rightarrow> probe_window (Some text) rest)"

text \<open>What the port does during a probe: it does not open, it fails while being read, or it delivers
  the lines of the two windows (\<open>HELLO\<close> is sent once per window).\<close>

datatype port_session = OpenFails | ReadFails | Windows "string list" "string list"

definition probe :: "port_session \<Rightarrow> probe_result option" where
  "probe session =
     (case session of
        OpenFails \<Rightarrow> None
      | ReadFails \<Rightarrow> None
      | Windows w1 w2 \<Rightarrow>
          (case probe_window None w1 of
             Inl r \<Rightarrow> Some r
           | Inr malformed1 \<Rightarrow>
               (case probe_window malformed1 w2 of
                  Inl r \<Rightarrow> Some r
                | Inr None \<Rightarrow> None
                | Inr (Some t) \<Rightarrow> Some \<lparr>pr_role = '''', pr_common_name = '''', pr_device_name = '''',
                                         pr_serial = '''', pr_raw = t\<rparr>)))"

text \<open>\<open>_read_device_id_inproc\<close>: attach with the target given, then with auto-detection; \<open>attach\<close> is
  what a session opened that way reads at \<open>FICR.DEVICEID[1]\<close>, \<open>None\<close> when it raises.\<close>

definition read_device_id_inproc :: "(string option \<Rightarrow> int option) \<Rightarrow> string \<Rightarrow> int option" where
  "read_device_id_inproc attach target_mcu =
     (case attach (Some target_mcu) of Some w \<Rightarrow> Some w | None \<Rightarrow> attach None)"

definition read_chip_identity :: "int option \<Rightarrow> (string \<times> int) option" where
  "read_chip_identity device_id = (case device_id of None \<Rightarrow> None | Some d \<Rightarrow> Some (friendly_name d, d))"

subsection \<open>Parsing what a board prints\<close>

lemma split_ws_word:
  assumes "w \<noteq> []" "\<forall>c\<in>set w. \<not> is_space_char c"
  shows "split_ws (w @ CHR '' '' # s) = w # split_ws (CHR '' '' # s)" and "split_ws w = [w]"
proof -
  have sp: "is_space_char (CHR '' '')" by (simp add: is_space_char_def)
  obtain c cs where w: "w = c # cs" using assms(1) by (cases w) auto
  have d: "dropWhile is_space_char (w @ t) = w @ t" for t using assms(2) by (simp add: w)
  have tw: "takeWhile (\<lambda>x. \<not> is_space_char x) (w @ CHR '' '' # s) = w"
    "dropWhile (\<lambda>x. \<not> is_space_char x) (w @ CHR '' '' # s) = CHR '' '' # s"
    using assms(2) sp by (simp_all add: takeWhile_append dropWhile_append)
  show "split_ws (w @ CHR '' '' # s) = w # split_ws (CHR '' '' # s)"
    using d [of "CHR '' '' # s"] tw by (subst split_ws.simps) (simp add: w)
  have "takeWhile (\<lambda>x. \<not> is_space_char x) w = w" "dropWhile (\<lambda>x. \<not> is_space_char x) w = []"
    using assms(2) by (simp_all add: takeWhile_eq_all_conv dropWhile_eq_Nil_conv)
  then show "split_ws w = [w]"
    using d [of "[]"] split_ws.simps [of "[]"] by (subst split_ws.simps) (simp add: w)
qed

lemma split_ws_blank: "split_ws (CHR '' '' # s) = split_ws s"
  by (subst (1 2) split_ws.simps) (simp add: is_space_char_def)

definition plain_word :: "string \<Rightarrow> bool" where
  "plain_word w \<longleftrightarrow> w \<noteq> [] \<and> (\<forall>c\<in>set w. \<not> is_space_char c)"

lemma split_ws_plain:
  "plain_word w \<Longrightarrow> split_ws (w @ CHR '' '' # s) = w # split_ws s"
  "plain_word w \<Longrightarrow> split_ws w = [w]"
  using split_ws_word by (simp_all add: plain_word_def split_ws_blank)

text \<open>The text a board prints in each dialect.\<close>

definition announce_colon :: "string \<Rightarrow> string \<Rightarrow> string \<Rightarrow> string \<Rightarrow> string" where
  "announce_colon role common name serial =
     join_with (CHR '':'') [''DEVICE'', role, common, name, serial]"

definition announce_words :: "string \<Rightarrow> string \<Rightarrow> string \<Rightarrow> string \<Rightarrow> string" where
  "announce_words role common name serial =
     join_with (CHR '' '') [''device'', role, common, name, serial]"

lemma parse_announce_colon:
  assumes "CHR '':'' \<notin> set role" "CHR '':'' \<notin> set common" "CHR '':'' \<notin> set name"
  shows "parse_announcement (announce_colon role common name serial) = Some (role, common, name, serial)"
proof -
  have "split_on (CHR '':'') (announce_colon role common name serial)
          = ''DEVICE'' # role # common # name # split_on (CHR '':'') serial"
    using assms split_on_append [of "CHR '':''" "''DEVICE''"] by (simp add: announce_colon_def split_on_append)
  moreover have "starts_with ''DEVICE:'' (announce_colon role common name serial)"
    by (simp add: announce_colon_def starts_with_def)
  ultimately show ?thesis
    using join_split_on [of "CHR '':''" serial]
    by (cases "split_on (CHR '':'') serial") (simp_all add: parse_announcement_def Let_def)
qed

lemma parse_announce_words:
  assumes "plain_word role" "plain_word common" "plain_word name" "plain_word serial"
  shows "parse_announcement (announce_words role common name serial) = Some (role, common, name, serial)"
proof -
  have dw: "plain_word ''device''" by (simp add: plain_word_def is_space_char_def)
  have "split_ws (announce_words role common name serial) = [''device'', role, common, name, serial]"
    using assms split_ws_plain(1) [OF dw] by (simp add: announce_words_def split_ws_plain)
  moreover have "starts_with ''device '' (announce_words role common name serial)"
    "\<not> starts_with ''DEVICE:'' (announce_words role common name serial)"
    by (simp_all add: announce_words_def starts_with_def)
  ultimately show ?thesis by (simp add: parse_announcement_def)
qed

subsection \<open>Listening\<close>

text \<open>The texts of a window the probe looks at, and those it can parse.\<close>

definition heard :: "string list \<Rightarrow> string list" where
  "heard w = filter (\<lambda>t. t \<noteq> []) (map py_strip w)"

definition parses :: "string \<Rightarrow> bool" where
  "parses t \<longleftrightarrow> parse_announcement t \<noteq> None"

lemma py_strip_Nil: "py_strip [] = []"
  by (simp add: strip_if_def)

lemma probe_window_Inl:
  "probe_window m w = Inl r \<Longrightarrow> find parses (heard w) = Some (pr_raw r)
     \<and> parse_announcement (pr_raw r) = Some (pr_role r, pr_common_name r, pr_device_name r, pr_serial r)"
  by (induction m w rule: probe_window.induct)
    (auto simp: heard_def parses_def py_strip_Nil Let_def split: if_splits option.splits prod.splits)

lemma probe_window_Inr:
  "probe_window m w = Inr t \<Longrightarrow> find parses (heard w) = None
     \<and> t = (if heard w = [] then m else Some (last (heard w)))"
  by (induction m w rule: probe_window.induct)
    (auto simp: heard_def parses_def py_strip_Nil Let_def split: if_splits option.splits prod.splits)

lemma find_append: "find p (a @ b) = (case find p a of Some x \<Rightarrow> Some x | None \<Rightarrow> find p b)"
  by (induction a) auto

subsection \<open>Properties\<close>

text \<open>An announcement a board prints is parsed back to its fields in both dialects; in the colon
  dialect the serial field may itself contain colons.\<close>

theorem announcement_roundtrip:
  assumes "CHR '':'' \<notin> set role" "CHR '':'' \<notin> set common" "CHR '':'' \<notin> set name"
    and "plain_word role'" "plain_word common'" "plain_word name'" "plain_word serial'"
  shows "parse_announcement (announce_colon role common name serial) = Some (role, common, name, serial)
       \<and> parse_announcement (announce_words role' common' name' serial')
           = Some (role', common', name', serial')"
  using parse_announce_colon [OF assms(1-3)] parse_announce_words [OF assms(4-7)] by simp

theorem announcement_roundtrip_witness:
  "parse_announcement ''DEVICE:NEZHA2:robot:tovez:12:34'' = Some (''NEZHA2'', ''robot'', ''tovez'', ''12:34'')
   \<and> parse_announcement ''device NEZHA2 robot tovez 7'' = Some (''NEZHA2'', ''robot'', ''tovez'', ''7'')"
proof -
  have "parse_announcement (announce_colon ''NEZHA2'' ''robot'' ''tovez'' ''12:34'')
          = Some (''NEZHA2'', ''robot'', ''tovez'', ''12:34'')
      \<and> parse_announcement (announce_words ''NEZHA2'' ''robot'' ''tovez'' ''7'')
          = Some (''NEZHA2'', ''robot'', ''tovez'', ''7'')"
    by (rule announcement_roundtrip) (simp_all add: plain_word_def is_space_char_def)
  then show ?thesis by (simp add: announce_colon_def announce_words_def)
qed

text \<open>Over the two listening windows a probe reports the first line that is an announcement,
  field by field, whatever noise comes before it; only if no line parses does it report blank fields
  with the last line heard; and \<open>None\<close> exactly when nothing but blank lines arrived.\<close>

theorem probe_reports_first_announcement:
  "probe (Windows w1 w2) =
     (case find parses (heard w1 @ heard w2) of
        Some t \<Rightarrow> (case parse_announcement t of
            Some (role, common_name, device_name, serial) \<Rightarrow>
              Some \<lparr>pr_role = role, pr_common_name = common_name, pr_device_name = device_name,
                    pr_serial = serial, pr_raw = t\<rparr>
          | None \<Rightarrow> None)
      | None \<Rightarrow> if heard w1 @ heard w2 = [] then None
                else Some \<lparr>pr_role = '''', pr_common_name = '''', pr_device_name = '''', pr_serial = '''',
                           pr_raw = last (heard w1 @ heard w2)\<rparr>)"
proof (cases "probe_window None w1")
  case (Inl r)
  from probe_window_Inl [OF this] Inl show ?thesis by (simp add: probe_def find_append)
next
  case (Inr m)
  note f1 = probe_window_Inr [OF this]
  show ?thesis
  proof (cases "probe_window m w2")
    case (Inl r)
    from probe_window_Inl [OF this] Inl Inr f1 show ?thesis by (simp add: probe_def find_append)
  next
    case (Inr t)
    from probe_window_Inr [OF this] Inr \<open>probe_window None w1 = Inr m\<close> f1 show ?thesis
      by (auto simp: probe_def find_append)
  qed
qed

end
