(* ===== verification/MB_Device.thy ===== *)
theory MB_Device
  imports MB_Identity
begin

text \<open>
  The row types of the registry database (the dataclasses of \<open>src/mbtools/registry/store.py\<close>) with
  their state constants, and the predicates of \<open>src/mbtools/registry/virtual.py\<close> that tell a
  registered virtual board from hardware.
\<close>

definition STATE_ATTACHED_UNPROBED :: string where "STATE_ATTACHED_UNPROBED = ''attached_unprobed''"
definition STATE_CONNECTED :: string where "STATE_CONNECTED = ''connected''"
definition STATE_ATTACHED_NO_ANNOUNCE :: string where
  "STATE_ATTACHED_NO_ANNOUNCE = ''attached_no_announce''"
definition STATE_CONNECTED_NO_FIRMWARE :: string where
  "STATE_CONNECTED_NO_FIRMWARE = ''connected_no_firmware''"
definition STATE_DISCONNECTED :: string where "STATE_DISCONNECTED = ''disconnected''"

lemmas state_consts = STATE_ATTACHED_UNPROBED_def STATE_CONNECTED_def STATE_ATTACHED_NO_ANNOUNCE_def
  STATE_CONNECTED_NO_FIRMWARE_def STATE_DISCONNECTED_def

definition ALL_STATES :: "string list" where
  "ALL_STATES = [STATE_ATTACHED_UNPROBED, STATE_CONNECTED, STATE_ATTACHED_NO_ANNOUNCE,
                 STATE_CONNECTED_NO_FIRMWARE, STATE_DISCONNECTED]"

lemma distinct_ALL_STATES: "distinct ALL_STATES"
  by (simp add: ALL_STATES_def state_consts)

lemma states_distinct [simp]:
  "STATE_ATTACHED_UNPROBED \<noteq> STATE_DISCONNECTED" "STATE_CONNECTED \<noteq> STATE_DISCONNECTED"
  "STATE_ATTACHED_NO_ANNOUNCE \<noteq> STATE_DISCONNECTED" "STATE_CONNECTED_NO_FIRMWARE \<noteq> STATE_DISCONNECTED"
  "STATE_ATTACHED_NO_ANNOUNCE \<noteq> STATE_CONNECTED" "STATE_CONNECTED_NO_FIRMWARE \<noteq> STATE_CONNECTED"
  "STATE_CONNECTED_NO_FIRMWARE \<noteq> STATE_ATTACHED_NO_ANNOUNCE"
  "STATE_ATTACHED_UNPROBED \<noteq> STATE_CONNECTED" "STATE_ATTACHED_UNPROBED \<noteq> STATE_ATTACHED_NO_ANNOUNCE"
  "STATE_ATTACHED_UNPROBED \<noteq> STATE_CONNECTED_NO_FIRMWARE"
  using distinct_ALL_STATES by (auto simp: ALL_STATES_def)

lemmas states_distinct_sym [simp] = states_distinct [THEN not_sym]

lemma states_known [simp]:
  "STATE_ATTACHED_UNPROBED \<in> set ALL_STATES" "STATE_CONNECTED \<in> set ALL_STATES"
  "STATE_ATTACHED_NO_ANNOUNCE \<in> set ALL_STATES" "STATE_CONNECTED_NO_FIRMWARE \<in> set ALL_STATES"
  "STATE_DISCONNECTED \<in> set ALL_STATES"
  by (simp_all add: ALL_STATES_def)

definition ERROR_NOTE_NO_ANNOUNCEMENT :: string where
  "ERROR_NOTE_NO_ANNOUNCEMENT = ''no announcement received during probe''"
definition ERROR_NOTE_KNOWN_BLANK :: string where
  "ERROR_NOTE_KNOWN_BLANK = ''board confirmed blank (no firmware) after re-probe''"

definition SOURCE_DERIVED :: string where "SOURCE_DERIVED = ''derived''"
definition SOURCE_REGISTRY :: string where "SOURCE_REGISTRY = ''registry''"

lemma sources_distinct [simp]: "SOURCE_REGISTRY \<noteq> SOURCE_DERIVED" "SOURCE_DERIVED \<noteq> SOURCE_REGISTRY"
  by (simp_all add: SOURCE_DERIVED_def SOURCE_REGISTRY_def)

record device =
  dv_uid :: string
  dv_short_uid :: string
  dv_port :: "string option"
  dv_vid_pid :: "string option"
  dv_role :: "string option"
  dv_common_name :: "string option"
  dv_device_name :: "string option"
  dv_serial_payload :: "string option"
  dv_raw_announcement :: "string option"
  dv_state :: string
  dv_error_note :: "string option"
  dv_host :: "string option"
  dv_remote_lock_kind :: "string option"
  dv_remote_lock_display :: "string option"
  dv_chip_identity_name :: "string option"
  dv_chip_identity_serial :: "int option"
  dv_flash_count :: int
  dv_first_seen :: real
  dv_last_seen :: real
  dv_last_probe :: real

record peer =
  pe_host :: string
  pe_endpoint :: string
  pe_last_seen :: real
  pe_reachable :: bool

record name_entry =
  en_name :: string
  en_channel :: int
  en_group :: int
  en_source :: string
  en_updated :: real
  en_conflict :: "string list"
  en_channel_conflict :: "string list"

text \<open>One lower-case hexadecimal digit, and \<open>f"{n:04x}"\<close>: at least four digits.\<close>

definition hex_digit :: "nat \<Rightarrow> char" where
  "hex_digit d = (if d < 10 then char_of (48 + d) else char_of (87 + d))"

fun show_hex :: "nat \<Rightarrow> string" where
  "show_hex n = (if n < 16 then [hex_digit n] else show_hex (n div 16) @ [hex_digit (n mod 16)])"

declare show_hex.simps [simp del]

definition hex4 :: "nat \<Rightarrow> string" where
  "hex4 n = (let h = show_hex n in replicate (4 - length h) (CHR ''0'') @ h)"

definition format_vid_pid :: "nat \<Rightarrow> nat \<Rightarrow> string" where
  "format_vid_pid vid pid = hex4 vid @ '':'' @ hex4 pid"

subsection \<open>Virtual boards\<close>

definition VIRTUAL_VID_PID :: string where "VIRTUAL_VID_PID = ''virtual''"
definition VIRTUAL_PORT_PREFIX :: string where "VIRTUAL_PORT_PREFIX = ''virtual:''"
definition VIRTUAL_UID_PREFIX :: string where "VIRTUAL_UID_PREFIX = ''sim-''"

definition is_virtual :: "device \<Rightarrow> bool" where
  "is_virtual d \<longleftrightarrow> dv_host d = None \<and> dv_vid_pid d = Some VIRTUAL_VID_PID
     \<and> (case dv_port d of None \<Rightarrow> False | Some p \<Rightarrow> starts_with VIRTUAL_PORT_PREFIX p)"

definition is_virtual_uid :: "string \<Rightarrow> bool" where
  "is_virtual_uid uid \<longleftrightarrow> starts_with VIRTUAL_UID_PREFIX uid"

lemma length_show_hex: "show_hex n \<noteq> []"
  by (subst show_hex.simps) simp

lemma length_hex4: "4 \<le> length (hex4 n)"
  by (simp add: hex4_def Let_def)

text \<open>A USB vendor/product pair never looks like a virtual board's.\<close>

lemma format_vid_pid_not_virtual: "format_vid_pid vid pid \<noteq> VIRTUAL_VID_PID"
proof
  assume "format_vid_pid vid pid = VIRTUAL_VID_PID"
  then have "length (hex4 vid) + 1 + length (hex4 pid) = 7"
    by (auto simp: format_vid_pid_def VIRTUAL_VID_PID_def dest: arg_cong [where f = length])
  then show False using length_hex4 [of vid] length_hex4 [of pid] by linarith
qed

end
