(* ===== verification/MB_Store.thy ===== *)
theory MB_Store
  imports MB_Device
begin

text \<open>
  Model of the class \<open>Store\<close> of \<open>src/mbtools/registry/store.py\<close>, the only module that touches the
  SQLite file: its device and peer tables (the name registry, the third table, is in
  \<open>MB_NameRegistry\<close>). A table is the list of its rows in row-id order. Every public method holds the
  store's lock for its whole body, so each is one atomic transition; the clock \<open>self._now()\<close> is the
  argument \<open>now\<close>. A method that writes returns the new store and the record it re-reads; the
  \<open>assert record is not None\<close> after a write is the branch \<open>AssertionError\<close>, which is proved never to
  be taken. \<open>exec_op\<close> runs one mutating call; histories of calls are lists of operations.
\<close>

record store =
  st_devices :: "device list"
  st_peers :: "peer list"
  st_names :: "name_entry list"

definition empty_store :: store where
  "empty_store = \<lparr>st_devices = [], st_peers = [], st_names = []\<rparr>"

subsection \<open>Reads\<close>

definition get :: "store \<Rightarrow> string \<Rightarrow> device option" where
  "get s uid = row_get dv_uid (st_devices s) uid"

definition get_peer :: "store \<Rightarrow> string \<Rightarrow> peer option" where
  "get_peer s host = row_get pe_host (st_peers s) host"

definition list_devices :: "store \<Rightarrow> device list" where
  "list_devices s = st_devices s"

definition list_peers :: "store \<Rightarrow> peer list" where
  "list_peers s = st_peers s"

definition snapshot_local_devices :: "store \<Rightarrow> device list" where
  "snapshot_local_devices s =
     filter (\<lambda>r. \<not> is_virtual r)
       (filter (\<lambda>r. dv_host r = None \<and> dv_state r \<noteq> STATE_DISCONNECTED) (st_devices s))"

definition needs_probe :: "store \<Rightarrow> string \<Rightarrow> bool result" where
  "needs_probe s uid =
     (case get s uid of None \<Rightarrow> Inl KeyError | Some r \<Rightarrow> Inr (dv_last_probe r = 0))"

text \<open>\<open>column = ? COLLATE NOCASE\<close>; a \<open>NULL\<close> column matches nothing.\<close>

definition nocase_eq :: "string option \<Rightarrow> string \<Rightarrow> bool" where
  "nocase_eq col v = (case col of None \<Rightarrow> False | Some c \<Rightarrow> str_lower c = str_lower v)"

definition host_key :: "string option \<Rightarrow> string option" where
  "host_key h = map_option str_lower h"

text \<open>The loop that keeps the first spelling of each host.\<close>

fun unique_hosts_loop :: "string option list \<Rightarrow> string option list \<Rightarrow> string option list \<Rightarrow> string option list"
where
  "unique_hosts_loop [] seen acc = acc"
| "unique_hosts_loop (h # hs) seen acc =
     (if host_key h \<in> set seen then unique_hosts_loop hs seen acc
      else unique_hosts_loop hs (host_key h # seen) (acc @ [h]))"

definition find_device :: "store \<Rightarrow> string \<Rightarrow> device option result" where
  "find_device s token =
     (case rpartition (CHR ''@'') token of
        Some (name, host) \<Rightarrow>
          Inr (find (\<lambda>d. nocase_eq (dv_device_name d) name \<and> nocase_eq (dv_host d) host) (st_devices s))
      | None \<Rightarrow>
          (case find (\<lambda>d. dv_uid d = token) (st_devices s) of
             Some d \<Rightarrow> Inr (Some d)
           | None \<Rightarrow>
          (case find (\<lambda>d. dv_short_uid d = token) (st_devices s) of
             Some d \<Rightarrow> Inr (Some d)
           | None \<Rightarrow>
             (let matches = filter (\<lambda>d. nocase_eq (dv_device_name d) token) (st_devices s);
                  hosts = map dv_host matches;
                  distinct_hosts = remdups (map host_key hosts)
              in if matches = [] then Inr None
                 else if length distinct_hosts > 1
                      then Inl (AmbiguousNameError (unique_hosts_loop hosts [] []))
                      else Inr (Some (hd matches))))))"

subsection \<open>Device writes\<close>

text \<open>\<open>UPDATE device SET ... WHERE uid = ?\<close>, and the re-read that ends every write.\<close>

definition update_device :: "string \<Rightarrow> (device \<Rightarrow> device) \<Rightarrow> store \<Rightarrow> store" where
  "update_device uid f s = s\<lparr>st_devices := row_upd dv_uid uid f (st_devices s)\<rparr>"

definition insert_device :: "device \<Rightarrow> store \<Rightarrow> store" where
  "insert_device d s = s\<lparr>st_devices := st_devices s @ [d]\<rparr>"

definition delete_device :: "string \<Rightarrow> store \<Rightarrow> store" where
  "delete_device uid s = s\<lparr>st_devices := row_del dv_uid uid (st_devices s)\<rparr>"

definition reread :: "store \<Rightarrow> string \<Rightarrow> (store \<times> device) result" where
  "reread s uid = (case get s uid of None \<Rightarrow> Inl AssertionError | Some r \<Rightarrow> Inr (s, r))"

text \<open>The row \<open>_upsert_device\<close> inserts; the columns the \<open>INSERT\<close> does not name are \<open>NULL\<close>.\<close>

definition fresh_device :: "string \<Rightarrow> string option \<Rightarrow> string option \<Rightarrow> string option \<Rightarrow> real \<Rightarrow> device" where
  "fresh_device uid host port vid_pid now =
     \<lparr>dv_uid = uid, dv_short_uid = short_uid uid, dv_port = port, dv_vid_pid = vid_pid,
      dv_role = None, dv_common_name = None, dv_device_name = None, dv_serial_payload = None,
      dv_raw_announcement = None, dv_state = STATE_ATTACHED_UNPROBED, dv_error_note = None,
      dv_host = host, dv_remote_lock_kind = None, dv_remote_lock_display = None,
      dv_chip_identity_name = None, dv_chip_identity_serial = None, dv_flash_count = 0,
      dv_first_seen = now, dv_last_seen = now, dv_last_probe = 0\<rparr>"

definition upsert_device ::
  "real \<Rightarrow> string \<Rightarrow> string option \<Rightarrow> string option \<Rightarrow> string option \<Rightarrow> store
     \<Rightarrow> (store \<times> device) result" where
  "upsert_device now uid host port vid_pid s =
     (case get s uid of
        None \<Rightarrow> reread (insert_device (fresh_device uid host port vid_pid now) s) uid
      | Some existing \<Rightarrow>
          if host \<noteq> None \<and> dv_host existing = None \<and> dv_state existing \<noteq> STATE_DISCONNECTED
          then Inr (s, existing)
          else if dv_state existing = STATE_DISCONNECTED
          then reread (update_device uid (\<lambda>d. d\<lparr>dv_port := port, dv_vid_pid := vid_pid,
                         dv_state := STATE_ATTACHED_UNPROBED, dv_host := host, dv_last_seen := now,
                         dv_last_probe := 0\<rparr>) s) uid
          else reread (update_device uid (\<lambda>d. d\<lparr>dv_port := port, dv_vid_pid := vid_pid,
                         dv_host := host, dv_last_seen := now\<rparr>) s) uid)"

definition upsert_attached ::
  "real \<Rightarrow> string \<Rightarrow> string \<Rightarrow> string \<Rightarrow> store \<Rightarrow> (store \<times> device) result" where
  "upsert_attached now uid port vid_pid s = upsert_device now uid None (Some port) (Some vid_pid) s"

definition upsert_remote_attached ::
  "real \<Rightarrow> string \<Rightarrow> string \<Rightarrow> string option \<Rightarrow> string option \<Rightarrow> store \<Rightarrow> (store \<times> device) result" where
  "upsert_remote_attached now uid host port vid_pid s = upsert_device now uid (Some host) port vid_pid s"

text \<open>The shape the remaining writes share: \<open>KeyError\<close> for an unknown uid, else one \<open>UPDATE\<close>.\<close>

definition guarded_update :: "string \<Rightarrow> (device \<Rightarrow> device) \<Rightarrow> store \<Rightarrow> (store \<times> device) result" where
  "guarded_update uid f s =
     (case get s uid of None \<Rightarrow> Inl KeyError | Some _ \<Rightarrow> reread (update_device uid f s) uid)"

definition probe_update :: "real \<Rightarrow> probe_result option \<Rightarrow> device \<Rightarrow> device" where
  "probe_update now result d =
     (case result of
        Some r \<Rightarrow> d\<lparr>dv_role := Some (pr_role r), dv_common_name := Some (pr_common_name r),
                    dv_device_name := Some (pr_device_name r), dv_serial_payload := Some (pr_serial r),
                    dv_raw_announcement := Some (pr_raw r), dv_state := STATE_CONNECTED,
                    dv_error_note := None, dv_last_probe := now, dv_last_seen := now\<rparr>
      | None \<Rightarrow> d\<lparr>dv_state := STATE_ATTACHED_NO_ANNOUNCE,
                  dv_error_note := Some ERROR_NOTE_NO_ANNOUNCEMENT,
                  dv_last_probe := now, dv_last_seen := now\<rparr>)"

definition apply_probe_result ::
  "real \<Rightarrow> string \<Rightarrow> probe_result option \<Rightarrow> store \<Rightarrow> (store \<times> device) result" where
  "apply_probe_result now uid result s = guarded_update uid (probe_update now result) s"

definition known_blank_update :: "real \<Rightarrow> device \<Rightarrow> device" where
  "known_blank_update now d =
     d\<lparr>dv_state := STATE_CONNECTED_NO_FIRMWARE, dv_error_note := Some ERROR_NOTE_KNOWN_BLANK,
       dv_last_probe := now, dv_last_seen := now\<rparr>"

definition apply_known_blank :: "real \<Rightarrow> string \<Rightarrow> store \<Rightarrow> (store \<times> device) result" where
  "apply_known_blank now uid s = guarded_update uid (known_blank_update now) s"

definition set_chip_identity :: "string \<Rightarrow> string \<Rightarrow> int \<Rightarrow> store \<Rightarrow> (store \<times> device) result" where
  "set_chip_identity uid name serial s =
     (case get s uid of
        None \<Rightarrow> Inl KeyError
      | Some existing \<Rightarrow>
          if dv_chip_identity_name existing \<noteq> None then Inr (s, existing)
          else reread (update_device uid (\<lambda>d. d\<lparr>dv_chip_identity_name := Some name,
                                               dv_chip_identity_serial := Some serial\<rparr>) s) uid)"

definition mark_disconnected :: "real \<Rightarrow> string \<Rightarrow> store \<Rightarrow> (store \<times> device) result" where
  "mark_disconnected now uid s =
     guarded_update uid (\<lambda>d. d\<lparr>dv_state := STATE_DISCONNECTED, dv_last_seen := now\<rparr>) s"

definition virtual_device :: "string \<Rightarrow> string \<Rightarrow> string \<Rightarrow> string \<Rightarrow> real \<Rightarrow> device" where
  "virtual_device uid name role serial now =
     \<lparr>dv_uid = uid, dv_short_uid = uid, dv_port = Some (VIRTUAL_PORT_PREFIX @ name),
      dv_vid_pid = Some VIRTUAL_VID_PID, dv_role = Some role, dv_common_name = Some ''robot'',
      dv_device_name = Some name, dv_serial_payload = Some serial,
      dv_raw_announcement = None, dv_state = STATE_CONNECTED, dv_error_note = None,
      dv_host = None, dv_remote_lock_kind = None, dv_remote_lock_display = None,
      dv_chip_identity_name = None, dv_chip_identity_serial = None, dv_flash_count = 0,
      dv_first_seen = now, dv_last_seen = now, dv_last_probe = now\<rparr>"

definition upsert_virtual ::
  "real \<Rightarrow> string \<Rightarrow> string \<Rightarrow> string \<Rightarrow> string \<Rightarrow> store \<Rightarrow> (store \<times> device) result" where
  "upsert_virtual now uid name role serial s =
     reread (insert_device (virtual_device uid name role serial now) (delete_device uid s)) uid"

definition remove_virtual :: "string \<Rightarrow> store \<Rightarrow> store \<times> device option" where
  "remove_virtual uid s =
     (case get s uid of
        None \<Rightarrow> (s, None)
      | Some r \<Rightarrow> if \<not> is_virtual r then (s, None) else (delete_device uid s, Some r))"

definition sweep_virtual :: "store \<Rightarrow> store \<times> string list" where
  "sweep_virtual s =
     (let uids = map dv_uid (filter is_virtual (list_devices s))
      in (fold delete_device uids s, uids))"

definition increment_flash_count :: "string \<Rightarrow> store \<Rightarrow> (store \<times> device) result" where
  "increment_flash_count uid s =
     guarded_update uid (\<lambda>d. d\<lparr>dv_flash_count := dv_flash_count d + 1\<rparr>) s"

definition mark_remote_detached :: "real \<Rightarrow> string \<Rightarrow> store \<Rightarrow> (store \<times> device) result" where
  "mark_remote_detached now uid s = mark_disconnected now uid s"

definition apply_remote_probe ::
  "real \<Rightarrow> string \<Rightarrow> probe_result option \<Rightarrow> store \<Rightarrow> (store \<times> device) result" where
  "apply_remote_probe now uid result s = apply_probe_result now uid result s"

definition apply_remote_lock_state ::
  "string \<Rightarrow> string option \<Rightarrow> string option \<Rightarrow> store \<Rightarrow> (store \<times> device) result" where
  "apply_remote_lock_state uid kind display s =
     guarded_update uid (\<lambda>d. d\<lparr>dv_remote_lock_kind := kind, dv_remote_lock_display := display\<rparr>) s"

subsection \<open>Peer writes\<close>

definition reread_peer :: "store \<Rightarrow> string \<Rightarrow> (store \<times> peer) result" where
  "reread_peer s host = (case get_peer s host of None \<Rightarrow> Inl AssertionError | Some r \<Rightarrow> Inr (s, r))"

definition record_peer_seen :: "real \<Rightarrow> string \<Rightarrow> string \<Rightarrow> store \<Rightarrow> (store \<times> peer) result" where
  "record_peer_seen now host endpoint s =
     reread_peer
       (case get_peer s host of
          None \<Rightarrow> s\<lparr>st_peers := st_peers s @ [\<lparr>pe_host = host, pe_endpoint = endpoint,
                                                pe_last_seen = now, pe_reachable = True\<rparr>]\<rparr>
        | Some _ \<Rightarrow> s\<lparr>st_peers := row_upd pe_host host
                        (\<lambda>p. p\<lparr>pe_endpoint := endpoint, pe_last_seen := now, pe_reachable := True\<rparr>)
                        (st_peers s)\<rparr>) host"

definition set_peer_reachable :: "string \<Rightarrow> bool \<Rightarrow> store \<Rightarrow> (store \<times> peer) result" where
  "set_peer_reachable host reachable s =
     (case get_peer s host of
        None \<Rightarrow> Inl KeyError
      | Some _ \<Rightarrow> reread_peer (s\<lparr>st_peers := row_upd pe_host host
                    (\<lambda>p. p\<lparr>pe_reachable := reachable\<rparr>) (st_peers s)\<rparr>) host)"

definition mark_peer_unreachable :: "string \<Rightarrow> store \<Rightarrow> (store \<times> peer) result" where
  "mark_peer_unreachable host s = set_peer_reachable host False s"

definition mark_peer_reachable :: "string \<Rightarrow> store \<Rightarrow> (store \<times> peer) result" where
  "mark_peer_reachable host s = set_peer_reachable host True s"

subsection \<open>Purging\<close>

record purge_candidates =
  pc_local_disconnected :: "string list"
  pc_unreachable_peer_owned :: "string list"
  pc_reachable_peer_stale_disconnected :: "string list"
  pc_unreachable_peers :: "string list"

definition device_uids :: "purge_candidates \<Rightarrow> string list" where
  "device_uids c = pc_local_disconnected c @ pc_unreachable_peer_owned c
                     @ pc_reachable_peer_stale_disconnected c"

text \<open>\<open>host IN (SELECT host FROM peer WHERE reachable = ?)\<close>.\<close>

definition host_in_peers :: "bool \<Rightarrow> store \<Rightarrow> string option \<Rightarrow> bool" where
  "host_in_peers reachable s host =
     (case host of None \<Rightarrow> False
      | Some h \<Rightarrow> h \<in> set (map pe_host (filter (\<lambda>p. pe_reachable p = reachable) (st_peers s))))"

definition candidates_for_purge :: "store \<Rightarrow> purge_candidates" where
  "candidates_for_purge s =
     \<lparr>pc_local_disconnected = map dv_uid (filter (\<lambda>d. dv_host d = None \<and> dv_state d = STATE_DISCONNECTED)
                                            (st_devices s)),
      pc_unreachable_peer_owned = map dv_uid (filter (\<lambda>d. dv_host d \<noteq> None
                                    \<and> host_in_peers False s (dv_host d)) (st_devices s)),
      pc_reachable_peer_stale_disconnected = map dv_uid (filter (\<lambda>d. dv_host d \<noteq> None
                                    \<and> dv_state d = STATE_DISCONNECTED
                                    \<and> host_in_peers True s (dv_host d)) (st_devices s)),
      pc_unreachable_peers = map pe_host (filter (\<lambda>p. \<not> pe_reachable p) (st_peers s))\<rparr>"

definition purgeable :: "store \<Rightarrow> device \<Rightarrow> bool" where
  "purgeable s d \<longleftrightarrow> dv_state d = STATE_DISCONNECTED \<or> host_in_peers False s (dv_host d)"

fun purge_devices :: "string list \<Rightarrow> store \<Rightarrow> string list \<Rightarrow> store \<times> string list" where
  "purge_devices [] s removed = (s, removed)"
| "purge_devices (uid # uids) s removed =
     (if \<exists>d\<in>set (st_devices s). dv_uid d = uid \<and> purgeable s d
      then purge_devices uids
             (s\<lparr>st_devices := filter (\<lambda>d. \<not> (dv_uid d = uid \<and> purgeable s d)) (st_devices s)\<rparr>)
             (removed @ [uid])
      else purge_devices uids s removed)"

fun purge_peers :: "string list \<Rightarrow> store \<Rightarrow> string list \<Rightarrow> store \<times> string list" where
  "purge_peers [] s removed = (s, removed)"
| "purge_peers (host # hosts) s removed =
     (if \<exists>p\<in>set (st_peers s). pe_host p = host \<and> \<not> pe_reachable p
      then purge_peers hosts
             (s\<lparr>st_peers := filter (\<lambda>p. \<not> (pe_host p = host \<and> \<not> pe_reachable p)) (st_peers s)\<rparr>)
             (removed @ [host])
      else purge_peers hosts s removed)"

definition purge :: "string list \<Rightarrow> string list \<Rightarrow> store \<Rightarrow> store \<times> string list \<times> string list" where
  "purge uids hosts s =
     (let (s1, removed_devices) = purge_devices uids s [];
          (s2, removed_peers) = purge_peers hosts s1 []
      in (s2, removed_devices, removed_peers))"

subsection \<open>The tables keep their contract\<close>

definition devices_unique :: "store \<Rightarrow> bool" where
  "devices_unique s \<longleftrightarrow> unique_key dv_uid (st_devices s)"

definition peers_unique :: "store \<Rightarrow> bool" where
  "peers_unique s \<longleftrightarrow> unique_key pe_host (st_peers s)"

definition insert_peer :: "peer \<Rightarrow> store \<Rightarrow> store" where
  "insert_peer p s = s\<lparr>st_peers := st_peers s @ [p]\<rparr>"

definition update_peer :: "string \<Rightarrow> (peer \<Rightarrow> peer) \<Rightarrow> store \<Rightarrow> store" where
  "update_peer host f s = s\<lparr>st_peers := row_upd pe_host host f (st_peers s)\<rparr>"

definition delete_peer :: "string \<Rightarrow> store \<Rightarrow> store" where
  "delete_peer host s = s\<lparr>st_peers := row_del pe_host host (st_peers s)\<rparr>"

lemmas device_table_defs = get_def insert_device_def update_device_def delete_device_def devices_unique_def
lemmas peer_table_defs = get_peer_def insert_peer_def update_peer_def delete_peer_def peers_unique_def

lemma devices_unique_fun:
  "get = (\<lambda>s. row_get dv_uid (st_devices s))" "insert_device = (\<lambda>r s. s\<lparr>st_devices := st_devices s @ [r]\<rparr>)"
  "update_device = (\<lambda>k f s. s\<lparr>st_devices := row_upd dv_uid k f (st_devices s)\<rparr>)"
  "delete_device = (\<lambda>k s. s\<lparr>st_devices := row_del dv_uid k (st_devices s)\<rparr>)"
  "devices_unique = (\<lambda>s. unique_key dv_uid (st_devices s))"
  by (intro ext, simp add: device_table_defs)+

lemma peers_unique_fun:
  "get_peer = (\<lambda>s. row_get pe_host (st_peers s))" "insert_peer = (\<lambda>r s. s\<lparr>st_peers := st_peers s @ [r]\<rparr>)"
  "update_peer = (\<lambda>k f s. s\<lparr>st_peers := row_upd pe_host k f (st_peers s)\<rparr>)"
  "delete_peer = (\<lambda>k s. s\<lparr>st_peers := row_del pe_host k (st_peers s)\<rparr>)"
  "peers_unique = (\<lambda>s. unique_key pe_host (st_peers s))"
  by (intro ext, simp add: peer_table_defs)+

lemma keyed_rows_via:
  assumes "\<And>f s. sel (up f s) = f (sel s)"
  shows "keyed_rows (\<lambda>s. row_get key (sel s)) key (\<lambda>r. up (\<lambda>rows. rows @ [r]))
           (\<lambda>k f. up (row_upd key k f)) (\<lambda>k. up (row_del key k)) (\<lambda>s. unique_key key (sel s))"
proof -
  have rows: "keyed_rows (row_get key) key (\<lambda>r rows. rows @ [r]) (row_upd key) (row_del key) (unique_key key)"
    by (rule keyed_rows_lists)
  show ?thesis
    using keyed_rows.get_key [OF rows] keyed_rows.get_ins [OF rows] keyed_rows.get_upd [OF rows]
      keyed_rows.get_del [OF rows] keyed_rows.wf_ins [OF rows] keyed_rows.wf_upd [OF rows]
      keyed_rows.wf_del [OF rows]
    unfolding keyed_rows_def assms by blast
qed

interpretation dev: keyed_rows get dv_uid insert_device update_device delete_device devices_unique
proof -
  have "keyed_rows (\<lambda>s. row_get dv_uid (st_devices s)) dv_uid
      (\<lambda>r s. s\<lparr>st_devices := st_devices s @ [r]\<rparr>)
      (\<lambda>k f s. s\<lparr>st_devices := row_upd dv_uid k f (st_devices s)\<rparr>)
      (\<lambda>k s. s\<lparr>st_devices := row_del dv_uid k (st_devices s)\<rparr>) (\<lambda>s. unique_key dv_uid (st_devices s))"
    using keyed_rows_via [of st_devices "\<lambda>f s. s\<lparr>st_devices := f (st_devices s)\<rparr>" dv_uid] by simp
  then show "keyed_rows get dv_uid insert_device update_device delete_device devices_unique"
    by (simp only: devices_unique_fun)
qed

interpretation peers: keyed_rows get_peer pe_host insert_peer update_peer delete_peer peers_unique
proof -
  have "keyed_rows (\<lambda>s. row_get pe_host (st_peers s)) pe_host
      (\<lambda>r s. s\<lparr>st_peers := st_peers s @ [r]\<rparr>)
      (\<lambda>k f s. s\<lparr>st_peers := row_upd pe_host k f (st_peers s)\<rparr>)
      (\<lambda>k s. s\<lparr>st_peers := row_del pe_host k (st_peers s)\<rparr>) (\<lambda>s. unique_key pe_host (st_peers s))"
    using keyed_rows_via [of st_peers "\<lambda>f s. s\<lparr>st_peers := f (st_peers s)\<rparr>" pe_host] by simp
  then show "keyed_rows get_peer pe_host insert_peer update_peer delete_peer peers_unique"
    by (simp only: peers_unique_fun)
qed

lemma device_table_frame [simp]:
  "st_peers (update_device uid f s) = st_peers s" "st_names (update_device uid f s) = st_names s"
  "st_peers (insert_device d s) = st_peers s" "st_names (insert_device d s) = st_names s"
  "st_peers (delete_device uid s) = st_peers s" "st_names (delete_device uid s) = st_names s"
  by (simp_all add: device_table_defs)

lemma get_devices_cong: "st_devices s' = st_devices s \<Longrightarrow> get s' = get s"
  by (simp add: get_def fun_eq_iff)

lemma get_in_devices: "get s uid = Some d \<Longrightarrow> d \<in> set (st_devices s) \<and> dv_uid d = uid"
  unfolding get_def by (rule row_get_Some)

lemma devices_get: "devices_unique s \<Longrightarrow> d \<in> set (st_devices s) \<Longrightarrow> get s (dv_uid d) = Some d"
  by (simp add: get_def devices_unique_def row_get_in)

subsection \<open>What each write computes\<close>

lemma get_update:
  "(\<And>d. dv_uid (f d) = dv_uid d) \<Longrightarrow> get (update_device uid f s) u
     = (if u = uid then map_option f (get s uid) else get s u)"
  using dev.get_upd [of f uid s] by simp

lemma reread_update:
  "(\<And>d. dv_uid (f d) = dv_uid d) \<Longrightarrow> get s uid = Some d
     \<Longrightarrow> reread (update_device uid f s) uid = Inr (update_device uid f s, f d)"
  by (simp add: reread_def get_update)

lemma guarded_update_eq:
  "(\<And>d. dv_uid (f d) = dv_uid d) \<Longrightarrow> guarded_update uid f s
     = (case get s uid of None \<Rightarrow> Inl KeyError | Some d \<Rightarrow> Inr (update_device uid f s, f d))"
  by (simp add: guarded_update_def reread_update split: option.splits)

lemma probe_update_uid [simp]: "dv_uid (probe_update now r d) = dv_uid d"
  by (simp add: probe_update_def split: option.splits)

lemma known_blank_update_uid [simp]: "dv_uid (known_blank_update now d) = dv_uid d"
  by (simp add: known_blank_update_def)

lemma fresh_device_uid [simp]: "dv_uid (fresh_device uid host port vp now) = uid"
  by (simp add: fresh_device_def)

lemma virtual_device_uid [simp]: "dv_uid (virtual_device uid name role serial now) = uid"
  by (simp add: virtual_device_def)

text \<open>The row a scan leaves for a uid, from the row it found.\<close>

definition upsert_row ::
  "real \<Rightarrow> string \<Rightarrow> string option \<Rightarrow> string option \<Rightarrow> string option \<Rightarrow> device option \<Rightarrow> device" where
  "upsert_row now uid host port vid_pid row =
     (case row of None \<Rightarrow> fresh_device uid host port vid_pid now
      | Some d \<Rightarrow>
          if host \<noteq> None \<and> dv_host d = None \<and> dv_state d \<noteq> STATE_DISCONNECTED then d
          else if dv_state d = STATE_DISCONNECTED
          then d\<lparr>dv_port := port, dv_vid_pid := vid_pid, dv_state := STATE_ATTACHED_UNPROBED,
                 dv_host := host, dv_last_seen := now, dv_last_probe := 0\<rparr>
          else d\<lparr>dv_port := port, dv_vid_pid := vid_pid, dv_host := host, dv_last_seen := now\<rparr>)"

lemma upsert_device_eq:
  obtains s' where "upsert_device now uid host port vp s = Inr (s', upsert_row now uid host port vp (get s uid))"
    and "get s' = (get s)(uid \<mapsto> upsert_row now uid host port vp (get s uid))"
    and "st_peers s' = st_peers s" and "st_names s' = st_names s"
    and "devices_unique s \<Longrightarrow> devices_unique s'"
proof (cases "get s uid")
  case None
  let ?d = "fresh_device uid host port vp now"
  have g: "get (insert_device ?d s) = (get s)(uid \<mapsto> ?d)" using dev.get_ins [of s ?d] None by simp
  show ?thesis
  proof (rule that)
    show "upsert_device now uid host port vp s
        = Inr (insert_device ?d s, upsert_row now uid host port vp (get s uid))"
      using None g by (simp add: upsert_device_def upsert_row_def reread_def)
    show "get (insert_device ?d s) = (get s)(uid \<mapsto> upsert_row now uid host port vp (get s uid))"
      using None g by (simp add: upsert_row_def)
    show "devices_unique s \<Longrightarrow> devices_unique (insert_device ?d s)"
      using dev.wf_ins [of s ?d] None by simp
  qed simp_all
next
  case (Some d)
  show ?thesis
  proof (cases "host \<noteq> None \<and> dv_host d = None \<and> dv_state d \<noteq> STATE_DISCONNECTED")
    case True
    then show ?thesis using Some by (intro that [of s]) (auto simp: upsert_device_def upsert_row_def)
  next
    case False
    define f where "f = (\<lambda>d. upsert_row now uid host port vp (Some d))"
    let ?f = "if dv_state d = STATE_DISCONNECTED
       then (\<lambda>d. d\<lparr>dv_port := port, dv_vid_pid := vp, dv_state := STATE_ATTACHED_UNPROBED,
                 dv_host := host, dv_last_seen := now, dv_last_probe := 0\<rparr>)
       else (\<lambda>d. d\<lparr>dv_port := port, dv_vid_pid := vp, dv_host := host, dv_last_seen := now\<rparr>)"
    have k: "dv_uid (?f d) = dv_uid d" for d by simp
    have fd: "?f d = upsert_row now uid host port vp (get s uid)" using Some False by (auto simp: upsert_row_def)
    show ?thesis
    proof (rule that [of "update_device uid ?f s"])
      show "upsert_device now uid host port vp s
          = Inr (update_device uid ?f s, upsert_row now uid host port vp (get s uid))"
        using Some False reread_update [of ?f s uid d, OF k Some] fd by (auto simp: upsert_device_def)
      show "get (update_device uid ?f s) = (get s)(uid \<mapsto> upsert_row now uid host port vp (get s uid))"
        using dev.get_upd [of ?f uid s, OF k] Some fd by simp
      show "devices_unique s \<Longrightarrow> devices_unique (update_device uid ?f s)"
        using dev.wf_upd [of s ?f uid] k by blast
    qed simp_all
  qed
qed

subsection \<open>The invariant of the rows\<close>

definition device_ok :: "device \<Rightarrow> bool" where
  "device_ok d \<longleftrightarrow> dv_state d \<in> set ALL_STATES
     \<and> 0 \<le> dv_flash_count d
     \<and> (dv_chip_identity_name d = None \<longleftrightarrow> dv_chip_identity_serial d = None)
     \<and> (dv_state d \<noteq> STATE_DISCONNECTED \<longrightarrow> (dv_last_probe d = 0 \<longleftrightarrow> dv_state d = STATE_ATTACHED_UNPROBED))
     \<and> (dv_state d = STATE_CONNECTED \<longrightarrow> dv_error_note d = None \<and> dv_device_name d \<noteq> None)
     \<and> (dv_state d = STATE_ATTACHED_NO_ANNOUNCE \<longrightarrow> dv_error_note d = Some ERROR_NOTE_NO_ANNOUNCEMENT)
     \<and> (dv_state d = STATE_CONNECTED_NO_FIRMWARE \<longrightarrow> dv_error_note d = Some ERROR_NOTE_KNOWN_BLANK)"

definition store_ok :: "store \<Rightarrow> bool" where
  "store_ok s \<longleftrightarrow> devices_unique s \<and> peers_unique s \<and> (\<forall>d\<in>set (st_devices s). device_ok d)"

lemma store_ok_get:
  "store_ok s \<longleftrightarrow> devices_unique s \<and> peers_unique s \<and> (\<forall>u d. get s u = Some d \<longrightarrow> device_ok d)"
  using devices_get get_in_devices unfolding store_ok_def by metis

lemma store_ok_empty [simp]: "store_ok empty_store"
  by (simp add: store_ok_def empty_store_def devices_unique_def peers_unique_def)

lemma peers_unique_cong: "st_peers s' = st_peers s \<Longrightarrow> peers_unique s' = peers_unique s"
  by (simp add: peers_unique_def)

text \<open>One row written, everything else as it was.\<close>

lemma store_ok_write:
  assumes "store_ok s" and "get s' = (get s)(uid \<mapsto> d)" and "device_ok d"
    and "st_peers s' = st_peers s" and "devices_unique s'"
  shows "store_ok s'"
  using assms peers_unique_cong [of s' s] by (auto simp: store_ok_get)

lemma device_ok_fresh: "device_ok (fresh_device uid host port vp now)"
  by (simp add: device_ok_def fresh_device_def)

lemma device_ok_virtual: "now \<noteq> 0 \<Longrightarrow> device_ok (virtual_device uid name role serial now)"
  by (simp add: device_ok_def virtual_device_def)

lemma device_ok_probe_update: "device_ok d \<Longrightarrow> now \<noteq> 0 \<Longrightarrow> device_ok (probe_update now r d)"
  by (cases r) (auto simp: device_ok_def probe_update_def)

lemma device_ok_known_blank_update: "device_ok d \<Longrightarrow> now \<noteq> 0 \<Longrightarrow> device_ok (known_blank_update now d)"
  by (auto simp: device_ok_def known_blank_update_def)

lemma device_ok_upsert_row:
  "(\<And>d. row = Some d \<Longrightarrow> device_ok d) \<Longrightarrow> device_ok (upsert_row now uid host port vp row)"
proof (cases row)
  case None
  then show ?thesis by (simp add: upsert_row_def device_ok_fresh)
next
  case (Some d)
  assume "\<And>d. row = Some d \<Longrightarrow> device_ok d"
  with Some have "device_ok d" by simp
  then show ?thesis unfolding Some by (auto simp: upsert_row_def device_ok_def)
qed

lemmas device_ok_rows = device_ok_fresh device_ok_virtual device_ok_probe_update
  device_ok_known_blank_update device_ok_upsert_row

lemma guarded_update_ok:
  assumes "store_ok s" and "guarded_update uid f s = Inr (s', r)"
    and "\<And>d. dv_uid (f d) = dv_uid d" and "\<And>d. device_ok d \<Longrightarrow> device_ok (f d)"
  shows "store_ok s'"
proof -
  obtain d where d: "get s uid = Some d" and s': "s' = update_device uid f s"
    using assms(2) by (auto simp: guarded_update_eq [of f, OF assms(3)] split: option.splits)
  show ?thesis
  proof (rule store_ok_write [OF assms(1)])
    show "get s' = (get s)(uid \<mapsto> f d)" using dev.get_upd [of f uid s] assms(3) d s' by simp
    show "device_ok (f d)" using assms(1,4) d by (simp add: store_ok_get)
    show "st_peers s' = st_peers s" using s' by simp
    show "devices_unique s'" using dev.wf_upd [of s f uid] assms(1,3) s' by (simp add: store_ok_def)
  qed
qed

lemma upsert_device_ok:
  assumes "store_ok s" and "upsert_device now uid host port vp s = Inr (s', r)"
  shows "store_ok s'"
proof -
  obtain s1 where s1: "upsert_device now uid host port vp s
        = Inr (s1, upsert_row now uid host port vp (get s uid))"
      "get s1 = (get s)(uid \<mapsto> upsert_row now uid host port vp (get s uid))"
      "st_peers s1 = st_peers s" "devices_unique s \<Longrightarrow> devices_unique s1"
    by (rule upsert_device_eq [of now uid host port vp s]) blast
  have "store_ok s1"
    using assms(1) s1(4)
    by (intro store_ok_write [OF assms(1) s1(2) _ s1(3)] device_ok_upsert_row) (auto simp: store_ok_get)
  with s1(1) assms(2) show ?thesis by simp
qed

lemma virtual_device_is_virtual: "is_virtual (virtual_device uid name role serial now)"
  by (simp add: is_virtual_def virtual_device_def)

lemma upsert_virtual_eq:
  "upsert_virtual now uid name role serial s
     = Inr (insert_device (virtual_device uid name role serial now) (delete_device uid s),
            virtual_device uid name role serial now)"
  "get (insert_device (virtual_device uid name role serial now) (delete_device uid s))
     = (get s)(uid \<mapsto> virtual_device uid name role serial now)"
proof -
  let ?d = "virtual_device uid name role serial now"
  show g: "get (insert_device ?d (delete_device uid s)) = (get s)(uid \<mapsto> ?d)"
    using dev.get_replace [of ?d s] by simp
  show "upsert_virtual now uid name role serial s = Inr (insert_device ?d (delete_device uid s), ?d)"
    by (simp add: upsert_virtual_def reread_def g)
qed

lemma upsert_virtual_ok:
  assumes "store_ok s" and "now \<noteq> 0" and "upsert_virtual now uid name role serial s = Inr (s', r)"
  shows "store_ok s'"
proof -
  let ?d = "virtual_device uid name role serial now"
  have "devices_unique (insert_device ?d (delete_device uid s))"
    using dev.wf_replace [of s ?d] assms(1) by (simp add: store_ok_def)
  then have "store_ok (insert_device ?d (delete_device uid s))"
    using assms(1,2) by (intro store_ok_write [OF assms(1) upsert_virtual_eq(2)] device_ok_virtual) simp_all
  with assms(3) show ?thesis unfolding upsert_virtual_eq(1) by blast
qed

lemma store_ok_subset:
  assumes "store_ok s" and "set (st_devices s') \<subseteq> set (st_devices s)" and "devices_unique s'"
    and "peers_unique s'"
  shows "store_ok s'"
  using assms by (auto simp: store_ok_def)

lemma delete_device_ok: "store_ok s \<Longrightarrow> store_ok (delete_device uid s)"
proof (rule store_ok_subset [of s])
  assume s: "store_ok s"
  show "devices_unique (delete_device uid s)" using s dev.wf_del [of s uid] by (simp add: store_ok_def)
  show "peers_unique (delete_device uid s)" using s by (simp add: store_ok_def peers_unique_def)
  show "set (st_devices (delete_device uid s)) \<subseteq> set (st_devices s)"
    by (auto simp: delete_device_def row_del_def)
qed

lemma fold_delete_ok: "store_ok s \<Longrightarrow> store_ok (fold delete_device uids s)"
  by (induction uids arbitrary: s) (simp_all add: delete_device_ok)

lemma get_fold_delete: "get (fold delete_device uids s) u = (if u \<in> set uids then None else get s u)"
  by (induction uids arbitrary: s) (auto simp: dev.get_del)

subsection \<open>Peers and purging\<close>

lemma get_peers_cong [simp]: "get (s\<lparr>st_peers := ps\<rparr>) = get s"
  by (rule get_devices_cong) simp

lemma record_peer_seen_eq:
  obtains s' p where "record_peer_seen now host endpoint s = Inr (s', p)"
    and "get_peer s' = (get_peer s)(host \<mapsto> p)" and "pe_reachable p" and "pe_endpoint p = endpoint"
    and "st_devices s' = st_devices s" and "st_names s' = st_names s"
    and "peers_unique s \<Longrightarrow> peers_unique s'"
proof -
  let ?p = "\<lparr>pe_host = host, pe_endpoint = endpoint, pe_last_seen = now, pe_reachable = True\<rparr>"
  let ?f = "\<lambda>p. p\<lparr>pe_endpoint := endpoint, pe_last_seen := now, pe_reachable := True\<rparr>"
  let ?s = "if get_peer s host = None then insert_peer ?p s else update_peer host ?f s"
  let ?r = "case get_peer s host of None \<Rightarrow> ?p | Some x \<Rightarrow> ?f x"
  have g: "get_peer ?s = (get_peer s)(host \<mapsto> ?r)" by (rule peers.get_upsert) simp_all
  have e: "record_peer_seen now host endpoint s = reread_peer ?s host"
    by (simp add: record_peer_seen_def insert_peer_def update_peer_def split: option.split)
  show ?thesis
  proof (rule that [of ?s ?r, OF _ g])
    show "record_peer_seen now host endpoint s = Inr (?s, ?r)"
      unfolding e reread_peer_def g by simp
    show "peers_unique s \<Longrightarrow> peers_unique ?s" by (rule peers.wf_upsert) simp_all
  qed (simp_all add: insert_peer_def update_peer_def split: option.split)
qed

lemma set_peer_reachable_eq:
  "set_peer_reachable host b s
     = (case get_peer s host of None \<Rightarrow> Inl KeyError
        | Some p \<Rightarrow> Inr (update_peer host (\<lambda>p. p\<lparr>pe_reachable := b\<rparr>) s, p\<lparr>pe_reachable := b\<rparr>))"
proof (cases "get_peer s host")
  case (Some p)
  let ?f = "\<lambda>p. p\<lparr>pe_reachable := b\<rparr>"
  have "get_peer (update_peer host ?f s) host = Some (?f p)"
    using peers.get_upd [of ?f host s] Some by simp
  then show ?thesis using Some by (simp add: set_peer_reachable_def reread_peer_def update_peer_def)
qed (simp add: set_peer_reachable_def)

lemma store_ok_peers:
  assumes "store_ok s" and "st_devices s' = st_devices s" and "peers_unique s'"
  shows "store_ok s'"
  using assms by (auto simp: store_ok_def devices_unique_def)

lemma record_peer_seen_ok:
  assumes "store_ok s" and "record_peer_seen now host endpoint s = Inr (s', p)"
  shows "store_ok s'"
proof (rule record_peer_seen_eq [of now host endpoint s])
  fix s1 p1
  assume "record_peer_seen now host endpoint s = Inr (s1, p1)" "st_devices s1 = st_devices s"
    "peers_unique s \<Longrightarrow> peers_unique s1"
  then show ?thesis using assms store_ok_peers [of s s1] by (simp add: store_ok_def)
qed

lemma set_peer_reachable_ok:
  assumes "store_ok s" and "set_peer_reachable host b s = Inr (s', p)"
  shows "store_ok s'"
proof -
  have s': "s' = update_peer host (\<lambda>p. p\<lparr>pe_reachable := b\<rparr>) s"
    using assms(2) by (auto simp: set_peer_reachable_eq split: option.splits)
  have "peers_unique s'" unfolding s' using assms(1) by (intro peers.wf_upd) (simp_all add: store_ok_def)
  then show ?thesis by (rule store_ok_peers [OF assms(1), rotated]) (simp add: s' update_peer_def)
qed

lemma purgeable_peers: "st_peers s' = st_peers s \<Longrightarrow> purgeable s' = purgeable s"
  by (simp add: purgeable_def host_in_peers_def fun_eq_iff split: option.split)

text \<open>The device loop of \<open>purge\<close> in one expression: which rows stay, and which uids are reported.\<close>

definition has_purgeable :: "store \<Rightarrow> string \<Rightarrow> bool" where
  "has_purgeable s u \<longleftrightarrow> (\<exists>d\<in>set (st_devices s). dv_uid d = u \<and> purgeable s d)"

lemma purgeable_devices [simp]: "purgeable (s\<lparr>st_devices := ds\<rparr>) = purgeable s"
  by (rule purgeable_peers) simp

lemma purge_devices_store:
  "fst (purge_devices uids s removed)
     = s\<lparr>st_devices := filter (\<lambda>d. \<not> (dv_uid d \<in> set uids \<and> purgeable s d)) (st_devices s)\<rparr>"
proof (induction uids s removed rule: purge_devices.induct)
  case (2 uid uids s removed)
  show ?case
  proof (cases "\<exists>d\<in>set (st_devices s). dv_uid d = uid \<and> purgeable s d")
    case True
    let ?s = "s\<lparr>st_devices := filter (\<lambda>d. \<not> (dv_uid d = uid \<and> purgeable s d)) (st_devices s)\<rparr>"
    have "fst (purge_devices (uid # uids) s removed) = fst (purge_devices uids ?s (removed @ [uid]))"
      using True by (simp only: purge_devices.simps if_True)
    also have "\<dots> = ?s\<lparr>st_devices := filter (\<lambda>d. \<not> (dv_uid d \<in> set uids \<and> purgeable ?s d)) (st_devices ?s)\<rparr>"
      by (rule "2.IH"(1) [OF True])
    finally show ?thesis by simp
        (rule arg_cong [where f = "\<lambda>ds. s\<lparr>st_devices := ds\<rparr>"], rule filter_cong, auto)
  next
    case False
    have "fst (purge_devices (uid # uids) s removed) = fst (purge_devices uids s removed)"
      using False by (simp only: purge_devices.simps if_False)
    also note "2.IH"(2) [OF False]
    also have "filter (\<lambda>x. \<not> (dv_uid x \<in> set uids \<and> purgeable s x)) (st_devices s)
        = filter (\<lambda>x. \<not> (dv_uid x \<in> set (uid # uids) \<and> purgeable s x)) (st_devices s)"
      using False by (intro filter_cong) auto
    finally show ?thesis .
  qed
qed simp

lemma purge_devices_removed:
  "set (snd (purge_devices uids s removed)) = set removed \<union> {u \<in> set uids. has_purgeable s u}"
proof (induction uids s removed rule: purge_devices.induct)
  case (2 uid uids s removed)
  show ?case
  proof (cases "has_purgeable s uid")
    case True
    let ?s = "s\<lparr>st_devices := filter (\<lambda>d. \<not> (dv_uid d = uid \<and> purgeable s d)) (st_devices s)\<rparr>"
    have h: "has_purgeable ?s u \<longleftrightarrow> has_purgeable s u \<and> u \<noteq> uid" for u
      by (auto simp: has_purgeable_def)
    have "set (snd (purge_devices (uid # uids) s removed))
        = set (removed @ [uid]) \<union> {u \<in> set uids. has_purgeable ?s u}"
      using True "2.IH"(1) by (simp add: has_purgeable_def)
    then show ?thesis using True unfolding h by auto
  next
    case False
    then show ?thesis using "2.IH"(2) by (auto simp: has_purgeable_def)
  qed
qed simp

lemma purge_devices_distinct:
  assumes "distinct removed" and "\<forall>u\<in>set removed. \<not> has_purgeable s u"
  shows "distinct (snd (purge_devices uids s removed))"
  using assms
proof (induction uids s removed rule: purge_devices.induct)
  case (2 uid uids s removed)
  show ?case
  proof (cases "has_purgeable s uid")
    case True
    let ?s = "s\<lparr>st_devices := filter (\<lambda>d. \<not> (dv_uid d = uid \<and> purgeable s d)) (st_devices s)\<rparr>"
    have h: "has_purgeable ?s u \<longleftrightarrow> has_purgeable s u \<and> u \<noteq> uid" for u
      by (auto simp: has_purgeable_def)
    have "distinct (snd (purge_devices uids ?s (removed @ [uid])))"
      using True "2.prems" h by (intro "2.IH"(1)) (auto simp: has_purgeable_def)
    then show ?thesis using True by (simp add: has_purgeable_def)
  next
    case False
    then show ?thesis using "2.IH"(2) "2.prems" by (auto simp: has_purgeable_def)
  qed
qed simp

lemma purge_peers_store:
  "fst (purge_peers hosts s removed)
     = s\<lparr>st_peers := filter (\<lambda>p. \<not> (pe_host p \<in> set hosts \<and> \<not> pe_reachable p)) (st_peers s)\<rparr>"
proof (induction hosts s removed rule: purge_peers.induct)
  case (2 host hosts s removed)
  show ?case
  proof (cases "\<exists>p\<in>set (st_peers s). pe_host p = host \<and> \<not> pe_reachable p")
    case True
    let ?s = "s\<lparr>st_peers := filter (\<lambda>p. \<not> (pe_host p = host \<and> \<not> pe_reachable p)) (st_peers s)\<rparr>"
    have "fst (purge_peers (host # hosts) s removed) = fst (purge_peers hosts ?s (removed @ [host]))"
      using True by (simp only: purge_peers.simps if_True)
    also have "\<dots> = ?s\<lparr>st_peers := filter (\<lambda>p. \<not> (pe_host p \<in> set hosts \<and> \<not> pe_reachable p)) (st_peers ?s)\<rparr>"
      by (rule "2.IH"(1) [OF True])
    finally show ?thesis by simp
        (rule arg_cong [where f = "\<lambda>ds. s\<lparr>st_peers := ds\<rparr>"], rule filter_cong, auto)
  next
    case False
    have "fst (purge_peers (host # hosts) s removed) = fst (purge_peers hosts s removed)"
      using False by (simp only: purge_peers.simps if_False)
    also note "2.IH"(2) [OF False]
    also have "filter (\<lambda>x. \<not> (pe_host x \<in> set hosts \<and> \<not> pe_reachable x)) (st_peers s)
        = filter (\<lambda>x. \<not> (pe_host x \<in> set (host # hosts) \<and> \<not> pe_reachable x)) (st_peers s)"
      using False by (intro filter_cong) auto
    finally show ?thesis .
  qed
qed simp

lemma purge_peers_removed:
  "set (snd (purge_peers hosts s removed))
     = set removed \<union> {h \<in> set hosts. \<exists>p\<in>set (st_peers s). pe_host p = h \<and> \<not> pe_reachable p}"
proof (induction hosts s removed rule: purge_peers.induct)
  case (2 host hosts s removed)
  show ?case
  proof (cases "\<exists>p\<in>set (st_peers s). pe_host p = host \<and> \<not> pe_reachable p")
    case True
    then show ?thesis using "2.IH"(1) by auto
  next
    case False
    then show ?thesis using "2.IH"(2) by auto
  qed
qed simp

lemma purge_eq:
  "purge uids hosts s =
     (s\<lparr>st_devices := filter (\<lambda>d. \<not> (dv_uid d \<in> set uids \<and> purgeable s d)) (st_devices s),
        st_peers := filter (\<lambda>p. \<not> (pe_host p \<in> set hosts \<and> \<not> pe_reachable p)) (st_peers s)\<rparr>,
      snd (purge_devices uids s []), snd (purge_peers hosts (fst (purge_devices uids s [])) []))"
  by (simp add: purge_def case_prod_beta Let_def purge_devices_store purge_peers_store)

lemma purge_ok: "store_ok s \<Longrightarrow> store_ok (fst (purge uids hosts s))"
  by (auto simp: purge_eq store_ok_def devices_unique_def peers_unique_def)

lemma get_filter:
  "devices_unique s \<Longrightarrow> get (s\<lparr>st_devices := filter P (st_devices s)\<rparr>) u
     = (case get s u of None \<Rightarrow> None | Some d \<Rightarrow> if P d then Some d else None)"
proof -
  assume s: "devices_unique s"
  let ?s = "s\<lparr>st_devices := filter P (st_devices s)\<rparr>"
  have s': "devices_unique ?s" using s by (simp add: devices_unique_def)
  have iff: "get ?s u = Some d \<longleftrightarrow> get s u = Some d \<and> P d" for d
  proof
    assume "get ?s u = Some d"
    then have "d \<in> set (st_devices ?s)" "dv_uid d = u" using get_in_devices by blast+
    then show "get s u = Some d \<and> P d" using devices_get [OF s, of d] by simp
  next
    assume a: "get s u = Some d \<and> P d"
    then have "d \<in> set (st_devices ?s)" "dv_uid d = u" using get_in_devices [of s u d] by simp_all
    then show "get ?s u = Some d" using devices_get [OF s', of d] by simp
  qed
  show ?thesis
  proof (cases "get ?s u")
    case None
    then have "\<not> (get s u = Some d \<and> P d)" for d using iff [of d] by simp
    then show ?thesis unfolding None by (simp split: option.split)
  next
    case (Some d)
    then show ?thesis using iff [of d] by simp
  qed
qed

subsection \<open>Looking a device up by name\<close>

lemma unique_hosts_loop_eq:
  "\<exists>new. unique_hosts_loop hs seen acc = acc @ new \<and> set new \<subseteq> set hs
     \<and> distinct (map host_key new) \<and> set (map host_key new) = host_key ` set hs - set seen"
proof (induction hs arbitrary: seen acc)
  case (Cons h hs)
  show ?case
  proof (cases "host_key h \<in> set seen")
    case True
    obtain new where new: "unique_hosts_loop hs seen acc = acc @ new" "set new \<subseteq> set hs"
        "distinct (map host_key new)" "set (map host_key new) = host_key ` set hs - set seen"
      using Cons.IH [of seen acc] by blast
    then show ?thesis using True by (intro exI [of _ new]) auto
  next
    case False
    obtain new where new: "unique_hosts_loop hs (host_key h # seen) (acc @ [h]) = (acc @ [h]) @ new"
        "set new \<subseteq> set hs" "distinct (map host_key new)"
        "set (map host_key new) = host_key ` set hs - set (host_key h # seen)"
      using Cons.IH by blast
    from new(4) have "host_key h \<notin> set (map host_key new)" by simp
    with new False show ?thesis by (intro exI [of _ "h # new"]) auto
  qed
qed simp

text \<open>The rows a plain name denotes.\<close>

definition named :: "store \<Rightarrow> string \<Rightarrow> device list" where
  "named s token = filter (\<lambda>d. nocase_eq (dv_device_name d) token) (st_devices s)"

lemma length_remdups_gt_1: "1 < length (remdups xs) \<longleftrightarrow> (\<exists>x\<in>set xs. \<exists>y\<in>set xs. x \<noteq> y)"
proof -
  have "1 < length (remdups xs) \<longleftrightarrow> 1 < card (set xs)" by (simp add: length_remdups_card_conv)
  also have "\<dots> \<longleftrightarrow> \<not> (\<forall>x\<in>set xs. \<forall>y\<in>set xs. x = y)"
    using card_le_Suc0_iff_eq [of "set xs"] by auto
  finally show ?thesis by blast
qed

lemma find_device_name:
  assumes "CHR ''@'' \<notin> set token" "\<forall>d\<in>set (st_devices s). dv_uid d \<noteq> token \<and> dv_short_uid d \<noteq> token"
  shows "find_device s token =
     (if named s token = [] then Inr None
      else if 1 < length (remdups (map host_key (map dv_host (named s token))))
           then Inl (AmbiguousNameError (unique_hosts_loop (map dv_host (named s token)) [] []))
           else Inr (Some (hd (named s token))))"
proof -
  have "find (\<lambda>d. dv_uid d = token) (st_devices s) = None" "find (\<lambda>d. dv_short_uid d = token) (st_devices s) = None"
    using assms(2) by (auto simp: find_None_iff)
  moreover have "rpartition (CHR ''@'') token = None" using assms(1) by (simp add: rpartition_None)
  ultimately show ?thesis by (simp only: find_device_def named_def Let_def option.case)
qed

lemma find_device_at_host:
  assumes "CHR ''@'' \<notin> set host"
  shows "find_device s (name @ CHR ''@'' # host)
     = Inr (find (\<lambda>d. nocase_eq (dv_device_name d) name \<and> nocase_eq (dv_host d) host) (st_devices s))"
  by (simp add: find_device_def rpartition_append [OF assms])

lemma find_device_in: "find_device s token = Inr (Some d) \<Longrightarrow> d \<in> set (st_devices s)"
proof -
  assume f: "find_device s token = Inr (Some d)"
  have h: "hd (filter P xs) \<in> set xs" if "filter P xs \<noteq> []" for P and xs :: "device list"
    using hd_in_set [OF that] by auto
  show ?thesis
    using f by (auto simp: find_device_def Let_def find_Some_iff h split: option.splits if_splits prod.splits)
qed

text \<open>A small bench for concrete runs: a local board, and a board of the same name on the unreachable
  peer \<open>loki\<close>.\<close>

definition demo_device :: "string \<Rightarrow> string option \<Rightarrow> device" where
  "demo_device uid host = (fresh_device uid host (Some ''/dev/tty'') (Some ''0d28:0204'') 1)
     \<lparr>dv_device_name := Some ''tovez'', dv_state := STATE_CONNECTED, dv_last_probe := 2\<rparr>"

definition demo_store :: store where
  "demo_store = \<lparr>st_devices = [demo_device ''aa'' None, demo_device ''bb'' (Some ''loki'')],
     st_peers = [\<lparr>pe_host = ''loki'', pe_endpoint = ''loki:7440'', pe_last_seen = 2, pe_reachable = False\<rparr>],
     st_names = []\<rparr>"

lemma demo_get: "get demo_store u = (if u = ''aa'' then Some (demo_device ''aa'' None)
    else if u = ''bb'' then Some (demo_device ''bb'' (Some ''loki'')) else None)"
  by (simp add: get_def demo_store_def row_get_def demo_device_def)

lemma demo_unique: "devices_unique demo_store"
  by (simp add: devices_unique_def unique_key_def demo_store_def demo_device_def)

subsection \<open>Properties\<close>

text \<open>C2: local ownership wins. A peer's claim of a uid that this host has attached changes nothing and
  returns the local row; every other claim is accepted, hands the row to the claiming host and leaves
  all other rows alone.\<close>

theorem local_ownership_wins:
  "\<exists>s' r. upsert_remote_attached now uid host port vp s = Inr (s', r)
     \<and> get s' uid = Some r \<and> (\<forall>u. u \<noteq> uid \<longrightarrow> get s' u = get s u)
     \<and> (if \<exists>d. get s uid = Some d \<and> dv_host d = None \<and> dv_state d \<noteq> STATE_DISCONNECTED
        then get s uid = Some r else dv_host r = Some host)"
proof -
  obtain s' where s': "upsert_device now uid (Some host) port vp s
        = Inr (s', upsert_row now uid (Some host) port vp (get s uid))"
      "get s' = (get s)(uid \<mapsto> upsert_row now uid (Some host) port vp (get s uid))"
    by (rule upsert_device_eq [of now uid "Some host" port vp s]) blast
  show ?thesis
    unfolding upsert_remote_attached_def
    by (rule exI [of _ s'], rule exI, rule conjI, rule s'(1))
      (auto simp: s'(2) upsert_row_def fresh_device_def split: option.splits)
qed

theorem local_ownership_wins_witness:
  "\<exists>s' r. upsert_remote_attached 5 ''u'' ''loki'' (Some ''/dev/b'') (Some ''0d28:0204'')
        \<lparr>st_devices = [fresh_device ''u'' None (Some ''/dev/a'') (Some ''0d28:0204'') 1], st_peers = [], st_names = []\<rparr>
      = Inr (s', r) \<and> dv_host r = None"
  using local_ownership_wins [of 5 "''u''" "''loki''" "Some ''/dev/b''" "Some ''0d28:0204''"
      "\<lparr>st_devices = [fresh_device ''u'' None (Some ''/dev/a'') (Some ''0d28:0204'') 1], st_peers = [], st_names = []\<rparr>"]
  by (auto simp: get_def row_get_def fresh_device_def)

text \<open>A scan that finds a known board again keeps everything learned about it (announcement fields, chip
  identity, flash count, first-seen time), and a probe is due afterwards exactly when the board is
  new, was disconnected, or had never been probed: a registry restart does not re-probe the bench.\<close>

theorem reattach_keeps_identity:
  assumes "get s uid = Some d"
  shows "\<exists>s' r. upsert_attached now uid port vp s = Inr (s', r) \<and> get s' uid = Some r
     \<and> (dv_role r, dv_common_name r, dv_device_name r, dv_serial_payload r, dv_raw_announcement r)
         = (dv_role d, dv_common_name d, dv_device_name d, dv_serial_payload d, dv_raw_announcement d)
     \<and> (dv_chip_identity_name r, dv_chip_identity_serial r, dv_flash_count r, dv_first_seen r)
         = (dv_chip_identity_name d, dv_chip_identity_serial d, dv_flash_count d, dv_first_seen d)
     \<and> dv_port r = Some port \<and> dv_host r = None \<and> dv_state r \<noteq> STATE_DISCONNECTED
     \<and> needs_probe s' uid = Inr (dv_state d = STATE_DISCONNECTED \<or> dv_last_probe d = 0)"
proof -
  obtain s' where s': "upsert_device now uid None (Some port) (Some vp) s
        = Inr (s', upsert_row now uid None (Some port) (Some vp) (get s uid))"
      "get s' = (get s)(uid \<mapsto> upsert_row now uid None (Some port) (Some vp) (get s uid))"
    by (rule upsert_device_eq [of now uid None "Some port" "Some vp" s]) blast
  show ?thesis
    unfolding upsert_attached_def
    by (rule exI [of _ s'], rule exI, rule conjI, rule s'(1))
      (auto simp: s'(2) assms upsert_row_def needs_probe_def)
qed

theorem reattach_keeps_identity_witness:
  "\<exists>s' r. upsert_attached 9 ''u'' ''/dev/b'' ''0d28:0204''
        \<lparr>st_devices = [(virtual_device ''u'' ''tovez'' ''ROBOT'' ''1'' 4)\<lparr>dv_state := STATE_DISCONNECTED\<rparr>],
         st_peers = [], st_names = []\<rparr> = Inr (s', r)
      \<and> dv_device_name r = Some ''tovez'' \<and> needs_probe s' ''u'' = Inr True"
  using reattach_keeps_identity [of "\<lparr>st_devices = [(virtual_device ''u'' ''tovez'' ''ROBOT'' ''1'' 4)
        \<lparr>dv_state := STATE_DISCONNECTED\<rparr>], st_peers = [], st_names = []\<rparr>" "''u''"
      "(virtual_device ''u'' ''tovez'' ''ROBOT'' ''1'' 4)\<lparr>dv_state := STATE_DISCONNECTED\<rparr>"
      9 "''/dev/b''" "''0d28:0204''"]
  by (fastforce simp: get_def row_get_def virtual_device_def)

lemma purge_facts:
  assumes "devices_unique s" and "purge uids hosts s = (s', removed, removed_peers)"
  shows "(\<forall>u. get s' u = (case get s u of None \<Rightarrow> None
                | Some d \<Rightarrow> if u \<in> set uids \<and> purgeable s d then None else Some d))
     \<and> set removed = {u \<in> set uids. \<exists>d. get s u = Some d \<and> purgeable s d} \<and> distinct removed
     \<and> st_peers s' = filter (\<lambda>p. \<not> (pe_host p \<in> set hosts \<and> \<not> pe_reachable p)) (st_peers s)
     \<and> set removed_peers = {h \<in> set hosts. \<exists>p\<in>set (st_peers s). pe_host p = h \<and> \<not> pe_reachable p}
     \<and> st_names s' = st_names s"
proof -
  define keep where "keep d = (\<not> (dv_uid d \<in> set uids \<and> purgeable s d))" for d
  have s': "s' = s\<lparr>st_devices := filter keep (st_devices s),
       st_peers := filter (\<lambda>p. \<not> (pe_host p \<in> set hosts \<and> \<not> pe_reachable p)) (st_peers s)\<rparr>"
    and r: "removed = snd (purge_devices uids s [])"
    and rp: "removed_peers = snd (purge_peers hosts (fst (purge_devices uids s [])) [])"
    using assms(2) by (simp_all add: purge_eq keep_def [abs_def])
  have hp: "has_purgeable s u \<longleftrightarrow> (\<exists>d. get s u = Some d \<and> purgeable s d)" for u
    using devices_get [OF assms(1)] get_in_devices [of s u] by (auto simp: has_purgeable_def)
  have "get s' = get (s\<lparr>st_devices := filter keep (st_devices s)\<rparr>)"
    by (rule get_devices_cong) (simp add: s')
  then have g: "get s' u = (case get s u of None \<Rightarrow> None | Some d \<Rightarrow> if keep d then Some d else None)" for u
    by (simp only: get_filter [OF assms(1)])
  have k: "get s u = Some d \<Longrightarrow> keep d \<longleftrightarrow> \<not> (u \<in> set uids \<and> purgeable s d)" for u d
    using get_in_devices [of s u d] by (auto simp: keep_def)
  have "get s' u = (case get s u of None \<Rightarrow> None
      | Some d \<Rightarrow> if u \<in> set uids \<and> purgeable s d then None else Some d)" for u
    using k by (simp add: g split: option.split)
  moreover have "set removed = {u \<in> set uids. \<exists>d. get s u = Some d \<and> purgeable s d}"
    by (simp add: r purge_devices_removed hp)
  moreover have "distinct removed" using purge_devices_distinct [of "[]" s uids] by (simp add: r)
  moreover have "set removed_peers = {h \<in> set hosts. \<exists>p\<in>set (st_peers s). pe_host p = h \<and> \<not> pe_reachable p}"
    by (simp add: rp purge_peers_removed purge_devices_store)
  ultimately show ?thesis by (simp add: s')
qed

text \<open>C3: \<open>purge\<close> re-checks every uid and host against the tables as they are now. Whatever collections it
  is handed, it removes exactly the named rows that are disconnected or owned by an unreachable peer
  and exactly the named unreachable peers, reports each removed uid once, and never touches the name
  registry: a board that came back or a peer that reconnected since the candidates were computed stays.\<close>

theorem purge_is_exact:
  assumes "devices_unique s" and "purge uids hosts s = (s', removed, removed_peers)"
  shows "(\<forall>u. get s' u = (case get s u of None \<Rightarrow> None
                | Some d \<Rightarrow> if u \<in> set uids \<and> purgeable s d then None else Some d))
     \<and> set removed = {u \<in> set uids. \<exists>d. get s u = Some d \<and> purgeable s d} \<and> distinct removed
     \<and> st_peers s' = filter (\<lambda>p. \<not> (pe_host p \<in> set hosts \<and> \<not> pe_reachable p)) (st_peers s)
     \<and> set removed_peers = {h \<in> set hosts. \<exists>p\<in>set (st_peers s). pe_host p = h \<and> \<not> pe_reachable p}
     \<and> st_names s' = st_names s"
  by (rule purge_facts [OF assms])

theorem purge_is_exact_witness:
  "\<exists>s' r rp. purge [''aa'', ''bb''] [''loki''] demo_store = (s', r, rp)
      \<and> get s' ''aa'' = Some (demo_device ''aa'' None) \<and> get s' ''bb'' = None
      \<and> set r = {''bb''} \<and> set rp = {''loki''}"
proof -
  obtain s' r rp where p: "purge [''aa'', ''bb''] [''loki''] demo_store = (s', r, rp)"
    by (metis prod_cases3)
  have a: "\<not> purgeable demo_store (demo_device ''aa'' None)"
    "purgeable demo_store (demo_device ''bb'' (Some ''loki''))"
    by (simp_all add: purgeable_def host_in_peers_def demo_device_def demo_store_def fresh_device_def)
  have ps: "st_peers demo_store = [\<lparr>pe_host = ''loki'', pe_endpoint = ''loki:7440'', pe_last_seen = 2,
      pe_reachable = False\<rparr>]" by (simp add: demo_store_def)
  note x = purge_is_exact [OF demo_unique p]
  have "get s' ''aa'' = Some (demo_device ''aa'' None)" "get s' ''bb'' = None"
    using x [THEN conjunct1, rule_format, of "''aa''"] x [THEN conjunct1, rule_format, of "''bb''"] a
    by (simp_all add: demo_get)
  moreover have r: "set r = {u \<in> set [''aa'', ''bb'']. \<exists>d. get demo_store u = Some d \<and> purgeable demo_store d}"
    and rp: "set rp = {h \<in> set [''loki'']. \<exists>p\<in>set (st_peers demo_store). pe_host p = h \<and> \<not> pe_reachable p}"
    using x by blast+
  have "set rp = {''loki''}" unfolding rp ps by auto
  moreover have "\<exists>d. get demo_store ''bb'' = Some d \<and> purgeable demo_store d"
    "\<not> (\<exists>d. get demo_store ''aa'' = Some d \<and> purgeable demo_store d)"
    using a by (simp_all add: demo_get)
  then have "set r = {''bb''}" unfolding r set_filter [symmetric] by (simp del: ex_simps)
  ultimately have "get s' ''aa'' = Some (demo_device ''aa'' None) \<and> get s' ''bb'' = None
      \<and> set r = {''bb''} \<and> set rp = {''loki''}" by blast
  with p show ?thesis by (intro exI [of _ s'] exI [of _ r] exI [of _ rp] conjI) simp_all
qed

text \<open>Purging the candidates leaves no candidates: afterwards no row is a disconnected local board,
  no row belongs to an unreachable peer, and no unreachable peer is left.\<close>

theorem purge_candidates_complete:
  assumes "devices_unique s"
    and "s' = fst (purge (device_uids (candidates_for_purge s)) (pc_unreachable_peers (candidates_for_purge s)) s)"
  shows "device_uids (candidates_for_purge s') = [] \<and> pc_unreachable_peers (candidates_for_purge s') = []"
proof -
  let ?uids = "device_uids (candidates_for_purge s)" and ?hosts = "pc_unreachable_peers (candidates_for_purge s)"
  have ds: "st_devices s' = filter (\<lambda>d. \<not> (dv_uid d \<in> set ?uids \<and> purgeable s d)) (st_devices s)"
    and ps: "st_peers s' = filter (\<lambda>p. \<not> (pe_host p \<in> set ?hosts \<and> \<not> pe_reachable p)) (st_peers s)"
    using assms(2) by (simp_all add: purge_eq)
  have all: "\<forall>p\<in>set (st_peers s'). pe_reachable p"
    unfolding ps by (auto simp: candidates_for_purge_def)
  then have nf: "\<not> host_in_peers False s' h" for h by (auto simp: host_in_peers_def split: option.split)
  have t: "host_in_peers True s' h \<Longrightarrow> host_in_peers True s h" for h
    by (auto simp: host_in_peers_def ps split: option.splits)
  have dead: "\<not> (dv_host d = None \<and> dv_state d = STATE_DISCONNECTED)"
    "\<not> (dv_host d \<noteq> None \<and> dv_state d = STATE_DISCONNECTED \<and> host_in_peers True s' (dv_host d))"
    if "d \<in> set (st_devices s')" for d
    using that t [of "dv_host d"]
    by (auto simp: ds purgeable_def device_uids_def candidates_for_purge_def)
  show ?thesis
    using all dead nf by (auto simp: device_uids_def candidates_for_purge_def filter_empty_conv)
qed

theorem purge_candidates_complete_witness:
  "device_uids (candidates_for_purge demo_store) = [''bb'']
   \<and> device_uids (candidates_for_purge (fst (purge (device_uids (candidates_for_purge demo_store))
        (pc_unreachable_peers (candidates_for_purge demo_store)) demo_store))) = []"
  using purge_candidates_complete [OF demo_unique refl]
  by (simp add: device_uids_def candidates_for_purge_def demo_store_def demo_device_def fresh_device_def
      host_in_peers_def)

text \<open>A plain name (no \<open>@\<close>, not a uid or short uid) never resolves to a guess between hosts: \<open>find\<close>
  answers nothing exactly when no row has the name, raises \<open>AmbiguousNameError\<close> exactly when rows of
  two different hosts have it, listing each such host once, and otherwise returns a row with that name.
  A remote host from the list always disambiguates: \<open>name@host\<close> then finds a row of that name there.\<close>

theorem find_never_guesses:
  assumes "CHR ''@'' \<notin> set token"
    and "\<forall>d\<in>set (st_devices s). dv_uid d \<noteq> token \<and> dv_short_uid d \<noteq> token"
  shows "(find_device s token = Inr None \<longleftrightarrow> named s token = [])
     \<and> ((\<exists>hs. find_device s token = Inl (AmbiguousNameError hs))
          \<longleftrightarrow> (\<exists>a\<in>set (named s token). \<exists>b\<in>set (named s token). host_key (dv_host a) \<noteq> host_key (dv_host b)))
     \<and> (\<forall>d. find_device s token = Inr (Some d) \<longrightarrow> d \<in> set (named s token))
     \<and> (\<forall>hs. find_device s token = Inl (AmbiguousNameError hs) \<longrightarrow>
          distinct (map host_key hs) \<and> set (map host_key hs) = host_key ` dv_host ` set (named s token)
          \<and> (\<forall>h. Some h \<in> set hs \<and> CHR ''@'' \<notin> set h \<longrightarrow>
               (\<exists>d\<in>set (named s token). find_device s (token @ CHR ''@'' # h) = Inr (Some d)
                  \<and> nocase_eq (dv_host d) h)))"
proof -
  note f = find_device_name [OF assms]
  let ?amb = "1 < length (remdups (map host_key (map dv_host (named s token))))"
  have amb: "?amb \<longleftrightarrow> (\<exists>a\<in>set (named s token). \<exists>b\<in>set (named s token).
      host_key (dv_host a) \<noteq> host_key (dv_host b))"
    unfolding length_remdups_gt_1 by auto
  have one: "(find_device s token = Inr None \<longleftrightarrow> named s token = [])
     \<and> ((\<exists>hs. find_device s token = Inl (AmbiguousNameError hs)) \<longleftrightarrow> ?amb)
     \<and> (\<forall>d. find_device s token = Inr (Some d) \<longrightarrow> d \<in> set (named s token))"
    unfolding f by (cases "named s token") auto
  have disamb: "\<exists>d\<in>set (named s token). find_device s (token @ CHR ''@'' # h) = Inr (Some d)
      \<and> nocase_eq (dv_host d) h"
    if h: "Some h \<in> dv_host ` set (named s token)" and at: "CHR ''@'' \<notin> set h" for h
  proof -
    let ?P = "\<lambda>d. nocase_eq (dv_device_name d) token \<and> nocase_eq (dv_host d) h"
    obtain e where "e \<in> set (st_devices s)" "?P e"
      using h by (auto simp: named_def nocase_eq_def image_iff dest: sym)
    then obtain d where d: "find ?P (st_devices s) = Some d"
      by (cases "find ?P (st_devices s)") (auto simp: find_None_iff)
    then have "d \<in> set (st_devices s)" "?P d" by (auto simp: find_Some_iff)
    with d show ?thesis by (auto simp: find_device_at_host [OF at] named_def)
  qed
  obtain new where new: "unique_hosts_loop (map dv_host (named s token)) [] [] = new"
      "set new \<subseteq> dv_host ` set (named s token)" "distinct (map host_key new)"
      "set (map host_key new) = host_key ` dv_host ` set (named s token)"
    using unique_hosts_loop_eq [of "map dv_host (named s token)" "[]" "[]"] by auto
  have two: "hs = new" if "find_device s token = Inl (AmbiguousNameError hs)" for hs
    using that unfolding f new(1) by (simp split: if_splits)
  show ?thesis using one amb two new(2-4) disamb by blast
qed

theorem find_never_guesses_witness:
  "find_device demo_store ''TOVEZ'' = Inl (AmbiguousNameError [None, Some ''loki''])
   \<and> (\<exists>d. find_device demo_store (''TOVEZ'' @ CHR ''@'' # ''loki'') = Inr (Some d))"
proof -
  have h: "CHR ''@'' \<notin> set ''TOVEZ''"
    "\<forall>d\<in>set (st_devices demo_store). dv_uid d \<noteq> ''TOVEZ'' \<and> dv_short_uid d \<noteq> ''TOVEZ''"
    by (simp_all add: demo_store_def demo_device_def fresh_device_def short_uid_def)
  have lo: "str_lower ''TOVEZ'' = ''tovez''" "str_lower ''tovez'' = ''tovez''" by code_simp+
  have e: "find_device demo_store ''TOVEZ'' = Inl (AmbiguousNameError [None, Some ''loki''])"
    unfolding find_device_name [OF h]
    by (simp add: named_def demo_store_def demo_device_def fresh_device_def nocase_eq_def lo host_key_def)
  show ?thesis using find_never_guesses [OF h] e by auto
qed

end
