(* ===== verification/MB_NameRegistry.thy ===== *)
theory MB_NameRegistry
  imports MB_Store MB_Naming "HOL-Library.Char_ord" "HOL-Library.List_Lexorder" "HOL-Library.Multiset"
begin

text \<open>
  The name registry of the class \<open>Store\<close> in \<open>src/mbtools/registry/store.py\<close>: the table that maps a
  five-letter name to a radio channel and group, either derived from the name (\<open>resolve\<close> writes such a
  row on first use) or overridden (\<open>set\<close>), with the reverse map \<open>name_for\<close> and the two conflict
  reports. \<open>ORDER BY name\<close> is the binary collation, the lexicographic order on strings.
\<close>

definition get_name_row :: "store \<Rightarrow> string \<Rightarrow> name_entry option" where
  "get_name_row s name = row_get en_name (st_names s) name"

definition row_to_entry :: "string \<Rightarrow> int \<Rightarrow> int \<Rightarrow> string \<Rightarrow> real \<Rightarrow> name_entry" where
  "row_to_entry name channel grp source updated =
     \<lparr>en_name = name, en_channel = channel, en_group = grp, en_source = source, en_updated = updated,
      en_conflict = [], en_channel_conflict = []\<rparr>"

definition insert_name :: "name_entry \<Rightarrow> store \<Rightarrow> store" where
  "insert_name e s = s\<lparr>st_names := st_names s @ [e]\<rparr>"

definition update_name :: "string \<Rightarrow> (name_entry \<Rightarrow> name_entry) \<Rightarrow> store \<Rightarrow> store" where
  "update_name name f s = s\<lparr>st_names := row_upd en_name name f (st_names s)\<rparr>"

definition delete_name :: "string \<Rightarrow> store \<Rightarrow> store" where
  "delete_name name s = s\<lparr>st_names := row_del en_name name (st_names s)\<rparr>"

definition reread_name :: "store \<Rightarrow> string \<Rightarrow> (store \<times> name_entry) result" where
  "reread_name s name = (case get_name_row s name of None \<Rightarrow> Inl AssertionError | Some e \<Rightarrow> Inr (s, e))"

definition resolve :: "real \<Rightarrow> string \<Rightarrow> store \<Rightarrow> (store \<times> name_entry) result" where
  "resolve now nm s =
     (case validate nm of Inl e \<Rightarrow> Inl e | Inr name \<Rightarrow>
       (case get_name_row s name of
          Some existing \<Rightarrow> Inr (s, existing)
        | None \<Rightarrow>
          (case name_to_radio name of Inl e \<Rightarrow> Inl e | Inr (channel, grp) \<Rightarrow>
             reread_name (insert_name (row_to_entry name channel grp SOURCE_DERIVED now) s) name)))"

definition get_name :: "string \<Rightarrow> store \<Rightarrow> name_entry option result" where
  "get_name nm s = (case validate nm of Inl e \<Rightarrow> Inl e | Inr name \<Rightarrow> Inr (get_name_row s name))"

definition set_name :: "real \<Rightarrow> string \<Rightarrow> int \<Rightarrow> int \<Rightarrow> store \<Rightarrow> (store \<times> name_entry) result" where
  "set_name now nm channel grp s =
     (case validate nm of Inl e \<Rightarrow> Inl e | Inr name \<Rightarrow>
        reread_name
          (if get_name_row s name = None
           then insert_name (row_to_entry name channel grp SOURCE_REGISTRY now) s
           else update_name name (\<lambda>e. e\<lparr>en_channel := channel, en_group := grp,
                  en_source := SOURCE_REGISTRY, en_updated := now\<rparr>) s) name)"

definition clear_name :: "string \<Rightarrow> store \<Rightarrow> store result" where
  "clear_name nm s = (case validate nm of Inl e \<Rightarrow> Inl e | Inr name \<Rightarrow> Inr (delete_name name s))"

definition name_for :: "int \<Rightarrow> int \<Rightarrow> store \<Rightarrow> string option" where
  "name_for channel grp s =
     (case find (\<lambda>e. en_channel e = channel \<and> en_group e = grp \<and> en_source e = SOURCE_REGISTRY) (st_names s) of
        Some row \<Rightarrow> Some (en_name row)
      | None \<Rightarrow>
        (case radio_to_name channel grp of
           Inl _ \<Rightarrow> None
         | Inr derived_name \<Rightarrow>
           (case get_name_row s derived_name of
              Some moved \<Rightarrow> if (en_channel moved, en_group moved) \<noteq> (channel, grp) then None
                            else Some derived_name
            | None \<Rightarrow> Some derived_name)))"

definition all_name_entries :: "store \<Rightarrow> name_entry list" where
  "all_name_entries s = sort_key en_name (st_names s)"

text \<open>\<open>d.setdefault(k, []).append(v)\<close>.\<close>

definition dict_append :: "'k \<Rightarrow> 'v \<Rightarrow> ('k, 'v list) dict \<Rightarrow> ('k, 'v list) dict" where
  "dict_append k v d = dset k ((case dget d k of None \<Rightarrow> [] | Some vs \<Rightarrow> vs) @ [v]) d"

definition conflicts_of :: "name_entry list \<Rightarrow> (int \<times> int, string list) dict" where
  "conflicts_of entries =
     filter (\<lambda>(pair, names). 1 < length names)
       (fold (\<lambda>e seen. dict_append (en_channel e, en_group e) (en_name e) seen) entries [])"

definition conflicts :: "store \<Rightarrow> (int \<times> int, string list) dict" where
  "conflicts s = conflicts_of (all_name_entries s)"

text \<open>\<open>groups[ch]\<close> is a set: its size is the number of distinct members.\<close>

definition channel_conflicts_of :: "name_entry list \<Rightarrow> (int, string list) dict" where
  "channel_conflicts_of entries =
     (let names = fold (\<lambda>e d. dict_append (en_channel e) (en_name e) d) entries [];
          grps = fold (\<lambda>e d. dict_append (en_channel e) (en_group e) d) entries []
      in filter (\<lambda>(ch, ns). case dget grps ch of None \<Rightarrow> False
                             | Some gs \<Rightarrow> 1 < length (remdups gs)) names)"

definition channel_conflicts :: "store \<Rightarrow> (int, string list) dict" where
  "channel_conflicts s = channel_conflicts_of (all_name_entries s)"

definition annotate :: "name_entry list \<Rightarrow> name_entry \<Rightarrow> name_entry" where
  "annotate entries entry =
     (let others = filter (\<lambda>e. en_channel e = en_channel entry \<and> en_name e \<noteq> en_name entry) entries;
          same_link = map en_name (filter (\<lambda>e. en_group e = en_group entry) others);
          same_channel = map en_name (filter (\<lambda>e. en_group e \<noteq> en_group entry) others)
      in entry\<lparr>en_conflict := same_link, en_channel_conflict := same_channel\<rparr>)"

definition listing :: "store \<Rightarrow> name_entry list" where
  "listing s = (let entries = all_name_entries s in map (annotate entries) entries)"

subsection \<open>The table keeps its contract\<close>

definition names_unique :: "store \<Rightarrow> bool" where
  "names_unique s \<longleftrightarrow> unique_key en_name (st_names s)"

lemmas name_table_defs = get_name_row_def insert_name_def update_name_def delete_name_def names_unique_def

lemma names_unique_fun:
  "get_name_row = (\<lambda>s. row_get en_name (st_names s))" "insert_name = (\<lambda>r s. s\<lparr>st_names := st_names s @ [r]\<rparr>)"
  "update_name = (\<lambda>k f s. s\<lparr>st_names := row_upd en_name k f (st_names s)\<rparr>)"
  "delete_name = (\<lambda>k s. s\<lparr>st_names := row_del en_name k (st_names s)\<rparr>)"
  "names_unique = (\<lambda>s. unique_key en_name (st_names s))"
  by (intro ext, simp add: name_table_defs)+

interpretation nam: keyed_rows get_name_row en_name insert_name update_name delete_name names_unique
proof -
  have "keyed_rows (\<lambda>s. row_get en_name (st_names s)) en_name
      (\<lambda>r s. s\<lparr>st_names := st_names s @ [r]\<rparr>)
      (\<lambda>k f s. s\<lparr>st_names := row_upd en_name k f (st_names s)\<rparr>)
      (\<lambda>k s. s\<lparr>st_names := row_del en_name k (st_names s)\<rparr>) (\<lambda>s. unique_key en_name (st_names s))"
    using keyed_rows_via [of st_names "\<lambda>f s. s\<lparr>st_names := f (st_names s)\<rparr>" en_name] by simp
  then show "keyed_rows get_name_row en_name insert_name update_name delete_name names_unique"
    by (simp only: names_unique_fun)
qed

lemma name_table_frame [simp]:
  "st_peers (update_name n f s) = st_peers s" "st_devices (update_name n f s) = st_devices s"
  "st_peers (insert_name e s) = st_peers s" "st_devices (insert_name e s) = st_devices s"
  "st_peers (delete_name n s) = st_peers s" "st_devices (delete_name n s) = st_devices s"
  by (simp_all add: name_table_defs)

lemma name_row_in: "get_name_row s n = Some e \<Longrightarrow> e \<in> set (st_names s) \<and> en_name e = n"
  unfolding get_name_row_def by (rule row_get_Some)

lemma in_name_row: "names_unique s \<Longrightarrow> e \<in> set (st_names s) \<Longrightarrow> get_name_row s (en_name e) = Some e"
  unfolding get_name_row_def names_unique_def by (rule row_get_in)

definition entry_ok :: "name_entry \<Rightarrow> bool" where
  "entry_ok e \<longleftrightarrow> five_letters (en_name e)
     \<and> (en_source e = SOURCE_REGISTRY
        \<or> en_source e = SOURCE_DERIVED \<and> name_to_radio (en_name e) = Inr (en_channel e, en_group e))"

definition names_ok :: "store \<Rightarrow> bool" where
  "names_ok s \<longleftrightarrow> names_unique s \<and> (\<forall>e\<in>set (st_names s). entry_ok e)"

lemma names_ok_get:
  "names_ok s \<longleftrightarrow> names_unique s \<and> (\<forall>n e. get_name_row s n = Some e \<longrightarrow> entry_ok e)"
  using name_row_in in_name_row unfolding names_ok_def by metis

lemma names_ok_empty [simp]: "names_ok empty_store"
  by (simp add: names_ok_def names_unique_def empty_store_def)

subsection \<open>What each operation computes\<close>

lemma validate_normal: "validate nm = Inr name \<Longrightarrow> five_letters name"
  unfolding validate_Inr by blast

lemma resolve_eq:
  "resolve now nm s =
     (case validate nm of Inl e \<Rightarrow> Inl e | Inr name \<Rightarrow>
        (case get_name_row s name of Some e \<Rightarrow> Inr (s, e) | None \<Rightarrow>
          (case name_to_radio name of Inl e \<Rightarrow> Inl e | Inr (c, g) \<Rightarrow>
             let e = row_to_entry name c g SOURCE_DERIVED now in Inr (insert_name e s, e))))"
proof -
  have "get_name_row (insert_name (row_to_entry n c g src t) s) n = Some (row_to_entry n c g src t)"
    if "get_name_row s n = None" for n c g src t
    using nam.get_ins [of s "row_to_entry n c g src t"] that by (simp add: row_to_entry_def)
  then show ?thesis
    by (auto simp: resolve_def reread_name_def Let_def split: sum.split option.split prod.split)
qed

lemma set_name_eq:
  assumes "validate nm = Inr name"
  obtains s' e where "set_name now nm c g s = Inr (s', e)"
    and "get_name_row s' = (get_name_row s)(name \<mapsto> e)"
    and "en_name e = name" "en_channel e = c" "en_group e = g" "en_source e = SOURCE_REGISTRY"
    and "st_devices s' = st_devices s" "st_peers s' = st_peers s"
    and "names_unique s \<Longrightarrow> names_unique s'"
proof -
  let ?f = "\<lambda>e. e\<lparr>en_channel := c, en_group := g, en_source := SOURCE_REGISTRY, en_updated := now\<rparr>"
  let ?e = "row_to_entry name c g SOURCE_REGISTRY now"
  let ?s = "if get_name_row s name = None then insert_name ?e s else update_name name ?f s"
  let ?r = "case get_name_row s name of None \<Rightarrow> ?e | Some x \<Rightarrow> ?f x"
  have g: "get_name_row ?s = (get_name_row s)(name \<mapsto> ?r)"
    by (rule nam.get_upsert) (simp_all add: row_to_entry_def)
  show ?thesis
  proof (rule that [of ?s ?r, OF _ g])
    show "set_name now nm c g s = Inr (?s, ?r)"
      by (simp only: set_name_def assms sum.case reread_name_def g fun_upd_same option.case)
    show "names_unique s \<Longrightarrow> names_unique ?s"
      by (rule nam.wf_upsert) (simp_all add: row_to_entry_def)
    show "en_name ?r = name"
      using name_row_in [of s name] by (auto simp: row_to_entry_def split: option.split)
  qed (simp_all add: row_to_entry_def split: option.split)
qed

lemma resolve_ok:
  assumes "names_ok s" and "resolve now nm s = Inr (s', e)"
  shows "names_ok s' \<and> st_devices s' = st_devices s \<and> st_peers s' = st_peers s"
proof -
  obtain name where name: "validate nm = Inr name" using assms(2) by (auto simp: resolve_eq split: sum.splits)
  show ?thesis
  proof (cases "get_name_row s name")
    case (Some x)
    then show ?thesis using assms name by (auto simp: resolve_eq)
  next
    case None
    then obtain c g where cg: "name_to_radio name = Inr (c, g)" "e = row_to_entry name c g SOURCE_DERIVED now"
        "s' = insert_name e s"
      using assms name by (auto simp: resolve_eq Let_def split: sum.splits)
    have e: "en_name e = name" "entry_ok e"
      using cg validate_normal [OF name] by (simp_all add: row_to_entry_def entry_ok_def)
    have "get_name_row s' = (get_name_row s)(name \<mapsto> e)" "names_unique s'"
      using None cg(3) e(1) assms(1) nam.get_ins [of s e] nam.wf_ins [of s e] by (simp_all add: names_ok_def)
    then show ?thesis using assms(1) e cg(3) by (auto simp: names_ok_get)
  qed
qed

lemma set_name_ok:
  assumes "names_ok s" and "set_name now nm c g s = Inr (s', e)"
  shows "names_ok s' \<and> st_devices s' = st_devices s \<and> st_peers s' = st_peers s"
proof -
  obtain name where name: "validate nm = Inr name" using assms(2) by (auto simp: set_name_def split: sum.splits)
  obtain s1 e1 where s1: "set_name now nm c g s = Inr (s1, e1)"
      "get_name_row s1 = (get_name_row s)(name \<mapsto> e1)" "en_name e1 = name" "en_source e1 = SOURCE_REGISTRY"
      "st_devices s1 = st_devices s" "st_peers s1 = st_peers s" "names_unique s \<Longrightarrow> names_unique s1"
    by (rule set_name_eq [OF name, of now c g s]) blast
  have "entry_ok e1" using s1 validate_normal [OF name] by (simp add: entry_ok_def)
  then have "names_ok s1" using assms(1) s1(2,7) by (auto simp: names_ok_get)
  then show ?thesis using s1 assms(2) by simp
qed

lemma clear_name_ok:
  assumes "names_ok s" and "clear_name nm s = Inr s'"
  shows "names_ok s' \<and> st_devices s' = st_devices s \<and> st_peers s' = st_peers s"
proof -
  obtain name where s': "s' = delete_name name s"
    using assms(2) by (auto simp: clear_name_def split: sum.splits)
  show ?thesis
    using assms(1) nam.wf_del [of s name] nam.get_del [of name s] by (auto simp: s' names_ok_get)
qed

subsection \<open>Grouping into a dictionary of lists\<close>

lemma dget_dict_append:
  "dget (dict_append k v d) j
     = (if j = k then Some ((case dget d k of None \<Rightarrow> [] | Some vs \<Rightarrow> vs) @ [v]) else dget d j)"
  by (simp add: dict_append_def)

lemma dget_fold_append:
  "dget (fold (\<lambda>x d. dict_append (k x) (v x) d) xs d) j
     = (if \<exists>x\<in>set xs. k x = j
        then Some ((case dget d j of None \<Rightarrow> [] | Some vs \<Rightarrow> vs) @ map v (filter (\<lambda>x. k x = j) xs))
        else dget d j)"
proof (induction xs arbitrary: d)
  case (Cons x xs)
  show ?case by (cases "k x = j"; cases "\<exists>y\<in>set xs. k y = j")
      (auto simp: Cons dget_dict_append filter_empty_conv)
qed simp

lemma dict_ok_fold_append: "dict_ok d \<Longrightarrow> dict_ok (fold (\<lambda>x d. dict_append (k x) (v x) d) xs d)"
  by (induction xs arbitrary: d) (simp_all add: dict_append_def)

lemma dict_ok_filter: "dict_ok d \<Longrightarrow> dict_ok (filter P d)"
  by (auto simp: dict_ok_def intro: distinct_map_filter)

lemma dget_filter: "dict_ok d \<Longrightarrow> dget (filter (\<lambda>(k, v). P k v) d) j
    = (case dget d j of None \<Rightarrow> None | Some v \<Rightarrow> if P j v then Some v else None)"
proof -
  assume d: "dict_ok d"
  let ?e = "filter (\<lambda>(k, v). P k v) d"
  have e: "dict_ok ?e" using d by (rule dict_ok_filter)
  have iff: "dget ?e j = Some v \<longleftrightarrow> dget d j = Some v \<and> P j v" for v
  proof
    assume "dget ?e j = Some v"
    then have "(j, v) \<in> set ?e" by (rule dget_Some_in)
    then show "dget d j = Some v \<and> P j v" using in_dget [OF d, of j v] by simp
  next
    assume a: "dget d j = Some v \<and> P j v"
    then have "(j, v) \<in> set ?e" using dget_Some_in [of d j v] by simp
    then show "dget ?e j = Some v" by (rule in_dget [OF e])
  qed
  show ?thesis
  proof (cases "dget ?e j")
    case None
    then have "\<not> (dget d j = Some v \<and> P j v)" for v using iff [of v] by simp
    then show ?thesis unfolding None by (simp split: option.split)
  next
    case (Some v)
    then show ?thesis using iff [of v] by simp
  qed
qed

lemma set_all_name_entries [simp]: "set (all_name_entries s) = set (st_names s)"
  by (simp add: all_name_entries_def)

lemma dget_conflicts_of:
  "dget (conflicts_of es) (c, g) =
     (let ns = map en_name (filter (\<lambda>e. (en_channel e, en_group e) = (c, g)) es)
      in if 1 < length ns then Some ns else None)"
proof -
  let ?d = "fold (\<lambda>e seen. dict_append (en_channel e, en_group e) (en_name e) seen) es []"
  have "dict_ok ?d" by (rule dict_ok_fold_append) simp
  then have "dget (conflicts_of es) (c, g) = (case dget ?d (c, g) of None \<Rightarrow> None
      | Some ns \<Rightarrow> if 1 < length ns then Some ns else None)"
    unfolding conflicts_of_def by (rule dget_filter)
  then show ?thesis
    by (auto simp: dget_fold_append Let_def filter_empty_conv filter_False)
qed

text \<open>The pair a name is on, without the write \<open>resolve\<close> makes on first use.\<close>

definition pair_of :: "store \<Rightarrow> string \<Rightarrow> (int \<times> int) option" where
  "pair_of s nm = (case resolve 0 nm s of Inl _ \<Rightarrow> None | Inr (_, e) \<Rightarrow> Some (en_channel e, en_group e))"

lemma pair_of_resolve:
  "pair_of s nm = Some (c, g) \<longleftrightarrow> (\<exists>s' e. resolve now nm s = Inr (s', e) \<and> en_channel e = c \<and> en_group e = g)"
  by (auto simp: pair_of_def resolve_eq Let_def row_to_entry_def split: sum.splits option.splits prod.splits)

lemma pair_of_eq:
  "five_letters n \<Longrightarrow> pair_of s n = (case get_name_row s n of Some e \<Rightarrow> Some (en_channel e, en_group e)
     | None \<Rightarrow> (case name_to_radio n of Inl _ \<Rightarrow> None | Inr p \<Rightarrow> Some p))"
  using validate_five [of n]
  by (auto simp: pair_of_def resolve_eq Let_def row_to_entry_def split: sum.split option.split prod.split)

lemma pair_of_normalize: "validate nm = Inr n \<Longrightarrow> pair_of s nm = pair_of s n"
  using validate_idem [of nm n] by (simp add: pair_of_def resolve_def)

lemma radio_to_name_five: "radio_to_name c g = Inr n \<Longrightarrow> five_letters n"
  by (erule radio_to_name_InrE) (rule encode_five_letters)

lemma name_for_sound:
  assumes "names_ok s" and "name_for c g s = Some n"
  shows "pair_of s n = Some (c, g)"
proof (cases "find (\<lambda>e. en_channel e = c \<and> en_group e = g \<and> en_source e = SOURCE_REGISTRY) (st_names s)")
  case (Some row)
  then have r: "row \<in> set (st_names s)" "en_channel row = c" "en_group row = g" by (auto simp: find_Some_iff)
  have n: "n = en_name row" using assms(2) Some by (simp add: name_for_def)
  have "five_letters n" using assms(1) r n by (simp add: names_ok_def entry_ok_def)
  moreover have "get_name_row s n = Some row" using assms(1) r n in_name_row by (simp add: names_ok_def)
  ultimately show ?thesis using r by (simp add: pair_of_eq)
next
  case None
  then have r: "radio_to_name c g = Inr n" "\<And>e. get_name_row s n = Some e \<Longrightarrow> (en_channel e, en_group e) = (c, g)"
    using assms(2) by (auto simp: name_for_def split: sum.splits option.splits if_splits)
  have "name_to_radio n = Inr (c, g)" using radio_codec.dec_enc [of "(c, g)" n] r(1) by simp
  then show ?thesis using r(2) pair_of_eq [OF radio_to_name_five [OF r(1)]] by (simp split: option.split)
qed

lemma name_for_complete:
  assumes "names_ok s" and "pair_of s nm = Some (c, g)"
  shows "name_for c g s \<noteq> None"
proof -
  obtain n where v: "validate nm = Inr n" using assms(2) by (auto simp: pair_of_def resolve_def split: sum.splits)
  have five: "five_letters n" using v by (rule validate_normal)
  have p: "pair_of s n = Some (c, g)" using assms(2) pair_of_normalize [OF v] by simp
  show ?thesis
  proof (cases "\<exists>e\<in>set (st_names s). en_channel e = c \<and> en_group e = g \<and> en_source e = SOURCE_REGISTRY")
    case True
    then have "find (\<lambda>e. en_channel e = c \<and> en_group e = g \<and> en_source e = SOURCE_REGISTRY) (st_names s) \<noteq> None"
      by (auto simp: find_None_iff)
    then show ?thesis by (auto simp: name_for_def split: option.split)
  next
    case False
    have rows: "(en_channel e, en_group e) = (c, g) \<and> name_to_radio n = Inr (c, g)"
      if "get_name_row s n = Some e" for e
      using that p five False assms(1) name_row_in [OF that]
      by (auto simp: pair_of_eq names_ok_def entry_ok_def)
    have "name_to_radio n = Inr (c, g)"
      using rows p five by (cases "get_name_row s n") (auto simp: pair_of_eq split: sum.splits)
    then have "radio_to_name c g = Inr n"
      using five_letters_normal [OF five] by (rule radio_to_name_of)
    then show ?thesis
      using rows by (auto simp: name_for_def split: option.split)
  qed
qed

lemma conflicts_iff:
  assumes "names_unique s"
  shows "(\<exists>ns. dget (conflicts s) (c, g) = Some ns) \<longleftrightarrow>
     (\<exists>a\<in>set (st_names s). \<exists>b\<in>set (st_names s). en_name a \<noteq> en_name b
        \<and> (en_channel a, en_group a) = (c, g) \<and> (en_channel b, en_group b) = (c, g))"
proof -
  let ?es = "filter (\<lambda>e. (en_channel e, en_group e) = (c, g)) (all_name_entries s)"
  have "mset (map en_name (all_name_entries s)) = mset (map en_name (st_names s))"
    by (simp add: all_name_entries_def)
  then have "distinct (map en_name (all_name_entries s))"
    using assms by (metis mset_eq_imp_distinct_iff names_unique_def unique_key_def)
  then have d: "distinct (map en_name ?es)" by (rule distinct_map_filter)
  then have "1 < length (map en_name ?es) \<longleftrightarrow> 1 < length (remdups (map en_name ?es))"
    by (simp only: distinct_remdups_id)
  also have "\<dots> \<longleftrightarrow> (\<exists>a\<in>set ?es. \<exists>b\<in>set ?es. en_name a \<noteq> en_name b)"
    unfolding length_remdups_gt_1 by auto
  finally have len: "1 < length (map en_name ?es) \<longleftrightarrow> (\<exists>a\<in>set ?es. \<exists>b\<in>set ?es. en_name a \<noteq> en_name b)" .
  have "(\<exists>ns. dget (conflicts s) (c, g) = Some ns) \<longleftrightarrow> 1 < length (map en_name ?es)"
    unfolding conflicts_def dget_conflicts_of Let_def by (simp split: if_split)
  then show ?thesis unfolding len set_filter set_all_name_entries by blast
qed

lemma annotate_facts:
  "en_name (annotate es e) = en_name e"
  "n \<in> set (en_conflict (annotate es e)) \<longleftrightarrow> (\<exists>f\<in>set es. en_name f = n \<and> en_name f \<noteq> en_name e
      \<and> en_channel f = en_channel e \<and> en_group f = en_group e)"
  "n \<in> set (en_channel_conflict (annotate es e)) \<longleftrightarrow> (\<exists>f\<in>set es. en_name f = n \<and> en_name f \<noteq> en_name e
      \<and> en_channel f = en_channel e \<and> en_group f \<noteq> en_group e)"
  by (auto simp: annotate_def Let_def)

lemma derived_row: "names_ok s \<Longrightarrow> e \<in> set (st_names s) \<Longrightarrow> en_source e = SOURCE_DERIVED \<Longrightarrow>
    name_to_radio (en_name e) = Inr (en_channel e, en_group e) \<and> normalize (en_name e) = en_name e"
  by (auto simp: names_ok_def entry_ok_def five_letters_normal)

lemma derived_rows_apart:
  assumes "names_ok s" and "a \<in> set (st_names s)" "b \<in> set (st_names s)"
    and "en_source a = SOURCE_DERIVED" "en_source b = SOURCE_DERIVED"
    and "(en_channel a, en_group a) = (en_channel b, en_group b)"
  shows "en_name a = en_name b"
proof -
  have "radio_to_name (en_channel a) (en_group a) = Inr (en_name a)"
    "radio_to_name (en_channel b) (en_group b) = Inr (en_name b)"
    using derived_row assms by (blast intro: radio_to_name_of)+
  with assms(6) show ?thesis by simp
qed

subsection \<open>Properties\<close>

text \<open>C4: \<open>name_for\<close> is the inverse of \<open>resolve\<close> on every registry, overrides included: the name it answers
  for a channel and group resolves to that pair, and it answers nothing exactly when no name does.\<close>

theorem name_for_inverts_resolve:
  assumes "names_ok s"
  shows "(\<forall>n. name_for c g s = Some n \<longrightarrow>
            (\<exists>s' e. resolve now n s = Inr (s', e) \<and> en_channel e = c \<and> en_group e = g))
     \<and> (name_for c g s = None \<longleftrightarrow>
            \<not> (\<exists>nm s' e. resolve now nm s = Inr (s', e) \<and> en_channel e = c \<and> en_group e = g))"
proof -
  have "name_for c g s = None \<longleftrightarrow> \<not> (\<exists>nm. pair_of s nm = Some (c, g))"
    using name_for_sound [OF assms, of c g] name_for_complete [OF assms, of _ c g]
    by (cases "name_for c g s") auto
  then show ?thesis using name_for_sound [OF assms, of c g] by (simp add: pair_of_resolve [where now = now])
qed

theorem name_for_inverts_resolve_witness:
  "name_for 20 82 empty_store = Some ''vevov''
   \<and> (\<exists>s' e. resolve 7 ''vevov'' empty_store = Inr (s', e) \<and> en_channel e = 20 \<and> en_group e = 82)"
proof -
  have "radio_to_name 20 82 = Inr ''vevov''" by code_simp
  then have "name_for 20 82 empty_store = Some ''vevov''"
    by (simp add: name_for_def empty_store_def get_name_row_def row_get_def)
  with name_for_inverts_resolve [OF names_ok_empty] show ?thesis by blast
qed

text \<open>The override contract. After \<open>set\<close> a name resolves to the pair it was given, in any spelling and
  without a further write; after \<open>clear\<close> it resolves to its derived pair again; both leave every other
  name's row alone and refuse a malformed name with \<open>ValueError\<close>, changing nothing.\<close>

theorem override_contract:
  "(case validate nm of
      Inl e \<Rightarrow> e = ValueError \<and> set_name now nm c g s = Inl ValueError \<and> clear_name nm s = Inl ValueError
              \<and> resolve now nm s = Inl ValueError
    | Inr name \<Rightarrow>
        (\<exists>s' e. set_name now nm c g s = Inr (s', e) \<and> en_channel e = c \<and> en_group e = g
            \<and> en_source e = SOURCE_REGISTRY \<and> resolve later name s' = Inr (s', e) \<and> resolve later nm s' = Inr (s', e)
            \<and> (\<forall>n. n \<noteq> name \<longrightarrow> get_name_row s' n = get_name_row s n))
      \<and> (\<exists>s' s'' e. clear_name nm s = Inr s' \<and> resolve later nm s' = Inr (s'', e)
            \<and> name_to_radio name = Inr (en_channel e, en_group e) \<and> en_source e = SOURCE_DERIVED
            \<and> (\<forall>n. n \<noteq> name \<longrightarrow> get_name_row s'' n = get_name_row s n)))"
proof (cases "validate nm")
  case (Inl e)
  then have "e = ValueError" by (auto simp: validate_def Let_def split: if_splits)
  with Inl show ?thesis by (simp add: set_name_def clear_name_def resolve_def)
next
  case (Inr name)
  obtain s1 e1 where s1: "set_name now nm c g s = Inr (s1, e1)"
      "get_name_row s1 = (get_name_row s)(name \<mapsto> e1)" "en_channel e1 = c" "en_group e1 = g"
      "en_source e1 = SOURCE_REGISTRY"
    by (rule set_name_eq [OF Inr, of now c g s]) blast
  have v: "validate name = Inr name" using Inr by (rule validate_idem)
  have "resolve later name s1 = Inr (s1, e1)" "resolve later nm s1 = Inr (s1, e1)"
    using s1(2) Inr v by (simp_all add: resolve_def)
  then have one: "\<exists>s' e. set_name now nm c g s = Inr (s', e) \<and> en_channel e = c \<and> en_group e = g
      \<and> en_source e = SOURCE_REGISTRY \<and> resolve later name s' = Inr (s', e) \<and> resolve later nm s' = Inr (s', e)
      \<and> (\<forall>n. n \<noteq> name \<longrightarrow> get_name_row s' n = get_name_row s n)"
    using s1 by (intro exI [of _ s1] exI [of _ e1]) simp
  obtain a b where ab: "name_to_radio name = Inr (a, b)"
    using name_to_radio_total [OF v] by auto
  let ?s = "delete_name name s" and ?e = "row_to_entry name a b SOURCE_DERIVED later"
  have "get_name_row ?s name = None" by (simp add: nam.get_del)
  then have r: "resolve later nm ?s = Inr (insert_name ?e ?s, ?e)" using Inr ab by (simp add: resolve_eq Let_def)
  have "get_name_row (insert_name ?e ?s) n = get_name_row s n" if "n \<noteq> name" for n
    using nam.get_replace [of ?e s] that by (simp add: row_to_entry_def)
  then have "\<exists>s' s'' e. clear_name nm s = Inr s' \<and> resolve later nm s' = Inr (s'', e)
      \<and> name_to_radio name = Inr (en_channel e, en_group e) \<and> en_source e = SOURCE_DERIVED
      \<and> (\<forall>n. n \<noteq> name \<longrightarrow> get_name_row s'' n = get_name_row s n)"
    using Inr ab r
    by (intro exI [of _ ?s] exI [of _ "insert_name ?e ?s"] exI [of _ ?e]) (simp add: clear_name_def row_to_entry_def)
  with one Inr show ?thesis by simp
qed

text \<open>The error-severity report is exact: a pair is listed if and only if two different names are on
  it, with all their names; and since derived addresses are unique, every reported conflict involves
  an override.\<close>

theorem conflicts_report_exact:
  assumes "names_ok s"
  shows "((\<exists>ns. dget (conflicts s) (c, g) = Some ns) \<longleftrightarrow>
            (\<exists>a\<in>set (st_names s). \<exists>b\<in>set (st_names s). en_name a \<noteq> en_name b
               \<and> (en_channel a, en_group a) = (c, g) \<and> (en_channel b, en_group b) = (c, g)))
     \<and> (\<forall>ns. dget (conflicts s) (c, g) = Some ns \<longrightarrow>
            set ns = en_name ` {e \<in> set (st_names s). en_channel e = c \<and> en_group e = g}
            \<and> (\<exists>e\<in>set (st_names s). en_name e \<in> set ns \<and> en_source e = SOURCE_REGISTRY))"
proof -
  have u: "names_unique s" using assms by (simp add: names_ok_def)
  have members: "set ns = en_name ` {e \<in> set (st_names s). en_channel e = c \<and> en_group e = g}"
    if "dget (conflicts s) (c, g) = Some ns" for ns
    using that by (auto simp: conflicts_def dget_conflicts_of Let_def split: if_splits)
  moreover have "\<exists>e\<in>set (st_names s). en_name e \<in> set ns \<and> en_source e = SOURCE_REGISTRY"
    if ns: "dget (conflicts s) (c, g) = Some ns" for ns
  proof -
    obtain a b where ab: "a \<in> set (st_names s)" "b \<in> set (st_names s)" "en_name a \<noteq> en_name b"
        "(en_channel a, en_group a) = (c, g)" "(en_channel b, en_group b) = (c, g)"
      using ns conflicts_iff [OF u, of c g] by blast
    then have "en_name a \<in> set ns" "en_name b \<in> set ns" using members [OF ns] by auto
    moreover have "en_source a \<noteq> SOURCE_DERIVED \<or> en_source b \<noteq> SOURCE_DERIVED"
      using derived_rows_apart [OF assms ab(1,2)] ab by auto
    ultimately show ?thesis using ab(1,2) assms by (auto simp: names_ok_def entry_ok_def)
  qed
  ultimately show ?thesis using conflicts_iff [OF u, of c g] by blast
qed

text \<open>The per-name annotations of \<open>listing\<close> agree with each other: one annotated row per stored row in
  name order, and a name appears among another's link conflicts (channel conflicts) exactly when the
  other appears among its own.\<close>

theorem listing_conflicts_symmetric:
  "map en_name (listing s) = sort (map en_name (st_names s))
   \<and> (\<forall>a\<in>set (listing s).
        (\<forall>n\<in>set (en_conflict a). \<exists>b\<in>set (listing s). en_name b = n \<and> en_name a \<in> set (en_conflict b))
      \<and> (\<forall>n\<in>set (en_channel_conflict a). \<exists>b\<in>set (listing s). en_name b = n
            \<and> en_name a \<in> set (en_channel_conflict b)))"
proof -
  have "sorted (map en_name (all_name_entries s))" "mset (map en_name (all_name_entries s)) = mset (map en_name (st_names s))"
    by (simp_all add: all_name_entries_def)
  then have "map en_name (all_name_entries s) = sort (map en_name (st_names s))"
    by (metis properties_for_sort)
  then have one: "map en_name (listing s) = sort (map en_name (st_names s))"
    by (simp add: listing_def Let_def annotate_def comp_def)
  have l: "x \<in> set (listing s) \<longleftrightarrow> (\<exists>e\<in>set (st_names s). x = annotate (all_name_entries s) e)" for x
    by (auto simp: listing_def Let_def)
  have "\<exists>b\<in>set (listing s). en_name b = n \<and> en_name a \<in> set (en_conflict b)"
    if a: "a \<in> set (listing s)" and n: "n \<in> set (en_conflict a)" for a n
  proof -
    obtain e where e: "e \<in> set (st_names s)" "a = annotate (all_name_entries s) e" using a l by blast
    obtain f where f: "f \<in> set (st_names s)" "en_name f = n" "en_name a \<in> set (en_conflict (annotate (all_name_entries s) f))"
      using n e unfolding e(2) annotate_facts set_all_name_entries by (metis (no_types, lifting))
    then show ?thesis using l annotate_facts(1) by blast
  qed
  moreover have "\<exists>b\<in>set (listing s). en_name b = n \<and> en_name a \<in> set (en_channel_conflict b)"
    if a: "a \<in> set (listing s)" and n: "n \<in> set (en_channel_conflict a)" for a n
  proof -
    obtain e where e: "e \<in> set (st_names s)" "a = annotate (all_name_entries s) e" using a l by blast
    obtain f where f: "f \<in> set (st_names s)" "en_name f = n" "en_name a \<in> set (en_channel_conflict (annotate (all_name_entries s) f))"
      using n e unfolding e(2) annotate_facts set_all_name_entries by (metis (no_types, lifting))
    then show ?thesis using l annotate_facts(1) by blast
  qed
  ultimately show ?thesis using one by blast
qed

text \<open>A registry in which \<open>tovez\<close> was moved onto the derived pair of \<open>vevov\<close>.\<close>

definition demo_names :: store where
  "demo_names = empty_store\<lparr>st_names := [row_to_entry ''vevov'' 20 82 SOURCE_DERIVED 1,
                                        row_to_entry ''tovez'' 20 82 SOURCE_REGISTRY 2]\<rparr>"

lemma demo_names_ok: "names_ok demo_names"
proof -
  have "five_letters ''vevov''" "five_letters ''tovez''" "name_to_radio ''vevov'' = Inr (20, 82)"
    by code_simp+
  then show ?thesis
    by (simp add: names_ok_def names_unique_def unique_key_def demo_names_def empty_store_def row_to_entry_def
        entry_ok_def)
qed

theorem conflicts_report_exact_witness:
  "\<exists>ns. dget (conflicts demo_names) (20, 82) = Some ns \<and> set ns = {''vevov'', ''tovez''}"
proof -
  have "\<exists>a\<in>set (st_names demo_names). \<exists>b\<in>set (st_names demo_names). en_name a \<noteq> en_name b
      \<and> (en_channel a, en_group a) = (20, 82) \<and> (en_channel b, en_group b) = (20, 82)"
    by (simp add: demo_names_def row_to_entry_def)
  with conflicts_report_exact [OF demo_names_ok, of 20 82]
  obtain ns where ns: "dget (conflicts demo_names) (20, 82) = Some ns" by blast
  have "set ns = en_name ` {e \<in> set (st_names demo_names). en_channel e = 20 \<and> en_group e = 82}"
    using conflicts_report_exact [OF demo_names_ok, of 20 82] ns by blast
  also have "\<dots> = {''vevov'', ''tovez''}"
    unfolding set_filter [symmetric] by (simp add: demo_names_def row_to_entry_def)
  finally show ?thesis using ns by blast
qed

theorem listing_conflicts_symmetric_witness:
  "map en_name (listing demo_names) = [''tovez'', ''vevov'']
   \<and> (\<exists>b\<in>set (listing demo_names). en_name b = ''tovez'' \<and> ''vevov'' \<in> set (en_conflict b))"
proof -
  let ?a = "annotate (all_name_entries demo_names) (row_to_entry ''vevov'' 20 82 SOURCE_DERIVED 1)"
  have a: "?a \<in> set (listing demo_names)" by (simp add: listing_def Let_def demo_names_def)
  have n: "''tovez'' \<in> set (en_conflict ?a)" by (simp add: annotate_facts demo_names_def row_to_entry_def)
  have "en_name ?a = ''vevov''" by (simp add: annotate_facts row_to_entry_def)
  moreover have "sort [''vevov'', ''tovez''] = [''tovez'', ''vevov'']" by code_simp
  ultimately show ?thesis
    using listing_conflicts_symmetric [of demo_names] a n by (auto simp: demo_names_def row_to_entry_def)
qed

theorem override_contract_witness:
  "\<exists>s' e. set_name 3 ''TOVEZ'' 40 90 demo_names = Inr (s', e) \<and> en_channel e = 40
     \<and> resolve 4 ''tovez'' s' = Inr (s', e) \<and> get_name_row s' ''vevov'' = get_name_row demo_names ''vevov''"
proof -
  have "validate ''TOVEZ'' = Inr ''tovez''" by code_simp
  then show ?thesis using override_contract [where nm = "''TOVEZ''" and now = 3 and c = 40 and g = 90 and s = demo_names and later = 4] by auto
qed

end
