(* ===== verification/MB_Registry.thy ===== *)
theory MB_Registry
  imports MB_NameRegistry MB_Locks
begin

text \<open>
  The state the registry's threads share, and the wiring of the lock manager's callbacks to it:
  \<open>Daemon\<close> and the API servers run their critical sections under one re-entrant lock over the store,
  the lock table, the daemon's table of flashed boards awaiting re-enumeration, its claim handles, the
  registered virtual boards and the map from a locked uid to the client connection that locked it. A
  critical section is one function on this record. Clock readings are arguments: \<open>wall\<close> for the
  store's clock, \<open>tick\<close> for the daemon's monotonic clock.
\<close>

record registration =
  vr_name :: string
  vr_uid :: string
  vr_endpoint :: "string \<times> int"
  vr_role :: string
  vr_serial :: string
  vr_conn :: nat

record registry =
  rg_store :: store
  rg_locks :: lock_table
  rg_pending :: "(uid, real) dict"
  rg_claims :: "(uid, nat) dict"
  rg_virtual :: "(string, registration) dict"
  rg_conns :: "(uid, nat) dict"

text \<open>Events handed to the event callbacks and the event bus.\<close>

datatype reg_event =
    EvDevice string device
  | EvLock uid "string option" "string option" "string option" "real option"
  | EvDeviceRemoved uid "string option"
  | EvPeerRemoved string
  | EvNameSet name_entry
  | EvNameClear string

text \<open>An operation that raises leaves the state it had reached.\<close>

type_synonym 'a outcome = "(py_error \<times> registry) + 'a"

definition FLASH_REPROBE_TIMEOUT :: real where
  "FLASH_REPROBE_TIMEOUT = 10"

text \<open>\<open>Daemon._on_flash_release\<close>, the lock manager's flash-release callback.\<close>

definition on_flash_release :: "real \<Rightarrow> uid \<Rightarrow> (uid, real) dict \<Rightarrow> (uid, real) dict" where
  "on_flash_release tick uid pending =
     (if is_virtual_uid uid then pending else dset uid (tick + FLASH_REPROBE_TIMEOUT) pending)"

fun run_callbacks :: "real \<Rightarrow> lock_event list \<Rightarrow> registry \<Rightarrow> registry \<times> reg_event list" where
  "run_callbacks tick [] rg = (rg, [])"
| "run_callbacks tick (FlashRelease uid # evs) rg =
     run_callbacks tick evs (rg\<lparr>rg_pending := on_flash_release tick uid (rg_pending rg)\<rparr>)"
| "run_callbacks tick (LockDisplay uid k d l t # evs) rg =
     (let (rg', out) = run_callbacks tick evs rg in (rg', EvLock uid k d l t # out))"

text \<open>The lock operations with their callbacks run.\<close>

definition release_lock :: "real \<Rightarrow> uid \<Rightarrow> holder_ref \<Rightarrow> registry \<Rightarrow> bool \<times> registry \<times> reg_event list" where
  "release_lock tick uid holder rg =
     (let (released, locks', evs) = release (rg_locks rg) uid holder;
          (rg', out) = run_callbacks tick evs (rg\<lparr>rg_locks := locks'\<rparr>)
      in (released, rg', out))"

definition force_release_lock ::
    "real \<Rightarrow> uid \<Rightarrow> registry \<Rightarrow> lock_status option \<times> registry \<times> reg_event list" where
  "force_release_lock tick uid rg =
     (let (st, locks', evs) = force_release (rg_locks rg) uid;
          (rg', out) = run_callbacks tick evs (rg\<lparr>rg_locks := locks'\<rparr>)
      in (st, rg', out))"

definition acquire_lock ::
    "real \<Rightarrow> uid \<Rightarrow> string \<Rightarrow> holder_ref \<Rightarrow> string option \<Rightarrow> registry
       \<Rightarrow> lock_status + (registry \<times> reg_event list)" where
  "acquire_lock wall uid kind holder label rg =
     (case acquire (rg_locks rg) wall uid kind holder label of
        Inl current \<Rightarrow> Inl current
      | Inr (locks', evs) \<Rightarrow> Inr (run_callbacks 0 evs (rg\<lparr>rg_locks := locks'\<rparr>)))"

subsection \<open>What the callbacks do\<close>

lemma run_callbacks_frame [simp]:
  "rg_store (fst (run_callbacks tick evs rg)) = rg_store rg"
  "rg_locks (fst (run_callbacks tick evs rg)) = rg_locks rg"
  "rg_claims (fst (run_callbacks tick evs rg)) = rg_claims rg"
  "rg_virtual (fst (run_callbacks tick evs rg)) = rg_virtual rg"
  "rg_conns (fst (run_callbacks tick evs rg)) = rg_conns rg"
  by (induction tick evs rg rule: run_callbacks.induct) (auto simp: case_prod_beta)

lemma run_callbacks_pending:
  "rg_pending (fst (run_callbacks tick evs rg))
     = fold (\<lambda>e p. case e of FlashRelease u \<Rightarrow> on_flash_release tick u p | _ \<Rightarrow> p) evs (rg_pending rg)"
  by (induction tick evs rg rule: run_callbacks.induct) (auto simp: case_prod_beta)

lemma release_lock_eq:
  "release_lock tick uid holder rg =
     (case dget (rg_locks rg) uid of
        None \<Rightarrow> (False, rg, [])
      | Some st \<Rightarrow>
          if ls_holder st \<noteq> holder then (False, rg, [])
          else (True, rg\<lparr>rg_locks := ddel uid (rg_locks rg),
                         rg_pending := (if ls_kind st = KIND_FLASH then on_flash_release tick uid (rg_pending rg)
                                        else rg_pending rg)\<rparr>,
                [EvLock uid None None None None]))"
  by (simp add: release_lock_def release_def release_entry_def split: option.split)

lemma force_release_lock_eq:
  "force_release_lock tick uid rg =
     (case dget (rg_locks rg) uid of
        None \<Rightarrow> (None, rg, [])
      | Some st \<Rightarrow>
          (Some st, rg\<lparr>rg_locks := ddel uid (rg_locks rg),
                       rg_pending := (if ls_kind st = KIND_FLASH then on_flash_release tick uid (rg_pending rg)
                                      else rg_pending rg)\<rparr>,
           [EvLock uid None None None None]))"
  by (simp add: force_release_lock_def force_release_def release_entry_def split: option.split)

lemma acquire_lock_eq:
  "acquire_lock wall uid kind holder label rg =
     (case dget (rg_locks rg) uid of
        Some st \<Rightarrow> Inl st
      | None \<Rightarrow> Inr (rg\<lparr>rg_locks := dset uid \<lparr>ls_kind = kind, ls_holder = holder, ls_label = label,
                                            ls_since = wall\<rparr> (rg_locks rg)\<rparr>,
                     [EvLock uid (Some kind) (Some (describe_holder holder)) label (Some wall)]))"
  by (simp add: acquire_lock_def acquire_def split: option.split)

end
