(* ===== verification/MB_Virtual.thy ===== *)
theory MB_Virtual
  imports MB_Registry
begin

text \<open>
  Model of \<open>src/mbtools/registry/virtual.py\<close>: what a \<open>register_board\<close> request must look like and the
  in-memory table of registered virtual boards. The patterns end in \<open>$\<close>, which in Python also matches
  before a final newline (\<open>dollar\<close>). A registration is compared by identity when it is removed: the
  number of the connection that registered it (a connection registers at most once) stands for it.
\<close>

subsection \<open>The three patterns\<close>

definition dollar :: "(string \<Rightarrow> bool) \<Rightarrow> string \<Rightarrow> bool" where
  "dollar p s \<longleftrightarrow> p s \<or> (s \<noteq> [] \<and> last s = newline \<and> p (butlast s))"

definition is_alnum :: "char \<Rightarrow> bool" where
  "is_alnum c \<longleftrightarrow> is_alpha_char c \<or> is_digit_char c"

definition name_shape :: "string \<Rightarrow> bool" where
  "name_shape s \<longleftrightarrow> 2 \<le> length s \<and> length s \<le> 32 \<and> is_alpha_char (hd s)
     \<and> (\<forall>c\<in>set (tl s). is_alnum c \<or> c = CHR ''-'')"

definition role_shape :: "string \<Rightarrow> bool" where
  "role_shape s \<longleftrightarrow> 1 \<le> length s \<and> length s \<le> 32
     \<and> (\<forall>c\<in>set s. is_alnum c \<or> c = CHR ''_'' \<or> c = CHR ''-'')"

definition serial_shape :: "string \<Rightarrow> bool" where
  "serial_shape s \<longleftrightarrow> 1 \<le> length s \<and> length s \<le> 20 \<and> (\<forall>c\<in>set s. is_digit_char c)"

definition DEFAULT_ROLE :: string where "DEFAULT_ROLE = ''NEZHA2''"

subsection \<open>The functions of the module\<close>

definition is_reserved_name :: "string \<Rightarrow> bool" where
  "is_reserved_name name \<longleftrightarrow> NAME_RE_match (normalize name)"

definition parse_endpoint :: "json \<Rightarrow> (string \<times> int) result" where
  "parse_endpoint endpoint =
     (case endpoint of
        JStr ep \<Rightarrow>
          if ep = [] \<or> (\<exists>c\<in>set ep. is_space_char c) then Inl ValueError
          else (case rpartition (CHR '':'') ep of
                  None \<Rightarrow> Inl ValueError
                | Some (host, port_s) \<Rightarrow>
                    if host = [] \<or> port_s = [] \<or> \<not> (\<forall>c\<in>set port_s. is_digit_char c) then Inl ValueError
                    else let host = (if starts_with ''['' host \<and> ends_with '']'' host
                                     then butlast (drop 1 host) else host);
                             port = int (read_nat port_s)
                         in if host = [] then Inl ValueError
                            else if \<not> (1 \<le> port \<and> port \<le> 65535) then Inl ValueError
                            else Inr (host, port))
      | _ \<Rightarrow> Inl ValueError)"

definition validate_registration :: "(string, json) dict \<Rightarrow> nat \<Rightarrow> registration result" where
  "validate_registration req conn =
     (case jget req ''name'' of
        JStr name \<Rightarrow>
          if \<not> dollar name_shape name then Inl ValueError
          else (case parse_endpoint (jget req ''endpoint'') of Inl e \<Rightarrow> Inl e | Inr endpoint \<Rightarrow>
               (case jget_default req ''role'' (JStr DEFAULT_ROLE) of
                  JStr role \<Rightarrow>
                    if \<not> dollar role_shape role then Inl ValueError
                    else let serial = (case jget req ''serial'' of
                                         JInt n \<Rightarrow> if n \<ge> 0 then JStr (show_int n) else JInt n
                                       | v \<Rightarrow> v)
                         in (case serial of
                               JStr ser \<Rightarrow>
                                 if \<not> dollar serial_shape ser then Inl ValueError
                                 else if jget req ''simulated'' \<noteq> JBool True then Inl ValueError
                                 else Inr \<lparr>vr_name = name, vr_uid = VIRTUAL_UID_PREFIX @ name,
                                           vr_endpoint = endpoint, vr_role = role, vr_serial = ser,
                                           vr_conn = conn\<rparr>
                             | _ \<Rightarrow> Inl ValueError)
                | _ \<Rightarrow> Inl ValueError))
      | _ \<Rightarrow> Inl ValueError)"

subsection \<open>The table of registered boards\<close>

type_synonym virtual_boards = "(string, registration) dict"

definition name_in_use :: "string \<Rightarrow> virtual_boards \<Rightarrow> bool" where
  "name_in_use name vb \<longleftrightarrow> dget vb (str_lower name) \<noteq> None"

definition add_board :: "registration \<Rightarrow> virtual_boards \<Rightarrow> virtual_boards" where
  "add_board reg vb = dset (str_lower (vr_name reg)) reg vb"

definition remove_board :: "registration \<Rightarrow> virtual_boards \<Rightarrow> bool \<times> virtual_boards" where
  "remove_board reg vb =
     (case dget vb (str_lower (vr_name reg)) of
        None \<Rightarrow> (False, vb)
      | Some r \<Rightarrow> if vr_conn r = vr_conn reg then (True, ddel (str_lower (vr_name reg)) vb) else (False, vb))"

definition by_uid :: "string \<Rightarrow> virtual_boards \<Rightarrow> registration option" where
  "by_uid uid vb = find (\<lambda>reg. vr_uid reg = uid) (map snd vb)"

subsection \<open>Lemmas\<close>

lemma dollarD: "dollar p s \<Longrightarrow> \<exists>core. p core \<and> (s = core \<or> s = core @ [newline])"
proof -
  assume "dollar p s"
  then consider "p s" | "s \<noteq> []" "last s = newline" "p (butlast s)" by (auto simp: dollar_def)
  then show ?thesis
  proof cases
    case 2
    then have "s = butlast s @ [newline]" using append_butlast_last_id [of s] by simp
    then show ?thesis using 2 by blast
  qed blast
qed

lemma show_nat_digits: "\<forall>c\<in>set (show_nat n). is_digit_char c"
proof (induction n rule: show_nat.induct)
  case (1 n)
  have d: "is_digit_char (char_of (48 + k))" if "k < 10" for k :: nat
    using that by (simp add: is_digit_char_def)
  have "n mod 10 < 10" by simp
  then show ?case using 1 d [of n] d [of "n mod 10"] by (subst show_nat.simps) auto
qed

lemma show_nat_not_Nil: "show_nat n \<noteq> []"
  by (subst show_nat.simps) simp

lemma read_nat_append: "read_nat (s @ [c]) = read_nat s * 10 + (of_char c - 48)"
  by (simp add: read_nat_def)

lemma read_show_nat: "read_nat (show_nat n) = n"
proof (induction n rule: show_nat.induct)
  case (1 n)
  have d: "(of_char (char_of (48 + k) :: char) :: nat) - 48 = k" if "k < 10" for k
    using that by simp
  show ?case
  proof (cases "n < 10")
    case True
    then show ?thesis using d [of n] by (subst show_nat.simps) (simp add: read_nat_def)
  next
    case False
    have "n mod 10 < 10" by simp
    then have "read_nat (show_nat n) = n div 10 * 10 + n mod 10"
      using False 1 [OF False] d [of "n mod 10"] by (subst show_nat.simps) (simp add: read_nat_append)
    then show ?thesis by simp
  qed
qed

lemma digit_not_colon: "is_digit_char c \<Longrightarrow> c \<noteq> CHR '':'' \<and> \<not> is_space_char c"
  by (auto simp: is_digit_char_def is_space_char_def)

subsection \<open>Properties\<close>

text \<open>An endpoint written as \<open>host:port\<close>, or \<open>[host]:port\<close> for a host that contains colons, is parsed
  back to exactly that host and port.\<close>

theorem endpoint_roundtrip:
  assumes "host \<noteq> []" and "\<forall>c\<in>set host. \<not> is_space_char c" and "1 \<le> port" and "port \<le> 65535"
  shows "parse_endpoint (JStr (''['' @ host @ '']:'' @ show_nat port)) = Inr (host, int port)
     \<and> (\<not> (starts_with ''['' host \<and> ends_with '']'' host)
          \<longrightarrow> parse_endpoint (JStr (host @ '':'' @ show_nat port)) = Inr (host, int port))"
proof -
  have digits: "\<forall>c\<in>set (show_nat port). is_digit_char c" by (rule show_nat_digits)
  have nc: "CHR '':'' \<notin> set (show_nat port)" using digits digit_not_colon by blast
  have ns: "\<forall>c\<in>set (show_nat port). \<not> is_space_char c" using digits digit_not_colon by blast
  have sp: "\<not> is_space_char (CHR ''['')" "\<not> is_space_char (CHR '']'')" "\<not> is_space_char (CHR '':'')"
    by (simp_all add: is_space_char_def)
  have r: "rpartition (CHR '':'') (h @ CHR '':'' # show_nat port) = Some (h, show_nat port)" for h
    using nc by (rule rpartition_append)
  have e: "ends_with '']'' (''['' @ host @ '']'')" by (simp add: ends_with_def)
  have "parse_endpoint (JStr ((''['' @ host @ '']'') @ CHR '':'' # show_nat port)) = Inr (host, int port)"
    using assms digits ns sp r [of "''['' @ host @ '']''"] e
    by (simp add: parse_endpoint_def Let_def show_nat_not_Nil starts_with_def read_show_nat butlast_append ball_Un)
  moreover have "parse_endpoint (JStr (host @ CHR '':'' # show_nat port)) = Inr (host, int port)"
    if "\<not> (starts_with ''['' host \<and> ends_with '']'' host)"
    using assms digits ns sp r [of host] that
    by (simp add: parse_endpoint_def Let_def show_nat_not_Nil read_show_nat ball_Un) blast
  ultimately show ?thesis by simp
qed

theorem endpoint_roundtrip_witness:
  "parse_endpoint (JStr (''['' @ ''::1'' @ '']:'' @ show_nat 7440)) = Inr (''::1'', 7440)"
  using endpoint_roundtrip [of "''::1''" 7440] by (simp add: is_space_char_def)

lemma parse_endpoint_port:
  "parse_endpoint ep = Inr (host, port) \<Longrightarrow> host \<noteq> [] \<and> 1 \<le> port \<and> port \<le> 65535"
  by (auto simp: parse_endpoint_def Let_def split: json.splits option.splits if_splits)

text \<open>What an accepted registration guarantees: the uid is \<open>sim-\<close> and the name, the endpoint is a
  non-empty host with a port from 1 to 65535, and name, role and serial have the documented shape up
  to one trailing newline, which the patterns let through.\<close>

theorem accepted_registration:
  assumes "validate_registration req conn = Inr reg"
  shows "vr_uid reg = VIRTUAL_UID_PREFIX @ vr_name reg \<and> vr_conn reg = conn
     \<and> fst (vr_endpoint reg) \<noteq> [] \<and> 1 \<le> snd (vr_endpoint reg) \<and> snd (vr_endpoint reg) \<le> 65535
     \<and> (\<exists>n. name_shape n \<and> vr_name reg \<in> {n, n @ [newline]})
     \<and> (\<exists>r. role_shape r \<and> vr_role reg \<in> {r, r @ [newline]})
     \<and> (\<exists>n. serial_shape n \<and> vr_serial reg \<in> {n, n @ [newline]})
     \<and> jget req ''simulated'' = JBool True"
proof -
  obtain name ep role ser where v: "jget req ''name'' = JStr name" "dollar name_shape name"
      "parse_endpoint (jget req ''endpoint'') = Inr ep" "dollar role_shape role" "dollar serial_shape ser"
      "jget req ''simulated'' = JBool True"
      "reg = \<lparr>vr_name = name, vr_uid = VIRTUAL_UID_PREFIX @ name, vr_endpoint = ep, vr_role = role,
              vr_serial = ser, vr_conn = conn\<rparr>"
    using assms by (auto simp: validate_registration_def Let_def split: json.splits if_splits sum.splits)
  moreover have "fst ep \<noteq> [] \<and> 1 \<le> snd ep \<and> snd ep \<le> 65535"
    using parse_endpoint_port [of _ "fst ep" "snd ep"] v(3) by simp
  ultimately show ?thesis using dollarD [OF v(2)] dollarD [OF v(4)] dollarD [OF v(5)] by auto
qed

definition demo_request :: "string \<Rightarrow> (string, json) dict" where
  "demo_request name = [(''op'', JStr ''register_board''), (''name'', JStr name),
     (''endpoint'', JStr ''127.0.0.1:9000''), (''serial'', JInt 7), (''simulated'', JBool True)]"

theorem accepted_registration_witness:
  "\<exists>reg. validate_registration (demo_request (''bot'' @ [newline])) 5 = Inr reg
     \<and> vr_uid reg = ''sim-bot'' @ [newline] \<and> snd (vr_endpoint reg) = 9000"
proof -
  have "validate_registration (demo_request (''bot'' @ [newline])) 5
      = Inr \<lparr>vr_name = ''bot'' @ [newline], vr_uid = ''sim-bot'' @ [newline], vr_endpoint = (''127.0.0.1'', 9000),
             vr_role = ''NEZHA2'', vr_serial = ''7'', vr_conn = 5\<rparr>" by code_simp
  then show ?thesis using accepted_registration [of "demo_request (''bot'' @ [newline])" 5] by auto
qed

end
