(* ===== verification/MB_Daemon.thy ===== *)
theory MB_Daemon
  imports MB_Registry
begin

text \<open>
  Model of \<open>src/mbtools/registry/usbwatch.py\<close> (the scan), \<open>src/mbtools/registry/claims.py\<close> (which
  uids an instance may claim) and \<open>src/mbtools/registry/daemon.py\<close> (the scan-diff-probe cycle).
  \<open>run_diff\<close> is the critical section of \<open>Daemon.run_once\<close>; \<open>probe_due\<close>, \<open>needs_swd\<close> and
  \<open>finish_probe\<close> are the three critical sections of \<open>_maybe_probe\<close>, between which the port and the
  debug probe are used without the lock. What the USB bus, the claim files, the serial port and the
  debug probe answer are arguments. A Python \<open>set\<close> of uids is a list in row or scan order (its
  iteration order is unspecified in Python).
\<close>

subsection \<open>The scan\<close>

record comport =
  cp_vid :: "int option"
  cp_pid :: "int option"
  cp_serial_number :: "string option"
  cp_device :: string

record port_info =
  pi_uid :: string
  pi_port :: string
  pi_vid :: nat
  pi_pid :: nat

fun scan_loop :: "comport list \<Rightarrow> (string, port_info) dict \<Rightarrow> (string, port_info) dict" where
  "scan_loop [] out = out"
| "scan_loop (p # ps) out =
     (if (cp_vid p, cp_pid p) \<noteq> (Some (fst DAPLINK_VID_PID), Some (snd DAPLINK_VID_PID)) then scan_loop ps out
      else case cp_serial_number p of
             None \<Rightarrow> scan_loop ps out
           | Some uid \<Rightarrow>
               scan_loop ps (if dget out uid = None
                             then dset uid \<lparr>pi_uid = uid, pi_port = cp_device p,
                                            pi_vid = nat (the (cp_vid p)), pi_pid = nat (the (cp_pid p))\<rparr> out
                             else out))"

definition scan :: "comport list \<Rightarrow> (string, port_info) dict" where
  "scan ports = scan_loop ports []"

subsection \<open>Claims\<close>

definition is_claimable :: "string list option \<Rightarrow> string list option \<Rightarrow> string \<Rightarrow> bool" where
  "is_claimable only_uids exclude_uids uid =
     (if (case exclude_uids of None \<Rightarrow> False | Some ex \<Rightarrow> uid \<in> set ex) then False
      else case only_uids of None \<Rightarrow> True | Some [] \<Rightarrow> True | Some os \<Rightarrow> uid \<in> set os)"

text \<open>\<open>try_claim\<close> of \<open>claims.py\<close> is \<open>flock\<close> on the uid's lock file: the handle it returns, or
  \<open>None\<close> when another process holds the file, is the argument \<open>try_claim\<close>.\<close>

definition build_claim_fn ::
    "string list option \<Rightarrow> string list option \<Rightarrow> (string \<Rightarrow> nat option) \<Rightarrow> string \<Rightarrow> nat option" where
  "build_claim_fn only_uids exclude_uids try_claim uid =
     (let only = (case only_uids of None \<Rightarrow> None | Some [] \<Rightarrow> None | Some os \<Rightarrow> Some os);
          exclude = (case exclude_uids of None \<Rightarrow> [] | Some ex \<Rightarrow> ex)
      in if \<not> is_claimable only (Some exclude) uid then None else try_claim uid)"

subsection \<open>One cycle of the daemon\<close>

definition previously_attached :: "registry \<Rightarrow> string list" where
  "previously_attached rg =
     map dv_uid (filter (\<lambda>r. dv_host r = None \<and> dv_state r \<noteq> STATE_DISCONNECTED \<and> \<not> is_virtual r)
                   (list_devices (rg_store rg)))"

fun attach_loop ::
    "real \<Rightarrow> (string \<Rightarrow> nat option) \<Rightarrow> string list \<Rightarrow> (string \<times> port_info) list \<Rightarrow> registry
       \<Rightarrow> device list \<Rightarrow> string list \<Rightarrow> (registry \<times> device list \<times> string list) outcome" where
  "attach_loop wall claim_fn prev [] rg attached owned = Inr (rg, attached, owned)"
| "attach_loop wall claim_fn prev ((uid, info) # rest) rg attached owned =
     (if uid \<in> set prev then attach_loop wall claim_fn prev rest rg attached owned
      else case claim_fn uid of
             None \<Rightarrow> attach_loop wall claim_fn prev rest rg attached owned
           | Some handle \<Rightarrow>
               let rg1 = rg\<lparr>rg_claims := dset uid handle (rg_claims rg)\<rparr> in
               (case upsert_attached wall uid (pi_port info) (format_vid_pid (pi_vid info) (pi_pid info))
                       (rg_store rg1) of
                  Inl e \<Rightarrow> Inl (e, rg1)
                | Inr (s', record) \<Rightarrow>
                    attach_loop wall claim_fn prev rest (rg1\<lparr>rg_store := s'\<rparr>)
                      (attached @ [record]) (owned @ [uid])))"

fun detach_loop ::
    "real \<Rightarrow> real \<Rightarrow> string list \<Rightarrow> registry \<Rightarrow> device list \<Rightarrow> reg_event list
       \<Rightarrow> (registry \<times> device list \<times> reg_event list) outcome" where
  "detach_loop wall tick [] rg detached out = Inr (rg, detached, out)"
| "detach_loop wall tick (uid # uids) rg detached out =
     (let (rg1, out1) = (case status (rg_locks rg) uid of
                           None \<Rightarrow> (rg, [])
                         | Some st \<Rightarrow> let (b, r, o') = release_lock tick uid (ls_holder st) rg in (r, o'));
          rg2 = rg1\<lparr>rg_claims := ddel uid (rg_claims rg1)\<rparr>
      in case mark_disconnected wall uid (rg_store rg2) of
           Inl e \<Rightarrow> Inl (e, rg2)
         | Inr (s', record) \<Rightarrow>
             detach_loop wall tick uids (rg2\<lparr>rg_store := s'\<rparr>) (detached @ [record]) (out @ out1))"

fun timeout_loop ::
    "real \<Rightarrow> real \<Rightarrow> string list \<Rightarrow> (string \<times> real) list \<Rightarrow> registry \<Rightarrow> device list
       \<Rightarrow> (registry \<times> device list) outcome" where
  "timeout_loop wall now current [] rg timed_out = Inr (rg, timed_out)"
| "timeout_loop wall now current ((uid, deadline) # rest) rg timed_out =
     (if uid \<notin> set current \<and> now \<ge> deadline
      then case apply_known_blank wall uid (rg_store rg) of
             Inl e \<Rightarrow> Inl (e, rg)
           | Inr (s', record) \<Rightarrow>
               timeout_loop wall now current rest
                 (rg\<lparr>rg_store := s', rg_pending := ddel uid (rg_pending rg)\<rparr>) (timed_out @ [record])
      else timeout_loop wall now current rest rg timed_out)"

record diff =
  df_rg :: registry
  df_attached :: "device list"
  df_detached :: "device list"
  df_timed_out :: "device list"
  df_owned :: "string list"
  df_lock_events :: "reg_event list"

definition run_diff ::
    "real \<Rightarrow> real \<Rightarrow> real \<Rightarrow> (string \<Rightarrow> nat option) \<Rightarrow> (string, port_info) dict \<Rightarrow> registry \<Rightarrow> diff outcome" where
  "run_diff wall now tick claim_fn current rg =
     (let prev = previously_attached rg;
          owned = filter (\<lambda>u. dget current u \<noteq> None) prev
      in case attach_loop wall claim_fn prev current rg [] owned of
           Inl e \<Rightarrow> Inl e
         | Inr (rg1, attached, owned') \<Rightarrow>
      (case detach_loop wall tick (filter (\<lambda>u. dget current u = None) prev) rg1 [] [] of
           Inl e \<Rightarrow> Inl e
         | Inr (rg2, detached, out) \<Rightarrow>
      (case timeout_loop wall now (map fst current) (rg_pending rg2) rg2 [] of
           Inl e \<Rightarrow> Inl e
         | Inr (rg3, timed_out) \<Rightarrow>
             Inr \<lparr>df_rg = rg3, df_attached = attached, df_detached = detached, df_timed_out = timed_out,
                  df_owned = owned', df_lock_events = out\<rparr>)))"

text \<open>\<open>_fire_events\<close>.\<close>

definition fire_events :: "string \<Rightarrow> device list \<Rightarrow> reg_event list" where
  "fire_events event_type records = map (EvDevice event_type) records"

definition diff_events :: "diff \<Rightarrow> reg_event list" where
  "diff_events d = df_lock_events d @ fire_events ''attach'' (df_attached d)
     @ fire_events ''detach'' (df_detached d) @ fire_events ''identity'' (df_timed_out d)"

subsection \<open>Probing\<close>

definition probe_due :: "registry \<Rightarrow> uid \<Rightarrow> bool result" where
  "probe_due rg uid =
     (case needs_probe (rg_store rg) uid of
        Inl e \<Rightarrow> Inl e
      | Inr need \<Rightarrow> Inr ((need \<or> dget (rg_pending rg) uid \<noteq> None) \<and> status (rg_locks rg) uid = None))"

definition needs_swd :: "registry \<Rightarrow> uid \<Rightarrow> bool" where
  "needs_swd rg uid = (case get (rg_store rg) uid of None \<Rightarrow> False
                       | Some existing \<Rightarrow> dv_chip_identity_name existing = None)"

definition finish_probe ::
    "real \<Rightarrow> uid \<Rightarrow> probe_result option \<Rightarrow> (string \<times> int) option \<Rightarrow> registry \<Rightarrow> (registry \<times> device) outcome" where
  "finish_probe wall uid result chip_identity rg =
     (case (if result = None \<and> dget (rg_pending rg) uid \<noteq> None
            then apply_known_blank wall uid (rg_store rg)
            else apply_probe_result wall uid result (rg_store rg)) of
        Inl e \<Rightarrow> Inl (e, rg)
      | Inr (s1, record) \<Rightarrow>
          let rg1 = rg\<lparr>rg_store := s1, rg_pending := ddel uid (rg_pending rg)\<rparr> in
          (case chip_identity of
             None \<Rightarrow> Inr (rg1, record)
           | Some (name, serial) \<Rightarrow>
               (case set_chip_identity uid name serial (rg_store rg1) of
                  Inl e \<Rightarrow> Inl (e, rg1)
                | Inr (s2, record2) \<Rightarrow> Inr (rg1\<lparr>rg_store := s2\<rparr>, record2))))"

text \<open>\<open>_maybe_probe\<close> with nothing else running: \<open>probe_port\<close> is what \<open>identity.probe\<close> returns for a
  port, \<open>chip\<close> what \<open>identity.read_chip_identity\<close> returns for a uid.\<close>

definition maybe_probe ::
    "real \<Rightarrow> (string \<Rightarrow> probe_result option) \<Rightarrow> (uid \<Rightarrow> (string \<times> int) option) \<Rightarrow> uid \<Rightarrow> port_info
       \<Rightarrow> registry \<Rightarrow> (registry \<times> reg_event list) outcome" where
  "maybe_probe wall probe_port chip uid info rg =
     (case probe_due rg uid of
        Inl e \<Rightarrow> Inl (e, rg)
      | Inr False \<Rightarrow> Inr (rg, [])
      | Inr True \<Rightarrow>
          let result = probe_port (pi_port info);
              chip_identity = (if (case result of None \<Rightarrow> True | Some r \<Rightarrow> pr_device_name r = [])
                                  \<and> needs_swd rg uid
                               then chip uid else None)
          in case finish_probe wall uid result chip_identity rg of
               Inl e \<Rightarrow> Inl e
             | Inr (rg', record) \<Rightarrow> Inr (rg', fire_events ''identity'' [record]))"

fun probe_loop ::
    "real \<Rightarrow> (string \<Rightarrow> probe_result option) \<Rightarrow> (uid \<Rightarrow> (string \<times> int) option)
       \<Rightarrow> (string, port_info) dict \<Rightarrow> uid list \<Rightarrow> registry \<Rightarrow> reg_event list
       \<Rightarrow> (registry \<times> reg_event list) outcome" where
  "probe_loop wall probe_port chip current [] rg out = Inr (rg, out)"
| "probe_loop wall probe_port chip current (uid # uids) rg out =
     (case dget current uid of
        None \<Rightarrow> Inl (KeyError, rg)
      | Some info \<Rightarrow>
          (case maybe_probe wall probe_port chip uid info rg of
             Inl e \<Rightarrow> Inl e
           | Inr (rg', evs) \<Rightarrow> probe_loop wall probe_port chip current uids rg' (out @ evs)))"

definition run_once ::
    "real \<Rightarrow> real \<Rightarrow> real \<Rightarrow> (string \<Rightarrow> nat option) \<Rightarrow> (string \<Rightarrow> probe_result option)
       \<Rightarrow> (uid \<Rightarrow> (string \<times> int) option) \<Rightarrow> comport list \<Rightarrow> registry
       \<Rightarrow> (registry \<times> reg_event list) outcome" where
  "run_once wall now tick claim_fn probe_port chip ports rg =
     (let current = scan ports in
      case run_diff wall now tick claim_fn current rg of
        Inl e \<Rightarrow> Inl e
      | Inr d \<Rightarrow> probe_loop wall probe_port chip current (df_owned d) (df_rg d) (diff_events d))"

subsection \<open>The three loops in one expression each\<close>

definition granted ::
    "(string \<Rightarrow> nat option) \<Rightarrow> string list \<Rightarrow> (string \<times> port_info) list \<Rightarrow> (string \<times> port_info) list" where
  "granted claim_fn prev infos = filter (\<lambda>(u, i). u \<notin> set prev \<and> claim_fn u \<noteq> None) infos"

definition attach_row :: "real \<Rightarrow> store \<Rightarrow> string \<times> port_info \<Rightarrow> device" where
  "attach_row wall s = (\<lambda>(u, i). upsert_row wall u None (Some (pi_port i)) (Some (format_vid_pid (pi_vid i) (pi_pid i))) (get s u))"

definition same_rest :: "registry \<Rightarrow> registry \<Rightarrow> bool" where
  "same_rest rg rg' \<longleftrightarrow> rg_virtual rg' = rg_virtual rg \<and> rg_conns rg' = rg_conns rg
     \<and> st_peers (rg_store rg') = st_peers (rg_store rg) \<and> st_names (rg_store rg') = st_names (rg_store rg)"

lemma same_rest_trans: "same_rest a b \<Longrightarrow> same_rest b c \<Longrightarrow> same_rest a c"
  by (simp add: same_rest_def)

lemma upsert_attached_eq:
  obtains s' where "upsert_attached wall uid port vp s = Inr (s', upsert_row wall uid None (Some port) (Some vp) (get s uid))"
    and "get s' = (get s)(uid \<mapsto> upsert_row wall uid None (Some port) (Some vp) (get s uid))"
    and "st_peers s' = st_peers s" and "st_names s' = st_names s" and "devices_unique s \<Longrightarrow> devices_unique s'"
  unfolding upsert_attached_def by (rule upsert_device_eq [of wall uid None "Some port" "Some vp" s]) blast

lemma attach_loop_eq:
  assumes "distinct (map fst infos)"
  shows "\<exists>rg'. attach_loop wall claim_fn prev infos rg attached owned
       = Inr (rg', attached @ map (attach_row wall (rg_store rg)) (granted claim_fn prev infos),
              owned @ map fst (granted claim_fn prev infos))
     \<and> (\<forall>u. get (rg_store rg') u = (case map_of (granted claim_fn prev infos) u of
            None \<Rightarrow> get (rg_store rg) u | Some i \<Rightarrow> Some (attach_row wall (rg_store rg) (u, i))))
     \<and> (\<forall>u. dget (rg_claims rg') u = (if map_of (granted claim_fn prev infos) u = None
            then dget (rg_claims rg) u else claim_fn u))
     \<and> rg_locks rg' = rg_locks rg \<and> rg_pending rg' = rg_pending rg \<and> same_rest rg rg'
     \<and> (devices_unique (rg_store rg) \<longrightarrow> devices_unique (rg_store rg'))"
  using assms
proof (induction infos arbitrary: rg attached owned)
  case Nil
  then show ?case by (simp add: granted_def same_rest_def)
next
  case (Cons x infos)
  obtain uid info where x: "x = (uid, info)" by fastforce
  have fresh: "uid \<notin> fst ` set infos" and dis: "distinct (map fst infos)" using Cons.prems x by simp_all
  show ?case
  proof (cases "uid \<notin> set prev \<and> claim_fn uid \<noteq> None")
    case False
    then have g: "granted claim_fn prev (x # infos) = granted claim_fn prev infos" by (simp add: granted_def x)
    have "attach_loop wall claim_fn prev (x # infos) rg attached owned
        = attach_loop wall claim_fn prev infos rg attached owned"
      using False by (auto simp: x)
    then show ?thesis using Cons.IH [OF dis] unfolding g by simp
  next
    case True
    then obtain h where h: "claim_fn uid = Some h" "uid \<notin> set prev" by auto
    let ?gs = "granted claim_fn prev infos"
    have g: "granted claim_fn prev (x # infos) = (uid, info) # ?gs" using True by (simp add: granted_def x)
    let ?vp = "format_vid_pid (pi_vid info) (pi_pid info)"
    let ?rg1 = "rg\<lparr>rg_claims := dset uid h (rg_claims rg)\<rparr>"
    obtain s' where s': "upsert_attached wall uid (pi_port info) ?vp (rg_store rg)
          = Inr (s', upsert_row wall uid None (Some (pi_port info)) (Some ?vp) (get (rg_store rg) uid))"
        "get s' = (get (rg_store rg))(uid \<mapsto> upsert_row wall uid None (Some (pi_port info)) (Some ?vp) (get (rg_store rg) uid))"
        "st_peers s' = st_peers (rg_store rg)" "st_names s' = st_names (rg_store rg)"
        "devices_unique (rg_store rg) \<Longrightarrow> devices_unique s'"
      by (rule upsert_attached_eq) blast
    have row: "upsert_row wall uid None (Some (pi_port info)) (Some ?vp) (get (rg_store rg) uid) = attach_row wall (rg_store rg) (uid, info)"
      by (simp add: attach_row_def)
    define rg2 where "rg2 = ?rg1\<lparr>rg_store := s'\<rparr>"
    have sel: "rg_store rg2 = s'" "rg_claims rg2 = dset uid h (rg_claims rg)" "rg_locks rg2 = rg_locks rg"
      "rg_pending rg2 = rg_pending rg" by (simp_all add: rg2_def)
    have step: "attach_loop wall claim_fn prev (x # infos) rg attached owned
        = attach_loop wall claim_fn prev infos rg2 (attached @ [attach_row wall (rg_store rg) (uid, info)]) (owned @ [uid])"
      using h s'(1) row by (simp add: x Let_def rg2_def)
    have none: "map_of ?gs uid = None" using fresh by (auto simp: map_of_eq_None_iff granted_def)
    have other: "attach_row wall s' (u, i) = attach_row wall (rg_store rg) (u, i)" if "u \<noteq> uid" for u i
      using that s'(2) by (simp add: attach_row_def)
    have rows: "map (attach_row wall s') ?gs = map (attach_row wall (rg_store rg)) ?gs"
      using fresh other by (auto simp: granted_def image_iff)
    obtain rg' where rg': "attach_loop wall claim_fn prev infos rg2
          (attached @ [attach_row wall (rg_store rg) (uid, info)]) (owned @ [uid])
        = Inr (rg', (attached @ [attach_row wall (rg_store rg) (uid, info)]) @ map (attach_row wall s') ?gs,
               (owned @ [uid]) @ map fst ?gs)"
      "\<forall>u. get (rg_store rg') u = (case map_of ?gs u of None \<Rightarrow> get s' u | Some i \<Rightarrow> Some (attach_row wall s' (u, i)))"
      "\<forall>u. dget (rg_claims rg') u = (if map_of ?gs u = None then dget (dset uid h (rg_claims rg)) u else claim_fn u)"
      "rg_locks rg' = rg_locks rg" "rg_pending rg' = rg_pending rg" "same_rest rg2 rg'"
      "devices_unique s' \<longrightarrow> devices_unique (rg_store rg')"
      using Cons.IH [OF dis, of rg2 "attached @ [attach_row wall (rg_store rg) (uid, info)]" "owned @ [uid]"]
      unfolding sel by blast
    have "same_rest rg rg'" using rg'(6) s'(3,4) by (simp add: same_rest_def rg2_def)
    moreover have "get (rg_store rg') u = (case map_of ((uid, info) # ?gs) u of
        None \<Rightarrow> get (rg_store rg) u | Some i \<Rightarrow> Some (attach_row wall (rg_store rg) (u, i)))" for u
      using rg'(2) [rule_format, of u] none other [of u] s'(2) row by (cases "u = uid") (auto split: option.split)
    moreover have "dget (rg_claims rg') u = (if map_of ((uid, info) # ?gs) u = None
        then dget (rg_claims rg) u else claim_fn u)" for u
      using rg'(3) [rule_format, of u] none h(1) by (cases "u = uid") auto
    ultimately show ?thesis
      unfolding step g using rg' rows s'(5) by (intro exI [of _ rg']) auto
  qed
qed

lemma mark_disconnected_eq:
  "mark_disconnected wall uid s = (case get s uid of None \<Rightarrow> Inl KeyError
     | Some d \<Rightarrow> Inr (update_device uid (\<lambda>d. d\<lparr>dv_state := STATE_DISCONNECTED, dv_last_seen := wall\<rparr>) s,
                     d\<lparr>dv_state := STATE_DISCONNECTED, dv_last_seen := wall\<rparr>))"
  unfolding mark_disconnected_def by (rule guarded_update_eq) simp

lemma apply_known_blank_eq:
  "apply_known_blank wall uid s = (case get s uid of None \<Rightarrow> Inl KeyError
     | Some d \<Rightarrow> Inr (update_device uid (known_blank_update wall) s, known_blank_update wall d))"
  unfolding apply_known_blank_def by (rule guarded_update_eq) simp

definition gone_row :: "real \<Rightarrow> device \<Rightarrow> device" where
  "gone_row wall d = d\<lparr>dv_state := STATE_DISCONNECTED, dv_last_seen := wall\<rparr>"

lemma gone_row_uid [simp]: "dv_uid (gone_row wall d) = dv_uid d"
  by (simp add: gone_row_def)

definition flash_locked :: "registry \<Rightarrow> uid \<Rightarrow> bool" where
  "flash_locked rg u = (case dget (rg_locks rg) u of None \<Rightarrow> False | Some st \<Rightarrow> ls_kind st = KIND_FLASH)"

text \<open>One turn of the detach loop.\<close>

definition detach_one :: "real \<Rightarrow> real \<Rightarrow> uid \<Rightarrow> registry \<Rightarrow> registry" where
  "detach_one wall tick uid rg =
     rg\<lparr>rg_locks := (if dget (rg_locks rg) uid = None then rg_locks rg else ddel uid (rg_locks rg)),
        rg_pending := (if flash_locked rg uid then on_flash_release tick uid (rg_pending rg) else rg_pending rg),
        rg_claims := ddel uid (rg_claims rg),
        rg_store := update_device uid (gone_row wall) (rg_store rg)\<rparr>"

lemma gone_row_fun: "(\<lambda>d. d\<lparr>dv_state := STATE_DISCONNECTED, dv_last_seen := wall\<rparr>) = gone_row wall"
  by (simp add: gone_row_def fun_eq_iff)

lemma detach_loop_step:
  assumes "get (rg_store rg) uid = Some d"
  shows "\<exists>out1. detach_loop wall tick (uid # uids) rg detached out
     = detach_loop wall tick uids (detach_one wall tick uid rg) (detached @ [gone_row wall d]) (out @ out1)"
proof (cases "dget (rg_locks rg) uid")
  case None
  then have "detach_one wall tick uid rg = rg\<lparr>rg_claims := ddel uid (rg_claims rg),
      rg_store := update_device uid (gone_row wall) (rg_store rg)\<rparr>"
    by (simp add: detach_one_def flash_locked_def)
  then show ?thesis using None assms
    by (intro exI [of _ "[]"])
      (simp add: status_def mark_disconnected_eq gone_row_fun gone_row_def [symmetric] Let_def)
next
  case (Some st)
  then show ?thesis using assms
    by (intro exI [of _ "[EvLock uid None None None None]"])
      (simp add: status_def release_lock_eq mark_disconnected_eq gone_row_fun gone_row_def [symmetric] Let_def
        detach_one_def flash_locked_def)
qed

lemma detach_one_facts:
  "get (rg_store (detach_one wall tick uid rg)) u
     = (if u = uid then map_option (gone_row wall) (get (rg_store rg) uid) else get (rg_store rg) u)"
  "dget (rg_locks (detach_one wall tick uid rg)) u = (if u = uid then None else dget (rg_locks rg) u)"
  "dget (rg_claims (detach_one wall tick uid rg)) u = (if u = uid then None else dget (rg_claims rg) u)"
  "dget (rg_pending (detach_one wall tick uid rg)) u
     = (if u = uid \<and> flash_locked rg u \<and> \<not> is_virtual_uid u then Some (tick + FLASH_REPROBE_TIMEOUT)
        else dget (rg_pending rg) u)"
  "same_rest rg (detach_one wall tick uid rg)"
  "devices_unique (rg_store rg) \<Longrightarrow> devices_unique (rg_store (detach_one wall tick uid rg))"
  "dict_ok (rg_pending rg) \<Longrightarrow> dict_ok (rg_pending (detach_one wall tick uid rg))"
proof -
  show "devices_unique (rg_store rg) \<Longrightarrow> devices_unique (rg_store (detach_one wall tick uid rg))"
    using dev.wf_upd [of "rg_store rg" "gone_row wall" uid] by (simp add: detach_one_def)
qed (auto simp: detach_one_def get_update same_rest_def on_flash_release_def)

lemma detach_loop_eq:
  assumes "distinct uids" and "\<forall>u\<in>set uids. get (rg_store rg) u \<noteq> None"
  shows "\<exists>rg' out'. detach_loop wall tick uids rg detached out
       = Inr (rg', detached @ map (\<lambda>u. gone_row wall (the (get (rg_store rg) u))) uids, out')
     \<and> (\<forall>u. get (rg_store rg') u = (if u \<in> set uids then map_option (gone_row wall) (get (rg_store rg) u)
            else get (rg_store rg) u))
     \<and> (\<forall>u. dget (rg_locks rg') u = (if u \<in> set uids then None else dget (rg_locks rg) u))
     \<and> (\<forall>u. dget (rg_claims rg') u = (if u \<in> set uids then None else dget (rg_claims rg) u))
     \<and> (\<forall>u. dget (rg_pending rg') u = (if u \<in> set uids \<and> flash_locked rg u \<and> \<not> is_virtual_uid u
            then Some (tick + FLASH_REPROBE_TIMEOUT) else dget (rg_pending rg) u))
     \<and> same_rest rg rg' \<and> (devices_unique (rg_store rg) \<longrightarrow> devices_unique (rg_store rg'))
     \<and> (dict_ok (rg_pending rg) \<longrightarrow> dict_ok (rg_pending rg'))"
  using assms
proof (induction uids arbitrary: rg detached out)
  case Nil
  then show ?case by (simp add: same_rest_def)
next
  case (Cons uid uids)
  define rg1 where "rg1 = detach_one wall tick uid rg"
  note f = detach_one_facts [where wall = wall and tick = tick and uid = uid and rg = rg, folded rg1_def]
  obtain d where d: "get (rg_store rg) uid = Some d" using Cons.prems(2) by auto
  obtain out1 where step: "detach_loop wall tick (uid # uids) rg detached out
      = detach_loop wall tick uids rg1 (detached @ [gone_row wall d]) (out @ out1)"
    using detach_loop_step [OF d] unfolding rg1_def by blast
  have uid: "uid \<notin> set uids" "distinct uids" using Cons.prems(1) by simp_all
  have rows: "\<forall>u\<in>set uids. get (rg_store rg1) u \<noteq> None" using Cons.prems(2) uid f(1) by auto
  have same: "u \<in> set uids \<Longrightarrow> get (rg_store rg1) u = get (rg_store rg) u" for u using f(1) uid(1) by auto
  have fl: "u \<noteq> uid \<Longrightarrow> flash_locked rg1 u = flash_locked rg u" for u using f(2) by (simp add: flash_locked_def)
  obtain rg' out' where r: "detach_loop wall tick uids rg1 (detached @ [gone_row wall d]) (out @ out1)
      = Inr (rg', (detached @ [gone_row wall d]) @ map (\<lambda>u. gone_row wall (the (get (rg_store rg1) u))) uids, out')"
    "\<forall>u. get (rg_store rg') u = (if u \<in> set uids then map_option (gone_row wall) (get (rg_store rg1) u)
        else get (rg_store rg1) u)"
    "\<forall>u. dget (rg_locks rg') u = (if u \<in> set uids then None else dget (rg_locks rg1) u)"
    "\<forall>u. dget (rg_claims rg') u = (if u \<in> set uids then None else dget (rg_claims rg1) u)"
    "\<forall>u. dget (rg_pending rg') u = (if u \<in> set uids \<and> flash_locked rg1 u \<and> \<not> is_virtual_uid u
        then Some (tick + FLASH_REPROBE_TIMEOUT) else dget (rg_pending rg1) u)"
    "same_rest rg1 rg'" "devices_unique (rg_store rg1) \<longrightarrow> devices_unique (rg_store rg')"
    "dict_ok (rg_pending rg1) \<longrightarrow> dict_ok (rg_pending rg')"
    using Cons.IH [OF uid(2) rows, of "detached @ [gone_row wall d]" "out @ out1"] by blast
  have "map (\<lambda>u. gone_row wall (the (get (rg_store rg1) u))) uids = map (\<lambda>u. gone_row wall (the (get (rg_store rg) u))) uids"
    using same by simp
  then have "detach_loop wall tick (uid # uids) rg detached out
      = Inr (rg', detached @ map (\<lambda>u. gone_row wall (the (get (rg_store rg) u))) (uid # uids), out')"
    using step r(1) d by simp
  moreover have "get (rg_store rg') u = (if u \<in> set (uid # uids) then map_option (gone_row wall) (get (rg_store rg) u)
      else get (rg_store rg) u)" for u using r(2) f(1) uid(1) by (cases "u = uid") auto
  moreover have "dget (rg_pending rg') u = (if u \<in> set (uid # uids) \<and> flash_locked rg u \<and> \<not> is_virtual_uid u
      then Some (tick + FLASH_REPROBE_TIMEOUT) else dget (rg_pending rg) u)" for u
    using r(5) f(4) fl uid(1) by (cases "u = uid") auto
  moreover have "dget (rg_locks rg') u = (if u \<in> set (uid # uids) then None else dget (rg_locks rg) u)"
    "dget (rg_claims rg') u = (if u \<in> set (uid # uids) then None else dget (rg_claims rg) u)" for u
    using r(3,4) f(2,3) by auto
  moreover have "same_rest rg rg'" using f(5) r(6) by (rule same_rest_trans)
  ultimately show ?case using f(6,7) r(7,8) by blast
qed

definition expired :: "real \<Rightarrow> string list \<Rightarrow> (string, real) dict \<Rightarrow> uid \<Rightarrow> bool" where
  "expired now current pending u = (case dget pending u of None \<Rightarrow> False
     | Some t \<Rightarrow> u \<notin> set current \<and> now \<ge> t)"

lemma timeout_loop_eq:
  assumes "dict_ok items" and "\<forall>u. expired now current items u \<longrightarrow> get (rg_store rg) u \<noteq> None"
  shows "\<exists>rg' more. timeout_loop wall now current items rg timed_out = Inr (rg', timed_out @ more)
     \<and> dv_uid ` set more = {u. expired now current items u}
     \<and> (\<forall>u. get (rg_store rg') u = (if expired now current items u
            then map_option (known_blank_update wall) (get (rg_store rg) u) else get (rg_store rg) u))
     \<and> (\<forall>u. dget (rg_pending rg') u = (if expired now current items u then None else dget (rg_pending rg) u))
     \<and> rg_locks rg' = rg_locks rg \<and> rg_claims rg' = rg_claims rg \<and> same_rest rg rg'
     \<and> (devices_unique (rg_store rg) \<longrightarrow> devices_unique (rg_store rg'))"
  using assms
proof (induction items arbitrary: rg timed_out)
  case Nil
  then show ?case by (simp add: same_rest_def expired_def)
next
  case (Cons x items)
  obtain uid t where x: "x = (uid, t)" by fastforce
  have ok: "dict_ok items" and none: "dget items uid = None"
    using Cons.prems(1) x by (simp_all add: dict_ok_def dget_def map_of_eq_None_iff)
  have ex: "expired now current (x # items) u \<longleftrightarrow>
      (if u = uid then uid \<notin> set current \<and> now \<ge> t else expired now current items u)" for u
    by (simp add: expired_def dget_def x)
  have nex: "\<not> expired now current items uid" using none by (simp add: expired_def)
  show ?case
  proof (cases "uid \<notin> set current \<and> now \<ge> t")
    case False
    then have eq: "expired now current (x # items) u \<longleftrightarrow> expired now current items u" for u
      using ex [of u] nex by auto
    have "timeout_loop wall now current (x # items) rg timed_out = timeout_loop wall now current items rg timed_out"
      using False by (simp only: x timeout_loop.simps if_False)
    then show ?thesis using Cons.IH [OF ok] Cons.prems(2) unfolding eq by simp
  next
    case True
    then obtain d where d: "get (rg_store rg) uid = Some d" using Cons.prems(2) ex [of uid] by auto
    define rg1 where "rg1 = rg\<lparr>rg_store := update_device uid (known_blank_update wall) (rg_store rg),
        rg_pending := ddel uid (rg_pending rg)\<rparr>"
    have g1: "get (rg_store rg1) u = (if u = uid then Some (known_blank_update wall d) else get (rg_store rg) u)" for u
      using d by (simp add: rg1_def get_update)
    have step: "timeout_loop wall now current (x # items) rg timed_out
        = timeout_loop wall now current items rg1 (timed_out @ [known_blank_update wall d])"
      using True d by (simp add: x apply_known_blank_eq rg1_def)
    have "\<forall>u. expired now current items u \<longrightarrow> get (rg_store rg1) u \<noteq> None"
      using Cons.prems(2) ex g1 by (metis option.distinct(1))
    from Cons.IH [OF ok this, of "timed_out @ [known_blank_update wall d]"]
    obtain rg' more where r: "timeout_loop wall now current items rg1 (timed_out @ [known_blank_update wall d])
        = Inr (rg', (timed_out @ [known_blank_update wall d]) @ more)"
      "dv_uid ` set more = {u. expired now current items u}"
      "\<forall>u. get (rg_store rg') u = (if expired now current items u
          then map_option (known_blank_update wall) (get (rg_store rg1) u) else get (rg_store rg1) u)"
      "\<forall>u. dget (rg_pending rg') u = (if expired now current items u then None else dget (rg_pending rg1) u)"
      "rg_locks rg' = rg_locks rg1" "rg_claims rg' = rg_claims rg1" "same_rest rg1 rg'"
      "devices_unique (rg_store rg1) \<longrightarrow> devices_unique (rg_store rg')" by blast
    have "dv_uid ` set (known_blank_update wall d # more) = {u. expired now current (x # items) u}"
      using r(2) ex True get_in_devices [OF d] by auto
    moreover have "get (rg_store rg') u = (if expired now current (x # items) u
          then map_option (known_blank_update wall) (get (rg_store rg) u) else get (rg_store rg) u)" for u
      using r(3) ex [of u] g1 True nex d by (cases "u = uid") auto
    moreover have "dget (rg_pending rg') u = (if expired now current (x # items) u then None
        else dget (rg_pending rg) u)" for u
      using r(4) ex [of u] True nex by (cases "u = uid") (auto simp: rg1_def)
    moreover have "same_rest rg rg'" using r(7) by (simp add: same_rest_def rg1_def)
    moreover have "devices_unique (rg_store rg) \<longrightarrow> devices_unique (rg_store rg')"
      using r(8) dev.wf_upd [of "rg_store rg" "known_blank_update wall" uid] by (simp add: rg1_def)
    ultimately show ?thesis
      unfolding step using r(1,5,6)
      by (intro exI [of _ rg'] exI [of _ "known_blank_update wall d # more"]) (simp add: rg1_def)
  qed
qed

subsection \<open>The cycle as a function of one row\<close>

text \<open>The abstract specification of the critical section of \<open>run_once\<close>: what becomes of each uid, read
  off the state before the cycle, the scan and the claims alone.\<close>

definition attached_here :: "device \<Rightarrow> bool" where
  "attached_here r \<longleftrightarrow> dv_host r = None \<and> dv_state r \<noteq> STATE_DISCONNECTED \<and> \<not> is_virtual r"

definition here :: "registry \<Rightarrow> uid \<Rightarrow> bool" where
  "here rg u = (case get (rg_store rg) u of None \<Rightarrow> False | Some d \<Rightarrow> attached_here d)"

definition cycle_deadline :: "real \<Rightarrow> (string, port_info) dict \<Rightarrow> registry \<Rightarrow> uid \<Rightarrow> real option" where
  "cycle_deadline tick current rg u =
     (if here rg u \<and> dget current u = None \<and> flash_locked rg u \<and> \<not> is_virtual_uid u
      then Some (tick + FLASH_REPROBE_TIMEOUT) else dget (rg_pending rg) u)"

definition cycle_expired :: "real \<Rightarrow> real \<Rightarrow> (string, port_info) dict \<Rightarrow> registry \<Rightarrow> uid \<Rightarrow> bool" where
  "cycle_expired now tick current rg u =
     (dget current u = None \<and> (case cycle_deadline tick current rg u of None \<Rightarrow> False | Some t \<Rightarrow> now \<ge> t))"

definition scanned_row ::
    "real \<Rightarrow> (string \<Rightarrow> nat option) \<Rightarrow> (string, port_info) dict \<Rightarrow> registry \<Rightarrow> uid \<Rightarrow> device option" where
  "scanned_row wall claim_fn current rg u =
     (case dget current u of
        None \<Rightarrow> if here rg u then map_option (gone_row wall) (get (rg_store rg) u) else get (rg_store rg) u
      | Some i \<Rightarrow> if here rg u \<or> claim_fn u = None then get (rg_store rg) u
                  else Some (attach_row wall (rg_store rg) (u, i)))"

definition cycle_row ::
    "real \<Rightarrow> real \<Rightarrow> real \<Rightarrow> (string \<Rightarrow> nat option) \<Rightarrow> (string, port_info) dict \<Rightarrow> registry \<Rightarrow> uid
       \<Rightarrow> device option" where
  "cycle_row wall now tick claim_fn current rg u =
     (if cycle_expired now tick current rg u
      then map_option (known_blank_update wall) (scanned_row wall claim_fn current rg u)
      else scanned_row wall claim_fn current rg u)"

lemma previously_attached_iff:
  "devices_unique (rg_store rg) \<Longrightarrow> u \<in> set (previously_attached rg) \<longleftrightarrow> here rg u"
proof
  assume u: "devices_unique (rg_store rg)" and "u \<in> set (previously_attached rg)"
  then obtain d where "d \<in> set (st_devices (rg_store rg))" "dv_uid d = u" "attached_here d"
    by (auto simp: previously_attached_def attached_here_def list_devices_def)
  then show "here rg u" using devices_get [OF u, of d] by (simp add: here_def)
next
  assume "here rg u"
  then obtain d where d: "get (rg_store rg) u = Some d" "attached_here d"
    by (auto simp: here_def split: option.splits)
  then have "d \<in> set (st_devices (rg_store rg))" "dv_uid d = u" using get_in_devices by blast+
  with d(2) show "u \<in> set (previously_attached rg)"
    by (force simp: previously_attached_def attached_here_def list_devices_def)
qed

lemma distinct_previously_attached:
  "devices_unique (rg_store rg) \<Longrightarrow> distinct (previously_attached rg)"
  by (simp add: previously_attached_def list_devices_def devices_unique_def unique_key_def distinct_map_filter)

lemma map_of_granted:
  "dict_ok current \<Longrightarrow> map_of (granted claim_fn prev current) u
     = (if u \<notin> set prev \<and> claim_fn u \<noteq> None then dget current u else None)"
  by (induction current) (auto simp: granted_def dget_def dict_ok_def split: if_splits)

definition registry_ok :: "registry \<Rightarrow> bool" where
  "registry_ok rg \<longleftrightarrow> devices_unique (rg_store rg) \<and> dict_ok (rg_pending rg)"

text \<open>The state after the attach and detach loops.\<close>

lemma first_loops:
  assumes ok: "registry_ok rg" and cur: "dict_ok current"
  obtains rg1 att owned rg2 det out
  where "attach_loop wall claim_fn (previously_attached rg) current rg []
           (filter (\<lambda>u. dget current u \<noteq> None) (previously_attached rg)) = Inr (rg1, att, owned)"
    and "detach_loop wall tick (filter (\<lambda>u. dget current u = None) (previously_attached rg)) rg1 [] []
           = Inr (rg2, det, out)"
    and "\<forall>u. get (rg_store rg2) u = scanned_row wall claim_fn current rg u"
    and "\<forall>u. dget (rg_pending rg2) u = cycle_deadline tick current rg u"
    and "\<forall>u. dget (rg_locks rg2) u = (if here rg u \<and> dget current u = None then None else dget (rg_locks rg) u)"
    and "\<forall>u. dget (rg_claims rg2) u = (if here rg u then (if dget current u = None then None else dget (rg_claims rg) u)
           else if dget current u = None \<or> claim_fn u = None then dget (rg_claims rg) u else claim_fn u)"
    and "same_rest rg rg2" and "registry_ok rg2"
    and "att = map (attach_row wall (rg_store rg)) (granted claim_fn (previously_attached rg) current)"
    and "map dv_uid det = filter (\<lambda>u. dget current u = None) (previously_attached rg)"
proof -
  let ?prev = "previously_attached rg"
  let ?gone = "filter (\<lambda>u. dget current u = None) ?prev"
  have u: "devices_unique (rg_store rg)" and po: "dict_ok (rg_pending rg)" using ok by (simp_all add: registry_ok_def)
  note prev = previously_attached_iff [OF u]
  note mg = map_of_granted [OF cur, of claim_fn ?prev]
  obtain rg1 where a: "attach_loop wall claim_fn ?prev current rg [] (filter (\<lambda>u. dget current u \<noteq> None) ?prev)
       = Inr (rg1, [] @ map (attach_row wall (rg_store rg)) (granted claim_fn ?prev current),
              filter (\<lambda>u. dget current u \<noteq> None) ?prev @ map fst (granted claim_fn ?prev current))"
     "\<forall>u. get (rg_store rg1) u = (case map_of (granted claim_fn ?prev current) u of
            None \<Rightarrow> get (rg_store rg) u | Some i \<Rightarrow> Some (attach_row wall (rg_store rg) (u, i)))"
     "\<forall>u. dget (rg_claims rg1) u = (if map_of (granted claim_fn ?prev current) u = None
            then dget (rg_claims rg) u else claim_fn u)"
     "rg_locks rg1 = rg_locks rg" "rg_pending rg1 = rg_pending rg" "same_rest rg rg1"
     "devices_unique (rg_store rg) \<longrightarrow> devices_unique (rg_store rg1)"
    using attach_loop_eq [of current wall claim_fn ?prev rg "[]" "filter (\<lambda>u. dget current u \<noteq> None) ?prev"] cur
    unfolding dict_ok_def by blast
  have gone: "u \<in> set ?gone \<longleftrightarrow> here rg u \<and> dget current u = None" for u using prev by auto
  have known: "\<forall>u\<in>set ?gone. get (rg_store rg1) u \<noteq> None"
    using a(2) mg gone by (auto simp: here_def split: option.splits)
  have "distinct ?gone" using distinct_previously_attached [OF u] by simp
  from detach_loop_eq [OF this known, of wall tick "[]" "[]"]
  obtain rg2 out where b: "detach_loop wall tick ?gone rg1 [] []
       = Inr (rg2, [] @ map (\<lambda>u. gone_row wall (the (get (rg_store rg1) u))) ?gone, out)"
     "\<forall>u. get (rg_store rg2) u = (if u \<in> set ?gone then map_option (gone_row wall) (get (rg_store rg1) u)
            else get (rg_store rg1) u)"
     "\<forall>u. dget (rg_locks rg2) u = (if u \<in> set ?gone then None else dget (rg_locks rg1) u)"
     "\<forall>u. dget (rg_claims rg2) u = (if u \<in> set ?gone then None else dget (rg_claims rg1) u)"
     "\<forall>u. dget (rg_pending rg2) u = (if u \<in> set ?gone \<and> flash_locked rg1 u \<and> \<not> is_virtual_uid u
            then Some (tick + FLASH_REPROBE_TIMEOUT) else dget (rg_pending rg1) u)"
     "same_rest rg1 rg2" "devices_unique (rg_store rg1) \<longrightarrow> devices_unique (rg_store rg2)"
     "dict_ok (rg_pending rg1) \<longrightarrow> dict_ok (rg_pending rg2)" by blast
  have fl: "flash_locked rg1 = flash_locked rg" using a(4) by (simp add: flash_locked_def fun_eq_iff)
  show ?thesis
  proof (rule that [OF a(1) b(1)])
    show "\<forall>u. get (rg_store rg2) u = scanned_row wall claim_fn current rg u"
      using b(2) a(2) mg gone prev by (auto simp: scanned_row_def split: option.split)
    show "\<forall>u. dget (rg_pending rg2) u = cycle_deadline tick current rg u"
      using b(5) prev fl a(5) by (simp add: cycle_deadline_def)
    show "\<forall>u. dget (rg_locks rg2) u = (if here rg u \<and> dget current u = None then None else dget (rg_locks rg) u)"
      using b(3) prev a(4) by simp
    show "\<forall>u. dget (rg_claims rg2) u = (if here rg u then (if dget current u = None then None else dget (rg_claims rg) u)
           else if dget current u = None \<or> claim_fn u = None then dget (rg_claims rg) u else claim_fn u)"
      using b(4) a(3) mg gone prev by auto
    show "same_rest rg rg2" using a(6) b(6) by (rule same_rest_trans)
    show "registry_ok rg2" using a(5,7) b(7,8) u po by (simp add: registry_ok_def)
    have "dv_uid (gone_row wall (the (get (rg_store rg1) u))) = u" if "u \<in> set ?gone" for u
    proof -
      obtain d where "get (rg_store rg1) u = Some d" using known \<open>u \<in> set ?gone\<close> by blast
      then show ?thesis using get_in_devices by fastforce
    qed
    then have "map (\<lambda>u. dv_uid (gone_row wall (the (get (rg_store rg1) u)))) ?gone = map (\<lambda>u. u) ?gone"
      by (intro map_cong) simp_all
    then show "map dv_uid ([] @ map (\<lambda>u. gone_row wall (the (get (rg_store rg1) u))) ?gone) = ?gone"
      by (simp only: append_Nil map_map comp_def map_ident)
  qed simp
qed

lemma expired_cycle:
  "\<forall>u. dget pending u = cycle_deadline tick current rg u
     \<Longrightarrow> expired now (map fst current) pending u \<longleftrightarrow> cycle_expired now tick current rg u"
  by (auto simp: expired_def cycle_expired_def dget_None_iff split: option.splits)

lemma run_diff_eq:
  assumes "registry_ok rg" and "dict_ok current"
    and "\<forall>u. cycle_expired now tick current rg u \<longrightarrow> get (rg_store rg) u \<noteq> None"
  obtains d where "run_diff wall now tick claim_fn current rg = Inr d"
    and "\<forall>u. get (rg_store (df_rg d)) u = cycle_row wall now tick claim_fn current rg u"
    and "\<forall>u. dget (rg_pending (df_rg d)) u
           = (if cycle_expired now tick current rg u then None else cycle_deadline tick current rg u)"
    and "\<forall>u. dget (rg_locks (df_rg d)) u = (if here rg u \<and> dget current u = None then None else dget (rg_locks rg) u)"
    and "\<forall>u. dget (rg_claims (df_rg d)) u = (if here rg u then (if dget current u = None then None else dget (rg_claims rg) u)
           else if dget current u = None \<or> claim_fn u = None then dget (rg_claims rg) u else claim_fn u)"
    and "same_rest rg (df_rg d)" and "devices_unique (rg_store (df_rg d))"
    and "df_attached d = map (attach_row wall (rg_store rg)) (granted claim_fn (previously_attached rg) current)"
    and "map dv_uid (df_detached d) = filter (\<lambda>u. dget current u = None) (previously_attached rg)"
    and "dv_uid ` set (df_timed_out d) = {u. cycle_expired now tick current rg u}"
proof -
  obtain rg1 att owned rg2 det out where l:
    "attach_loop wall claim_fn (previously_attached rg) current rg []
       (filter (\<lambda>u. dget current u \<noteq> None) (previously_attached rg)) = Inr (rg1, att, owned)"
    "detach_loop wall tick (filter (\<lambda>u. dget current u = None) (previously_attached rg)) rg1 [] [] = Inr (rg2, det, out)"
    "\<forall>u. get (rg_store rg2) u = scanned_row wall claim_fn current rg u"
    "\<forall>u. dget (rg_pending rg2) u = cycle_deadline tick current rg u"
    "\<forall>u. dget (rg_locks rg2) u = (if here rg u \<and> dget current u = None then None else dget (rg_locks rg) u)"
    "\<forall>u. dget (rg_claims rg2) u = (if here rg u then (if dget current u = None then None else dget (rg_claims rg) u)
           else if dget current u = None \<or> claim_fn u = None then dget (rg_claims rg) u else claim_fn u)"
    "same_rest rg rg2" "registry_ok rg2"
    "att = map (attach_row wall (rg_store rg)) (granted claim_fn (previously_attached rg) current)"
    "map dv_uid det = filter (\<lambda>u. dget current u = None) (previously_attached rg)"
    by (rule first_loops [OF assms(1,2), of wall claim_fn tick])
  note ex = expired_cycle [OF l(4), where now = now]
  have known: "\<forall>u. expired now (map fst current) (rg_pending rg2) u \<longrightarrow> get (rg_store rg2) u \<noteq> None"
    unfolding ex using assms(3) l(3) by (auto simp: scanned_row_def cycle_expired_def split: option.splits)
  have po: "dict_ok (rg_pending rg2)" using l(8) by (simp add: registry_ok_def)
  obtain rg3 more where t: "timeout_loop wall now (map fst current) (rg_pending rg2) rg2 [] = Inr (rg3, [] @ more)"
     "dv_uid ` set more = {u. expired now (map fst current) (rg_pending rg2) u}"
     "\<forall>u. get (rg_store rg3) u = (if expired now (map fst current) (rg_pending rg2) u
            then map_option (known_blank_update wall) (get (rg_store rg2) u) else get (rg_store rg2) u)"
     "\<forall>u. dget (rg_pending rg3) u = (if expired now (map fst current) (rg_pending rg2) u then None
            else dget (rg_pending rg2) u)"
     "rg_locks rg3 = rg_locks rg2" "rg_claims rg3 = rg_claims rg2" "same_rest rg2 rg3"
     "devices_unique (rg_store rg2) \<longrightarrow> devices_unique (rg_store rg3)"
    using timeout_loop_eq [OF po known, of wall "[]"] by blast
  show ?thesis
  proof (rule that)
    show "run_diff wall now tick claim_fn current rg = Inr \<lparr>df_rg = rg3, df_attached = att, df_detached = det,
        df_timed_out = more, df_owned = owned, df_lock_events = out\<rparr>"
      using l(1,2) t(1) by (simp add: run_diff_def Let_def)
  qed (use l t ex in \<open>auto simp: cycle_row_def registry_ok_def intro: same_rest_trans\<close>)
qed

lemma timeout_loop_raises:
  assumes "dict_ok items" and "\<exists>u. expired now current items u \<and> get (rg_store rg) u = None"
  shows "\<exists>rg'. timeout_loop wall now current items rg timed_out = Inl (KeyError, rg')"
  using assms
proof (induction items arbitrary: rg timed_out)
  case Nil
  then show ?case by (simp add: expired_def)
next
  case (Cons x items)
  obtain uid t where x: "x = (uid, t)" by fastforce
  have ok: "dict_ok items" using Cons.prems(1) by (simp add: dict_ok_def)
  obtain u where u: "expired now current (x # items) u" "get (rg_store rg) u = None" using Cons.prems(2) by blast
  show ?case
  proof (cases "uid \<notin> set current \<and> now \<ge> t")
    case False
    then have "expired now current items u" using u(1) by (auto simp: expired_def dget_def x split: if_splits)
    then obtain rg' where "timeout_loop wall now current items rg timed_out = Inl (KeyError, rg')"
      using Cons.IH [OF ok] u(2) by blast
    moreover have "timeout_loop wall now current (x # items) rg timed_out = timeout_loop wall now current items rg timed_out"
      using False by (simp only: x timeout_loop.simps if_False)
    ultimately show ?thesis by simp
  next
    case True
    show ?thesis
    proof (cases "get (rg_store rg) uid")
      case None
      then show ?thesis using True by (simp add: x apply_known_blank_eq)
    next
      case (Some d)
      then have ne: "u \<noteq> uid" using u(2) by auto
      let ?rg = "rg\<lparr>rg_store := update_device uid (known_blank_update wall) (rg_store rg),
          rg_pending := ddel uid (rg_pending rg)\<rparr>"
      have "expired now current items u" using u(1) ne by (simp add: expired_def dget_def x)
      moreover have "get (rg_store ?rg) u = None" using u(2) ne by (simp add: get_update)
      ultimately obtain rg' where "timeout_loop wall now current items ?rg (timed_out @ [known_blank_update wall d])
          = Inl (KeyError, rg')" using Cons.IH [OF ok] by blast
      then show ?thesis using True Some by (simp add: x apply_known_blank_eq)
    qed
  qed
qed

lemma run_diff_raises:
  assumes "registry_ok rg" and "dict_ok current"
    and "\<exists>u. cycle_expired now tick current rg u \<and> get (rg_store rg) u = None"
  shows "\<exists>rg'. run_diff wall now tick claim_fn current rg = Inl (KeyError, rg')"
proof -
  obtain rg1 att owned rg2 det out where l:
    "attach_loop wall claim_fn (previously_attached rg) current rg []
       (filter (\<lambda>u. dget current u \<noteq> None) (previously_attached rg)) = Inr (rg1, att, owned)"
    "detach_loop wall tick (filter (\<lambda>u. dget current u = None) (previously_attached rg)) rg1 [] [] = Inr (rg2, det, out)"
    "\<forall>u. get (rg_store rg2) u = scanned_row wall claim_fn current rg u"
    "\<forall>u. dget (rg_pending rg2) u = cycle_deadline tick current rg u" "registry_ok rg2"
    by (rule first_loops [OF assms(1,2), of wall claim_fn tick])
  obtain u where u: "cycle_expired now tick current rg u" "get (rg_store rg) u = None" using assms(3) by blast
  have "dget current u = None" using u(1) by (simp add: cycle_expired_def)
  then have "get (rg_store rg2) u = None" using u(2) l(3) by (simp add: scanned_row_def here_def)
  moreover have "expired now (map fst current) (rg_pending rg2) u"
    using u(1) expired_cycle [OF l(4), of now u] by simp
  moreover have "dict_ok (rg_pending rg2)" using l(5) by (simp add: registry_ok_def)
  ultimately obtain rg' where "timeout_loop wall now (map fst current) (rg_pending rg2) rg2 [] = Inl (KeyError, rg')"
    using timeout_loop_raises [of "rg_pending rg2" now "map fst current" rg2 wall "[]"] by blast
  then show ?thesis using l(1,2) by (simp add: run_diff_def Let_def)
qed

lemma finish_probe_eq:
  fixes wall :: real and result :: "probe_result option" and chip :: "(string \<times> int) option"
  assumes "get (rg_store rg) uid = Some d"
  defines "blank \<equiv> (case dget (rg_pending rg) uid of None \<Rightarrow> False | Some _ \<Rightarrow> True)"
  defines "d1 \<equiv> (if result = None \<and> blank then known_blank_update wall d else probe_update wall result d)"
  defines "d2 \<equiv> (case chip of None \<Rightarrow> d1 | Some (n, x) \<Rightarrow>
      if dv_chip_identity_name d1 \<noteq> None then d1
      else d1\<lparr>dv_chip_identity_name := Some n, dv_chip_identity_serial := Some x\<rparr>)"
  shows "\<exists>rg'. finish_probe wall uid result chip rg = Inr (rg', d2)
     \<and> get (rg_store rg') = (get (rg_store rg))(uid \<mapsto> d2)
     \<and> rg_pending rg' = ddel uid (rg_pending rg) \<and> rg_locks rg' = rg_locks rg \<and> rg_claims rg' = rg_claims rg
     \<and> same_rest rg rg' \<and> (devices_unique (rg_store rg) \<longrightarrow> devices_unique (rg_store rg'))"
proof -
  define f where "f = (if result = None \<and> blank then known_blank_update wall else probe_update wall result)"
  have k: "dv_uid (f x) = dv_uid x" for x by (simp add: f_def)
  let ?s1 = "update_device uid f (rg_store rg)"
  have b: "blank \<longleftrightarrow> dget (rg_pending rg) uid \<noteq> None" by (simp add: blank_def split: option.split)
  have one: "(if result = None \<and> dget (rg_pending rg) uid \<noteq> None then apply_known_blank wall uid (rg_store rg)
       else apply_probe_result wall uid result (rg_store rg)) = Inr (?s1, d1)"
    unfolding b [symmetric] apply_known_blank_def apply_probe_result_def d1_def
    using assms(1) by (simp add: guarded_update_eq f_def)
  have g1: "get ?s1 = (get (rg_store rg))(uid \<mapsto> d1)"
    using dev.get_upd [of f uid "rg_store rg", OF k] assms(1) by (simp add: d1_def f_def)
  have u1: "devices_unique (rg_store rg) \<Longrightarrow> devices_unique ?s1" by (rule dev.wf_upd [OF _ k])
  let ?rg1 = "rg\<lparr>rg_store := ?s1, rg_pending := ddel uid (rg_pending rg)\<rparr>"
  show ?thesis
  proof (cases "\<exists>n x. chip = Some (n, x) \<and> dv_chip_identity_name d1 = None")
    case False
    have "finish_probe wall uid result chip rg = Inr (?rg1, d2)"
      using False g1 unfolding finish_probe_def one
      by (auto simp: Let_def d2_def set_chip_identity_def split: option.splits)
    moreover have "d2 = d1" using False by (auto simp: d2_def split: option.splits)
    ultimately show ?thesis using g1 u1 by (intro exI [of _ ?rg1]) (simp add: same_rest_def)
  next
    case True
    then obtain n x where c: "chip = Some (n, x)" "dv_chip_identity_name d1 = None" by blast
    let ?h = "\<lambda>d. d\<lparr>dv_chip_identity_name := Some n, dv_chip_identity_serial := Some x\<rparr>"
    let ?s2 = "update_device uid ?h ?s1"
    have d2: "d2 = ?h d1" using c by (simp add: d2_def)
    have "set_chip_identity uid n x ?s1 = Inr (?s2, d2)"
      using c g1 reread_update [of ?h ?s1 uid d1] by (simp add: set_chip_identity_def d2)
    then have "finish_probe wall uid result chip rg = Inr (?rg1\<lparr>rg_store := ?s2\<rparr>, d2)"
      unfolding finish_probe_def one using c by (simp add: Let_def)
    moreover have "get ?s2 = (get (rg_store rg))(uid \<mapsto> d2)"
      using dev.get_upd [of ?h uid ?s1] g1 d2 by simp
    moreover have "devices_unique (rg_store rg) \<Longrightarrow> devices_unique ?s2"
      using dev.wf_upd [of ?s1 ?h uid] u1 by simp
    ultimately show ?thesis by (intro exI [of _ "?rg1\<lparr>rg_store := ?s2\<rparr>"]) (simp add: same_rest_def)
  qed
qed

subsection \<open>The invariant of the cycle\<close>

definition cycle_inv :: "registry \<Rightarrow> bool" where
  "cycle_inv rg \<longleftrightarrow> store_ok (rg_store rg) \<and> dict_ok (rg_pending rg)
     \<and> (\<forall>u\<in>fst ` set (rg_pending rg). get (rg_store rg) u \<noteq> None)"

lemma cycle_inv_pending:
  "cycle_inv rg \<Longrightarrow> dget (rg_pending rg) u \<noteq> None \<Longrightarrow> get (rg_store rg) u \<noteq> None"
  unfolding cycle_inv_def dget_None_iff by blast

lemma cycle_inv_ok: "cycle_inv rg \<Longrightarrow> registry_ok rg"
  by (simp add: cycle_inv_def registry_ok_def store_ok_def)

lemma device_ok_gone_row: "device_ok d \<Longrightarrow> device_ok (gone_row wall d)"
  by (simp add: device_ok_def gone_row_def)

lemma device_ok_attach_row: "store_ok s \<Longrightarrow> device_ok (attach_row wall s x)"
  by (cases x) (auto simp: attach_row_def store_ok_get intro: device_ok_upsert_row)

lemma device_ok_cycle_row:
  assumes "store_ok (rg_store rg)" and "wall \<noteq> 0"
    and "cycle_row wall now tick claim_fn current rg u = Some d"
  shows "device_ok d"
proof -
  have s: "device_ok d" if "scanned_row wall claim_fn current rg u = Some d" for d
    using that assms(1) device_ok_gone_row device_ok_attach_row [OF assms(1)]
    by (auto simp: scanned_row_def store_ok_get split: option.splits if_splits)
  show ?thesis
    using assms(3) s device_ok_known_blank_update assms(2) by (auto simp: cycle_row_def split: if_splits)
qed

lemma scanned_row_present:
  "get (rg_store rg) u \<noteq> None \<Longrightarrow> scanned_row wall claim_fn current rg u \<noteq> None"
  by (simp add: scanned_row_def split: option.split)

lemma cycle_deadline_known:
  "cycle_inv rg \<Longrightarrow> cycle_deadline tick current rg u \<noteq> None \<Longrightarrow> get (rg_store rg) u \<noteq> None"
  using cycle_inv_pending [of rg u] by (auto simp: cycle_deadline_def here_def split: if_splits option.splits)

lemma timeout_loop_dict_ok:
  "timeout_loop wall now current items rg acc = Inr (rg', extra) \<Longrightarrow> dict_ok (rg_pending rg) \<Longrightarrow> dict_ok (rg_pending rg')"
  by (induction items arbitrary: rg acc) (auto split: if_splits sum.splits)

lemma run_diff_dict_ok:
  assumes "registry_ok rg" and "dict_ok current" and "run_diff wall now tick claim_fn current rg = Inr d"
  shows "dict_ok (rg_pending (df_rg d))"
proof (rule first_loops [OF assms(1,2), of wall claim_fn tick])
  fix rg1 att owned rg2 det out
  assume "attach_loop wall claim_fn (previously_attached rg) current rg []
       (filter (\<lambda>u. dget current u \<noteq> None) (previously_attached rg)) = Inr (rg1, att, owned)"
    "detach_loop wall tick (filter (\<lambda>u. dget current u = None) (previously_attached rg)) rg1 [] [] = Inr (rg2, det, out)"
    "registry_ok rg2"
  then show ?thesis using assms(3) timeout_loop_dict_ok [of wall now "map fst current" "rg_pending rg2" rg2 "[]"]
    by (auto simp: run_diff_def Let_def registry_ok_def split: sum.splits)
qed

lemma run_diff_owned:
  assumes "registry_ok rg" and "dict_ok current" and "run_diff wall now tick claim_fn current rg = Inr d"
    and "u \<in> set (df_owned d)"
  shows "dget current u \<noteq> None \<and> (here rg u \<or> claim_fn u \<noteq> None)"
proof -
  let ?prev = "previously_attached rg"
  have u: "devices_unique (rg_store rg)" using assms(1) by (simp add: registry_ok_def)
  obtain rg1 where "attach_loop wall claim_fn ?prev current rg [] (filter (\<lambda>u. dget current u \<noteq> None) ?prev)
       = Inr (rg1, [] @ map (attach_row wall (rg_store rg)) (granted claim_fn ?prev current),
              filter (\<lambda>u. dget current u \<noteq> None) ?prev @ map fst (granted claim_fn ?prev current))"
    using attach_loop_eq [of current wall claim_fn ?prev rg "[]" "filter (\<lambda>u. dget current u \<noteq> None) ?prev"] assms(2)
    unfolding dict_ok_def by blast
  then have "df_owned d = filter (\<lambda>u. dget current u \<noteq> None) ?prev @ map fst (granted claim_fn ?prev current)"
    using assms(3) by (auto simp: run_diff_def Let_def split: sum.splits prod.splits)
  then have "u \<in> set ?prev \<and> dget current u \<noteq> None \<or> u \<in> fst ` set current \<and> claim_fn u \<noteq> None"
    using assms(4) by (auto simp: granted_def)
  then show ?thesis using previously_attached_iff [OF u] by (auto simp: dget_None_iff)
qed

lemma run_diff_inv:
  assumes "cycle_inv rg" and "dict_ok current" and "wall \<noteq> 0"
  shows "\<exists>d. run_diff wall now tick claim_fn current rg = Inr d \<and> cycle_inv (df_rg d)
     \<and> (\<forall>u\<in>set (df_owned d). dget current u \<noteq> None \<and> get (rg_store (df_rg d)) u \<noteq> None)"
proof -
  note ok = cycle_inv_ok [OF assms(1)]
  have known: "\<forall>u. cycle_expired now tick current rg u \<longrightarrow> get (rg_store rg) u \<noteq> None"
    using cycle_deadline_known [OF assms(1)] by (fastforce simp: cycle_expired_def split: option.splits)
  have sok: "store_ok (rg_store rg)" using assms(1) by (simp add: cycle_inv_def)
  obtain d where d: "run_diff wall now tick claim_fn current rg = Inr d"
    "\<forall>u. get (rg_store (df_rg d)) u = cycle_row wall now tick claim_fn current rg u"
    "\<forall>u. dget (rg_pending (df_rg d)) u
           = (if cycle_expired now tick current rg u then None else cycle_deadline tick current rg u)"
    "same_rest rg (df_rg d)" "devices_unique (rg_store (df_rg d))"
    by (rule run_diff_eq [OF ok assms(2) known, of wall claim_fn])
  have present: "get (rg_store rg) u \<noteq> None \<Longrightarrow> get (rg_store (df_rg d)) u \<noteq> None" for u
    using d(2) scanned_row_present by (auto simp: cycle_row_def)
  have "store_ok (rg_store (df_rg d))"
  proof -
    have "peers_unique (rg_store (df_rg d))"
      using sok d(4) by (simp add: store_ok_def same_rest_def peers_unique_def)
    moreover have "get (rg_store (df_rg d)) u = Some x \<Longrightarrow> device_ok x" for u x
      using device_ok_cycle_row [OF sok assms(3)] by (simp only: d(2) [rule_format])
    ultimately show ?thesis using d(5) unfolding store_ok_get by blast
  qed
  moreover have "dict_ok (rg_pending (df_rg d))" by (rule run_diff_dict_ok [OF ok assms(2) d(1)])
  moreover have "get (rg_store (df_rg d)) u \<noteq> None" if "dget (rg_pending (df_rg d)) u \<noteq> None" for u
    using that d(3) cycle_deadline_known [OF assms(1)] present by (auto split: if_splits)
  ultimately have "cycle_inv (df_rg d)" unfolding cycle_inv_def by (metis dget_None_iff)
  moreover have "get (rg_store (df_rg d)) u \<noteq> None" if "u \<in> set (df_owned d)" for u
    using run_diff_owned [OF ok assms(2) d(1) that] d(2)
    by (auto simp: cycle_row_def scanned_row_def here_def split: option.splits)
  ultimately show ?thesis using d(1) run_diff_owned [OF ok assms(2) d(1)] by blast
qed

lemma device_ok_chip:
  "device_ok d \<Longrightarrow> device_ok (case chip of None \<Rightarrow> d | Some (n, x) \<Rightarrow>
     if dv_chip_identity_name d \<noteq> None then d
     else d\<lparr>dv_chip_identity_name := Some n, dv_chip_identity_serial := Some x\<rparr>)"
  by (simp add: device_ok_def split: option.split)

lemma finish_probe_inv:
  assumes "cycle_inv rg" and "get (rg_store rg) uid \<noteq> None" and "wall \<noteq> 0"
  shows "\<exists>rg' r. finish_probe wall uid result chip rg = Inr (rg', r) \<and> cycle_inv rg'
     \<and> (\<forall>u. get (rg_store rg) u \<noteq> None \<longrightarrow> get (rg_store rg') u \<noteq> None)"
proof -
  obtain d where d: "get (rg_store rg) uid = Some d" using assms(2) by blast
  have ok: "device_ok d" using assms(1) d by (simp add: cycle_inv_def store_ok_get)
  obtain rg' d2 where r: "finish_probe wall uid result chip rg = Inr (rg', d2)"
    "get (rg_store rg') = (get (rg_store rg))(uid \<mapsto> d2)" "rg_pending rg' = ddel uid (rg_pending rg)"
    "same_rest rg rg'" "devices_unique (rg_store rg) \<longrightarrow> devices_unique (rg_store rg')" "device_ok d2"
  proof -
    let ?blank = "case dget (rg_pending rg) uid of None \<Rightarrow> False | Some _ \<Rightarrow> True"
    let ?d1 = "if result = None \<and> ?blank then known_blank_update wall d else probe_update wall result d"
    have ok1: "device_ok ?d1"
      using device_ok_probe_update [OF ok assms(3), of result] device_ok_known_blank_update [OF ok assms(3)] by simp
    then have "device_ok (case chip of None \<Rightarrow> ?d1 | Some (n, x) \<Rightarrow>
        if dv_chip_identity_name ?d1 \<noteq> None then ?d1
        else ?d1\<lparr>dv_chip_identity_name := Some n, dv_chip_identity_serial := Some x\<rparr>)"
      by (rule device_ok_chip)
    then show ?thesis using finish_probe_eq [OF d, of wall result chip] that by blast
  qed
  have "store_ok (rg_store rg')"
    using assms(1) r by (intro store_ok_write [OF _ r(2)]) (auto simp: cycle_inv_def store_ok_def same_rest_def)
  moreover have "\<forall>u\<in>fst ` set (rg_pending rg'). get (rg_store rg') u \<noteq> None"
    using assms(1) r(2,3) by (auto simp: cycle_inv_def ddel_def)
  ultimately have "cycle_inv rg'" using assms(1) r(3) by (simp add: cycle_inv_def)
  then show ?thesis using r(1,2) by auto
qed

lemma maybe_probe_inv:
  assumes "cycle_inv rg" and "get (rg_store rg) uid \<noteq> None" and "wall \<noteq> 0"
  shows "\<exists>rg' evs. maybe_probe wall probe_port chip uid info rg = Inr (rg', evs) \<and> cycle_inv rg'
     \<and> (\<forall>u. get (rg_store rg) u \<noteq> None \<longrightarrow> get (rg_store rg') u \<noteq> None)"
proof -
  obtain b where b: "probe_due rg uid = Inr b"
    using assms(2) by (auto simp: probe_due_def needs_probe_def)
  show ?thesis
  proof (cases b)
    case False
    then show ?thesis using b assms(1) by (simp add: maybe_probe_def)
  next
    case True
    let ?c = "if (case probe_port (pi_port info) of None \<Rightarrow> True | Some r \<Rightarrow> pr_device_name r = [])
                 \<and> needs_swd rg uid then chip uid else None"
    obtain rg' r where "finish_probe wall uid (probe_port (pi_port info)) ?c rg = Inr (rg', r)" "cycle_inv rg'"
        "\<forall>u. get (rg_store rg) u \<noteq> None \<longrightarrow> get (rg_store rg') u \<noteq> None"
      using finish_probe_inv [OF assms, of "probe_port (pi_port info)" ?c] by blast
    then show ?thesis using b True by (simp add: maybe_probe_def Let_def)
  qed
qed

lemma probe_loop_inv:
  assumes "cycle_inv rg" and "\<forall>u\<in>set uids. dget current u \<noteq> None \<and> get (rg_store rg) u \<noteq> None" and "wall \<noteq> 0"
  shows "\<exists>rg' evs. probe_loop wall probe_port chip current uids rg out = Inr (rg', evs) \<and> cycle_inv rg'"
  using assms(1,2)
proof (induction uids arbitrary: rg out)
  case (Cons uid uids)
  obtain info where i: "dget current uid = Some info" using Cons.prems(2) by auto
  have "get (rg_store rg) uid \<noteq> None" using Cons.prems(2) by simp
  from maybe_probe_inv [OF Cons.prems(1) this assms(3), of probe_port chip info]
  obtain rg1 evs where r: "maybe_probe wall probe_port chip uid info rg = Inr (rg1, evs)" "cycle_inv rg1"
     "\<forall>u. get (rg_store rg) u \<noteq> None \<longrightarrow> get (rg_store rg1) u \<noteq> None" by blast
  have "\<forall>u\<in>set uids. dget current u \<noteq> None \<and> get (rg_store rg1) u \<noteq> None" using Cons.prems(2) r(3) by simp
  then show ?case using Cons.IH [OF r(2), of "out @ evs"] i r(1) by simp
qed simp

lemma dict_ok_scan: "dict_ok (scan ports)"
proof -
  have "dict_ok out \<Longrightarrow> dict_ok (scan_loop ports out)" for out
    by (induction ports arbitrary: out) (auto split: option.splits)
  then show ?thesis by (simp add: scan_def)
qed

lemma attach_row_here: "attached_here (attach_row wall s (u, i))"
proof -
  have v: "dv_vid_pid (attach_row wall s (u, i)) = Some (format_vid_pid (pi_vid i) (pi_pid i))"
    "dv_host (attach_row wall s (u, i)) = None" "dv_state (attach_row wall s (u, i)) \<noteq> STATE_DISCONNECTED"
    by (auto simp: attach_row_def upsert_row_def fresh_device_def split: option.split)
  then have "\<not> is_virtual (attach_row wall s (u, i))"
    using format_vid_pid_not_virtual by (simp add: is_virtual_def)
  with v show ?thesis by (simp add: attached_here_def)
qed

lemma granted_Nil_iff:
  "granted claim_fn prev current = [] \<longleftrightarrow> (\<forall>u. dget current u \<noteq> None \<longrightarrow> u \<in> set prev \<or> claim_fn u = None)"
proof -
  have "granted claim_fn prev current = [] \<longleftrightarrow> (\<forall>x\<in>set current. fst x \<in> set prev \<or> claim_fn (fst x) = None)"
    by (auto simp: granted_def filter_empty_conv)
  then show ?thesis by (auto simp: dget_None_iff)
qed

text \<open>A registry over the small bench of \<open>MB_Store\<close>.\<close>

definition bench :: registry where
  "bench = \<lparr>rg_store = demo_store, rg_locks = [], rg_pending = [], rg_claims = [(''aa'', 3)], rg_virtual = [],
     rg_conns = []\<rparr>"

lemma bench_ok: "registry_ok bench"
  by (simp add: registry_ok_def bench_def demo_unique)

lemma bench_here: "here bench ''aa''" "\<not> here bench ''bb''"
  by (simp_all add: here_def bench_def demo_get demo_device_def fresh_device_def attached_here_def is_virtual_def
      VIRTUAL_VID_PID_def)

lemma bench_inv: "cycle_inv bench"
proof -
  have "\<forall>d\<in>set (st_devices demo_store). device_ok d" "peers_unique demo_store"
    by (simp_all add: peers_unique_def unique_key_def demo_store_def demo_device_def fresh_device_def device_ok_def)
  then have "store_ok demo_store" using demo_unique by (simp add: store_ok_def)
  then show ?thesis by (simp add: cycle_inv_def bench_def)
qed

subsection \<open>Properties\<close>



text \<open>The cycle converges. After a cycle in which no flash deadline passed, a cycle over the same scan
  and claims finds nothing attached and nothing detached, so no event is repeated.\<close>

theorem daemon_cycle_converges:
  assumes "registry_ok rg" and "dict_ok current"
    and "run_diff wall now tick claim_fn current rg = Inr d"
    and "\<forall>u. \<not> cycle_expired now tick current rg u"
    and "run_diff wall' now' tick' claim_fn current (df_rg d) = Inr d2"
  shows "df_attached d2 = [] \<and> df_detached d2 = []
     \<and> (\<forall>u. dget (rg_locks (df_rg d2)) u = dget (rg_locks (df_rg d)) u)"
proof -
  have known: "\<forall>u. cycle_expired now tick current rg u \<longrightarrow> get (rg_store rg) u \<noteq> None" using assms(4) by simp
  have rows: "\<forall>u. get (rg_store (df_rg d)) u = cycle_row wall now tick claim_fn current rg u"
    and du: "devices_unique (rg_store (df_rg d))"
    by (rule run_diff_eq [OF assms(1,2) known, of wall claim_fn]; use assms(3) in simp)+
  have ok: "registry_ok (df_rg d)"
    using du run_diff_dict_ok [OF assms(1,2,3)] by (simp add: registry_ok_def)
  have h: "here (df_rg d) u \<longleftrightarrow> dget current u \<noteq> None \<and> (here rg u \<or> claim_fn u \<noteq> None)
       \<or> dget current u = None \<and> False" for u
  proof (cases "dget current u")
    case None
    then show ?thesis
      using rows assms(4) by (auto simp: here_def cycle_row_def scanned_row_def attached_here_def gone_row_def
          split: option.splits)
  next
    case (Some i)
    then show ?thesis
      using rows assms(4) attach_row_here by (auto simp: here_def cycle_row_def scanned_row_def split: option.splits)
  qed
  have prev: "u \<in> set (previously_attached (df_rg d)) \<longleftrightarrow> here (df_rg d) u" for u
    by (rule previously_attached_iff [OF du])
  have gone: "filter (\<lambda>u. dget current u = None) (previously_attached (df_rg d)) = []"
    using prev h by (auto simp: filter_empty_conv)
  have new: "granted claim_fn (previously_attached (df_rg d)) current = []"
    unfolding granted_Nil_iff using prev h by blast
  obtain rg1 att owned rg2 det out where l:
    "attach_loop wall' claim_fn (previously_attached (df_rg d)) current (df_rg d) []
       (filter (\<lambda>u. dget current u \<noteq> None) (previously_attached (df_rg d))) = Inr (rg1, att, owned)"
    "detach_loop wall' tick' (filter (\<lambda>u. dget current u = None) (previously_attached (df_rg d))) rg1 [] []
       = Inr (rg2, det, out)"
    "\<forall>u. dget (rg_locks rg2) u = (if here (df_rg d) u \<and> dget current u = None then None else dget (rg_locks (df_rg d)) u)"
    "att = map (attach_row wall' (rg_store (df_rg d))) (granted claim_fn (previously_attached (df_rg d)) current)"
    "map dv_uid det = filter (\<lambda>u. dget current u = None) (previously_attached (df_rg d))"
    by (rule first_loops [OF ok assms(2), of wall' claim_fn tick'])
  have "att = []" "det = []" using l(4,5) new gone by simp_all
  moreover obtain rg3 extra where t: "timeout_loop wall' now' (map fst current) (rg_pending rg2) rg2 [] = Inr (rg3, extra)"
    "d2 = \<lparr>df_rg = rg3, df_attached = att, df_detached = det, df_timed_out = extra, df_owned = owned, df_lock_events = out\<rparr>"
    using assms(5) l(1,2) by (auto simp: run_diff_def Let_def split: sum.splits)
  moreover have "rg_locks rg3 = rg_locks rg2"
  proof -
    have "timeout_loop wall' now' c items r acc = Inr (r', x) \<Longrightarrow> rg_locks r' = rg_locks r" for c items r acc r' x
      by (induction items arbitrary: r acc) (auto split: if_splits sum.splits)
    then show ?thesis using t(1) by blast
  qed
  moreover have "\<not> (here (df_rg d) u \<and> dget current u = None)" for u using h [of u] by auto
  then have "dget (rg_locks rg2) u = dget (rg_locks (df_rg d)) u" for u using l(3) by metis
  ultimately show ?thesis by simp
qed

text \<open>C10: a cycle raises (and, being uncaught in \<open>Daemon.run\<close>, ends the registry process) exactly when
  a flash deadline passes for an absent uid whose row no longer exists.\<close>

theorem daemon_cycle_raises_iff:
  assumes "registry_ok rg" and "dict_ok current"
  shows "(\<exists>rg'. run_diff wall now tick claim_fn current rg = Inl (KeyError, rg'))
     \<longleftrightarrow> (\<exists>u t. dget (rg_pending rg) u = Some t \<and> now \<ge> t \<and> dget current u = None \<and> get (rg_store rg) u = None)"
proof -
  have iff: "cycle_expired now tick current rg u \<and> get (rg_store rg) u = None \<longleftrightarrow>
      (\<exists>t. dget (rg_pending rg) u = Some t \<and> now \<ge> t \<and> dget current u = None \<and> get (rg_store rg) u = None)" for u
    by (auto simp: cycle_expired_def cycle_deadline_def here_def split: option.splits)
  show ?thesis
  proof (cases "\<exists>u. cycle_expired now tick current rg u \<and> get (rg_store rg) u = None")
    case True
    then show ?thesis using run_diff_raises [OF assms True, of wall claim_fn] iff by blast
  next
    case False
    then have "\<forall>u. cycle_expired now tick current rg u \<longrightarrow> get (rg_store rg) u \<noteq> None" by simp
    then obtain d where "run_diff wall now tick claim_fn current rg = Inr d"
      by (rule run_diff_eq [OF assms, of now tick wall claim_fn])
    then show ?thesis using False iff by auto
  qed
qed

theorem daemon_cycle_converges_witness:
  "\<exists>d d2. run_diff 9 9 9 (\<lambda>u. Some 4) [] bench = Inr d \<and> run_diff 11 11 11 (\<lambda>u. Some 4) [] (df_rg d) = Inr d2
     \<and> map dv_uid (df_detached d) = [''aa''] \<and> df_detached d2 = []"
proof -
  have e: "\<forall>u. \<not> cycle_expired 9 9 [] bench u"
    by (simp add: cycle_expired_def cycle_deadline_def flash_locked_def) (simp add: bench_def)
  obtain d where d: "run_diff 9 9 9 (\<lambda>u. Some 4) [] bench = Inr d"
    "map dv_uid (df_detached d) = filter (\<lambda>u. dget ([] :: (string, port_info) dict) u = None) (previously_attached bench)"
    by (rule run_diff_eq [OF bench_ok dict_ok_Nil, where now = 9 and tick = 9 and wall = 9
        and claim_fn = "\<lambda>u. Some 4"]) (use e in auto)
  obtain d2 where d2: "run_diff 11 11 11 (\<lambda>u. Some 4) [] (df_rg d) = Inr d2"
  proof -
    obtain d' where "run_diff 9 9 9 (\<lambda>u. Some 4) [] bench = Inr d'" "cycle_inv (df_rg d')"
      using run_diff_inv [OF bench_inv dict_ok_Nil, of 9 9 9 "\<lambda>u. Some 4"] by auto
    then show ?thesis
      using d(1) run_diff_inv [OF _ dict_ok_Nil, of "df_rg d" 11 11 11 "\<lambda>u. Some 4"] that by auto
  qed
  have "previously_attached bench = [''aa'']"
    by (simp add: previously_attached_def bench_def demo_store_def list_devices_def demo_device_def fresh_device_def
        is_virtual_def VIRTUAL_VID_PID_def)
  then show ?thesis
    using daemon_cycle_converges [OF bench_ok dict_ok_Nil d(1) e d2] d d2 by auto
qed

theorem daemon_cycle_raises_iff_witness:
  "\<exists>rg'. run_diff 9 30 30 (\<lambda>u. Some 4) [] (bench\<lparr>rg_pending := [(''cc'', 20)]\<rparr>) = Inl (KeyError, rg')"
proof -
  have ok: "registry_ok (bench\<lparr>rg_pending := [(''cc'', 20)]\<rparr>)"
    by (simp add: registry_ok_def bench_def demo_unique dict_ok_def)
  have "dget (rg_pending (bench\<lparr>rg_pending := [(''cc'', 20)]\<rparr>)) ''cc'' = Some 20" "(20 :: real) \<le> 30"
    "dget ([] :: (string, port_info) dict) ''cc'' = None"
    "get (rg_store (bench\<lparr>rg_pending := [(''cc'', 20)]\<rparr>)) ''cc'' = None"
    by (simp_all add: dget_def bench_def demo_get)
  then show ?thesis
    using daemon_cycle_raises_iff [OF ok dict_ok_Nil, of 9 30 30 "\<lambda>u. Some 4"] by blast
qed

text \<open>C11: while every uid awaiting re-enumeration has a row, a whole cycle (diff and probes) never raises,
  and it keeps that condition and the invariant of the rows: states, probe times, error notes and chip
  identities stay consistent whatever the bus, the claims, the ports and the debug probe answer.\<close>

theorem run_once_total_and_invariant:
  assumes "cycle_inv rg" and "wall \<noteq> 0"
  shows "\<exists>rg' evs. run_once wall now tick claim_fn probe_port chip ports rg = Inr (rg', evs) \<and> cycle_inv rg'"
proof -
  obtain d where d: "run_diff wall now tick claim_fn (scan ports) rg = Inr d" "cycle_inv (df_rg d)"
    "\<forall>u\<in>set (df_owned d). dget (scan ports) u \<noteq> None \<and> get (rg_store (df_rg d)) u \<noteq> None"
    using run_diff_inv [OF assms(1) dict_ok_scan assms(2)] by blast
  from probe_loop_inv [OF d(2,3) assms(2), of probe_port chip "diff_events d"]
  show ?thesis using d(1) by (auto simp: run_once_def Let_def)
qed

theorem run_once_total_and_invariant_witness:
  "\<exists>rg' evs. run_once 9 9 9 (\<lambda>u. Some 4) (\<lambda>p. None) (\<lambda>u. None) [] bench = Inr (rg', evs) \<and> cycle_inv rg'"
  using run_once_total_and_invariant [OF bench_inv, of 9 9 9 "\<lambda>u. Some 4" "\<lambda>p. None" "\<lambda>u. None" "[]"] by simp

text \<open>A board is probed exactly when it is due (never probed since it was attached, or just flashed)
  and not locked; what the probe hears then decides its row: an announcement makes it connected with
  the announced fields, silence makes it \<open>connected_no_firmware\<close> after a flash and
  \<open>attached_no_announce\<close> otherwise. Afterwards the board is not due any more, its flash deadline is
  gone, and a chip identity that was known is kept.\<close>

theorem probe_exactly_when_due:
  assumes "get (rg_store rg) uid = Some d" and "wall \<noteq> 0"
  shows "if (dv_last_probe d = 0 \<or> dget (rg_pending rg) uid \<noteq> None) \<and> dget (rg_locks rg) uid = None
     then \<exists>rg' r. maybe_probe wall probe_port chip uid info rg = Inr (rg', [EvDevice ''identity'' r])
       \<and> get (rg_store rg') = (get (rg_store rg))(uid \<mapsto> r)
       \<and> (case probe_port (pi_port info) of
            Some a \<Rightarrow> dv_state r = STATE_CONNECTED \<and> dv_device_name r = Some (pr_device_name a)
                      \<and> dv_role r = Some (pr_role a)
          | None \<Rightarrow> dv_state r = (if dget (rg_pending rg) uid \<noteq> None then STATE_CONNECTED_NO_FIRMWARE
                                 else STATE_ATTACHED_NO_ANNOUNCE))
       \<and> (dv_chip_identity_name d \<noteq> None \<longrightarrow> dv_chip_identity_name r = dv_chip_identity_name d)
       \<and> probe_due rg' uid = Inr False
     else maybe_probe wall probe_port chip uid info rg = Inr (rg, [])"
proof -
  have due: "probe_due rg uid = Inr ((dv_last_probe d = 0 \<or> dget (rg_pending rg) uid \<noteq> None)
      \<and> dget (rg_locks rg) uid = None)"
    using assms(1) by (simp add: probe_due_def needs_probe_def status_def)
  show ?thesis
  proof (cases "(dv_last_probe d = 0 \<or> dget (rg_pending rg) uid \<noteq> None) \<and> dget (rg_locks rg) uid = None")
    case False
    have "probe_due rg uid = Inr False"
      by (subst due, rule arg_cong [where f = Inr], use False in blast)
    then have "maybe_probe wall probe_port chip uid info rg = Inr (rg, [])" by (simp add: maybe_probe_def)
    then show ?thesis unfolding if_not_P [OF False] .
  next
    case True
    have due: "probe_due rg uid = Inr True"
      by (subst due, rule arg_cong [where f = Inr], use True in blast)
    let ?res = "probe_port (pi_port info)"
    let ?c = "if (case ?res of None \<Rightarrow> True | Some r \<Rightarrow> pr_device_name r = []) \<and> needs_swd rg uid
              then chip uid else None"
    let ?blank = "case dget (rg_pending rg) uid of None \<Rightarrow> False | Some _ \<Rightarrow> True"
    let ?d1 = "if ?res = None \<and> ?blank then known_blank_update wall d else probe_update wall ?res d"
    let ?d2 = "case ?c of None \<Rightarrow> ?d1 | Some (n, x) \<Rightarrow>
      if dv_chip_identity_name ?d1 \<noteq> None then ?d1
      else ?d1\<lparr>dv_chip_identity_name := Some n, dv_chip_identity_serial := Some x\<rparr>"
    obtain rg' where f: "finish_probe wall uid ?res ?c rg = Inr (rg', ?d2)"
      "get (rg_store rg') = (get (rg_store rg))(uid \<mapsto> ?d2)" "rg_pending rg' = ddel uid (rg_pending rg)"
      using finish_probe_eq [OF assms(1), of wall ?res ?c] by blast
    have keep: "dv_state ?d2 = dv_state ?d1" "dv_device_name ?d2 = dv_device_name ?d1" "dv_role ?d2 = dv_role ?d1"
      "dv_last_probe ?d2 = dv_last_probe ?d1"
      "dv_chip_identity_name ?d1 \<noteq> None \<Longrightarrow> dv_chip_identity_name ?d2 = dv_chip_identity_name ?d1"
      by (auto split: option.split)
    have one: "dv_last_probe ?d1 = wall" "dv_chip_identity_name ?d1 = dv_chip_identity_name d"
      by (auto simp: known_blank_update_def probe_update_def split: option.split)
    have st: "case ?res of Some a \<Rightarrow> dv_state ?d1 = STATE_CONNECTED \<and> dv_device_name ?d1 = Some (pr_device_name a)
            \<and> dv_role ?d1 = Some (pr_role a)
          | None \<Rightarrow> dv_state ?d1 = (if dget (rg_pending rg) uid \<noteq> None then STATE_CONNECTED_NO_FIRMWARE
                                 else STATE_ATTACHED_NO_ANNOUNCE)"
      by (auto simp: known_blank_update_def probe_update_def split: option.split)
    have "maybe_probe wall probe_port chip uid info rg = Inr (rg', [EvDevice ''identity'' ?d2])"
      using due f(1) by (simp add: maybe_probe_def Let_def fire_events_def)
    moreover have "probe_due rg' uid = Inr False"
      using f(2,3) keep(4) one(1) assms(2) by (simp add: probe_due_def needs_probe_def)
    moreover have "dv_chip_identity_name d \<noteq> None \<longrightarrow> dv_chip_identity_name ?d2 = dv_chip_identity_name d"
      using keep(5) one(2) by metis
    moreover have "case ?res of Some a \<Rightarrow> dv_state ?d2 = STATE_CONNECTED \<and> dv_device_name ?d2 = Some (pr_device_name a)
            \<and> dv_role ?d2 = Some (pr_role a)
          | None \<Rightarrow> dv_state ?d2 = (if dget (rg_pending rg) uid \<noteq> None then STATE_CONNECTED_NO_FIRMWARE
                                 else STATE_ATTACHED_NO_ANNOUNCE)"
      using st unfolding keep(1-3) .
    ultimately show ?thesis unfolding if_P [OF True] using f(2) by blast
  qed
qed

definition demo_port :: port_info where
  "demo_port = \<lparr>pi_uid = ''aa'', pi_port = ''/dev/ttyACM0'', pi_vid = 3368, pi_pid = 516\<rparr>"

theorem probe_exactly_when_due_witness:
  "\<exists>rg' r. maybe_probe 9 (\<lambda>p. None) (\<lambda>u. None) ''aa'' demo_port (bench\<lparr>rg_pending := [(''aa'', 20)]\<rparr>)
       = Inr (rg', [EvDevice ''identity'' r]) \<and> dv_state r = STATE_CONNECTED_NO_FIRMWARE"
proof -
  let ?rg = "bench\<lparr>rg_pending := [(''aa'', 20)]\<rparr>"
  have g: "get (rg_store ?rg) ''aa'' = Some (demo_device ''aa'' None)" by (simp add: bench_def demo_get)
  have c: "(dv_last_probe (demo_device ''aa'' None) = 0 \<or> dget (rg_pending ?rg) ''aa'' \<noteq> None)
      \<and> dget (rg_locks ?rg) ''aa'' = None" by (simp add: bench_def dget_def)
  have p: "dget (rg_pending ?rg) ''aa'' \<noteq> None" by (simp add: dget_def)
  show ?thesis
    using probe_exactly_when_due [OF g, of 9 "\<lambda>p. None" "\<lambda>u. None" demo_port] p
    unfolding if_P [OF c] by auto
qed

end
