(* ===== verification/MB_Flash.thy ===== *)
theory MB_Flash
  imports MB_Registry
begin

text \<open>
  Model of flashing: the recovery policy of \<open>src/mbtools/registry/flashlogic.py\<close> (\<open>_flash_hex\<close>), the
  watchdog that streams one pyOCD run and \<open>FlashOp\<close> of \<open>src/mbtools/registry/flash.py\<close>. pyOCD itself
  is the argument \<open>pyocd\<close>: what a command answers (exit code and captured output) given the commands
  run before it. Whether the hex file parses (\<open>intelhex\<close>) and whether the device node may be opened
  are arguments too. The commands run are recorded as a trace, with what each answered.
\<close>

subsection \<open>Failure signatures\<close>

definition any_in :: "string list \<Rightarrow> string \<Rightarrow> bool" where
  "any_in sigs output \<longleftrightarrow> (\<exists>sig\<in>set sigs. contains_str sig (str_lower output))"

definition PERMISSION_SIGNATURES :: "string list" where
  "PERMISSION_SIGNATURES = [''access denied'', ''permission denied'', ''insufficient permissions'',
     ''udev rule'', ''errno 13'']"

definition TRANSIENT_SIGNATURES :: "string list" where
  "TRANSIENT_SIGNATURES = [''timeout reading from probe'', ''probe timeout'', ''communication failure'',
     ''communication fault'', ''transfer fault'', ''transfer error'', ''dapaccess'',
     ''unable to claim interface'']"

definition LOCKED_SIGNATURES :: "string list" where
  "LOCKED_SIGNATURES = [''0x67'', ''flash erase sector failure'', ''approtect'', ''access port protection'',
     ''authentication failed'', ''not authenticated'', ''device is locked'', ''target is locked'']"

definition CLAIM_BLOCKED_SIGNATURE :: string where
  "CLAIM_BLOCKED_SIGNATURE = ''unable to claim interface''"

definition looks_permission_denied :: "string \<Rightarrow> bool" where
  "looks_permission_denied output = any_in PERMISSION_SIGNATURES output"

definition looks_transient :: "string \<Rightarrow> bool" where
  "looks_transient output = any_in TRANSIENT_SIGNATURES output"

definition looks_locked :: "string \<Rightarrow> bool" where
  "looks_locked output = any_in LOCKED_SIGNATURES output"

definition looks_claim_blocked :: "string \<Rightarrow> bool" where
  "looks_claim_blocked output = contains_str CLAIM_BLOCKED_SIGNATURE (str_lower output)"

subsection \<open>The watchdog around one pyOCD run\<close>

text \<open>What the output queue yields: a line, nothing within \<open>no_progress_timeout\<close>, or the reader's
  end-of-file sentinel.\<close>

datatype queue_item = Line string | NoProgress | EndOfOutput

fun watch_loop :: "queue_item list \<Rightarrow> string list \<Rightarrow> string list \<times> bool" where
  "watch_loop [] acc = (acc, False)"
| "watch_loop (NoProgress # items) acc = (acc, True)"
| "watch_loop (EndOfOutput # items) acc = (acc, False)"
| "watch_loop (Line item # items) acc =
     (if looks_permission_denied item then (acc @ [item], True) else watch_loop items (acc @ [item]))"

definition run_streamed_with_watchdog :: "queue_item list \<Rightarrow> int \<Rightarrow> int \<times> string" where
  "run_streamed_with_watchdog items wait_rc =
     (let (out, killed) = watch_loop items [];
          rc = (if killed \<and> wait_rc = 0 then 1 else wait_rc)
      in (rc, join_with newline out))"

subsection \<open>The recovery policy\<close>

datatype pyocd_cmd =
    Flash string string string
  | EraseMass string string
  | Reset string string

type_synonym trace = "(pyocd_cmd \<times> int \<times> string) list"
type_synonym pyocd = "pyocd_cmd list \<Rightarrow> pyocd_cmd \<Rightarrow> int \<times> string"

definition run_streamed :: "pyocd \<Rightarrow> trace \<Rightarrow> pyocd_cmd \<Rightarrow> int \<times> string \<times> trace" where
  "run_streamed pyocd tr cmd =
     (let (rc, output) = pyocd (map fst tr) cmd in (rc, output, tr @ [(cmd, rc, output)]))"

text \<open>The tail of \<open>_flash_hex\<close> once a flash run has succeeded.\<close>

definition reset_board :: "pyocd \<Rightarrow> string \<Rightarrow> string \<Rightarrow> trace \<Rightarrow> int \<times> trace" where
  "reset_board pyocd mcu uid tr =
     (let (reset_rc, _, tr') = run_streamed pyocd tr (Reset mcu uid) in (reset_rc, tr'))"

text \<open>The mass-erase branch.\<close>

definition erase_and_retry ::
    "pyocd \<Rightarrow> string \<Rightarrow> string \<Rightarrow> string \<Rightarrow> trace \<Rightarrow> int \<times> trace" where
  "erase_and_retry pyocd mcu uid hex tr =
     (let (erase_rc, _, tr1) = run_streamed pyocd tr (EraseMass mcu uid)
      in if erase_rc \<noteq> 0 then (erase_rc, tr1)
         else let (rc, _, tr2) = run_streamed pyocd tr1 (Flash mcu uid hex)
              in if rc \<noteq> 0 then (rc, tr2) else reset_board pyocd mcu uid tr2)"

text \<open>The decision after the first flash and its possible retry.\<close>

definition decide ::
    "pyocd \<Rightarrow> string \<Rightarrow> string \<Rightarrow> string \<Rightarrow> int \<times> string \<times> trace \<Rightarrow> int \<times> trace" where
  "decide pyocd mcu uid hex r =
     (let (rc, output, tr) = r in
      if rc \<noteq> 0 \<and> looks_locked output then erase_and_retry pyocd mcu uid hex tr
      else if rc \<noteq> 0 \<and> looks_claim_blocked output then (rc, tr)
      else if rc \<noteq> 0 then (rc, tr)
      else reset_board pyocd mcu uid tr)"

definition flash_hex_policy ::
    "pyocd \<Rightarrow> bool \<Rightarrow> bool \<Rightarrow> string \<Rightarrow> string \<Rightarrow> string \<Rightarrow> int \<times> trace" where
  "flash_hex_policy pyocd hex_valid port_denied mcu uid hex =
     (if \<not> hex_valid then (1, [])
      else if port_denied then (1, [])
      else let (rc, output, tr) = run_streamed pyocd [] (Flash mcu uid hex) in
           if rc \<noteq> 0 \<and> looks_permission_denied output then (rc, tr)
           else if rc \<noteq> 0 \<and> looks_transient output
           then decide pyocd mcu uid hex (run_streamed pyocd tr (Flash mcu uid hex))
           else decide pyocd mcu uid hex (rc, output, tr))"

subsection \<open>\<open>FlashOp\<close>\<close>

datatype flash_error = HexValidationError | FlashLockNotHeldError | FlashFailed py_error

record flash_result =
  fr_success :: bool
  fr_exit_code :: "int option"
  fr_error :: bool

text \<open>What the host knows about one flash request: whether the (extracted) hex parses, whether the
  port may be opened, and how pyOCD answers.\<close>

record flash_env =
  fe_hex_ok :: bool
  fe_port_denied :: "string option \<Rightarrow> bool"
  fe_pyocd :: pyocd

text \<open>\<open>_flash_locked\<close>; the store's \<open>find\<close> on a uid may raise, and \<open>increment_flash_count\<close> raises
  \<open>KeyError\<close> where the row is gone. \<open>TARGET_MCU\<close> is \<open>DEFAULT_MCU\<close>.\<close>

definition TARGET_MCU :: string where "TARGET_MCU = ''nrf52833''"

definition flash_locked_op ::
    "flash_env \<Rightarrow> string \<Rightarrow> string \<Rightarrow> registry \<Rightarrow> (flash_error + (registry \<times> flash_result)) \<times> trace" where
  "flash_locked_op env uid hex rg =
     (if \<not> fe_hex_ok env then (Inl HexValidationError, [])
      else case find_device (rg_store rg) uid of
        Inl e \<Rightarrow> (Inl (FlashFailed e), [])
      | Inr rec \<Rightarrow>
          let port = (case rec of None \<Rightarrow> None | Some r \<Rightarrow> dv_port r) in
          if fe_port_denied env port
          then (Inr (rg, \<lparr>fr_success = False, fr_exit_code = None, fr_error = True\<rparr>), [])
          else let (exit_code, tr) = flash_hex_policy (fe_pyocd env) True False TARGET_MCU uid hex in
               (case increment_flash_count uid (rg_store rg) of
                  Inl e \<Rightarrow> (Inl (FlashFailed e), tr)
                | Inr (s', _) \<Rightarrow>
                    (Inr (rg\<lparr>rg_store := s'\<rparr>,
                          if exit_code = 0
                          then \<lparr>fr_success = True, fr_exit_code = Some exit_code, fr_error = False\<rparr>
                          else \<lparr>fr_success = False, fr_exit_code = Some exit_code, fr_error = True\<rparr>), tr)))"

definition flash_hex_op ::
    "flash_env \<Rightarrow> string \<Rightarrow> string \<Rightarrow> registry \<Rightarrow> (flash_error + (registry \<times> flash_result)) \<times> trace" where
  "flash_hex_op env uid hex rg =
     (case status (rg_locks rg) uid of
        None \<Rightarrow> (Inl FlashLockNotHeldError, [])
      | Some holder \<Rightarrow>
          if ls_kind holder \<noteq> KIND_FLASH then (Inl FlashLockNotHeldError, [])
          else flash_locked_op env uid hex rg)"

subsection \<open>Lemmas\<close>

lemma run_streamed_eq:
  "run_streamed pyocd tr cmd = (fst (pyocd (map fst tr) cmd), snd (pyocd (map fst tr) cmd),
     tr @ [(cmd, fst (pyocd (map fst tr) cmd), snd (pyocd (map fst tr) cmd))])"
  by (simp add: run_streamed_def case_prod_beta Let_def)

definition flash_locked_here :: "registry \<Rightarrow> uid \<Rightarrow> bool" where
  "flash_locked_here rg uid = (case dget (rg_locks rg) uid of None \<Rightarrow> False | Some st \<Rightarrow> ls_kind st = KIND_FLASH)"

definition cmds :: "trace \<Rightarrow> pyocd_cmd list" where
  "cmds tr = map fst tr"

lemmas policy_defs = flash_hex_policy_def decide_def erase_and_retry_def reset_board_def run_streamed_eq

text \<open>Every trace the policy can leave: \<open>F\<close> is the flash command, \<open>E\<close> the mass erase, \<open>R\<close> the reset.\<close>

definition policy_shapes :: "string \<Rightarrow> string \<Rightarrow> string \<Rightarrow> pyocd_cmd list list" where
  "policy_shapes mcu uid hex =
     (let F = Flash mcu uid hex; E = EraseMass mcu uid; R = Reset mcu uid in
      [[], [F], [F, F], [F, R], [F, F, R], [F, E], [F, F, E], [F, E, F], [F, F, E, F], [F, E, F, R],
       [F, F, E, F, R]])"

lemma policy_shape:
  "flash_hex_policy pyocd hex_valid denied mcu uid hex = (rc, tr) \<Longrightarrow> cmds tr \<in> set (policy_shapes mcu uid hex)"
  by (auto simp: policy_defs Let_def cmds_def policy_shapes_def split: if_splits)

text \<open>What the run before a mass erase answered.\<close>

fun erases_justified :: "(pyocd_cmd \<times> int \<times> string) option \<Rightarrow> trace \<Rightarrow> bool" where
  "erases_justified prev [] \<longleftrightarrow> True"
| "erases_justified prev (x # tr) \<longleftrightarrow>
     (case fst x of
        EraseMass _ _ \<Rightarrow>
          (case prev of
             None \<Rightarrow> False
           | Some p \<Rightarrow> (case fst p of Flash _ _ _ \<Rightarrow> True | _ \<Rightarrow> False)
                       \<and> fst (snd p) \<noteq> 0 \<and> looks_locked (snd (snd p)))
      | _ \<Rightarrow> True)
     \<and> erases_justified (Some x) tr"

lemma erases_justified_policy:
  "flash_hex_policy pyocd hex_valid denied mcu uid hex = (rc, tr) \<Longrightarrow> erases_justified None tr"
  by (auto simp: policy_defs Let_def split: if_splits)

subsection \<open>Properties\<close>

text \<open>C17: a board is mass-erased only on evidence: whatever pyOCD answers, an erase is always directly
  preceded by a flash run that failed with a locked-device signature, there is at most one erase and
  at most three flash runs, the commands are one of eleven sequences, and nothing is run at all when
  the hex file does not parse or the port may not be opened.\<close>

theorem mass_erase_needs_evidence:
  "(case flash_hex_policy pyocd hex_valid denied mcu uid hex of (rc, tr) \<Rightarrow>
      erases_justified None tr \<and> cmds tr \<in> set (policy_shapes mcu uid hex)
      \<and> count_list (cmds tr) (EraseMass mcu uid) \<le> 1 \<and> count_list (cmds tr) (Flash mcu uid hex) \<le> 3
      \<and> (\<not> hex_valid \<or> denied \<longleftrightarrow> tr = []))"
proof -
  obtain rc tr where r: "flash_hex_policy pyocd hex_valid denied mcu uid hex = (rc, tr)" by fastforce
  have sh: "cmds tr \<in> set (policy_shapes mcu uid hex)" using r by (rule policy_shape)
  then have "count_list (cmds tr) (EraseMass mcu uid) \<le> 1 \<and> count_list (cmds tr) (Flash mcu uid hex) \<le> 3"
    by (auto simp: policy_shapes_def Let_def)
  moreover have "\<not> hex_valid \<or> denied \<longleftrightarrow> tr = []"
    using r by (auto simp: policy_defs Let_def split: if_splits)
  ultimately show ?thesis using r sh erases_justified_policy [OF r] by simp
qed

text \<open>The exit code tells the truth. It is 0 exactly when the last two commands were a flash that
  succeeded and a reset that succeeded; and when the board was erased but the new firmware did not
  take, the exit code is not 0.\<close>

theorem flash_exit_code_truthful:
  "(case flash_hex_policy pyocd hex_valid denied mcu uid hex of (rc, tr) \<Rightarrow>
      (rc = 0 \<longleftrightarrow> (\<exists>pre o1 o2. tr = pre @ [(Flash mcu uid hex, 0, o1), (Reset mcu uid, 0, o2)]))
      \<and> (last (cmds tr) = Reset mcu uid \<or> rc \<noteq> 0))"
proof -
  obtain rc tr where r: "flash_hex_policy pyocd hex_valid denied mcu uid hex = (rc, tr)" by fastforce
  have last2: "(\<exists>pre o1 o2. tr = pre @ [(Flash mcu uid hex, 0, o1), (Reset mcu uid, 0, o2)]) \<longleftrightarrow>
     (\<exists>o1 o2. drop (length tr - 2) tr = [(Flash mcu uid hex, 0, o1), (Reset mcu uid, 0, o2)])"
  proof
    assume "\<exists>o1 o2. drop (length tr - 2) tr = [(Flash mcu uid hex, 0, o1), (Reset mcu uid, 0, o2)]"
    then show "\<exists>pre o1 o2. tr = pre @ [(Flash mcu uid hex, 0, o1), (Reset mcu uid, 0, o2)]"
      by (metis append_take_drop_id)
  qed auto
  have "(rc = 0 \<longleftrightarrow> (\<exists>o1 o2. drop (length tr - 2) tr = [(Flash mcu uid hex, 0, o1), (Reset mcu uid, 0, o2)]))
     \<and> (last (cmds tr) = Reset mcu uid \<or> rc \<noteq> 0)"
    using r by (auto simp: policy_defs Let_def cmds_def prod_eq_iff split: if_splits)
  then show ?thesis unfolding r prod.case using last2 by blast
qed

text \<open>The watchdog never reports success for a run it killed: if pyOCD fell silent or reported a
  permission problem, the exit code is not 0 even when the killed process exits with 0, and the
  captured output ends at the line that decided it.\<close>

theorem watchdog_never_masks_a_kill:
  "(case run_streamed_with_watchdog items wait_rc of (rc, output) \<Rightarrow>
      (rc = wait_rc \<or> rc = 1 \<and> wait_rc = 0 \<and> snd (watch_loop items []))
      \<and> (snd (watch_loop items []) \<longrightarrow> rc \<noteq> 0)
      \<and> (\<forall>l\<in>set (butlast (fst (watch_loop items []))). \<not> looks_permission_denied l)
      \<and> (snd (watch_loop items []) \<longrightarrow> NoProgress \<in> set items
           \<or> (fst (watch_loop items []) \<noteq> [] \<and> looks_permission_denied (last (fst (watch_loop items []))))))"
proof -
  have "(\<forall>l\<in>set acc. \<not> looks_permission_denied l) \<Longrightarrow>
      (\<forall>l\<in>set (butlast (fst (watch_loop items acc))). \<not> looks_permission_denied l)
      \<and> (snd (watch_loop items acc) \<longrightarrow> NoProgress \<in> set items
           \<or> (fst (watch_loop items acc) \<noteq> [] \<and> looks_permission_denied (last (fst (watch_loop items acc)))))" for acc
    by (induction items acc rule: watch_loop.induct) (auto dest: in_set_butlastD)
  from this [of "[]"] show ?thesis
    by (auto simp: run_streamed_with_watchdog_def case_prod_beta Let_def)
qed

lemma find_device_uid:
  "get s uid = Some d \<Longrightarrow> CHR ''@'' \<notin> set uid \<Longrightarrow> find_device s uid = Inr (Some d)"
  by (simp add: find_device_def rpartition_None [THEN iffD2] get_def row_get_def)

text \<open>One flash request on a known board. Without a flash lock, with a hex that does not parse or
  without access to the port no command runs and the registry is unchanged; otherwise the recovery
  policy runs and the board's flash count goes up by exactly one, whether the flash worked or not,
  and success is reported exactly for exit code 0. No other row is touched.\<close>

theorem flash_op_contract:
  assumes "get (rg_store rg) uid = Some d" and "CHR ''@'' \<notin> set uid"
  shows "case flash_hex_op env uid hex rg of
      (Inl FlashLockNotHeldError, tr) \<Rightarrow> \<not> flash_locked_here rg uid \<and> tr = []
    | (Inl HexValidationError, tr) \<Rightarrow> flash_locked_here rg uid \<and> \<not> fe_hex_ok env \<and> tr = []
    | (Inl (FlashFailed e), tr) \<Rightarrow> False
    | (Inr (rg', r), tr) \<Rightarrow> flash_locked_here rg uid \<and> fe_hex_ok env
        \<and> (if fe_port_denied env (dv_port d) then rg' = rg \<and> tr = [] \<and> \<not> fr_success r
           else fr_success r = (fst (flash_hex_policy (fe_pyocd env) True False TARGET_MCU uid hex) = 0)
              \<and> tr = snd (flash_hex_policy (fe_pyocd env) True False TARGET_MCU uid hex)
              \<and> get (rg_store rg') = (get (rg_store rg))(uid \<mapsto> d\<lparr>dv_flash_count := dv_flash_count d + 1\<rparr>)
              \<and> rg_locks rg' = rg_locks rg)"
proof -
  let ?f = "\<lambda>d. d\<lparr>dv_flash_count := dv_flash_count d + 1\<rparr>"
  have inc: "increment_flash_count uid (rg_store rg) = Inr (update_device uid ?f (rg_store rg), ?f d)"
    unfolding increment_flash_count_def using assms(1) by (simp add: guarded_update_eq)
  have g: "get (update_device uid ?f (rg_store rg)) = (get (rg_store rg))(uid \<mapsto> ?f d)"
    using dev.get_upd [of ?f uid "rg_store rg"] assms(1) by simp
  obtain rc tr where p: "flash_hex_policy (fe_pyocd env) True False TARGET_MCU uid hex = (rc, tr)" by fastforce
  show ?thesis
    using find_device_uid [OF assms]
    by (auto simp: flash_hex_op_def flash_locked_op_def flash_locked_here_def status_def inc g p Let_def
        split: option.split)
qed

text \<open>A locked board that recovers: the first flash fails with \<open>0x67\<close>, everything after succeeds.\<close>

definition demo_pyocd :: pyocd where
  "demo_pyocd hist cmd = (if hist = [] then (1, ''Error 0x67'') else (0, ''ok''))"

lemma demo_policy:
  "flash_hex_policy demo_pyocd True False ''m'' ''u'' ''h''
     = (0, [(Flash ''m'' ''u'' ''h'', 1, ''Error 0x67''), (EraseMass ''m'' ''u'', 0, ''ok''),
            (Flash ''m'' ''u'' ''h'', 0, ''ok''), (Reset ''m'' ''u'', 0, ''ok'')])"
  by code_simp

theorem mass_erase_needs_evidence_witness:
  "erases_justified None (snd (flash_hex_policy demo_pyocd True False ''m'' ''u'' ''h''))
   \<and> EraseMass ''m'' ''u'' \<in> set (cmds (snd (flash_hex_policy demo_pyocd True False ''m'' ''u'' ''h'')))"
  using mass_erase_needs_evidence [where pyocd = demo_pyocd and hex_valid = True and denied = False
      and mcu = "''m''" and uid = "''u''" and hex = "''h''"]
  by (simp add: demo_policy cmds_def)

theorem flash_exit_code_truthful_witness:
  "\<exists>pre o1 o2. snd (flash_hex_policy demo_pyocd True False ''m'' ''u'' ''h'')
     = pre @ [(Flash ''m'' ''u'' ''h'', 0, o1), (Reset ''m'' ''u'', 0, o2)]"
  using flash_exit_code_truthful [where pyocd = demo_pyocd and hex_valid = True and denied = False
      and mcu = "''m''" and uid = "''u''" and hex = "''h''"]
  unfolding demo_policy prod.case snd_conv by blast

theorem watchdog_never_masks_a_kill_witness:
  "fst (run_streamed_with_watchdog [Line ''a'', NoProgress] 0) \<noteq> 0"
proof -
  have k: "snd (watch_loop [Line ''a'', NoProgress] [])" by code_simp
  obtain rc out where r: "run_streamed_with_watchdog [Line ''a'', NoProgress] 0 = (rc, out)" by fastforce
  have "snd (watch_loop [Line ''a'', NoProgress] []) \<longrightarrow> rc \<noteq> 0"
    using watchdog_never_masks_a_kill [where items = "[Line ''a'', NoProgress]" and wait_rc = 0]
    unfolding r prod.case by blast
  then show ?thesis using k r by (simp del: watch_loop.simps)
qed

definition demo_flash_registry :: registry where
  "demo_flash_registry = \<lparr>rg_store = demo_store,
     rg_locks = [(''aa'', \<lparr>ls_kind = KIND_FLASH,
                           ls_holder = \<lparr>h_origin = ''local'', h_ref = ''1'', h_pid = Some 1, h_host = None\<rparr>,
                           ls_label = None, ls_since = 1\<rparr>)],
     rg_pending = [], rg_claims = [], rg_virtual = [], rg_conns = []\<rparr>"

definition demo_flash_env :: flash_env where
  "demo_flash_env = \<lparr>fe_hex_ok = True, fe_port_denied = (\<lambda>p. False), fe_pyocd = demo_pyocd\<rparr>"

theorem flash_op_contract_witness:
  "\<exists>rg' r tr. flash_hex_op demo_flash_env ''aa'' ''h'' demo_flash_registry = (Inr (rg', r), tr)
     \<and> map_option dv_flash_count (get (rg_store rg') ''aa'') = Some 1"
proof -
  have g: "get (rg_store demo_flash_registry) ''aa'' = Some (demo_device ''aa'' None)"
    by (simp add: demo_flash_registry_def demo_get)
  have l: "flash_locked_here demo_flash_registry ''aa''"
    by (simp add: flash_locked_here_def demo_flash_registry_def dget_def)
  have c: "dv_flash_count (demo_device ''aa'' None) = 0" by (simp add: demo_device_def fresh_device_def)
  have e: "fe_hex_ok demo_flash_env" "\<not> fe_port_denied demo_flash_env p" for p by (simp_all add: demo_flash_env_def)
  obtain x tr where x: "flash_hex_op demo_flash_env ''aa'' ''h'' demo_flash_registry = (x, tr)" by fastforce
  have k: "case (x, tr) of
      (Inl FlashLockNotHeldError, tr) \<Rightarrow> False
    | (Inl HexValidationError, tr) \<Rightarrow> False
    | (Inl (FlashFailed e), tr) \<Rightarrow> False
    | (Inr (rg', r), tr) \<Rightarrow> map_option dv_flash_count (get (rg_store rg') ''aa'') = Some 1"
    using flash_op_contract [OF g, of demo_flash_env "''h''"] x c l e
    by (auto split: sum.splits flash_error.splits)
  then obtain rg' r where "x = Inr (rg', r)" by (auto split: sum.splits flash_error.splits)
  then show ?thesis using x k by simp
qed

end
