(* ===== verification/MB_Api.thy ===== *)
theory MB_Api
  imports MB_Virtual MB_Daemon MB_Flash
begin

text \<open>
  Model of the request handlers of \<open>src/mbtools/registry/_api_base.py\<close>, \<open>api.py\<close> (the local socket
  server) and \<open>remote_api.py\<close> (the TCP server other hosts use): what each operation answers and does to
  the shared registry, on every branch. A handler takes the state of its connection (the holder
  identity and the set \<open>acquired\<close> of uids it locked) and returns the response, the new registry, the
  new set and the events fired. Requests carry string and number fields as the clients send them;
  the text of messages is not modelled. \<open>vis\<close> is \<open>_device_visible\<close>: everything locally, only this
  host's hardware for remote clients.
\<close>

record request =
  rq_uid :: "string option"
  rq_token :: "string option"
  rq_kind :: "string option"
  rq_label :: "string option"
  rq_name :: "string option"
  rq_channel :: "int option"
  rq_group :: "int option"
  rq_hex_path :: "string option"
  rq_dry_run :: bool

record wire_holder =
  wh_kind :: string
  wh_pid :: "int option"
  wh_label :: "string option"
  wh_since :: real
  wh_remote :: "(string \<times> string option) option"

record device_view =
  dw_device :: device
  dw_lock_kind :: "string option"
  dw_lock_pid :: "int option"
  dw_lock_label :: "string option"
  dw_lock_since :: "real option"
  dw_endpoint :: "string option"
  dw_peer_reachable :: bool
  dw_simulated :: bool

text \<open>\<open>Raised\<close> (and \<open>RaisedLockNotHeld\<close>, for \<open>FlashLockNotHeldError\<close>) is an exception the handler does
  not catch: the client gets no response and its connection ends.\<close>

datatype api_error =
    NotFound
  | InvalidRequest
  | Locked wire_holder
  | NotLocked
  | AmbiguousName "string option list"
  | NameReserved
  | NameInUse
  | InternalError
  | Unauthorized
  | Raised py_error
  | RaisedLockNotHeld

datatype response =
    Ok
  | OkDevices "device_view list"
  | OkDevice device_view
  | OkReleased bool
  | OkForced uid "wire_holder option"
  | OkRescan "string list" "string list" "string list" bool
  | OkEntry "name_entry option"
  | OkEntries "name_entry list"
  | OkRegistered uid device_view
  | OkStream device
  | OkHexPath string
  | FlashDone bool "int option"
  | Failed api_error

definition truthy :: "string option \<Rightarrow> bool" where
  "truthy o' = (case o' of None \<Rightarrow> False | Some s \<Rightarrow> s \<noteq> [])"

definition holder_wire_dict :: "lock_status \<Rightarrow> wire_holder" where
  "holder_wire_dict st =
     \<lparr>wh_kind = ls_kind st, wh_pid = ls_pid st, wh_label = ls_label st, wh_since = ls_since st,
      wh_remote = (if h_origin (ls_holder st) = ''remote''
                   then Some (h_origin (ls_holder st), h_host (ls_holder st)) else None)\<rparr>"

definition device_dict :: "registry \<Rightarrow> device \<Rightarrow> device_view" where
  "device_dict rg record =
     (case dv_host record of
        None \<Rightarrow>
          let holder = status (rg_locks rg) (dv_uid record) in
          \<lparr>dw_device = record, dw_lock_kind = map_option ls_kind holder,
           dw_lock_pid = (case holder of None \<Rightarrow> None | Some h \<Rightarrow> ls_pid h),
           dw_lock_label = (case holder of None \<Rightarrow> None | Some h \<Rightarrow> ls_label h),
           dw_lock_since = map_option ls_since holder,
           dw_endpoint = None, dw_peer_reachable = True, dw_simulated = is_virtual record\<rparr>
      | Some host \<Rightarrow>
          let p = get_peer (rg_store rg) host in
          \<lparr>dw_device = record, dw_lock_kind = None, dw_lock_pid = None, dw_lock_label = None,
           dw_lock_since = None, dw_endpoint = map_option pe_endpoint p,
           dw_peer_reachable = (case p of None \<Rightarrow> False | Some p \<Rightarrow> pe_reachable p),
           dw_simulated = is_virtual record\<rparr>)"

definition resolve_visible :: "(device \<Rightarrow> bool) \<Rightarrow> registry \<Rightarrow> string \<Rightarrow> api_error + device" where
  "resolve_visible vis rg token =
     (case find_device (rg_store rg) token of
        Inl (AmbiguousNameError hosts) \<Rightarrow> Inl (AmbiguousName hosts)
      | Inl e \<Rightarrow> Inl (Raised e)
      | Inr None \<Rightarrow> Inl NotFound
      | Inr (Some record) \<Rightarrow> if \<not> vis record then Inl NotFound else Inr record)"

definition is_detached :: "device \<Rightarrow> bool" where
  "is_detached record \<longleftrightarrow> dv_host record = None \<and> dv_state record = STATE_DISCONNECTED"

definition stream_still_valid :: "registry \<Rightarrow> uid \<Rightarrow> string \<Rightarrow> bool" where
  "stream_still_valid rg uid port =
     (case get (rg_store rg) uid of None \<Rightarrow> False
      | Some record \<Rightarrow> dv_state record \<noteq> STATE_DISCONNECTED \<and> dv_port record = Some port)"

text \<open>\<open>_device_visible\<close> of the two servers, and \<open>_list_visible_devices\<close> of the remote one.\<close>

definition local_visible :: "device \<Rightarrow> bool" where "local_visible record = True"

definition remote_visible :: "device \<Rightarrow> bool" where
  "remote_visible record \<longleftrightarrow> dv_host record = None \<and> \<not> is_virtual record"

subsection \<open>Queries\<close>

definition op_list :: "registry \<Rightarrow> response" where
  "op_list rg = OkDevices (map (device_dict rg) (list_devices (rg_store rg)))"

definition remote_op_list :: "registry \<Rightarrow> response" where
  "remote_op_list rg = OkDevices (map (device_dict rg) (snapshot_local_devices (rg_store rg)))"

definition op_find :: "(device \<Rightarrow> bool) \<Rightarrow> request \<Rightarrow> registry \<Rightarrow> response" where
  "op_find vis req rg =
     (let token = (if truthy (rq_uid req) then rq_uid req else rq_token req) in
      if \<not> truthy token then Failed InvalidRequest
      else case resolve_visible vis rg (the token) of
             Inl err \<Rightarrow> Failed err
           | Inr record \<Rightarrow> OkDevice (device_dict rg record))"

subsection \<open>Locking\<close>

type_synonym handler_result = "response \<times> registry \<times> uid list \<times> reg_event list"

definition op_lock ::
    "(device \<Rightarrow> bool) \<Rightarrow> real \<Rightarrow> request \<Rightarrow> holder_ref \<Rightarrow> uid list \<Rightarrow> registry \<Rightarrow> handler_result" where
  "op_lock vis wall req holder acquired rg =
     (if \<not> truthy (rq_uid req) \<or> \<not> truthy (rq_kind req) then (Failed InvalidRequest, rg, acquired, [])
      else if the (rq_kind req) \<notin> set LOCK_KINDS then (Failed InvalidRequest, rg, acquired, [])
      else case resolve_visible vis rg (the (rq_uid req)) of
             Inl err \<Rightarrow> (Failed err, rg, acquired, [])
           | Inr record \<Rightarrow>
               if is_detached record then (Failed NotFound, rg, acquired, [])
               else case acquire_lock wall (dv_uid record) (the (rq_kind req)) holder (rq_label req) rg of
                      Inl current \<Rightarrow> (Failed (Locked (holder_wire_dict current)), rg, acquired, [])
                    | Inr (rg', evs) \<Rightarrow> (Ok, rg', List.insert (dv_uid record) acquired, evs))"

definition op_unlock ::
    "(device \<Rightarrow> bool) \<Rightarrow> real \<Rightarrow> request \<Rightarrow> holder_ref \<Rightarrow> uid list \<Rightarrow> registry \<Rightarrow> handler_result" where
  "op_unlock vis tick req holder acquired rg =
     (if \<not> truthy (rq_uid req) then (Failed InvalidRequest, rg, acquired, [])
      else case resolve_visible vis rg (the (rq_uid req)) of
             Inl err \<Rightarrow> (Failed err, rg, acquired, [])
           | Inr record \<Rightarrow>
               let (released, rg', evs) = release_lock tick (dv_uid record) holder rg
               in (OkReleased released, rg', removeAll (dv_uid record) acquired, evs))"

definition op_mark_flashed ::
    "(device \<Rightarrow> bool) \<Rightarrow> request \<Rightarrow> holder_ref \<Rightarrow> registry \<Rightarrow> response \<times> registry" where
  "op_mark_flashed vis req holder rg =
     (if \<not> truthy (rq_uid req) then (Failed InvalidRequest, rg)
      else case resolve_visible vis rg (the (rq_uid req)) of
             Inl err \<Rightarrow> (Failed err, rg)
           | Inr record \<Rightarrow>
               let not_held = (case status (rg_locks rg) (dv_uid record) of None \<Rightarrow> True
                   | Some st \<Rightarrow> ls_kind st \<noteq> KIND_FLASH \<or> ls_holder st \<noteq> holder) in
               if not_held then (Failed NotLocked, rg)
               else case increment_flash_count (dv_uid record) (rg_store rg) of
                      Inl e \<Rightarrow> (Failed (Raised e), rg)
                    | Inr (s', _) \<Rightarrow> (Ok, rg\<lparr>rg_store := s'\<rparr>))"

text \<open>The local server's dispatch also keeps \<open>_uid_connections\<close>: \<open>conn\<close> is this connection.\<close>

definition dispatch_lock ::
    "real \<Rightarrow> nat \<Rightarrow> request \<Rightarrow> holder_ref \<Rightarrow> uid list \<Rightarrow> registry \<Rightarrow> handler_result" where
  "dispatch_lock wall conn req holder acquired rg =
     (let (resp, rg', acquired', evs) = op_lock local_visible wall req holder acquired rg;
          newly = filter (\<lambda>u. u \<notin> set acquired) acquired'
      in (resp, rg'\<lparr>rg_conns := fold (\<lambda>u. dset u conn) newly (rg_conns rg')\<rparr>, acquired', evs))"

definition dispatch_unlock ::
    "real \<Rightarrow> request \<Rightarrow> holder_ref \<Rightarrow> uid list \<Rightarrow> registry \<Rightarrow> handler_result" where
  "dispatch_unlock tick req holder acquired rg =
     (let (resp, rg', acquired', evs) = op_unlock local_visible tick req holder acquired rg;
          gone = filter (\<lambda>u. u \<notin> set acquired') acquired
      in (resp, rg'\<lparr>rg_conns := fold ddel gone (rg_conns rg')\<rparr>, acquired', evs))"

text \<open>\<open>force_unlock\<close>: the connection to shut down is returned too.\<close>

definition op_force_unlock ::
    "real \<Rightarrow> request \<Rightarrow> registry \<Rightarrow> response \<times> registry \<times> nat option \<times> reg_event list" where
  "op_force_unlock tick req rg =
     (if \<not> truthy (rq_uid req) then (Failed InvalidRequest, rg, None, [])
      else case resolve_visible local_visible rg (the (rq_uid req)) of
             Inl err \<Rightarrow> (Failed err, rg, None, [])
           | Inr record \<Rightarrow>
               let uid = dv_uid record;
                   (st, rg1, evs) = force_release_lock tick uid rg;
                   conn = dget (rg_conns rg1) uid
               in (OkForced uid (map_option holder_wire_dict st),
                   rg1\<lparr>rg_conns := ddel uid (rg_conns rg1)\<rparr>, conn, evs))"

text \<open>The \<open>finally\<close> of \<open>_handle_connection\<close> in both servers.\<close>

fun close_connection :: "real \<Rightarrow> holder_ref \<Rightarrow> uid list \<Rightarrow> registry \<Rightarrow> reg_event list \<Rightarrow> registry \<times> reg_event list" where
  "close_connection tick holder [] rg out = (rg, out)"
| "close_connection tick holder (uid # uids) rg out =
     (let (b, rg1, evs) = release_lock tick uid holder rg
      in close_connection tick holder uids (rg1\<lparr>rg_conns := ddel uid (rg_conns rg1)\<rparr>) (out @ evs))"

text \<open>One turn of the liveness sweep of each server.\<close>

definition local_holder_alive :: "(int option \<Rightarrow> bool) \<Rightarrow> holder_ref \<Rightarrow> bool" where
  "local_holder_alive pid_alive holder = (if h_origin holder = ''local'' then pid_alive (h_pid holder) else True)"

definition remote_holder_alive :: "string list \<Rightarrow> holder_ref \<Rightarrow> bool" where
  "remote_holder_alive live_sessions holder =
     (if h_origin holder \<noteq> ''remote'' then True else h_ref holder \<in> set live_sessions)"

definition sweep_once :: "real \<Rightarrow> (holder_ref \<Rightarrow> bool) \<Rightarrow> registry \<Rightarrow> registry \<times> uid list \<times> reg_event list" where
  "sweep_once tick alive rg =
     (let (released, locks', evs) = sweep (rg_locks rg) alive;
          (rg1, out) = run_callbacks tick evs (rg\<lparr>rg_locks := locks'\<rparr>)
      in (rg1, released, out))"

definition local_sweep :: "real \<Rightarrow> (int option \<Rightarrow> bool) \<Rightarrow> registry \<Rightarrow> registry \<times> uid list \<times> reg_event list" where
  "local_sweep tick pid_alive rg =
     (let (rg1, released, out) = sweep_once tick (local_holder_alive pid_alive) rg
      in (rg1\<lparr>rg_conns := fold ddel released (rg_conns rg1)\<rparr>, released, out))"

subsection \<open>Rescan\<close>

definition op_rescan :: "request \<Rightarrow> registry \<Rightarrow> response \<times> registry \<times> reg_event list" where
  "op_rescan req rg =
     (let c = candidates_for_purge (rg_store rg);
          is_locked = (\<lambda>u. status (rg_locks rg) u \<noteq> None);
          locked_uids = sort (filter is_locked (device_uids c));
          uids = filter (\<lambda>u. u \<notin> set locked_uids) (device_uids c);
          hosts = pc_unreachable_peers c
      in if rq_dry_run req then (OkRescan uids hosts locked_uids True, rg, [])
         else let host_of = (\<lambda>u. case get (rg_store rg) u of None \<Rightarrow> None | Some r \<Rightarrow> dv_host r);
                  (s', removed, removed_peers) = purge uids hosts (rg_store rg)
              in (OkRescan removed removed_peers locked_uids False, rg\<lparr>rg_store := s'\<rparr>,
                  map (\<lambda>u. EvDeviceRemoved u (host_of u)) removed @ map EvPeerRemoved removed_peers))"

subsection \<open>The name registry\<close>

definition op_names_get :: "request \<Rightarrow> registry \<Rightarrow> response" where
  "op_names_get req rg =
     (if \<not> truthy (rq_name req) then Failed InvalidRequest
      else case get_name (the (rq_name req)) (rg_store rg) of
             Inl ValueError \<Rightarrow> Failed InvalidRequest
           | Inl e \<Rightarrow> Failed (Raised e)
           | Inr entry \<Rightarrow> OkEntry entry)"

definition op_names_set :: "real \<Rightarrow> request \<Rightarrow> registry \<Rightarrow> response \<times> registry \<times> reg_event list" where
  "op_names_set wall req rg =
     (if \<not> truthy (rq_name req) \<or> rq_channel req = None \<or> rq_group req = None
      then (Failed InvalidRequest, rg, [])
      else case set_name wall (the (rq_name req)) (the (rq_channel req)) (the (rq_group req)) (rg_store rg) of
             Inl ValueError \<Rightarrow> (Failed InvalidRequest, rg, [])
           | Inl e \<Rightarrow> (Failed (Raised e), rg, [])
           | Inr (s', entry) \<Rightarrow> (OkEntry (Some entry), rg\<lparr>rg_store := s'\<rparr>, [EvNameSet entry]))"

definition op_names_clear :: "request \<Rightarrow> registry \<Rightarrow> response \<times> registry \<times> reg_event list" where
  "op_names_clear req rg =
     (if \<not> truthy (rq_name req) then (Failed InvalidRequest, rg, [])
      else case clear_name (the (rq_name req)) (rg_store rg) of
             Inl ValueError \<Rightarrow> (Failed InvalidRequest, rg, [])
           | Inl e \<Rightarrow> (Failed (Raised e), rg, [])
           | Inr s' \<Rightarrow> (Ok, rg\<lparr>rg_store := s'\<rparr>, [EvNameClear (the (rq_name req))]))"

definition op_names_list :: "registry \<Rightarrow> response" where
  "op_names_list rg = OkEntries (listing (rg_store rg))"

subsection \<open>Streaming and flashing\<close>

text \<open>\<open>_op_stream_precheck\<close>; \<open>ep_open\<close> is what the endpoint of a registered board answers to the
  \<open>lock\<close> and \<open>stream\<close> it is sent (\<open>None\<close>: accepted).\<close>

definition op_stream_precheck ::
    "(device \<Rightarrow> bool) \<Rightarrow> (registration \<Rightarrow> string \<Rightarrow> api_error option) \<Rightarrow> request \<Rightarrow> holder_ref \<Rightarrow> registry
       \<Rightarrow> response" where
  "op_stream_precheck vis ep_open req holder rg =
     (if \<not> truthy (rq_uid req) then Failed InvalidRequest
      else case resolve_visible vis rg (the (rq_uid req)) of
             Inl err \<Rightarrow> Failed err
           | Inr record \<Rightarrow>
               (case status (rg_locks rg) (dv_uid record) of
                  None \<Rightarrow> Failed NotLocked
                | Some st \<Rightarrow>
                    if ls_kind st \<notin> {KIND_SERIAL, KIND_RELAY} \<or> ls_holder st \<noteq> holder then Failed NotLocked
                    else if \<not> truthy (dv_port record) then Failed InvalidRequest
                    else if is_detached record then Failed NotFound
                    else if is_virtual record
                    then (case by_uid (dv_uid record) (rg_virtual rg) of
                            None \<Rightarrow> Failed NotFound
                          | Some reg \<Rightarrow> (case ep_open reg (ls_kind st) of
                                            None \<Rightarrow> OkStream record | Some e \<Rightarrow> Failed e))
                    else OkStream record))"

text \<open>How the endpoint of a registered board deals with a flash: it fails before the \<open>flash\<close> request is
  sent, the request was sent and this is its terminal answer, or it was sent and the endpoint broke
  off. Once the request was sent the flash is counted.\<close>

datatype endpoint_flash = EpNotSent api_error | EpSent bool "int option" | EpBroken

definition count_flash :: "uid \<Rightarrow> registry \<Rightarrow> registry" where
  "count_flash uid rg =
     (case get (rg_store rg) uid of
        None \<Rightarrow> rg
      | Some _ \<Rightarrow> (case increment_flash_count uid (rg_store rg) of
                      Inl _ \<Rightarrow> rg | Inr (s', _) \<Rightarrow> rg\<lparr>rg_store := s'\<rparr>))"

definition flash_virtual ::
    "bool \<Rightarrow> (registration \<Rightarrow> endpoint_flash) \<Rightarrow> device \<Rightarrow> registry \<Rightarrow> response \<times> registry" where
  "flash_virtual hex_readable ep record rg =
     (if \<not> hex_readable then (Failed InvalidRequest, rg)
      else case by_uid (dv_uid record) (rg_virtual rg) of
             None \<Rightarrow> (Failed NotFound, rg)
           | Some reg \<Rightarrow>
               (case ep reg of
                  EpNotSent e \<Rightarrow> (Failed e, rg)
                | EpSent ok code \<Rightarrow> (FlashDone ok code, count_flash (dv_uid record) rg)
                | EpBroken \<Rightarrow> (Failed InternalError, count_flash (dv_uid record) rg)))"

definition local_holder :: "int \<Rightarrow> holder_ref" where
  "local_holder pid = \<lparr>h_origin = ''local'', h_ref = show_int pid, h_pid = Some pid, h_host = None\<rparr>"

definition release_after_flash :: "real \<Rightarrow> int \<Rightarrow> uid \<Rightarrow> uid list \<Rightarrow> response \<Rightarrow> registry \<Rightarrow> handler_result" where
  "release_after_flash tick pid uid acquired resp rg =
     (let (b, rg1, evs) = release_lock tick uid (local_holder pid) rg
      in (resp, rg1\<lparr>rg_conns := ddel uid (rg_conns rg1)\<rparr>, removeAll uid acquired, evs))"

definition op_flash ::
    "flash_env \<Rightarrow> bool \<Rightarrow> (registration \<Rightarrow> endpoint_flash) \<Rightarrow> real \<Rightarrow> request \<Rightarrow> int \<Rightarrow> uid list \<Rightarrow> registry
       \<Rightarrow> handler_result" where
  "op_flash env hex_readable ep tick req pid acquired rg =
     (if \<not> truthy (rq_uid req) \<or> \<not> truthy (rq_hex_path req) then (Failed InvalidRequest, rg, acquired, [])
      else case find_device (rg_store rg) (the (rq_uid req)) of
             Inl e \<Rightarrow> (Failed (Raised e), rg, acquired, [])
           | Inr None \<Rightarrow> (Failed NotFound, rg, acquired, [])
           | Inr (Some record) \<Rightarrow>
               let uid = dv_uid record;
                   not_held = (case status (rg_locks rg) uid of None \<Rightarrow> True
                     | Some h \<Rightarrow> ls_kind h \<noteq> KIND_FLASH \<or> ls_pid h \<noteq> Some pid) in
               if not_held then (Failed NotLocked, rg, acquired, [])
               else if is_detached record then (Failed NotFound, rg, acquired, [])
               else if is_virtual record
               then let (resp, rg1) = flash_virtual hex_readable ep record rg
                    in release_after_flash tick pid uid acquired resp rg1
               else (case fst (flash_hex_op env uid (the (rq_hex_path req)) rg) of
                       Inl HexValidationError \<Rightarrow> release_after_flash tick pid uid acquired (Failed InvalidRequest) rg
                     | Inl FlashLockNotHeldError \<Rightarrow> (Failed RaisedLockNotHeld, rg, acquired, [])
                     | Inl (FlashFailed e) \<Rightarrow> (Failed (Raised e), rg, acquired, [])
                     | Inr (rg1, r) \<Rightarrow>
                         release_after_flash tick pid uid acquired (FlashDone (fr_success r) (fr_exit_code r)) rg1))"

subsection \<open>Registering a virtual board\<close>

definition op_register_board ::
    "real \<Rightarrow> (string, json) dict \<Rightarrow> nat \<Rightarrow> registry \<Rightarrow> response \<times> registry \<times> registration option \<times> reg_event list" where
  "op_register_board wall req conn rg =
     (case validate_registration req conn of
        Inl e \<Rightarrow> (Failed InvalidRequest, rg, None, [])
      | Inr reg \<Rightarrow>
          if is_reserved_name (vr_name reg) then (Failed NameReserved, rg, None, [])
          else if name_in_use (vr_name reg) (rg_virtual rg) then (Failed NameInUse, rg, None, [])
          else let rg1 = rg\<lparr>rg_virtual := add_board reg (rg_virtual rg)\<rparr> in
               (case upsert_virtual wall (vr_uid reg) (vr_name reg) (vr_role reg) (vr_serial reg) (rg_store rg1) of
                  Inl e \<Rightarrow> (Failed (Raised e), rg1, None, [])
                | Inr (s', record) \<Rightarrow>
                    let rg2 = rg1\<lparr>rg_store := s'\<rparr> in
                    (OkRegistered (vr_uid reg) (device_dict rg2 record), rg2, Some reg,
                     [EvDevice ''attach'' record, EvDevice ''identity'' record])))"

text \<open>\<open>_detach_virtual\<close>, run when the registering connection closes; the lock holder's connection, to
  be shut down, is returned.\<close>

definition detach_virtual ::
    "real \<Rightarrow> registration \<Rightarrow> registry \<Rightarrow> registry \<times> nat option \<times> reg_event list" where
  "detach_virtual tick reg rg =
     (let (removed, vb') = remove_board reg (rg_virtual rg) in
      if \<not> removed then (rg, None, [])
      else let rg1 = rg\<lparr>rg_virtual := vb'\<rparr>;
               (rg2, evs) = (case status (rg_locks rg1) (vr_uid reg) of
                               None \<Rightarrow> (rg1, [])
                             | Some st \<Rightarrow> let (b, r, o') = release_lock tick (vr_uid reg) (ls_holder st) rg1 in (r, o'));
               holder_conn = dget (rg_conns rg2) (vr_uid reg);
               rg3 = rg2\<lparr>rg_conns := ddel (vr_uid reg) (rg_conns rg2)\<rparr>;
               (s', record) = remove_virtual (vr_uid reg) (rg_store rg3)
           in (rg3\<lparr>rg_store := s'\<rparr>, holder_conn,
               evs @ (case record of None \<Rightarrow> [] | Some r \<Rightarrow> [EvDevice ''detach'' r])))"

subsection \<open>The life of a connection\<close>

definition held_by :: "holder_ref \<Rightarrow> registry \<Rightarrow> uid \<Rightarrow> bool" where
  "held_by holder rg u = (case dget (rg_locks rg) u of None \<Rightarrow> False | Some st \<Rightarrow> ls_holder st = holder)"

text \<open>What a connection with the given holder may do between its first request and its end, interleaved
  with everything else that happens to the registry: other connections, sweeps and the daemon may
  change it in any way except by acquiring a lock in this holder's name.\<close>

inductive session :: "holder_ref \<Rightarrow> registry \<Rightarrow> registry \<times> uid list \<Rightarrow> bool" for holder rg0 where
  session_start: "session holder rg0 (rg0, [])"
| session_lock: "session holder rg0 (rg, acq) \<Longrightarrow> op_lock vis wall req holder acq rg = (resp, rg', acq', evs)
    \<Longrightarrow> session holder rg0 (rg', acq')"
| session_unlock: "session holder rg0 (rg, acq) \<Longrightarrow> op_unlock vis tick req holder acq rg = (resp, rg', acq', evs)
    \<Longrightarrow> session holder rg0 (rg', acq')"
| session_flash: "session holder rg0 (rg, acq) \<Longrightarrow> holder = local_holder pid
    \<Longrightarrow> op_flash env hex_readable ep tick req pid acq rg = (resp, rg', acq', evs)
    \<Longrightarrow> session holder rg0 (rg', acq')"
| session_others: "session holder rg0 (rg, acq) \<Longrightarrow> (\<And>u. held_by holder rg' u \<Longrightarrow> held_by holder rg u)
    \<Longrightarrow> session holder rg0 (rg', acq)"

lemma held_by_conns [simp]: "held_by h (rg\<lparr>rg_conns := c\<rparr>) = held_by h rg"
  by (simp add: held_by_def fun_eq_iff)

lemma held_by_release:
  "release_lock tick uid holder rg = (b, rg', evs)
     \<Longrightarrow> held_by holder rg' u \<longleftrightarrow> held_by holder rg u \<and> u \<noteq> uid"
  by (auto simp: release_lock_eq held_by_def split: option.splits if_splits)

lemma release_others:
  "release_lock tick uid holder rg = (b, rg', evs) \<Longrightarrow> \<not> held_by holder rg u
     \<Longrightarrow> dget (rg_locks rg') u = dget (rg_locks rg) u"
  by (auto simp: release_lock_eq held_by_def split: option.splits if_splits)

lemma op_lock_held:
  "op_lock vis wall req holder acq rg = (resp, rg', acq', evs) \<Longrightarrow> held_by holder rg' u
     \<Longrightarrow> (held_by holder rg u \<or> u \<in> set acq') \<and> set acq \<subseteq> set acq'"
  by (auto simp: op_lock_def acquire_lock_eq held_by_def split: if_splits sum.splits option.splits)

lemma op_lock_grows: "op_lock vis wall req holder acq rg = (resp, rg', acq', evs) \<Longrightarrow> set acq \<subseteq> set acq'"
  by (auto simp: op_lock_def split: if_splits sum.splits)

lemma op_unlock_held:
  "op_unlock vis tick req holder acq rg = (resp, rg', acq', evs) \<Longrightarrow> held_by holder rg' u \<Longrightarrow> u \<in> set acq
     \<Longrightarrow> held_by holder rg u \<and> u \<in> set acq'"
  by (auto simp: op_unlock_def held_by_release split: if_splits sum.splits prod.splits)

lemma op_unlock_shrinks:
  "op_unlock vis tick req holder acq rg = (resp, rg', acq', evs) \<Longrightarrow> held_by holder rg' u \<Longrightarrow> held_by holder rg u"
  by (auto simp: op_unlock_def held_by_release split: if_splits sum.splits prod.splits)

lemma flash_hex_op_locks:
  "fst (flash_hex_op env uid hex rg) = Inr (rg', r) \<Longrightarrow> rg_locks rg' = rg_locks rg"
  by (auto simp: flash_hex_op_def flash_locked_op_def Let_def split: option.splits if_splits sum.splits prod.splits)

lemma count_flash_locks [simp]: "rg_locks (count_flash uid rg) = rg_locks rg"
  by (auto simp: count_flash_def split: option.split sum.split)

lemma flash_virtual_locks: "flash_virtual ok ep record rg = (resp, rg') \<Longrightarrow> rg_locks rg' = rg_locks rg"
  by (auto simp: flash_virtual_def split: if_splits option.splits endpoint_flash.splits)

lemma release_after_flash_held:
  "release_after_flash tick pid uid acq resp rg = (resp', rg', acq', evs)
     \<Longrightarrow> held_by (local_holder pid) rg' u \<Longrightarrow> held_by (local_holder pid) rg u \<and> (u \<in> set acq \<longrightarrow> u \<in> set acq')"
  by (auto simp: release_after_flash_def held_by_release split: prod.splits)

lemma held_by_locks: "rg_locks rg' = rg_locks rg \<Longrightarrow> held_by h rg' = held_by h rg"
  by (simp add: held_by_def fun_eq_iff)

lemma op_flash_held:
  assumes "op_flash env ok ep tick req pid acq rg = (resp, rg', acq', evs)" and "held_by (local_holder pid) rg' u"
  shows "held_by (local_holder pid) rg u \<and> (u \<in> set acq \<longrightarrow> u \<in> set acq')"
proof -
  let ?R = "\<lambda>r rg1. \<exists>uid. release_after_flash tick pid uid acq r rg1 = (resp, rg', acq', evs)"
  have outcome: "(rg' = rg \<and> acq' = acq) \<or> (\<exists>rg1 r. rg_locks rg1 = rg_locks rg \<and> ?R r rg1)"
  proof (cases "find_device (rg_store rg) (the (rq_uid req))")
    case (Inl e)
    then show ?thesis using assms(1) by (simp add: op_flash_def split: if_splits)
  next
    case (Inr found)
    show ?thesis
    proof (cases found)
      case None
      then show ?thesis using assms(1) Inr by (simp add: op_flash_def split: if_splits)
    next
      case (Some rc)
      note f = Inr Some
      let ?hex = "flash_hex_op env (dv_uid rc) (the (rq_hex_path req)) rg"
      show ?thesis
      proof (cases "is_virtual rc")
        case True
        obtain resp1 rg1 where v: "flash_virtual ok ep rc rg = (resp1, rg1)" by fastforce
        then have "rg_locks rg1 = rg_locks rg" by (rule flash_virtual_locks)
        moreover have "(rg' = rg \<and> acq' = acq) \<or> ?R resp1 rg1"
          using assms(1) f v True by (auto simp: op_flash_def Let_def split: if_splits)
        ultimately show ?thesis by blast
      next
        case False
        note nv = False
        show ?thesis
        proof (cases "fst ?hex")
          case (Inl e)
          then have "(rg' = rg \<and> acq' = acq) \<or> ?R (Failed InvalidRequest) rg"
            using assms(1) f nv by (auto simp: op_flash_def Let_def split: if_splits flash_error.splits)
          then show ?thesis by blast
        next
          case (Inr y)
          obtain rg1 r where y: "y = (rg1, r)" by fastforce
          have "rg_locks rg1 = rg_locks rg" using flash_hex_op_locks Inr y by blast
          moreover have "(rg' = rg \<and> acq' = acq) \<or> ?R (FlashDone (fr_success r) (fr_exit_code r)) rg1"
            using assms(1) f nv Inr y by (auto simp: op_flash_def Let_def split: if_splits)
          ultimately show ?thesis by blast
        qed
      qed
    qed
  qed
  from outcome show ?thesis
  proof
    assume "rg' = rg \<and> acq' = acq"
    then show ?thesis using assms(2) by simp
  next
    assume "\<exists>rg1 r. rg_locks rg1 = rg_locks rg \<and> ?R r rg1"
    then obtain rg1 r uid where "rg_locks rg1 = rg_locks rg"
      "release_after_flash tick pid uid acq r rg1 = (resp, rg', acq', evs)" by blast
    then show ?thesis using release_after_flash_held assms(2) held_by_locks by metis
  qed
qed

lemma close_connection_held:
  "held_by holder (fst (close_connection tick holder uids rg out)) u \<longleftrightarrow> held_by holder rg u \<and> u \<notin> set uids"
proof (induction uids arbitrary: rg out)
  case (Cons uid uids)
  obtain b rg1 evs where r: "release_lock tick uid holder rg = (b, rg1, evs)" by (metis prod_cases3)
  show ?case using Cons [of "rg1\<lparr>rg_conns := ddel uid (rg_conns rg1)\<rparr>" "out @ evs"] held_by_release [OF r, of u]
    by (auto simp: r)
qed simp

lemma close_connection_others:
  "\<not> held_by holder rg u \<Longrightarrow> dget (rg_locks (fst (close_connection tick holder uids rg out))) u = dget (rg_locks rg) u"
proof (induction uids arbitrary: rg out)
  case (Cons uid uids)
  obtain b rg1 evs where r: "release_lock tick uid holder rg = (b, rg1, evs)" by (metis prod_cases3)
  have "\<not> held_by holder rg1 u" using held_by_release [OF r] Cons.prems by simp
  then show ?case
    using Cons.IH [of "rg1\<lparr>rg_conns := ddel uid (rg_conns rg1)\<rparr>" "out @ evs"] release_others [OF r Cons.prems]
    by (simp add: r)
qed simp

lemma session_invariant:
  assumes "session holder rg0 (rg, acq)" and "\<forall>u. \<not> held_by holder rg0 u"
  shows "\<forall>u. held_by holder rg u \<longrightarrow> u \<in> set acq"
  using assms
proof (induction "(rg, acq)" arbitrary: rg acq rule: session.induct)
  case (session_lock rg acq vis wall req resp rg' acq' evs)
  then show ?case using op_lock_held [OF session_lock.hyps(3)] op_lock_grows [OF session_lock.hyps(3)] by blast
next
  case (session_unlock rg acq vis tick req resp rg' acq' evs)
  then show ?case using op_unlock_held [OF session_unlock.hyps(3)] op_unlock_shrinks [OF session_unlock.hyps(3)] by blast
next
  case (session_flash rg acq pid env ok ep tick req resp rg' acq' evs)
  then show ?case using op_flash_held [OF session_flash.hyps(4)] by blast
next
  case (session_others rg acq rg')
  then show ?case by blast
qed simp

lemma candidate_purgeable:
  "u \<in> set (device_uids (candidates_for_purge s)) \<Longrightarrow> \<exists>d\<in>set (st_devices s). dv_uid d = u \<and> purgeable s d"
  by (auto simp: device_uids_def candidates_for_purge_def purgeable_def)

subsection \<open>Properties\<close>

text \<open>A lock request is all or nothing. It is granted only for a known lock kind on a device the
  server shows, that is not a detached local board and that nobody holds, and then exactly that lock
  is added; every refusal leaves the registry and the connection's set untouched and fires nothing.\<close>

theorem lock_grant_conditions:
  "case op_lock vis wall req holder acq rg of (resp, rg', acq', evs) \<Rightarrow>
     (resp = Ok \<and> (\<exists>d kind. d \<in> set (st_devices (rg_store rg)) \<and> vis d \<and> \<not> is_detached d
          \<and> rq_kind req = Some kind \<and> kind \<in> set LOCK_KINDS \<and> dget (rg_locks rg) (dv_uid d) = None
          \<and> dget (rg_locks rg') = (dget (rg_locks rg))(dv_uid d \<mapsto>
               \<lparr>ls_kind = kind, ls_holder = holder, ls_label = rq_label req, ls_since = wall\<rparr>)
          \<and> rg_store rg' = rg_store rg \<and> rg_pending rg' = rg_pending rg
          \<and> set acq' = insert (dv_uid d) (set acq)))
     \<or> ((\<exists>e. resp = Failed e) \<and> rg' = rg \<and> acq' = acq \<and> evs = [])"
proof (cases "truthy (rq_uid req) \<and> truthy (rq_kind req) \<and> the (rq_kind req) \<in> set LOCK_KINDS")
  case False
  then show ?thesis by (auto simp: op_lock_def)
next
  case True
  then obtain kind where k: "rq_kind req = Some kind" "kind \<in> set LOCK_KINDS"
    by (auto simp: truthy_def split: option.splits)
  show ?thesis
  proof (cases "resolve_visible vis rg (the (rq_uid req))")
    case (Inl e)
    then show ?thesis using True by (simp add: op_lock_def)
  next
    case (Inr d)
    then have d: "d \<in> set (st_devices (rg_store rg))" "vis d"
      using find_device_in by (auto simp: resolve_visible_def split: sum.splits py_error.splits option.splits if_splits)
    show ?thesis
    proof (cases "is_detached d \<or> dget (rg_locks rg) (dv_uid d) \<noteq> None")
      case True': True
      then show ?thesis using True Inr by (auto simp: op_lock_def acquire_lock_eq)
    next
      case False
      then have "op_lock vis wall req holder acq rg = (Ok,
          rg\<lparr>rg_locks := dset (dv_uid d) \<lparr>ls_kind = kind, ls_holder = holder, ls_label = rq_label req,
             ls_since = wall\<rparr> (rg_locks rg)\<rparr>, List.insert (dv_uid d) acq,
          [EvLock (dv_uid d) (Some kind) (Some (describe_holder holder)) (rq_label req) (Some wall)])"
        using True Inr k by (simp add: op_lock_def acquire_lock_eq)
      then show ?thesis using d k False by (auto simp: fun_eq_iff)
    qed
  qed
qed

text \<open>C18: a client that goes away leaves nothing locked. If nothing was held in a connection's name when
  it started, then after any sequence of lock, unlock and flash requests on it, interleaved with
  whatever other connections, sweeps, forced unlocks and the daemon do, closing the connection
  releases every lock still held in its name, and no lock of anybody else.\<close>

theorem disconnect_releases_everything:
  assumes "session holder rg0 (rg, acq)" and "\<forall>u. \<not> held_by holder rg0 u"
  shows "(\<forall>u. \<not> held_by holder (fst (close_connection tick holder acq rg [])) u)
     \<and> (\<forall>u. \<not> held_by holder rg u
          \<longrightarrow> dget (rg_locks (fst (close_connection tick holder acq rg []))) u = dget (rg_locks rg) u)"
  using session_invariant [OF assms] close_connection_held close_connection_others by blast

lemma rescan_facts:
  assumes "devices_unique (rg_store rg)"
    and "op_rescan req rg = (OkRescan removed hosts skipped dry, rg', evs)"
  shows "set skipped = {u \<in> set (device_uids (candidates_for_purge (rg_store rg))). dget (rg_locks rg) u \<noteq> None}
     \<and> sorted skipped
     \<and> set removed = {u \<in> set (device_uids (candidates_for_purge (rg_store rg))). dget (rg_locks rg) u = None}
     \<and> (if dry then rg' = rg \<and> evs = []
        else (\<forall>u. get (rg_store rg') u = (if u \<in> set removed then None else get (rg_store rg) u))
           \<and> rg_locks rg' = rg_locks rg
           \<and> length evs = length removed + length hosts
           \<and> (\<forall>u\<in>set removed. \<exists>h. EvDeviceRemoved u h \<in> set evs))"
proof -
  let ?c = "candidates_for_purge (rg_store rg)"
  let ?skip = "sort (filter (\<lambda>u. dget (rg_locks rg) u \<noteq> None) (device_uids ?c))"
  let ?uids = "filter (\<lambda>u. u \<notin> set ?skip) (device_uids ?c)"
  have skip: "set ?skip = {u \<in> set (device_uids ?c). dget (rg_locks rg) u \<noteq> None}" by simp
  have uids: "set ?uids = {u \<in> set (device_uids ?c). dget (rg_locks rg) u = None}" by auto
  show ?thesis
  proof (cases "rq_dry_run req")
    case True
    then have "removed = ?uids \<and> skipped = ?skip \<and> dry \<and> rg' = rg \<and> evs = []"
      using assms(2) by (auto simp: op_rescan_def Let_def status_def)
    then show ?thesis using skip uids by simp
  next
    case False
    obtain s' rem peers where p: "purge ?uids (pc_unreachable_peers ?c) (rg_store rg) = (s', rem, peers)"
      by (metis prod_cases3)
    then have r: "removed = rem" "skipped = ?skip" "\<not> dry" "rg' = rg\<lparr>rg_store := s'\<rparr>" "hosts = peers"
      "evs = map (\<lambda>u. EvDeviceRemoved u (case get (rg_store rg) u of None \<Rightarrow> None | Some r \<Rightarrow> dv_host r)) rem
             @ map EvPeerRemoved peers"
      using assms(2) False by (auto simp: op_rescan_def Let_def status_def)
    have pu: "\<exists>d. get (rg_store rg) u = Some d \<and> purgeable (rg_store rg) d" if "u \<in> set (device_uids ?c)" for u
      using candidate_purgeable [OF that] devices_get [OF assms(1)] by auto
    note x = purge_facts [OF assms(1) p]
    have rem: "set rem = set ?uids"
    proof -
      have "set rem = {u \<in> set ?uids. \<exists>d. get (rg_store rg) u = Some d \<and> purgeable (rg_store rg) d}"
        using x by blast
      then show ?thesis using pu by auto
    qed
    have "get s' u = (if u \<in> set rem then None else get (rg_store rg) u)" for u
      using x [THEN conjunct1, rule_format, of u] rem pu [of u] by (auto split: option.splits)
    then show ?thesis using r rem skip uids by auto
  qed
qed

text \<open>\<open>rescan\<close> purges exactly the candidates nobody has locked: a dry run only reports them; otherwise
  they are gone afterwards, every locked board keeps its row and is reported as skipped, and one
  removal event is fired per removed row and per removed peer.\<close>

theorem rescan_spares_locked_boards:
  assumes "devices_unique (rg_store rg)"
    and "op_rescan req rg = (OkRescan removed hosts skipped dry, rg', evs)"
  shows "set skipped = {u \<in> set (device_uids (candidates_for_purge (rg_store rg))). dget (rg_locks rg) u \<noteq> None}
     \<and> sorted skipped
     \<and> set removed = {u \<in> set (device_uids (candidates_for_purge (rg_store rg))). dget (rg_locks rg) u = None}
     \<and> (if dry then rg' = rg \<and> evs = []
        else (\<forall>u. get (rg_store rg') u = (if u \<in> set removed then None else get (rg_store rg) u))
           \<and> rg_locks rg' = rg_locks rg
           \<and> length evs = length removed + length hosts
           \<and> (\<forall>u\<in>set removed. \<exists>h. EvDeviceRemoved u h \<in> set evs))"
  by (rule rescan_facts [OF assms])

text \<open>Registering and detaching a virtual board undo each other. An accepted registration of a name
  whose uid had no row never takes a name a real robot could have, shows the board as a connected
  virtual one, and when its connection closes the row, the name and any lock on it are gone and every
  other row is as before; detaching again does nothing.\<close>

theorem virtual_board_lifecycle:
  assumes "op_register_board wall req conn rg = (OkRegistered uid view, rg1, Some reg, evs)"
    and "get (rg_store rg) uid = None"
  shows "validate (vr_name reg) = Inl ValueError \<and> dw_simulated view
     \<and> (\<exists>rg2 c out. detach_virtual tick reg rg1 = (rg2, c, out)
          \<and> get (rg_store rg2) = get (rg_store rg) \<and> dget (rg_virtual rg2) = dget (rg_virtual rg)
          \<and> dget (rg_locks rg2) uid = None \<and> rg_pending rg2 = rg_pending rg
          \<and> detach_virtual tick reg rg2 = (rg2, None, []))"
proof -
  have v: "validate_registration req conn = Inr reg" "\<not> is_reserved_name (vr_name reg)"
      "\<not> name_in_use (vr_name reg) (rg_virtual rg)" "uid = vr_uid reg"
    and rg1: "rg1 = rg\<lparr>rg_virtual := add_board reg (rg_virtual rg),
          rg_store := insert_device (virtual_device uid (vr_name reg) (vr_role reg) (vr_serial reg) wall)
                        (delete_device uid (rg_store rg))\<rparr>"
    and view: "view = device_dict rg1 (virtual_device uid (vr_name reg) (vr_role reg) (vr_serial reg) wall)"
    using assms(1) unfolding op_register_board_def Let_def upsert_virtual_eq(1)
    by (auto split: sum.splits if_splits)
  let ?d = "virtual_device uid (vr_name reg) (vr_role reg) (vr_serial reg) wall"
  have g1: "get (rg_store rg1) = (get (rg_store rg))(uid \<mapsto> ?d)" by (simp add: rg1 upsert_virtual_eq(2))
  have sim: "is_virtual_uid uid"
    using v(1,4) by (auto simp: validate_registration_def Let_def is_virtual_uid_def
        split: json.splits if_splits sum.splits)
  have bad: "validate (vr_name reg) = Inl ValueError"
    using v(2) by (simp add: validate_def is_reserved_name_def Let_def)
  have "dv_host ?d = None" by (simp add: virtual_device_def)
  then have "dw_simulated view" by (simp add: view device_dict_def Let_def virtual_device_is_virtual)
  have none: "dget (rg_virtual rg) (str_lower (vr_name reg)) = None" using v(3) by (simp add: name_in_use_def)
  define vb where "vb = ddel (str_lower (vr_name reg)) (rg_virtual rg1)"
  have rem: "remove_board reg (rg_virtual rg1) = (True, vb)"
    by (simp add: remove_board_def rg1 add_board_def vb_def)
  have vbd: "dget vb = dget (rg_virtual rg)" using none by (auto simp: vb_def rg1 add_board_def fun_eq_iff)
  define rg2 where "rg2 = (case dget (rg_locks rg1) uid of None \<Rightarrow> rg1\<lparr>rg_virtual := vb\<rparr>
      | Some st \<Rightarrow> rg1\<lparr>rg_virtual := vb, rg_locks := ddel uid (rg_locks rg1)\<rparr>)"
  have st2: "rg_store rg2 = rg_store rg1" "rg_virtual rg2 = vb" "dget (rg_locks rg2) uid = None"
    "rg_pending rg2 = rg_pending rg"
    by (auto simp: rg2_def rg1 split: option.split)
  define rg3 where "rg3 = rg2\<lparr>rg_conns := ddel uid (rg_conns rg2), rg_store := delete_device uid (rg_store rg2)\<rparr>"
  have rv: "remove_virtual uid (rg_store rg2) = (delete_device uid (rg_store rg2), Some ?d)"
    using g1 virtual_device_is_virtual st2(1) by (simp add: remove_virtual_def)
  have "\<exists>c out. detach_virtual tick reg rg1 = (rg3, c, out)"
    using rv v(4) sim
    by (cases "dget (rg_locks rg1) uid")
      (auto simp: detach_virtual_def rem rg3_def Let_def rg2_def status_def release_lock_eq on_flash_release_def)
  moreover have "get (rg_store rg3) = get (rg_store rg)"
    using assms(2) g1 st2(1) by (auto simp: rg3_def dev.get_del fun_eq_iff)
  moreover have "rg_virtual rg3 = vb" "rg_locks rg3 = rg_locks rg2" "rg_pending rg3 = rg_pending rg"
    using st2 by (simp_all add: rg3_def)
  moreover have "detach_virtual tick reg rg3 = (rg3, None, [])"
    using none vbd \<open>rg_virtual rg3 = vb\<close> by (simp add: detach_virtual_def remove_board_def)
  ultimately show ?thesis using bad \<open>dw_simulated view\<close> st2(3) vbd by auto
qed

subsection \<open>Concrete runs\<close>

definition demo_lock_request :: request where
  "demo_lock_request = \<lparr>rq_uid = Some ''aa'', rq_token = None, rq_kind = Some ''serial'', rq_label = None,
     rq_name = None, rq_channel = None, rq_group = None, rq_hex_path = None, rq_dry_run = False\<rparr>"

lemma demo_lock:
  "\<exists>rg' evs. op_lock local_visible 1 demo_lock_request (local_holder 7) [] bench = (Ok, rg', [''aa''], evs)
     \<and> held_by (local_holder 7) rg' ''aa''"
proof -
  have st: "rg_store bench = demo_store" "rg_locks bench = []" by (simp_all add: bench_def)
  have "find_device (rg_store bench) ''aa'' = Inr (Some (demo_device ''aa'' None))"
    by (rule find_device_uid) (simp_all add: st demo_get)
  then have "resolve_visible local_visible bench ''aa'' = Inr (demo_device ''aa'' None)"
    by (simp add: resolve_visible_def local_visible_def)
  moreover have "\<not> is_detached (demo_device ''aa'' None)" "dv_uid (demo_device ''aa'' None) = ''aa''"
    by (simp_all add: is_detached_def demo_device_def fresh_device_def)
  ultimately show ?thesis
    by (simp add: op_lock_def demo_lock_request_def truthy_def LOCK_KINDS_def kind_defs acquire_lock_eq st held_by_def)
qed

theorem disconnect_releases_everything_witness:
  "\<exists>rg. held_by (local_holder 7) rg ''aa''
     \<and> \<not> held_by (local_holder 7) (fst (close_connection 2 (local_holder 7) [''aa''] rg [])) ''aa''"
proof -
  obtain rg evs where r: "op_lock local_visible 1 demo_lock_request (local_holder 7) [] bench = (Ok, rg, [''aa''], evs)"
      "held_by (local_holder 7) rg ''aa''" using demo_lock by blast
  have "session (local_holder 7) bench (rg, [''aa''])" by (rule session_lock [OF session_start r(1)])
  moreover have "\<forall>u. \<not> held_by (local_holder 7) bench u" by (simp add: held_by_def bench_def)
  ultimately show ?thesis
    using disconnect_releases_everything [of "local_holder 7" bench rg "[''aa'']" 2] r(2) by blast
qed

theorem rescan_spares_locked_boards_witness:
  "\<exists>removed hosts rg' evs. op_rescan demo_lock_request bench = (OkRescan removed hosts [] False, rg', evs)
     \<and> set removed = {''bb''} \<and> get (rg_store rg') ''bb'' = None"
proof -
  have u: "devices_unique (rg_store bench)" by (simp add: bench_def demo_unique)
  have c: "device_uids (candidates_for_purge (rg_store bench)) = [''bb'']"
    by (simp add: device_uids_def candidates_for_purge_def demo_store_def demo_device_def fresh_device_def
        host_in_peers_def bench_def)
  obtain s' removed hosts where p: "purge [''bb''] (pc_unreachable_peers (candidates_for_purge (rg_store bench)))
      (rg_store bench) = (s', removed, hosts)" by (metis prod_cases3)
  have l: "status (rg_locks bench) u = None" for u by (simp add: status_def bench_def)
  obtain evs where r: "op_rescan demo_lock_request bench = (OkRescan removed hosts [] False, bench\<lparr>rg_store := s'\<rparr>, evs)"
    using p by (simp add: op_rescan_def demo_lock_request_def Let_def c l)
  have "set removed = {''bb''}"
    using rescan_spares_locked_boards [OF u r] unfolding c by (simp add: bench_def)
  moreover have "get s' ''bb'' = None"
    using rescan_spares_locked_boards [OF u r] calculation by simp
  ultimately show ?thesis using r by auto
qed

theorem virtual_board_lifecycle_witness:
  "\<exists>uid view rg1 reg evs rg2 c out. op_register_board 5 (demo_request ''bot'') 4 bench = (OkRegistered uid view, rg1, Some reg, evs)
     \<and> detach_virtual 6 reg rg1 = (rg2, c, out) \<and> get (rg_store rg2) = get demo_store"
proof -
  let ?reg = "\<lparr>vr_name = ''bot'', vr_uid = ''sim-bot'', vr_endpoint = (''127.0.0.1'', 9000),
             vr_role = ''NEZHA2'', vr_serial = ''7'', vr_conn = 4\<rparr>"
  have v: "validate_registration (demo_request ''bot'') 4 = Inr ?reg" "\<not> is_reserved_name ''bot''" by code_simp+
  have n: "\<not> name_in_use ''bot'' (rg_virtual bench)" by (simp add: name_in_use_def bench_def)
  obtain view rg1 evs where r: "op_register_board 5 (demo_request ''bot'') 4 bench = (OkRegistered ''sim-bot'' view, rg1, Some ?reg, evs)"
    using v n by (simp add: op_register_board_def upsert_virtual_eq(1) Let_def)
  have "get (rg_store bench) ''sim-bot'' = None" by (simp add: bench_def demo_get)
  from virtual_board_lifecycle [OF r this, of 6]
  obtain rg2 c out where "detach_virtual 6 ?reg rg1 = (rg2, c, out)" "get (rg_store rg2) = get (rg_store bench)" by blast
  then show ?thesis using r by (auto simp: bench_def)
qed

text \<open>Two connections of one process share a holder: the close of the first releases a lock the second
  took after the first had lost it.\<close>

lemma same_process_close_releases_other_connections_lock:
  "\<exists>rg1 rg2 rg3 acq1 acq2 e1 e2 e3. op_lock local_visible 1 demo_lock_request (local_holder 7) [] bench = (Ok, rg1, acq1, e1)
     \<and> op_unlock local_visible 2 demo_lock_request (local_holder 7) [] rg1 = (OkReleased True, rg2, [], e2)
     \<and> op_lock local_visible 3 demo_lock_request (local_holder 7) [] rg2 = (Ok, rg3, acq2, e3)
     \<and> dget (rg_locks rg3) ''aa'' \<noteq> None
     \<and> dget (rg_locks (fst (close_connection 4 (local_holder 7) acq1 rg3 []))) ''aa'' = None"
proof -
  have st: "rg_store bench = demo_store" "rg_locks bench = []" by (simp_all add: bench_def)
  have f: "find_device demo_store ''aa'' = Inr (Some (demo_device ''aa'' None))"
    by (rule find_device_uid) (simp_all add: demo_get)
  have d: "\<not> is_detached (demo_device ''aa'' None)" "dv_uid (demo_device ''aa'' None) = ''aa''"
    by (simp_all add: is_detached_def demo_device_def fresh_device_def)
  let ?st = "\<lambda>t. \<lparr>ls_kind = ''serial'', ls_holder = local_holder 7, ls_label = None, ls_since = t\<rparr>"
  have l: "op_lock local_visible t demo_lock_request (local_holder 7) [] rg = (Ok, rg\<lparr>rg_locks := dset ''aa'' (?st t) (rg_locks rg)\<rparr>,
      [''aa''], [EvLock ''aa'' (Some ''serial'') (Some (describe_holder (local_holder 7))) None (Some t)])"
    if "rg_store rg = demo_store" "dget (rg_locks rg) ''aa'' = None" for t rg
    using that f d by (simp add: op_lock_def demo_lock_request_def truthy_def LOCK_KINDS_def kind_defs acquire_lock_eq
        resolve_visible_def local_visible_def)
  let ?rg1 = "bench\<lparr>rg_locks := dset ''aa'' (?st 1) []\<rparr>"
  let ?rg2 = "bench\<lparr>rg_locks := ddel ''aa'' (dset ''aa'' (?st 1) [])\<rparr>"
  have u: "op_unlock local_visible 2 demo_lock_request (local_holder 7) [] ?rg1
      = (OkReleased True, ?rg2, [], [EvLock ''aa'' None None None None])"
    using f d by (simp add: op_unlock_def demo_lock_request_def truthy_def release_lock_eq st resolve_visible_def
        local_visible_def KIND_FLASH_def)
  have l1: "op_lock local_visible 1 demo_lock_request (local_holder 7) [] bench
      = (Ok, ?rg1, [''aa''], [EvLock ''aa'' (Some ''serial'') (Some (describe_holder (local_holder 7))) None (Some 1)])"
    using l [of bench 1] st by simp
  let ?rg3 = "?rg2\<lparr>rg_locks := dset ''aa'' (?st 3) (rg_locks ?rg2)\<rparr>"
  have l3: "op_lock local_visible 3 demo_lock_request (local_holder 7) [] ?rg2
      = (Ok, ?rg3, [''aa''], [EvLock ''aa'' (Some ''serial'') (Some (describe_holder (local_holder 7))) None (Some 3)])"
    using l [of ?rg2 3] st by simp
  have "dget (rg_locks (fst (close_connection 4 (local_holder 7) [''aa''] ?rg3 []))) ''aa'' = None"
    by (simp add: release_lock_eq KIND_FLASH_def)
  moreover have "dget (rg_locks ?rg3) ''aa'' \<noteq> None" by simp
  ultimately show ?thesis using l1 u l3 by blast
qed

text \<open>A \<open>flash\<close> request by an ambiguous name is not answered: the local server's handler lets the
  exception of \<open>find\<close> escape, where every other handler answers \<open>ambiguous_name\<close>.\<close>

lemma flash_by_ambiguous_name_raises:
  assumes "find_device (rg_store rg) token = Inl (AmbiguousNameError hosts)" and "token \<noteq> []"
    and "rq_uid req = Some token" and "truthy (rq_hex_path req)"
  shows "op_flash env hex_readable ep tick req pid acq rg = (Failed (Raised (AmbiguousNameError hosts)), rg, acq, [])"
    and "resolve_visible vis rg token = Inl (AmbiguousName hosts)"
  using assms by (simp_all add: op_flash_def truthy_def resolve_visible_def)

end
