(* ===== verification/MB_Peering.thy ===== *)
theory MB_Peering
  imports MB_Registry
begin

text \<open>
  Model of the replication half of \<open>src/mbtools/registry/peering.py\<close>: what a host tells its peers
  about its own boards and the name registry (the snapshot reply and the published events), and what a
  peer does with it. A JSON message is a value of one of the types below: a field that is missing or
  \<open>null\<close>, which \<open>.get\<close> does not tell apart, is \<open>None\<close>; messages whose fields have other JSON types
  than the ones every host sends are not modelled, nor is the \<open>simulated\<close> key, which only boards that
  are never published carry. \<open>publish\<close> and \<open>apply\<close> work on two stores, the publisher's and the
  receiver's; \<open>host\<close> is the publisher's name at the receiver.
\<close>

subsection \<open>Messages\<close>

record wire_announcement =
  wa_state :: "string option"
  wa_role :: "string option"
  wa_common_name :: "string option"
  wa_device_name :: "string option"
  wa_serial_payload :: "string option"
  wa_raw_announcement :: "string option"

record wire_device = wire_announcement +
  wd_uid :: string
  wd_port :: "string option"
  wd_vid_pid :: "string option"

record wire_name =
  wn_name :: string
  wn_channel :: int
  wn_group :: int
  wn_source :: string
  wn_updated :: real

datatype peer_event =
    Attach uid "string option" "string option"
  | Detach uid
  | Identity uid wire_announcement
  | LockState uid "string option" "string option" "string option" "real option"
  | NameSet "string option" "int option" "int option"
  | NameClear "string option"
  | UnknownEvent

subsection \<open>What a host publishes\<close>

definition wire_device_of :: "device \<Rightarrow> wire_device" where
  "wire_device_of record =
     \<lparr>wa_state = Some (dv_state record), wa_role = dv_role record, wa_common_name = dv_common_name record,
      wa_device_name = dv_device_name record, wa_serial_payload = dv_serial_payload record,
      wa_raw_announcement = dv_raw_announcement record, wd_uid = dv_uid record, wd_port = dv_port record,
      wd_vid_pid = dv_vid_pid record\<rparr>"

definition snapshot_payload :: "store \<Rightarrow> wire_device list" where
  "snapshot_payload s = map wire_device_of (snapshot_local_devices s)"

definition snapshot_name_payload :: "store \<Rightarrow> wire_name list" where
  "snapshot_name_payload s =
     map (\<lambda>e. \<lparr>wn_name = en_name e, wn_channel = en_channel e, wn_group = en_group e,
               wn_source = en_source e, wn_updated = en_updated e\<rparr>) (listing s)"

definition daemon_event_payload :: "string \<Rightarrow> device \<Rightarrow> peer_event option" where
  "daemon_event_payload event_type record =
     (if event_type \<in> {''attach'', ''identity''} \<and> dv_state record = STATE_DISCONNECTED then None
      else if event_type = ''attach'' then Some (Attach (dv_uid record) (dv_port record) (dv_vid_pid record))
      else if event_type = ''detach'' then Some (Detach (dv_uid record))
      else Some (Identity (dv_uid record)
             \<lparr>wa_state = Some (dv_state record), wa_role = dv_role record, wa_common_name = dv_common_name record,
              wa_device_name = dv_device_name record, wa_serial_payload = dv_serial_payload record,
              wa_raw_announcement = dv_raw_announcement record\<rparr>))"

definition publish_daemon_event :: "string \<Rightarrow> device \<Rightarrow> peer_event option" where
  "publish_daemon_event event_type record =
     (if is_virtual record then None else daemon_event_payload event_type record)"

definition lock_event_payload ::
    "uid \<Rightarrow> string option \<Rightarrow> string option \<Rightarrow> string option \<Rightarrow> real option \<Rightarrow> peer_event" where
  "lock_event_payload uid kind display label since = LockState uid kind display label since"

definition publish_lock_event ::
    "real \<Rightarrow> uid \<Rightarrow> string option \<Rightarrow> string option \<Rightarrow> string option \<Rightarrow> real option \<Rightarrow> peer_event option" where
  "publish_lock_event now uid kind display label since =
     (if is_virtual_uid uid then None
      else let suffix = format_lock_suffix label since now;
               wire_display = (case display of Some d \<Rightarrow> Some (d @ suffix) | None \<Rightarrow> display)
           in Some (lock_event_payload uid kind wire_display label since))"

definition name_set_payload :: "name_entry \<Rightarrow> peer_event" where
  "name_set_payload entry = NameSet (Some (en_name entry)) (Some (en_channel entry)) (Some (en_group entry))"

definition name_clear_payload :: "string \<Rightarrow> peer_event" where
  "name_clear_payload name = NameClear (Some name)"

subsection \<open>What a peer does with it\<close>

text \<open>An application that raises leaves the store it had reached.\<close>

type_synonym applied = "(py_error \<times> store) + store"

definition stored :: "store \<Rightarrow> (store \<times> 'a) result \<Rightarrow> applied" where
  "stored s r = (case r of Inl e \<Rightarrow> Inl (e, s) | Inr (s', _) \<Rightarrow> Inr s')"

text \<open>\<open>x or ""\<close>.\<close>

definition or_blank :: "string option \<Rightarrow> string" where
  "or_blank x = (case x of None \<Rightarrow> [] | Some v \<Rightarrow> v)"

definition probe_result_from_dict :: "'a wire_announcement_scheme \<Rightarrow> probe_result" where
  "probe_result_from_dict data =
     \<lparr>pr_role = or_blank (wa_role data), pr_common_name = or_blank (wa_common_name data),
      pr_device_name = or_blank (wa_device_name data), pr_serial = or_blank (wa_serial_payload data),
      pr_raw = or_blank (wa_raw_announcement data)\<rparr>"

definition attributed_to :: "store \<Rightarrow> uid \<Rightarrow> string \<Rightarrow> bool" where
  "attributed_to s uid host =
     (case get s uid of None \<Rightarrow> True | Some record \<Rightarrow> dv_host record = Some host)"

definition apply_snapshot_device :: "real \<Rightarrow> string \<Rightarrow> wire_device \<Rightarrow> store \<Rightarrow> applied" where
  "apply_snapshot_device now host data s =
     (let uid = wd_uid data in
      case upsert_remote_attached now uid host (wd_port data) (wd_vid_pid data) s of
        Inl e \<Rightarrow> Inl (e, s)
      | Inr (s1, _) \<Rightarrow>
          (case get s1 uid of
             None \<Rightarrow> Inr s1
           | Some record \<Rightarrow>
               if dv_host record \<noteq> Some host then Inr s1
               else if wa_state data = Some STATE_CONNECTED
               then stored s1 (apply_remote_probe now uid (Some (probe_result_from_dict data)) s1)
               else if wa_state data = Some STATE_ATTACHED_NO_ANNOUNCE
               then stored s1 (apply_remote_probe now uid None s1)
               else if wa_state data = Some STATE_CONNECTED_NO_FIRMWARE
               then stored s1 (apply_known_blank now uid s1)
               else if wa_state data = Some ''disconnected''
               then stored s1 (mark_remote_detached now uid s1)
               else Inr s1))"

definition apply_snapshot_name :: "real \<Rightarrow> wire_name \<Rightarrow> store \<Rightarrow> applied" where
  "apply_snapshot_name now data s = stored s (set_name now (wn_name data) (wn_channel data) (wn_group data) s)"

definition caught :: "applied \<Rightarrow> applied" where
  "caught r = (case r of Inl (KeyError, s) \<Rightarrow> Inr s | _ \<Rightarrow> r)"

definition apply_event :: "real \<Rightarrow> string \<Rightarrow> peer_event \<Rightarrow> store \<Rightarrow> applied" where
  "apply_event now host event s =
     caught (case event of
              Attach uid port vid_pid \<Rightarrow> stored s (upsert_remote_attached now uid host port vid_pid s)
            | Detach uid \<Rightarrow>
                if attributed_to s uid host then stored s (mark_remote_detached now uid s) else Inr s
            | Identity uid data \<Rightarrow>
                if attributed_to s uid host
                then if wa_state data = Some STATE_CONNECTED
                     then stored s (apply_remote_probe now uid (Some (probe_result_from_dict data)) s)
                     else if wa_state data = Some STATE_ATTACHED_NO_ANNOUNCE
                     then stored s (apply_remote_probe now uid None s)
                     else if wa_state data = Some STATE_CONNECTED_NO_FIRMWARE
                     then stored s (apply_known_blank now uid s)
                     else Inr s
                else Inr s
            | LockState uid kind display label since \<Rightarrow>
                if attributed_to s uid host then stored s (apply_remote_lock_state uid kind display s) else Inr s
            | NameSet (Some name) (Some channel) (Some grp) \<Rightarrow> stored s (set_name now name channel grp s)
            | NameSet _ _ _ \<Rightarrow> Inr s
            | NameClear (Some name) \<Rightarrow> (case clear_name name s of Inl e \<Rightarrow> Inl (e, s) | Inr s' \<Rightarrow> Inr s')
            | NameClear None \<Rightarrow> Inr s
            | UnknownEvent \<Rightarrow> Inr s)"

text \<open>The three loops of \<open>_fetch_snapshot\<close> over a reply that could be read. The first and the third
  log whatever an entry raises and go on; the second catches \<open>KeyError\<close> only.\<close>

definition after :: "applied \<Rightarrow> store" where
  "after r = (case r of Inl (_, s) \<Rightarrow> s | Inr s \<Rightarrow> s)"

fun snapshot_device_loop :: "real \<Rightarrow> string \<Rightarrow> wire_device list \<Rightarrow> store \<Rightarrow> store" where
  "snapshot_device_loop now host [] s = s"
| "snapshot_device_loop now host (data # rest) s =
     snapshot_device_loop now host rest (after (apply_snapshot_device now host data s))"

fun detach_missing_loop :: "real \<Rightarrow> string \<Rightarrow> uid list \<Rightarrow> device list \<Rightarrow> store \<Rightarrow> applied" where
  "detach_missing_loop now host seen [] s = Inr s"
| "detach_missing_loop now host seen (record # rest) s =
     (if dv_host record = Some host \<and> dv_uid record \<notin> set seen \<and> dv_state record \<noteq> STATE_DISCONNECTED
      then case mark_remote_detached now (dv_uid record) s of
             Inl KeyError \<Rightarrow> detach_missing_loop now host seen rest s
           | Inl e \<Rightarrow> Inl (e, s)
           | Inr (s', _) \<Rightarrow> detach_missing_loop now host seen rest s'
      else detach_missing_loop now host seen rest s)"

fun snapshot_name_loop :: "real \<Rightarrow> wire_name list \<Rightarrow> store \<Rightarrow> store" where
  "snapshot_name_loop now [] s = s"
| "snapshot_name_loop now (data # rest) s = snapshot_name_loop now rest (after (apply_snapshot_name now data s))"

definition apply_snapshot :: "real \<Rightarrow> string \<Rightarrow> wire_device list \<Rightarrow> wire_name list \<Rightarrow> store \<Rightarrow> applied" where
  "apply_snapshot now host devices names s =
     (let s1 = snapshot_device_loop now host devices s in
      case detach_missing_loop now host (map wd_uid devices) (list_devices s1) s1 of
        Inl e \<Rightarrow> Inl e
      | Inr s2 \<Rightarrow> Inr (snapshot_name_loop now names s2))"

subsection \<open>What one message does to the rows\<close>

definition wire_state_update :: "real \<Rightarrow> 'a wire_announcement_scheme \<Rightarrow> device \<Rightarrow> device" where
  "wire_state_update now data d =
     (if wa_state data = Some STATE_CONNECTED then probe_update now (Some (probe_result_from_dict data)) d
      else if wa_state data = Some STATE_ATTACHED_NO_ANNOUNCE then probe_update now None d
      else if wa_state data = Some STATE_CONNECTED_NO_FIRMWARE then known_blank_update now d
      else d)"

definition gone :: "real \<Rightarrow> device \<Rightarrow> device" where
  "gone now d = d\<lparr>dv_state := STATE_DISCONNECTED, dv_last_seen := now\<rparr>"

definition snapshot_row :: "real \<Rightarrow> string \<Rightarrow> wire_device \<Rightarrow> device option \<Rightarrow> device" where
  "snapshot_row now host data row =
     (let d = upsert_row now (wd_uid data) (Some host) (wd_port data) (wd_vid_pid data) row in
      if dv_host d \<noteq> Some host then d
      else if wa_state data = Some STATE_DISCONNECTED then gone now d
      else wire_state_update now data d)"

lemma wire_state_update_uid [simp]: "dv_uid (wire_state_update now data d) = dv_uid d"
  by (simp add: wire_state_update_def)

lemma gone_facts [simp]: "dv_uid (gone now d) = dv_uid d" "dv_host (gone now d) = dv_host d"
  "dv_state (gone now d) = STATE_DISCONNECTED"
  by (simp_all add: gone_def)

lemma probe_updates_host [simp]: "dv_host (probe_update now r d) = dv_host d"
  "dv_host (known_blank_update now d) = dv_host d" "dv_host (wire_state_update now data d) = dv_host d"
  by (simp_all add: probe_update_def known_blank_update_def wire_state_update_def split: option.split)

text \<open>Every write of a peer's message is one guarded update.\<close>

lemma stored_guarded:
  assumes "\<And>d. dv_uid (f d) = dv_uid d"
  shows "stored s (guarded_update uid f s)
     = (case get s uid of None \<Rightarrow> Inl (KeyError, s) | Some _ \<Rightarrow> Inr (update_device uid f s))"
  using guarded_update_eq [of f, OF assms, of uid s] by (simp add: stored_def split: option.split)

lemmas remote_writes = apply_remote_probe_def apply_probe_result_def apply_known_blank_def
  mark_remote_detached_def mark_disconnected_def apply_remote_lock_state_def

lemma get_update_fun:
  assumes "\<And>d. dv_uid (f d) = dv_uid d" and "get s uid = Some d"
  shows "get (update_device uid f s) = (get s)(uid \<mapsto> f d)"
  using dev.get_upd [of f uid s] assms by simp

lemma update_unique: "(\<And>d. dv_uid (f d) = dv_uid d) \<Longrightarrow> devices_unique s \<Longrightarrow> devices_unique (update_device uid f s)"
  by (intro dev.wf_upd) auto

text \<open>A message writes at most the row of its uid, and nothing but device rows.\<close>

definition wrote :: "store \<Rightarrow> uid \<Rightarrow> device option \<Rightarrow> store \<Rightarrow> bool" where
  "wrote s uid row s' \<longleftrightarrow> get s' = (get s)(uid := row) \<and> st_peers s' = st_peers s
     \<and> st_names s' = st_names s \<and> (devices_unique s \<longrightarrow> devices_unique s')"

lemma wrote_refl [simp]: "wrote s uid (get s uid) s"
  by (simp add: wrote_def)

lemma wrote_update:
  "(\<And>d. dv_uid (f d) = dv_uid d) \<Longrightarrow> get s uid = Some d \<Longrightarrow> wrote s uid (Some (f d)) (update_device uid f s)"
  by (simp add: wrote_def get_update_fun update_unique)

lemma wrote_trans:
  "wrote s uid r s1 \<Longrightarrow> wrote s1 uid r' s2 \<Longrightarrow> wrote s uid r' s2"
  by (simp add: wrote_def)

lemma upsert_remote_wrote:
  obtains s' where "upsert_remote_attached now uid host port vp s
        = Inr (s', upsert_row now uid (Some host) port vp (get s uid))"
    and "wrote s uid (Some (upsert_row now uid (Some host) port vp (get s uid))) s'"
  using upsert_device_eq [of now uid "Some host" port vp s]
  unfolding upsert_remote_attached_def wrote_def by metis

lemma upsert_row_uid: "(\<And>d. row = Some d \<Longrightarrow> dv_uid d = uid) \<Longrightarrow> dv_uid (upsert_row now uid host port vp row) = uid"
  by (cases row) (auto simp: upsert_row_def)

lemma apply_snapshot_device_eq:
  obtains s' where "apply_snapshot_device now host data s = Inr s'"
    and "wrote s (wd_uid data) (Some (snapshot_row now host data (get s (wd_uid data)))) s'"
proof -
  let ?u = "wd_uid data"
  let ?d = "upsert_row now ?u (Some host) (wd_port data) (wd_vid_pid data) (get s ?u)"
  obtain s1 where up: "upsert_remote_attached now ?u host (wd_port data) (wd_vid_pid data) s = Inr (s1, ?d)"
    and w1: "wrote s ?u (Some ?d) s1"
    by (rule upsert_remote_wrote)
  have g: "get s1 ?u = Some ?d" using w1 by (simp add: wrote_def)
  note goal = that
  have G: "(\<lambda>d. d\<lparr>dv_state := STATE_DISCONNECTED, dv_last_seen := now\<rparr>) = gone now"
    by (simp add: gone_def fun_eq_iff)
  have written: thesis
    if "\<And>d. dv_uid (f d) = dv_uid d" "snapshot_row now host data (get s ?u) = f ?d"
      "apply_snapshot_device now host data s = stored s1 (guarded_update ?u f s1)" for f
    using that(2,3) goal [of "update_device ?u f s1"] wrote_trans [OF w1 wrote_update [OF that(1) g]]
    by (simp add: stored_guarded [of f, OF that(1)] g)
  have disc: "''disconnected'' = STATE_DISCONNECTED" by (simp add: STATE_DISCONNECTED_def)
  note msg_defs = apply_snapshot_device_def snapshot_row_def wire_state_update_def remote_writes disc up g
  show ?thesis
  proof (cases "dv_host ?d = Some host")
    case False
    then show ?thesis using w1 by (intro goal [of s1]) (simp_all add: msg_defs)
  next
    case True
    consider "wa_state data = Some STATE_CONNECTED" | "wa_state data = Some STATE_ATTACHED_NO_ANNOUNCE"
      | "wa_state data = Some STATE_CONNECTED_NO_FIRMWARE" | "wa_state data = Some STATE_DISCONNECTED"
      | "wa_state data \<notin> Some ` {STATE_CONNECTED, STATE_ATTACHED_NO_ANNOUNCE, STATE_CONNECTED_NO_FIRMWARE,
           STATE_DISCONNECTED}" by blast
    then show ?thesis
    proof cases
      case 1
      then show ?thesis using True
        by (intro written [of "probe_update now (Some (probe_result_from_dict data))"]) (simp_all add: msg_defs)
    next
      case 2
      then show ?thesis using True by (intro written [of "probe_update now None"]) (simp_all add: msg_defs)
    next
      case 3
      then show ?thesis using True by (intro written [of "known_blank_update now"]) (simp_all add: msg_defs)
    next
      case 4
      then show ?thesis using True by (intro written [of "gone now"]) (simp_all add: msg_defs G)
    next
      case 5
      then show ?thesis using True w1 by (intro goal [of s1]) (auto simp: msg_defs)
    qed
  qed
qed

subsection \<open>What a snapshot does to the rows\<close>

lemma snapshot_device_loop_frame:
  "st_peers (snapshot_device_loop now host ds s) = st_peers s
   \<and> st_names (snapshot_device_loop now host ds s) = st_names s
   \<and> (devices_unique s \<longrightarrow> devices_unique (snapshot_device_loop now host ds s))"
proof (induction now host ds s rule: snapshot_device_loop.induct)
  case (2 now host data rest s)
  obtain s' where s': "apply_snapshot_device now host data s = Inr s'"
    and w: "wrote s (wd_uid data) (Some (snapshot_row now host data (get s (wd_uid data)))) s'"
    by (rule apply_snapshot_device_eq)
  show ?case using 2 w by (simp add: s' after_def wrote_def)
qed simp

lemma snapshot_device_loop_get:
  "distinct (map wd_uid ds) \<Longrightarrow> get (snapshot_device_loop now host ds s) u
     = (case find (\<lambda>d. wd_uid d = u) ds of
          None \<Rightarrow> get s u | Some d \<Rightarrow> Some (snapshot_row now host d (get s u)))"
proof (induction now host ds s rule: snapshot_device_loop.induct)
  case (2 now host data rest s)
  obtain s' where s': "apply_snapshot_device now host data s = Inr s'"
    and w: "wrote s (wd_uid data) (Some (snapshot_row now host data (get s (wd_uid data)))) s'"
    by (rule apply_snapshot_device_eq)
  have "find (\<lambda>d. wd_uid d = wd_uid data) rest = None"
    using 2(2) by (auto simp: find_None_iff image_iff)
  then show ?case using 2 w by (auto simp: s' after_def wrote_def split: option.split)
qed simp

text \<open>A row that this host has attached survives every snapshot, well-formed or not.\<close>

definition live_here :: "device option \<Rightarrow> bool" where
  "live_here row \<longleftrightarrow> (\<exists>d. row = Some d \<and> dv_host d = None \<and> dv_state d \<noteq> STATE_DISCONNECTED)"

lemma snapshot_row_live: "live_here row \<Longrightarrow> Some (snapshot_row now host data row) = row"
  by (auto simp: live_here_def snapshot_row_def upsert_row_def)

lemma snapshot_device_loop_live:
  "live_here (get s u) \<Longrightarrow> get (snapshot_device_loop now host ds s) u = get s u"
proof (induction now host ds s rule: snapshot_device_loop.induct)
  case (2 now host data rest s)
  obtain s' where s': "apply_snapshot_device now host data s = Inr s'"
    and w: "wrote s (wd_uid data) (Some (snapshot_row now host data (get s (wd_uid data)))) s'"
    by (rule apply_snapshot_device_eq)
  have "get s' u = get s u" using w snapshot_row_live [OF 2(2)] by (auto simp: wrote_def)
  then show ?case using 2 by (simp add: s' after_def)
qed simp

lemma mark_remote_detached_eq:
  "mark_remote_detached now uid s
     = (case get s uid of None \<Rightarrow> Inl KeyError | Some d \<Rightarrow> Inr (update_device uid (gone now) s, gone now d))"
proof -
  have G: "(\<lambda>d. d\<lparr>dv_state := STATE_DISCONNECTED, dv_last_seen := now\<rparr>) = gone now"
    by (simp add: gone_def fun_eq_iff)
  show ?thesis using guarded_update_eq [of "gone now" uid s] by (simp add: remote_writes G)
qed

definition missing :: "string \<Rightarrow> uid list \<Rightarrow> device \<Rightarrow> bool" where
  "missing host seen d \<longleftrightarrow> dv_host d = Some host \<and> dv_uid d \<notin> set seen \<and> dv_state d \<noteq> STATE_DISCONNECTED"

lemma detach_missing_loop_eq:
  "distinct (map dv_uid rs) \<Longrightarrow> \<exists>s'. detach_missing_loop now host seen rs s = Inr s'
     \<and> get s' u = (if \<exists>r\<in>set rs. dv_uid r = u \<and> missing host seen r then map_option (gone now) (get s u) else get s u)
     \<and> st_peers s' = st_peers s \<and> st_names s' = st_names s \<and> (devices_unique s \<longrightarrow> devices_unique s')"
proof (induction rs arbitrary: s)
  case (Cons r rs)
  show ?case
  proof (cases "missing host seen r \<and> get s (dv_uid r) \<noteq> None")
    case True
    then obtain d where d: "get s (dv_uid r) = Some d" by blast
    let ?s = "update_device (dv_uid r) (gone now) s"
    have step: "detach_missing_loop now host seen (r # rs) s = detach_missing_loop now host seen rs ?s"
      using True d by (simp add: missing_def mark_remote_detached_eq)
    have g: "get ?s = (get s)(dv_uid r \<mapsto> gone now d)" using d by (simp add: get_update_fun)
    have fresh: "\<not> (\<exists>x\<in>set rs. dv_uid x = dv_uid r \<and> missing host seen x)" using Cons.prems by (auto simp: image_iff)
    show ?thesis
      using Cons.IH [of ?s] Cons.prems True d fresh update_unique [of "gone now" s "dv_uid r"]
      unfolding step g by (cases "u = dv_uid r") auto
  next
    case False
    then have step: "detach_missing_loop now host seen (r # rs) s = detach_missing_loop now host seen rs s"
      by (auto simp: missing_def mark_remote_detached_eq)
    show ?thesis using Cons.IH [of s] Cons.prems False unfolding step by (cases "u = dv_uid r") auto
  qed
qed simp

lemma get_conv_find: "devices_unique s \<Longrightarrow> (\<exists>r\<in>set (list_devices s). dv_uid r = u \<and> P r)
    \<longleftrightarrow> (\<exists>r. get s u = Some r \<and> P r)"
  unfolding list_devices_def using devices_get get_in_devices by metis

lemma apply_snapshot_name_frame:
  "st_devices (after (apply_snapshot_name now data s)) = st_devices s
   \<and> st_peers (after (apply_snapshot_name now data s)) = st_peers s"
proof (cases "validate (wn_name data)")
  case (Inl e)
  then show ?thesis by (simp add: apply_snapshot_name_def stored_def set_name_def after_def)
next
  case (Inr name)
  then show ?thesis
    by (rule set_name_eq [of _ _ now "wn_channel data" "wn_group data" s])
       (simp add: apply_snapshot_name_def stored_def after_def)
qed

lemma snapshot_name_loop_frame [simp]:
  "st_devices (snapshot_name_loop now ns s) = st_devices s"
  "st_peers (snapshot_name_loop now ns s) = st_peers s"
  by (induction now ns s rule: snapshot_name_loop.induct) (simp_all add: apply_snapshot_name_frame)

lemma snapshot_name_loop_get [simp]: "get (snapshot_name_loop now ns s) = get s"
  by (rule get_devices_cong) simp

definition snapshot_result :: "real \<Rightarrow> string \<Rightarrow> wire_device list \<Rightarrow> uid \<Rightarrow> device option \<Rightarrow> device option" where
  "snapshot_result now host ds u row =
     (case find (\<lambda>d. wd_uid d = u) ds of
        Some d \<Rightarrow> Some (snapshot_row now host d row)
      | None \<Rightarrow> (case row of
                   Some r \<Rightarrow> if dv_host r = Some host \<and> dv_state r \<noteq> STATE_DISCONNECTED
                             then Some (gone now r) else Some r
                 | None \<Rightarrow> None))"

lemma apply_snapshot_eq:
  assumes "devices_unique s" and "distinct (map wd_uid ds)"
  obtains s' where "apply_snapshot now host ds ns s = Inr s'"
    and "\<And>u. get s' u = snapshot_result now host ds u (get s u)"
    and "st_peers s' = st_peers s" and "devices_unique s'"
    and "st_names s' = st_names (snapshot_name_loop now ns (s\<lparr>st_devices := st_devices s'\<rparr>))"
proof -
  let ?s1 = "snapshot_device_loop now host ds s"
  have u1: "devices_unique ?s1" and f1: "st_peers ?s1 = st_peers s" "st_names ?s1 = st_names s"
    using snapshot_device_loop_frame [of now host ds s] assms(1) by simp_all
  have d1: "distinct (map dv_uid (list_devices ?s1))"
    using u1 by (simp add: list_devices_def devices_unique_def unique_key_def)
  obtain s2 where s2: "detach_missing_loop now host (map wd_uid ds) (list_devices ?s1) ?s1 = Inr s2"
    "st_peers s2 = st_peers s" "st_names s2 = st_names s" "devices_unique s2"
    using detach_missing_loop_eq [OF d1, of now host "map wd_uid ds" ?s1] u1 f1 by auto
  have g2: "get s2 u = snapshot_result now host ds u (get s u)" for u
  proof -
    let ?gone = "\<exists>r. get ?s1 u = Some r \<and> missing host (map wd_uid ds) r"
    have eq: "get s2 u = (if ?gone then map_option (gone now) (get ?s1 u) else get ?s1 u)"
      using detach_missing_loop_eq [OF d1, of now host "map wd_uid ds" ?s1 u] s2(1)
        get_conv_find [OF u1] by auto
    show ?thesis
    proof (cases "find (\<lambda>d. wd_uid d = u) ds")
      case (Some d)
      then have "u \<in> set (map wd_uid ds)" by (auto simp: find_Some_iff)
      then have "\<not> ?gone" using get_in_devices [of ?s1 u] by (auto simp: missing_def)
      then have "get s2 u = get ?s1 u" unfolding eq by (rule if_not_P)
      then show ?thesis using Some
        by (simp add: snapshot_device_loop_get [OF assms(2)] snapshot_result_def)
    next
      case None
      have same: "get ?s1 u = get s u" using None by (simp add: snapshot_device_loop_get [OF assms(2)])
      have unseen: "u \<notin> set (map wd_uid ds)" using None by (auto simp: find_None_iff)
      show ?thesis
      proof (cases "get s u")
        case row: (Some r)
        then have "dv_uid r = u" using get_in_devices by blast
        then show ?thesis using None row unseen unfolding eq same
          by (simp add: snapshot_result_def missing_def)
      qed (use None in \<open>simp add: eq same snapshot_result_def\<close>)
    qed
  qed
  let ?s3 = "snapshot_name_loop now ns s2"
  have E: "s\<lparr>st_devices := st_devices s2\<rparr> = s2" using s2(2,3) by simp
  have "st_names ?s3 = st_names (snapshot_name_loop now ns (s\<lparr>st_devices := st_devices ?s3\<rparr>))"
    unfolding snapshot_name_loop_frame E ..
  then show ?thesis
    using s2 g2 by (intro that [of ?s3]) (simp_all add: apply_snapshot_def devices_unique_def)
qed

subsection \<open>A replica in sync\<close>

text \<open>The boards a host tells its peers about, and what a peer's row says of one of them: the port and
  vendor always, the state once the board was probed, the announcement once it announced itself. The
  peer's own boards are its own: where it has the board attached itself, its row is left alone.\<close>

definition published_row :: "device option \<Rightarrow> device option" where
  "published_row row =
     (case row of Some d \<Rightarrow> if dv_host d = None \<and> dv_state d \<noteq> STATE_DISCONNECTED \<and> \<not> is_virtual d
                            then Some d else None
      | None \<Rightarrow> None)"

definition mirrored :: "string \<Rightarrow> device \<Rightarrow> device \<Rightarrow> bool" where
  "mirrored host d r \<longleftrightarrow> dv_host r = Some host \<and> dv_port r = dv_port d \<and> dv_vid_pid r = dv_vid_pid d
     \<and> (dv_state d \<noteq> STATE_ATTACHED_UNPROBED \<longrightarrow> dv_state r = dv_state d)
     \<and> (dv_state d = STATE_CONNECTED \<longrightarrow>
          dv_role r = Some (or_blank (dv_role d)) \<and> dv_common_name r = Some (or_blank (dv_common_name d))
          \<and> dv_device_name r = Some (or_blank (dv_device_name d))
          \<and> dv_serial_payload r = Some (or_blank (dv_serial_payload d))
          \<and> dv_raw_announcement r = Some (or_blank (dv_raw_announcement d)))"

definition sync_row :: "string \<Rightarrow> device option \<Rightarrow> device option \<Rightarrow> bool" where
  "sync_row host pub row \<longleftrightarrow>
     (case pub of
        Some d \<Rightarrow> live_here row \<or> (\<exists>r. row = Some r \<and> mirrored host d r)
      | None \<Rightarrow> (\<forall>r. row = Some r \<and> dv_host r = Some host \<longrightarrow> dv_state r = STATE_DISCONNECTED))"

definition in_sync :: "string \<Rightarrow> store \<Rightarrow> store \<Rightarrow> bool" where
  "in_sync host publisher replica \<longleftrightarrow>
     (\<forall>u. sync_row host (published_row (get publisher u)) (get replica u))"

lemma published_row_Some: "published_row row = Some d \<longleftrightarrow>
    row = Some d \<and> dv_host d = None \<and> dv_state d \<noteq> STATE_DISCONNECTED \<and> \<not> is_virtual d"
  by (auto simp: published_row_def split: option.splits)

lemma wire_device_of_uid [simp]: "wd_uid (wire_device_of d) = dv_uid d"
  by (simp add: wire_device_of_def)

lemma map_uid_payload: "map wd_uid (snapshot_payload s) = map dv_uid (snapshot_local_devices s)"
  by (simp add: snapshot_payload_def)

lemma payload_distinct: "devices_unique s \<Longrightarrow> distinct (map wd_uid (snapshot_payload s))"
  using unique_key_filter [of dv_uid "st_devices s"]
  unfolding map_uid_payload snapshot_local_devices_def devices_unique_def unique_key_def
  by (simp add: distinct_map_filter)

lemma find_payload:
  assumes "devices_unique s"
  shows "find (\<lambda>d. wd_uid d = u) (snapshot_payload s) = map_option wire_device_of (published_row (get s u))"
proof (cases "published_row (get s u)")
  case None
  have "wd_uid w \<noteq> u" if "w \<in> set (snapshot_payload s)" for w
    using that None devices_get [OF assms]
    by (auto simp: snapshot_payload_def snapshot_local_devices_def published_row_def)
  then show ?thesis using None by (auto simp: find_None_iff)
next
  case (Some d)
  then have d: "d \<in> set (st_devices s)" "dv_uid d = u" using get_in_devices [of s u d]
    by (auto simp: published_row_Some)
  then have "wire_device_of d \<in> set (snapshot_payload s)"
    using Some by (auto simp: snapshot_payload_def snapshot_local_devices_def published_row_Some)
  then have "row_get wd_uid (snapshot_payload s) (wd_uid (wire_device_of d)) = Some (wire_device_of d)"
    using payload_distinct [OF assms] by (intro row_get_in) (simp_all add: unique_key_def)
  then show ?thesis using Some d(2) by (simp add: row_get_def)
qed

lemma wire_state_update_mirrored:
  assumes "dv_state d \<in> set ALL_STATES" and "dv_state d \<noteq> STATE_DISCONNECTED"
    and "dv_host r = Some host" "dv_port r = dv_port d" "dv_vid_pid r = dv_vid_pid d"
    and "wa_state data = Some (dv_state d)" "wa_role data = dv_role d" "wa_common_name data = dv_common_name d"
      "wa_device_name data = dv_device_name d" "wa_serial_payload data = dv_serial_payload d"
      "wa_raw_announcement data = dv_raw_announcement d"
  shows "mirrored host d (wire_state_update now data r)"
  using assms by (auto simp: mirrored_def wire_state_update_def probe_update_def known_blank_update_def
      probe_result_from_dict_def ALL_STATES_def)

subsection \<open>What a snapshot does to the names\<close>

lemma apply_snapshot_name_row:
  assumes "five_letters (wn_name w)"
  obtains e where "get_name_row (after (apply_snapshot_name now w s)) = (get_name_row s)(wn_name w \<mapsto> e)"
    and "en_channel e = wn_channel w" "en_group e = wn_group w" "en_source e = SOURCE_REGISTRY"
    and "names_ok s \<Longrightarrow> names_ok (after (apply_snapshot_name now w s))"
proof -
  have v: "validate (wn_name w) = Inr (wn_name w)" using assms by (rule validate_five)
  obtain s' e where s': "set_name now (wn_name w) (wn_channel w) (wn_group w) s = Inr (s', e)"
    "get_name_row s' = (get_name_row s)(wn_name w \<mapsto> e)" "en_channel e = wn_channel w"
    "en_group e = wn_group w" "en_source e = SOURCE_REGISTRY"
    by (rule set_name_eq [OF v, of now "wn_channel w" "wn_group w" s]) blast
  have "after (apply_snapshot_name now w s) = s'" by (simp add: apply_snapshot_name_def stored_def after_def s'(1))
  then show ?thesis using s' set_name_ok [OF _ s'(1)] by (intro that [of e]) simp_all
qed

definition says :: "store \<Rightarrow> wire_name \<Rightarrow> bool" where
  "says s w \<longleftrightarrow> (\<exists>e. get_name_row s (wn_name w) = Some e \<and> en_channel e = wn_channel w
     \<and> en_group e = wn_group w \<and> en_source e = SOURCE_REGISTRY)"

lemma snapshot_name_loop_eq:
  "distinct (map wn_name ws) \<Longrightarrow> \<forall>w\<in>set ws. five_letters (wn_name w) \<Longrightarrow> names_ok s \<Longrightarrow>
     (\<forall>w\<in>set ws. says (snapshot_name_loop now ws s) w)
     \<and> (\<forall>n. n \<notin> wn_name ` set ws \<longrightarrow> get_name_row (snapshot_name_loop now ws s) n = get_name_row s n)
     \<and> names_ok (snapshot_name_loop now ws s)"
proof (induction ws arbitrary: s)
  case (Cons w ws)
  obtain e where e: "get_name_row (after (apply_snapshot_name now w s)) = (get_name_row s)(wn_name w \<mapsto> e)"
    "en_channel e = wn_channel w" "en_group e = wn_group w" "en_source e = SOURCE_REGISTRY"
    "names_ok (after (apply_snapshot_name now w s))"
    by (rule apply_snapshot_name_row [of w now s]) (use Cons.prems in simp_all)
  note IH = Cons.IH [of "after (apply_snapshot_name now w s)"]
  have "wn_name w \<notin> wn_name ` set ws" using Cons.prems by auto
  then have "says (snapshot_name_loop now (w # ws) s) w"
    using IH Cons.prems e by (simp add: says_def)
  then show ?case using IH Cons.prems e by simp
qed simp

lemma names_payload:
  assumes "names_ok s"
  shows "distinct (map wn_name (snapshot_name_payload s))" "\<forall>w\<in>set (snapshot_name_payload s). five_letters (wn_name w)"
    and "e \<in> set (st_names s) \<Longrightarrow> \<exists>w\<in>set (snapshot_name_payload s). wn_name w = en_name e
           \<and> wn_channel w = en_channel e \<and> wn_group w = en_group e"
    and "wn_name ` set (snapshot_name_payload s) = en_name ` set (st_names s)"
proof -
  have keep: "en_name (annotate es x) = en_name x" "en_channel (annotate es x) = en_channel x"
    "en_group (annotate es x) = en_group x" for es x by (simp_all add: annotate_def Let_def)
  have map: "map wn_name (snapshot_name_payload s) = map en_name (all_name_entries s)"
    by (simp add: snapshot_name_payload_def listing_def keep Let_def)
  have "distinct (map en_name (st_names s))"
    using assms by (simp add: names_ok_def names_unique_def unique_key_def)
  then show "distinct (map wn_name (snapshot_name_payload s))"
    unfolding map all_name_entries_def by (simp add: distinct_map)
  show img: "wn_name ` set (snapshot_name_payload s) = en_name ` set (st_names s)"
    using arg_cong [OF map, of set] by simp
  show "\<forall>w\<in>set (snapshot_name_payload s). five_letters (wn_name w)"
  proof
    fix w assume "w \<in> set (snapshot_name_payload s)"
    then obtain x where "x \<in> set (st_names s)" "wn_name w = en_name x" using img by auto
    then show "five_letters (wn_name w)" using assms by (simp add: names_ok_def entry_ok_def)
  qed
  show "\<exists>w\<in>set (snapshot_name_payload s). wn_name w = en_name e \<and> wn_channel w = en_channel e \<and> wn_group w = en_group e"
    if "e \<in> set (st_names s)"
    using that by (auto simp: snapshot_name_payload_def listing_def Let_def keep)
qed

lemma name_loop_names_cong:
  "st_names s1 = st_names s2 \<Longrightarrow> get_name_row s1 = get_name_row s2"
  by (simp add: get_name_row_def fun_eq_iff)

subsection \<open>The properties of replication\<close>

text \<open>C12: a snapshot brings the peer's copy of a host in step, whatever the copy was before: afterwards
  every board the host advertises is mirrored (same port, vendor, state once it was probed and announced
  identity), every other row that was the host's is disconnected, the boards the peer has attached
  itself and the rows of other hosts that were not advertised are untouched, and nothing raises.\<close>

theorem snapshot_brings_peer_in_sync:
  assumes "store_ok publisher" and "devices_unique replica"
  shows "\<exists>replica'. apply_snapshot now host (snapshot_payload publisher) (snapshot_name_payload publisher) replica
        = Inr replica'
     \<and> in_sync host publisher replica'
     \<and> (\<forall>u d. published_row (get publisher u) = Some d \<and> \<not> live_here (get replica u)
              \<longrightarrow> (\<exists>r. get replica' u = Some r \<and> mirrored host d r))
     \<and> (\<forall>u. live_here (get replica u) \<longrightarrow> get replica' u = get replica u)
     \<and> (\<forall>u r. get replica u = Some r \<and> dv_host r \<noteq> Some host \<and> published_row (get publisher u) = None
              \<longrightarrow> get replica' u = Some r)
     \<and> st_peers replica' = st_peers replica"
proof -
  let ?ds = "snapshot_payload publisher"
  have uniq: "devices_unique publisher" using assms(1) by (simp add: store_ok_def)
  obtain R where R: "apply_snapshot now host ?ds (snapshot_name_payload publisher) replica = Inr R"
    "\<And>u. get R u = snapshot_result now host ?ds u (get replica u)" "st_peers R = st_peers replica"
    by (rule apply_snapshot_eq [OF assms(2) payload_distinct [OF uniq]]) blast
  have row: "get R u = (case published_row (get publisher u) of
      Some d \<Rightarrow> Some (snapshot_row now host (wire_device_of d) (get replica u))
    | None \<Rightarrow> (case get replica u of
          Some r \<Rightarrow> if dv_host r = Some host \<and> dv_state r \<noteq> STATE_DISCONNECTED then Some (gone now r) else Some r
        | None \<Rightarrow> None))" for u
    unfolding R(2) snapshot_result_def find_payload [OF uniq] by (simp split: option.split)
  have live: "get R u = get replica u" if "live_here (get replica u)" for u
    using that snapshot_row_live [OF that] unfolding row by (auto simp: live_here_def split: option.split)
  have mirror: "\<exists>r. get R u = Some r \<and> mirrored host d r"
    if pub: "published_row (get publisher u) = Some d" and away: "\<not> live_here (get replica u)" for u d
  proof -
    let ?w = "wire_device_of d" and ?r = "get replica u"
    let ?up = "upsert_row now (wd_uid ?w) (Some host) (wd_port ?w) (wd_vid_pid ?w) ?r"
    have up: "dv_host ?up = Some host" "dv_port ?up = dv_port d" "dv_vid_pid ?up = dv_vid_pid d"
      using away by (cases ?r; auto simp: upsert_row_def fresh_device_def live_here_def wire_device_of_def)+
    have d: "dv_state d \<in> set ALL_STATES" "dv_state d \<noteq> STATE_DISCONNECTED"
      using pub assms(1) by (auto simp: published_row_Some store_ok_get device_ok_def)
    have "mirrored host d (wire_state_update now ?w ?up)"
      using d up by (intro wire_state_update_mirrored) (simp_all add: wire_device_of_def)
    moreover have "snapshot_row now host ?w ?r = wire_state_update now ?w ?up"
      using d up by (simp add: snapshot_row_def Let_def) (simp add: wire_device_of_def)
    ultimately show ?thesis using pub by (simp add: row)
  qed
  have "in_sync host publisher R"
    unfolding in_sync_def
  proof
    fix u
    show "sync_row host (published_row (get publisher u)) (get R u)"
    proof (cases "published_row (get publisher u)")
      case None
      then show ?thesis by (auto simp: sync_row_def row split: option.split)
    next
      case (Some d)
      then show ?thesis using mirror [OF Some] live [of u]
        by (cases "live_here (get replica u)") (simp_all add: sync_row_def)
    qed
  qed
  then show ?thesis using R(1,3) live mirror row by (intro exI [of _ R]) simp
qed

subsection \<open>What an event does to the rows\<close>

definition event_row :: "real \<Rightarrow> string \<Rightarrow> peer_event \<Rightarrow> uid \<Rightarrow> device option \<Rightarrow> device option" where
  "event_row now host event u row =
     (let ours = (case row of None \<Rightarrow> False | Some d \<Rightarrow> dv_host d = Some host) in
      case event of
        Attach uid port vid_pid \<Rightarrow> if uid = u then Some (upsert_row now uid (Some host) port vid_pid row) else row
      | Detach uid \<Rightarrow> if uid = u \<and> ours then map_option (gone now) row else row
      | Identity uid data \<Rightarrow> if uid = u \<and> ours then map_option (wire_state_update now data) row else row
      | LockState uid kind display label since \<Rightarrow>
          if uid = u \<and> ours
          then map_option (\<lambda>d. d\<lparr>dv_remote_lock_kind := kind, dv_remote_lock_display := display\<rparr>) row else row
      | _ \<Rightarrow> row)"

lemma after_caught [simp]: "after (caught r) = after r"
  by (simp add: after_def caught_def split: sum.split prod.split py_error.split)

lemma after_stored: "after (stored s r) = (case r of Inl _ \<Rightarrow> s | Inr (s', _) \<Rightarrow> s')"
  by (simp add: after_def stored_def split: sum.split prod.split)

lemma caught_simps [simp]: "caught (Inr s) = Inr s" "caught (Inl (KeyError, s)) = Inr s"
  by (simp_all add: caught_def)

lemma attributed_iff: "attributed_to s uid host \<longleftrightarrow> (\<forall>d. get s uid = Some d \<longrightarrow> dv_host d = Some host)"
  by (simp add: attributed_to_def split: option.split)

lemma guarded_event:
  assumes "\<And>d. dv_uid (f d) = dv_uid d"
  obtains s' where
    "caught (if attributed_to s uid host then stored s (guarded_update uid f s) else Inr s) = Inr s'"
    and "\<And>u. get s' u = (if uid = u \<and> (case get s u of None \<Rightarrow> False | Some d \<Rightarrow> dv_host d = Some host)
                         then map_option f (get s u) else get s u)"
    and "st_peers s' = st_peers s" "st_names s' = st_names s" "devices_unique s \<Longrightarrow> devices_unique s'"
proof (cases "get s uid")
  case None
  then show ?thesis
    by (intro that [of s]) (auto simp: stored_guarded [of f, OF assms])
next
  case (Some d)
  show ?thesis
  proof (cases "dv_host d = Some host")
    case True
    then show ?thesis using Some
      by (intro that [of "update_device uid f s"])
         (auto simp: attributed_iff stored_guarded [of f, OF assms] get_update_fun [of f, OF assms Some]
            update_unique assms)
  next
    case False
    then show ?thesis using Some by (intro that [of s]) (auto simp: attributed_iff)
  qed
qed

lemma apply_event_eq:
  obtains s' where "after (apply_event now host event s) = s'"
    and "\<And>u. get s' u = event_row now host event u (get s u)"
    and "st_peers s' = st_peers s" "devices_unique s \<Longrightarrow> devices_unique s'"
    and "(\<forall>n c g. event \<noteq> NameSet n c g) \<Longrightarrow> (\<forall>n. event \<noteq> NameClear n)
           \<Longrightarrow> apply_event now host event s = Inr s' \<and> st_names s' = st_names s"
proof (cases event)
  case (Attach uid port vp)
  let ?d = "upsert_row now uid (Some host) port vp (get s uid)"
  obtain s' where "upsert_remote_attached now uid host port vp s = Inr (s', ?d)" "wrote s uid (Some ?d) s'"
    by (rule upsert_remote_wrote)
  then show ?thesis
    by (intro that [of s']) (auto simp: Attach apply_event_def stored_def after_def event_row_def wrote_def)
next
  case (Detach uid)
  have G: "(\<lambda>d. d\<lparr>dv_state := STATE_DISCONNECTED, dv_last_seen := now\<rparr>) = gone now"
    by (simp add: gone_def fun_eq_iff)
  obtain s' where s': "caught (if attributed_to s uid host then stored s (guarded_update uid (gone now) s) else Inr s) = Inr s'"
    "\<And>u. get s' u = event_row now host event u (get s u)" "st_peers s' = st_peers s" "st_names s' = st_names s"
    "devices_unique s \<Longrightarrow> devices_unique s'"
    by (rule guarded_event [of "gone now" s uid host]) (simp_all add: Detach event_row_def)
  then have "apply_event now host event s = Inr s'"
    by (simp add: Detach apply_event_def remote_writes G split del: if_split cong: if_cong)
  then show ?thesis using s' by (intro that [of s']) (simp_all add: after_def)
next
  case (Identity uid data)
  let ?f = "wire_state_update now data"
  obtain s' where s': "caught (if attributed_to s uid host then stored s (guarded_update uid ?f s) else Inr s) = Inr s'"
    "\<And>u. get s' u = event_row now host event u (get s u)" "st_peers s' = st_peers s" "st_names s' = st_names s"
    "devices_unique s \<Longrightarrow> devices_unique s'"
    by (rule guarded_event [of ?f s uid host]) (simp_all add: Identity event_row_def)
  consider "?f = probe_update now (Some (probe_result_from_dict data))" "wa_state data = Some STATE_CONNECTED"
    | "?f = probe_update now None" "wa_state data = Some STATE_ATTACHED_NO_ANNOUNCE"
    | "?f = known_blank_update now" "wa_state data = Some STATE_CONNECTED_NO_FIRMWARE"
    | "wa_state data \<notin> Some ` {STATE_CONNECTED, STATE_ATTACHED_NO_ANNOUNCE, STATE_CONNECTED_NO_FIRMWARE}"
    by (cases "wa_state data \<in> Some ` {STATE_CONNECTED, STATE_ATTACHED_NO_ANNOUNCE, STATE_CONNECTED_NO_FIRMWARE}")
       (auto simp: wire_state_update_def fun_eq_iff)
  then show ?thesis
  proof cases
    case 4
    then have "?f d = d" for d by (simp add: wire_state_update_def)
    then show ?thesis using 4
      by (intro that [of s]) (auto simp: Identity apply_event_def after_def event_row_def map_option.id [unfolded id_def]
            split: option.split)
  next
    case 1
    then have "apply_event now host event s = Inr s'"
      using s'(1) by (simp add: Identity apply_event_def remote_writes split del: if_split cong: if_cong)
    then show ?thesis using s' by (intro that [of s']) (simp_all add: after_def)
  next
    case 2
    then have "apply_event now host event s = Inr s'"
      using s'(1) by (simp add: Identity apply_event_def remote_writes split del: if_split cong: if_cong)
    then show ?thesis using s' by (intro that [of s']) (simp_all add: after_def)
  next
    case 3
    then have "apply_event now host event s = Inr s'"
      using s'(1) by (simp add: Identity apply_event_def remote_writes split del: if_split cong: if_cong)
    then show ?thesis using s' by (intro that [of s']) (simp_all add: after_def)
  qed
next
  case (LockState uid kind display label since)
  let ?f = "\<lambda>d. d\<lparr>dv_remote_lock_kind := kind, dv_remote_lock_display := display\<rparr>"
  obtain s' where s': "caught (if attributed_to s uid host then stored s (guarded_update uid ?f s) else Inr s) = Inr s'"
    "\<And>u. get s' u = event_row now host event u (get s u)" "st_peers s' = st_peers s" "st_names s' = st_names s"
    "devices_unique s \<Longrightarrow> devices_unique s'"
    by (rule guarded_event [of ?f s uid host]) (simp_all add: LockState event_row_def)
  then have "apply_event now host event s = Inr s'"
    by (simp add: LockState apply_event_def remote_writes split del: if_split cong: if_cong)
  then show ?thesis using s' by (intro that [of s']) (simp_all add: after_def)
next
  case (NameSet n c g)
  have frame: "st_devices (after (apply_event now host event s)) = st_devices s
      \<and> st_peers (after (apply_event now host event s)) = st_peers s"
  proof (cases "\<exists>name ch grp. n = Some name \<and> c = Some ch \<and> g = Some grp")
    case True
    then obtain name ch grp where ncg: "n = Some name" "c = Some ch" "g = Some grp" by blast
    show ?thesis
    proof (cases "validate name")
      case (Inl e)
      then show ?thesis
        by (simp add: NameSet ncg apply_event_def after_stored set_name_def)
    next
      case (Inr nm)
      then show ?thesis
        by (rule set_name_eq [of _ _ now ch grp s])
           (simp add: NameSet ncg apply_event_def after_stored)
    qed
  next
    case False
    then have "apply_event now host event s = Inr s"
      by (cases n; cases c; cases g) (simp_all add: NameSet apply_event_def)
    then show ?thesis by (simp add: after_def)
  qed
  then have "get (after (apply_event now host event s)) = get s" by (blast intro: get_devices_cong)
  then show ?thesis using frame
    by (intro that [OF refl]) (simp_all add: NameSet event_row_def devices_unique_def)
next
  case (NameClear n)
  have frame: "st_devices (after (apply_event now host event s)) = st_devices s
      \<and> st_peers (after (apply_event now host event s)) = st_peers s"
  proof (cases n)
    case (Some name)
    show ?thesis
    proof (cases "clear_name name s")
      case (Inl e)
      then show ?thesis by (simp add: NameClear Some apply_event_def) (simp add: after_def)
    next
      case (Inr s')
      then show ?thesis
        by (auto simp: NameClear Some apply_event_def after_def clear_name_def split: sum.splits)
    qed
  qed (simp add: NameClear apply_event_def after_def)
  then have "get (after (apply_event now host event s)) = get s" by (blast intro: get_devices_cong)
  then show ?thesis using frame
    by (intro that [OF refl]) (simp_all add: NameClear event_row_def devices_unique_def)
next
  case UnknownEvent
  then show ?thesis by (intro that [of s]) (simp_all add: apply_event_def after_def event_row_def)
qed

subsection \<open>Following a host\<close>

text \<open>What happens to a board at its own host (the store write of the daemon and the event it then
  publishes), and a peer that receives the events in order.\<close>

datatype board_op =
    Plugged uid string nat nat
  | Unplugged uid
  | Probed uid "probe_result option"
  | FoundBlank uid

fun op_uid :: "board_op \<Rightarrow> uid" where
  "op_uid (Plugged u _ _ _) = u" | "op_uid (Unplugged u) = u" | "op_uid (Probed u _) = u" | "op_uid (FoundBlank u) = u"

definition board_write :: "real \<Rightarrow> board_op \<Rightarrow> store \<Rightarrow> (store \<times> device) result" where
  "board_write now op s =
     (case op of
        Plugged u port vid pid \<Rightarrow> upsert_attached now u port (format_vid_pid vid pid) s
      | Unplugged u \<Rightarrow> mark_disconnected now u s
      | Probed u result \<Rightarrow> apply_probe_result now u result s
      | FoundBlank u \<Rightarrow> apply_known_blank now u s)"

definition op_event :: "board_op \<Rightarrow> device \<Rightarrow> peer_event option" where
  "op_event op record = publish_daemon_event
     (case op of Plugged _ _ _ _ \<Rightarrow> ''attach'' | Unplugged _ \<Rightarrow> ''detach'' | _ \<Rightarrow> ''identity'') record"

definition op_ready :: "store \<Rightarrow> board_op \<Rightarrow> bool" where
  "op_ready s op \<longleftrightarrow>
     (case op of Plugged u _ _ _ \<Rightarrow> (\<forall>d. get s u = Some d \<longrightarrow> dv_state d = STATE_DISCONNECTED)
      | _ \<Rightarrow> published_row (get s (op_uid op)) \<noteq> None)"

definition receive :: "real \<Rightarrow> string \<Rightarrow> peer_event option \<Rightarrow> store \<Rightarrow> store" where
  "receive now host event s = (case event of None \<Rightarrow> s | Some e \<Rightarrow> after (apply_event now host e s))"

inductive replication :: "string \<Rightarrow> store \<times> store \<Rightarrow> store \<times> store \<Rightarrow> bool" for host :: string where
  live_event: "op_ready p op \<Longrightarrow> now \<noteq> 0 \<Longrightarrow> board_write now op p = Inr (p', record)
     \<Longrightarrow> replication host (p, r) (p', receive now' host (op_event op record) r)"
| resync: "apply_snapshot now host (snapshot_payload p) (snapshot_name_payload p) r = Inr r'
     \<Longrightarrow> replication host (p, r) (p, r')"

inductive_cases replicationE: "replication host (p, r) (p', r')"

definition op_row :: "real \<Rightarrow> board_op \<Rightarrow> device option \<Rightarrow> device option" where
  "op_row now op row =
     (case op of
        Plugged u port vid pid \<Rightarrow> Some (upsert_row now u None (Some port) (Some (format_vid_pid vid pid)) row)
      | Unplugged u \<Rightarrow> map_option (gone now) row
      | Probed u result \<Rightarrow> map_option (probe_update now result) row
      | FoundBlank u \<Rightarrow> map_option (known_blank_update now) row)"

lemma gone_fold: "(\<lambda>d. d\<lparr>dv_state := STATE_DISCONNECTED, dv_last_seen := now\<rparr>) = gone now"
  by (simp add: gone_def fun_eq_iff)

lemma board_write_eq:
  assumes "op_ready s op" and "store_ok s" and "now \<noteq> 0"
  obtains s' row where "board_write now op s = Inr (s', row)"
    and "op_row now op (get s (op_uid op)) = Some row"
    and "get s' = (get s)(op_uid op \<mapsto> row)" and "store_ok s'"
proof -
  note goal = that
  have upd: thesis if f: "\<And>d. dv_uid (f d) = dv_uid d" "\<And>d. device_ok d \<Longrightarrow> device_ok (f d)"
      and opr: "op_row now op (get s (op_uid op)) = map_option f (get s (op_uid op))"
      and w: "board_write now op s = guarded_update (op_uid op) f s" and some: "get s (op_uid op) \<noteq> None" for f
  proof -
    obtain d where d: "get s (op_uid op) = Some d" using some by blast
    have g: "guarded_update (op_uid op) f s = Inr (update_device (op_uid op) f s, f d)"
      using guarded_update_eq [of f, OF f(1)] d by simp
    show thesis
      by (rule goal [of "update_device (op_uid op) f s" "f d"])
         (use w g opr d get_update_fun [of f, OF f(1) d] guarded_update_ok [OF assms(2) g f] in simp_all)
  qed
  show thesis
  proof (cases op)
    case (Plugged u port vid pid)
    let ?d = "upsert_row now u None (Some port) (Some (format_vid_pid vid pid)) (get s u)"
    obtain s' where s': "upsert_device now u None (Some port) (Some (format_vid_pid vid pid)) s = Inr (s', ?d)"
      "get s' = (get s)(u \<mapsto> ?d)"
      by (rule upsert_device_eq [of now u None "Some port" "Some (format_vid_pid vid pid)" s]) blast
    show thesis
      by (rule goal [of s' ?d]) (use s' upsert_device_ok [OF assms(2) s'(1)] in
          \<open>simp_all add: Plugged board_write_def upsert_attached_def op_row_def\<close>)
  next
    case (Unplugged u)
    show thesis
      by (rule upd [of "gone now"]) (use assms(1) in \<open>auto simp: Unplugged op_row_def board_write_def
          mark_disconnected_def gone_fold op_ready_def published_row_def device_ok_def gone_def split: option.splits\<close>)
  next
    case (Probed u result)
    show thesis
      by (rule upd [of "probe_update now result"]) (use assms in \<open>auto simp: Probed op_row_def board_write_def
          apply_probe_result_def op_ready_def published_row_def device_ok_probe_update split: option.splits\<close>)
  next
    case (FoundBlank u)
    show thesis
      by (rule upd [of "known_blank_update now"]) (use assms in \<open>auto simp: FoundBlank op_row_def board_write_def
          apply_known_blank_def op_ready_def published_row_def device_ok_known_blank_update split: option.splits\<close>)
  qed
qed

lemma virtual_unchanged [simp]: "is_virtual (gone now d) = is_virtual d"
  "is_virtual (probe_update now r d) = is_virtual d" "is_virtual (known_blank_update now d) = is_virtual d"
  by (simp_all add: is_virtual_def gone_def probe_update_def known_blank_update_def split: option.split)

lemma plugged_row:
  assumes "\<forall>d. row = Some d \<longrightarrow> dv_state d = STATE_DISCONNECTED"
  shows "dv_state (upsert_row now u host port vp row) = STATE_ATTACHED_UNPROBED"
    and "dv_host (upsert_row now u host port vp row) = host" "dv_port (upsert_row now u host port vp row) = port"
    "dv_vid_pid (upsert_row now u host port vp row) = vp"
  using assms by (cases row; simp add: upsert_row_def fresh_device_def)+

lemma remote_upsert_row:
  assumes "\<not> live_here row"
  shows "dv_host (upsert_row now u (Some h) port vp row) = Some h"
    "dv_port (upsert_row now u (Some h) port vp row) = port" "dv_vid_pid (upsert_row now u (Some h) port vp row) = vp"
  using assms by (cases row; auto simp: upsert_row_def fresh_device_def live_here_def)+

lemma identity_keeps_sync:
  assumes "sync_row host (Some d) row" and "\<And>x. dv_host (f x) = dv_host x"
    and "\<And>x. mirrored host d x \<Longrightarrow> mirrored host d' (f x)"
  shows "sync_row host (Some d') (if case row of None \<Rightarrow> False | Some x \<Rightarrow> dv_host x = Some host then map_option f row else row)"
  using assms by (auto simp: sync_row_def live_here_def mirrored_def)

lemma sync_identity:
  assumes "published_row (get p u) = Some d" and "dv_uid row = u" and "is_virtual row = is_virtual d"
    and "dv_host row = dv_host d" "dv_port row = dv_port d" "dv_vid_pid row = dv_vid_pid d"
    and "dv_state row \<in> {STATE_CONNECTED, STATE_ATTACHED_NO_ANNOUNCE, STATE_CONNECTED_NO_FIRMWARE}"
    and "sync_row host (Some d) old"
  shows "\<exists>e. publish_daemon_event ''identity'' row = Some e
     \<and> sync_row host (published_row (Some row)) (event_row now' host e u old)
     \<and> (\<forall>v. v \<noteq> u \<longrightarrow> event_row now' host e v = (\<lambda>r. r))"
proof -
  have d: "dv_host d = None" "\<not> is_virtual d" using assms(1) by (simp_all add: published_row_Some)
  have nd: "dv_state row \<noteq> STATE_DISCONNECTED" using assms(7) by auto
  have pub: "published_row (Some row) = Some row" using d nd assms(3,4) by (simp add: published_row_Some)
  let ?w = "\<lparr>wa_state = Some (dv_state row), wa_role = dv_role row, wa_common_name = dv_common_name row,
      wa_device_name = dv_device_name row, wa_serial_payload = dv_serial_payload row,
      wa_raw_announcement = dv_raw_announcement row\<rparr>"
  have ev: "publish_daemon_event ''identity'' row = Some (Identity u ?w)"
    using d nd assms(2,3) by (simp add: publish_daemon_event_def daemon_event_payload_def)
  have "sync_row host (Some row) (if case old of None \<Rightarrow> False | Some x \<Rightarrow> dv_host x = Some host
      then map_option (wire_state_update now' ?w) old else old)"
  proof (rule identity_keeps_sync [OF assms(8)])
    fix x assume "mirrored host d x"
    then show "mirrored host row (wire_state_update now' ?w x)"
      using assms(5-7) by (intro wire_state_update_mirrored) (auto simp: mirrored_def)
  qed simp
  then show ?thesis using ev pub by (auto simp: event_row_def fun_eq_iff)
qed

lemma sync_event:
  assumes "op_ready p op" and "store_ok p" and "now \<noteq> 0"
    and "op_row now op (get p (op_uid op)) = Some row" "dv_uid row = op_uid op"
    and "sync_row host (published_row (get p (op_uid op))) old"
  shows "\<exists>e. op_event op row = Some e \<and> sync_row host (published_row (Some row)) (event_row now' host e (op_uid op) old)
     \<and> (\<forall>u. u \<noteq> op_uid op \<longrightarrow> event_row now' host e u = (\<lambda>r. r))"
proof (cases op)
  case (Plugged u port vid pid)
  let ?vp = "Some (format_vid_pid vid pid)"
  have free: "\<forall>d. get p u = Some d \<longrightarrow> dv_state d = STATE_DISCONNECTED"
    using assms(1) by (simp add: Plugged op_ready_def)
  have row: "row = upsert_row now u None (Some port) ?vp (get p u)"
    using assms(4) by (simp add: Plugged op_row_def)
  have r: "dv_state row = STATE_ATTACHED_UNPROBED" "dv_host row = None" "dv_port row = Some port" "dv_vid_pid row = ?vp"
    unfolding row by (rule plugged_row [OF free])+
  then have nv: "\<not> is_virtual row" by (simp add: is_virtual_def format_vid_pid_not_virtual)
  have ev: "op_event op row = Some (Attach u (Some port) ?vp)"
    using r nv assms(5) by (simp add: Plugged op_event_def publish_daemon_event_def daemon_event_payload_def)
  have "sync_row host (Some row) (Some (upsert_row now' u (Some host) (Some port) ?vp old))"
  proof (cases "live_here old")
    case True
    then show ?thesis by (auto simp: sync_row_def live_here_def upsert_row_def)
  next
    case False
    then show ?thesis using r remote_upsert_row [OF False] by (simp add: sync_row_def mirrored_def)
  qed
  then show ?thesis using ev r nv
    by (simp add: Plugged published_row_def event_row_def fun_eq_iff)
next
  case (Unplugged u)
  obtain d where d: "get p u = Some d" "\<not> is_virtual d" and row: "row = gone now d"
    using assms(1,4) by (auto simp: Unplugged op_ready_def op_row_def published_row_def split: option.splits if_splits)
  have ev: "op_event op row = Some (Detach u)"
    using d row assms(5) by (simp add: Unplugged op_event_def publish_daemon_event_def daemon_event_payload_def)
  have "sync_row host None (event_row now' host (Detach u) u old)"
    by (auto simp: sync_row_def event_row_def split: option.splits)
  then show ?thesis using ev row by (simp add: Unplugged published_row_def event_row_def fun_eq_iff)
next
  case (Probed u result)
  obtain d where d: "published_row (get p u) = Some d" and row: "row = probe_update now result d"
    using assms(1,4) by (auto simp: Probed op_ready_def op_row_def published_row_Some)
  show ?thesis
    using sync_identity [OF d, of row host old now'] assms(5,6) d
    by (simp add: Probed op_event_def row) (auto simp: probe_update_def split: option.splits)
next
  case (FoundBlank u)
  obtain d where d: "published_row (get p u) = Some d" and row: "row = known_blank_update now d"
    using assms(1,4) by (auto simp: FoundBlank op_ready_def op_row_def published_row_Some)
  show ?thesis
    using sync_identity [OF d, of row host old now'] assms(5,6) d
    by (simp add: FoundBlank op_event_def row) (auto simp: known_blank_update_def)
qed

lemma event_row_live: "live_here row \<Longrightarrow> event_row now host e u row = row"
  by (auto simp: event_row_def live_here_def upsert_row_def split: peer_event.split)

lemma replication_step:
  assumes "replication host (p, r) (p', r')" and "store_ok p" and "devices_unique r"
  shows "store_ok p' \<and> devices_unique r' \<and> (in_sync host p r \<longrightarrow> in_sync host p' r')
     \<and> (\<forall>u. live_here (get r u) \<longrightarrow> get r' u = get r u)"
proof -
  consider (live) op now recd now' where "r' = receive now' host (op_event op recd) r" "op_ready p op" "now \<noteq> 0"
      "board_write now op p = Inr (p', recd)"
    | (resync) now where "p' = p"
      "apply_snapshot now host (snapshot_payload p) (snapshot_name_payload p) r = Inr r'"
    using assms(1) by (elim replicationE) auto
  then show ?thesis
  proof cases
  case live_event: (live op now recd now')
  obtain p1 row where w: "board_write now op p = Inr (p1, row)" "op_row now op (get p (op_uid op)) = Some row"
    "get p1 = (get p)(op_uid op \<mapsto> row)" "store_ok p1"
    by (rule board_write_eq [OF live_event(2) assms(2) live_event(3)])
  have eq: "p1 = p'" "row = recd" using w(1) live_event(4) by simp_all
  have uid: "dv_uid row = op_uid op" using get_in_devices [of p1 "op_uid op" row] w(3) by simp
  let ?old = "get r (op_uid op)"
  show ?thesis
  proof (cases "op_event op row")
    case None
    then have "\<not> sync_row host (published_row (get p (op_uid op))) ?old"
      using sync_event [OF live_event(2) assms(2) live_event(3) w(2) uid, of host ?old now'] by auto
    then show ?thesis using None w(4) eq assms(3) live_event(1) by (auto simp: in_sync_def receive_def)
  next
    case (Some e)
    obtain s' where s': "after (apply_event now' host e r) = s'"
      "\<And>u. get s' u = event_row now' host e u (get r u)" "devices_unique r \<Longrightarrow> devices_unique s'"
      by (rule apply_event_eq [of now' host e r]) blast
    have r': "r' = s'" using live_event(1) Some eq s'(1) by (simp add: receive_def)
    have "in_sync host p' r'" if sync: "in_sync host p r"
      unfolding in_sync_def
    proof
      fix u
      have ev: "sync_row host (published_row (Some row)) (event_row now' host e (op_uid op) ?old)"
        "\<forall>v. v \<noteq> op_uid op \<longrightarrow> event_row now' host e v = (\<lambda>r. r)"
        using sync_event [OF live_event(2) assms(2) live_event(3) w(2) uid, of host ?old now'] sync Some
        by (auto simp: in_sync_def)
      show "sync_row host (published_row (get p' u)) (get r' u)"
        using ev sync w(3) eq r' s'(2) by (cases "u = op_uid op") (simp_all add: in_sync_def)
    qed
    then show ?thesis using w(4) eq r' s'(2,3) assms(3) event_row_live by simp
  qed
next
  case (resync now)
  obtain R where R: "apply_snapshot now host (snapshot_payload p) (snapshot_name_payload p) r = Inr R"
    "in_sync host p R" "\<forall>u. live_here (get r u) \<longrightarrow> get R u = get r u"
    using snapshot_brings_peer_in_sync [OF assms(2,3)] by blast
  have "devices_unique p" using assms(2) by (simp add: store_ok_def)
  then obtain R' where "apply_snapshot now host (snapshot_payload p) (snapshot_name_payload p) r = Inr R'"
    "devices_unique R'"
    by (rule apply_snapshot_eq [OF assms(3) payload_distinct]) blast
  then show ?thesis using R resync assms(2) by auto
  qed
qed


lemma snapshot_loop_other:
  "u \<notin> wd_uid ` set ds \<Longrightarrow> get (snapshot_device_loop now host ds s) u = get s u"
proof (induction now host ds s rule: snapshot_device_loop.induct)
  case (2 now host data rest s)
  obtain s' where s': "apply_snapshot_device now host data s = Inr s'"
    and w: "wrote s (wd_uid data) (Some (snapshot_row now host data (get s (wd_uid data)))) s'"
    by (rule apply_snapshot_device_eq)
  show ?case using 2 w by (simp add: s' after_def wrote_def)
qed simp

lemma apply_snapshot_general:
  assumes "devices_unique s"
  obtains s' where "apply_snapshot now host ds ns s = Inr s'" and "st_peers s' = st_peers s"
    and "\<And>u. get s' u = (case get (snapshot_device_loop now host ds s) u of
           None \<Rightarrow> None
         | Some r \<Rightarrow> if missing host (map wd_uid ds) r then Some (gone now r) else Some r)"
proof -
  let ?s1 = "snapshot_device_loop now host ds s"
  have u1: "devices_unique ?s1" and p1: "st_peers ?s1 = st_peers s"
    using snapshot_device_loop_frame [of now host ds s] assms by simp_all
  have d1: "distinct (map dv_uid (list_devices ?s1))"
    using u1 by (simp add: list_devices_def devices_unique_def unique_key_def)
  note loop = detach_missing_loop_eq [OF d1, of now host "map wd_uid ds" ?s1]
  obtain s2 where s2: "detach_missing_loop now host (map wd_uid ds) (list_devices ?s1) ?s1 = Inr s2"
    "st_peers s2 = st_peers s"
    using loop p1 by auto
  have "get s2 u = (case get ?s1 u of None \<Rightarrow> None
      | Some r \<Rightarrow> if missing host (map wd_uid ds) r then Some (gone now r) else Some r)" for u
    using loop [of u] s2(1) get_conv_find [OF u1] by (auto split: option.split)
  then show ?thesis using s2 by (intro that [of "snapshot_name_loop now ns s2"]) (simp_all add: apply_snapshot_def)
qed


text \<open>A snapshot also replicates the name registry: afterwards every name on record at the publisher
  is on record at the peer with the publisher's channel and group (as an override), and every other name
  is as it was.\<close>

theorem snapshot_replicates_names:
  assumes "names_ok publisher" and "store_ok publisher" and "names_ok replica" and "devices_unique replica"
  shows "\<exists>replica'. apply_snapshot now host (snapshot_payload publisher) (snapshot_name_payload publisher) replica
        = Inr replica'
     \<and> (\<forall>e\<in>set (st_names publisher). \<exists>e'. get_name_row replica' (en_name e) = Some e'
            \<and> en_channel e' = en_channel e \<and> en_group e' = en_group e \<and> en_source e' = SOURCE_REGISTRY)
     \<and> (\<forall>n. n \<notin> en_name ` set (st_names publisher) \<longrightarrow> get_name_row replica' n = get_name_row replica n)"
proof -
  let ?ns = "snapshot_name_payload publisher"
  have uniq: "devices_unique publisher" using assms(2) by (simp add: store_ok_def)
  obtain R where R: "apply_snapshot now host (snapshot_payload publisher) ?ns replica = Inr R"
    "st_names R = st_names (snapshot_name_loop now ?ns (replica\<lparr>st_devices := st_devices R\<rparr>))"
    by (rule apply_snapshot_eq [OF assms(4) payload_distinct [OF uniq]]) blast
  let ?r = "replica\<lparr>st_devices := st_devices R\<rparr>"
  have "names_ok ?r" using assms(3) by (simp add: names_ok_def names_unique_def)
  note loop = snapshot_name_loop_eq [OF names_payload(1,2) [OF assms(1)] this, of now]
  have same: "get_name_row R = get_name_row (snapshot_name_loop now ?ns ?r)"
    "get_name_row ?r = get_name_row replica"
    using name_loop_names_cong [OF R(2)] name_loop_names_cong [of ?r replica] by simp_all
  have "\<exists>e'. get_name_row R (en_name e) = Some e' \<and> en_channel e' = en_channel e \<and> en_group e' = en_group e
      \<and> en_source e' = SOURCE_REGISTRY" if "e \<in> set (st_names publisher)" for e
    using names_payload(3) [OF assms(1) that] loop unfolding same says_def by metis
  moreover have "get_name_row R n = get_name_row replica n" if "n \<notin> en_name ` set (st_names publisher)" for n
    using loop that names_payload(4) [OF assms(1)] unfolding same by simp
  ultimately show ?thesis using R(1) by blast
qed

subsection \<open>Witnesses\<close>

lemma demo_ok: "store_ok demo_store"
proof -
  have "peers_unique demo_store" by (simp add: peers_unique_def demo_store_def unique_key_def)
  moreover have "device_ok (demo_device u h)" for u h
    by (simp add: device_ok_def demo_device_def fresh_device_def)
  ultimately show ?thesis using demo_unique by (auto simp: store_ok_get demo_get split: if_splits)
qed

lemma demo_published: "published_row (get demo_store ''aa'') = Some (demo_device ''aa'' None)"
  by (simp add: demo_get published_row_Some is_virtual_def demo_device_def fresh_device_def VIRTUAL_VID_PID_def)

lemma get_empty [simp]: "get empty_store u = None"
  by (simp add: get_def row_get_def empty_store_def)

lemma empty_unique: "devices_unique empty_store"
  by (simp add: devices_unique_def empty_store_def)

theorem snapshot_brings_peer_in_sync_witness:
  "\<exists>r' d. apply_snapshot 9 ''thor'' (snapshot_payload demo_store) (snapshot_name_payload demo_store) empty_store = Inr r'
     \<and> get r' ''aa'' = Some d \<and> dv_host d = Some ''thor'' \<and> dv_device_name d = Some ''tovez''"
proof -
  have n: "\<not> live_here (get empty_store ''aa'')" by (simp add: live_here_def)
  obtain r' d where "apply_snapshot 9 ''thor'' (snapshot_payload demo_store) (snapshot_name_payload demo_store) empty_store
      = Inr r'" "get r' ''aa'' = Some d" "mirrored ''thor'' (demo_device ''aa'' None) d"
    using snapshot_brings_peer_in_sync [OF demo_ok empty_unique, of 9 "''thor''"] demo_published n by blast
  then show ?thesis by (auto simp: mirrored_def demo_device_def or_blank_def)
qed



text \<open>The pair a peer derived for a name replaces the override that was set here: a host that joins with a
  derived row takes the override away.\<close>

definition override_host :: store where
  "override_host = empty_store\<lparr>st_names := [row_to_entry ''vevov'' 5 10 SOURCE_REGISTRY 1]\<rparr>"

definition deriving_host :: store where
  "deriving_host = empty_store\<lparr>st_names := [row_to_entry ''vevov'' 20 82 SOURCE_DERIVED 2]\<rparr>"

theorem snapshot_replicates_names_witness:
  "\<exists>r'. apply_snapshot 9 ''thor'' (snapshot_payload deriving_host) (snapshot_name_payload deriving_host) override_host = Inr r'
     \<and> pair_of override_host ''vevov'' = Some (5, 10) \<and> pair_of r' ''vevov'' = Some (20, 82)"
proof -
  have five: "five_letters ''vevov''" and der: "name_to_radio ''vevov'' = Inr (20, 82)" by code_simp+
  have ok: "names_ok deriving_host" "names_ok override_host"
    using five der by (simp_all add: names_ok_def names_unique_def unique_key_def deriving_host_def override_host_def
        empty_store_def row_to_entry_def entry_ok_def)
  have dev: "store_ok deriving_host" "devices_unique override_host"
    by (simp_all add: store_ok_def devices_unique_def peers_unique_def deriving_host_def override_host_def empty_store_def)
  obtain r' where r': "apply_snapshot 9 ''thor'' (snapshot_payload deriving_host) (snapshot_name_payload deriving_host)
      override_host = Inr r'"
    "\<exists>e'. get_name_row r' ''vevov'' = Some e' \<and> en_channel e' = 20 \<and> en_group e' = 82"
    using snapshot_replicates_names [OF ok(1) dev(1) ok(2) dev(2), of 9 "''thor''"]
    by (auto simp: deriving_host_def row_to_entry_def)
  moreover have "pair_of override_host ''vevov'' = Some (5, 10)"
    by (simp add: pair_of_eq [OF five] get_name_row_def row_get_def override_host_def row_to_entry_def)
  ultimately show ?thesis by (auto simp: pair_of_eq [OF five])
qed

subsection \<open>Where the copies drift apart\<close>

text \<open>A board carried from this host to \<open>host\<close> whose events arrive before this host's own scan has seen it
  go: they are dropped, the scan then marks the row disconnected, and nothing brings the board back
  before the next snapshot.\<close>

lemma early_handover_is_lost:
  assumes "live_here (get s u)"
    and "s1 = after (apply_event now host (Attach u port vp) s)"
    and "s2 = after (apply_event now host (Identity u data) s1)"
    and "mark_disconnected now' u s2 = Inr (s3, d)"
  shows "get s3 u = Some d \<and> dv_host d = None \<and> dv_state d = STATE_DISCONNECTED"
proof -
  have step: "get (after (apply_event now host e x)) u = get x u" if "live_here (get x u)" for e x
    using event_row_live [OF that] apply_event_eq [of now host e x] by metis
  have "get s2 u = get s u" using assms(1-3) step by simp
  then obtain x where x: "get s2 u = Some x" "dv_host x = None" using assms(1) by (auto simp: live_here_def)
  have "mark_disconnected now' u s2 = Inr (update_device u (gone now') s2, gone now' x)"
    using mark_remote_detached_eq [of now' u s2] x(1) by (simp add: mark_remote_detached_def)
  then show ?thesis using assms(4) x get_update_fun [of "gone now'" s2 u x] by simp
qed

text \<open>A snapshot carries no lock state: what a peer shows of a lock that was released while the link was
  down stays until the next lock event of that board.\<close>

lemma snapshot_keeps_stale_lock_display:
  assumes "devices_unique p" and "devices_unique s" and "published_row (get p u) = Some d"
    and "get s u = Some x" and "dv_host x = Some host"
    and "apply_snapshot now host (snapshot_payload p) ns s = Inr s'"
  shows "\<exists>x'. get s' u = Some x' \<and> dv_remote_lock_kind x' = dv_remote_lock_kind x
     \<and> dv_remote_lock_display x' = dv_remote_lock_display x"
proof -
  have "get s' u = Some (snapshot_row now host (wire_device_of d) (Some x))"
    using assms(6) apply_snapshot_eq [OF assms(2) payload_distinct [OF assms(1)], of now host ns]
      find_payload [OF assms(1), of u] assms(3,4) by (metis (no_types, lifting) Inr_inject option.case(2) option.map(2) snapshot_result_def)
  then show ?thesis
    by (auto simp: snapshot_row_def upsert_row_def gone_def wire_state_update_def probe_update_def
        known_blank_update_def Let_def split: option.split)
qed

end
