(* ===== verification/MB_Link.thy ===== *)
theory MB_Link
  imports MB_Peering
begin

text \<open>
  Model of the other half of \<open>src/mbtools/registry/peering.py\<close>: how a host finds its peers
  (\<open>_BrowseListener\<close>, with the address choice of \<open>src/mbtools/registry/netaddr.py\<close>) and how the link to
  one peer is kept (\<open>_PeerLink\<close>: the first snapshot, the monitor thread, the re-fetch after a drop, the
  forced re-fetch). mDNS and ZeroMQ are not modelled: what a service resolves to and how a snapshot
  request ends are arguments. \<open>dropped_meanwhile\<close> says whether the monitor thread saw the link drop
  while a request was waiting for its reply.
\<close>

subsection \<open>Addresses\<close>

text \<open>\<open>ipaddress.IPv4Address(s)\<close>: four decimal octets without leading zeros.\<close>

definition octet :: "string \<Rightarrow> nat option" where
  "octet s = (if s = [] \<or> 3 < length s \<or> \<not> (\<forall>c\<in>set s. is_digit_char c) \<or> (1 < length s \<and> hd s = CHR ''0'')
              \<or> 255 < read_nat s then None else Some (read_nat s))"

definition parse_ipv4 :: "string \<Rightarrow> nat option" where
  "parse_ipv4 s =
     (case map octet (split_on (CHR ''.'') s) of
        [Some a, Some b, Some c, Some d] \<Rightarrow> Some (((a * 256 + b) * 256 + c) * 256 + d)
      | _ \<Rightarrow> None)"

text \<open>\<open>addr in network\<close>, for the network of an address with a prefix length.\<close>

definition in_network :: "nat \<Rightarrow> nat \<times> nat \<Rightarrow> bool" where
  "in_network addr net = (addr div 2 ^ (32 - snd net) = fst net div 2 ^ (32 - snd net))"

definition usable :: "nat \<Rightarrow> bool" where
  "usable addr \<longleftrightarrow> \<not> (in_network addr (127 * 2 ^ 24, 8) \<or> in_network addr ((169 * 256 + 254) * 2 ^ 16, 16)
     \<or> addr = 0 \<or> in_network addr ((100 * 256 + 64) * 2 ^ 16, 10))"

definition VIRTUAL_PREFIXES :: "string list" where
  "VIRTUAL_PREFIXES = [''docker'', ''br-'', ''veth'', ''virbr'', ''vmnet'', ''bridge'', ''utun'', ''tun'', ''tap'',
     ''tailscale'', ''wg'', ''zt'']"

definition WIRELESS_PREFIXES :: "string list" where "WIRELESS_PREFIXES = [''wl'']"

text \<open>\<open>ifaddr.get_adapters()\<close>: each adapter's name and its IPv4 addresses with their prefix lengths.\<close>

type_synonym adapter = "string \<times> (string \<times> nat) list"

definition lan_interfaces :: "adapter list \<Rightarrow> (string \<times> string \<times> nat) list" where
  "lan_interfaces adapters =
     concat (map (\<lambda>(name, ips).
       if \<exists>p\<in>set VIRTUAL_PREFIXES. starts_with p name then []
       else map (\<lambda>(ip, len). (name, ip, len))
              (filter (\<lambda>(ip, len). case parse_ipv4 ip of None \<Rightarrow> False | Some a \<Rightarrow> usable a) ips)) adapters)"

definition wireless :: "string \<Rightarrow> bool" where
  "wireless name \<longleftrightarrow> (\<exists>p\<in>set WIRELESS_PREFIXES. starts_with p name)"

text \<open>The sort key of \<open>local_ipv4s\<close>: Wi-Fi after wired, the default-route address first of its kind; the
  index, the third component, is what a stable sort does.\<close>

definition rank :: "string option \<Rightarrow> string \<times> string \<times> nat \<Rightarrow> nat" where
  "rank route i = (if wireless (fst i) then 2 else 0) + (if Some (fst (snd i)) \<noteq> route then 1 else 0)"

definition local_ipv4s :: "adapter list \<Rightarrow> string option \<Rightarrow> string \<Rightarrow> string list" where
  "local_ipv4s adapters route local_ip =
     (let addresses = fold (\<lambda>i acc. if fst (snd i) \<in> set acc then acc else acc @ [fst (snd i)])
                        (sort_key (rank route) (lan_interfaces adapters)) []
      in if addresses = [] then [local_ip] else addresses)"

definition networks :: "adapter list \<Rightarrow> (nat \<times> nat) list" where
  "networks adapters = map (\<lambda>(name, ip, len). (the (parse_ipv4 ip), len)) (lan_interfaces adapters)"

definition pick_reachable :: "(nat \<times> nat) list \<Rightarrow> string list \<Rightarrow> string option" where
  "pick_reachable nets candidates =
     (case find (\<lambda>c. case parse_ipv4 c of None \<Rightarrow> False | Some a \<Rightarrow> \<exists>net\<in>set nets. in_network a net) candidates of
        Some c \<Rightarrow> Some c
      | None \<Rightarrow> (case candidates of [] \<Rightarrow> None | c # _ \<Rightarrow> Some c))"

subsection \<open>Discovery\<close>

record service_info =
  si_addresses :: "string list"
  si_server :: string
  si_port :: "int option"
  si_txt :: "(string, string) dict"

record listener =
  bl_service_type :: string
  bl_own_host :: "string option"
  bl_own_addresses :: "string list"
  bl_own_port :: int
  bl_networks :: "(nat \<times> nat) list"

definition resolve_address :: "service_info \<Rightarrow> string" where
  "resolve_address info =
     (case si_addresses info of
        a # _ \<Rightarrow> a
      | [] \<Rightarrow> if si_server info \<noteq> [] then rev (dropWhile (\<lambda>c. c = CHR ''.'') (rev (si_server info))) else [])"

definition txt_get :: "service_info \<Rightarrow> string \<Rightarrow> string option" where
  "txt_get info k = dget (si_txt info) k"

definition choose_address :: "(nat \<times> nat) list \<Rightarrow> service_info \<Rightarrow> string" where
  "choose_address nets info =
     (let advertised = filter (\<lambda>a. a \<noteq> []) (split_on (CHR '','') (case txt_get info ''addrs'' of None \<Rightarrow> [] | Some t \<Rightarrow> t));
          candidates = (if advertised = [] then filter (\<lambda>a. CHR '':'' \<notin> set a) (si_addresses info) else advertised)
      in case pick_reachable nets candidates of
           None \<Rightarrow> resolve_address info
         | Some a \<Rightarrow> if a = [] then resolve_address info else a)"

definition peer_host_from_name :: "string \<Rightarrow> string \<Rightarrow> string" where
  "peer_host_from_name name service_type =
     (let suffix = ''.'' @ service_type in
      if ends_with suffix name then take (length name - length suffix) name
      else rev (dropWhile (\<lambda>c. c = CHR ''.'') (rev name)))"

text \<open>\<open>_BrowseListener._record\<close>: the store afterwards, and the call of \<open>on_peer_ready\<close> it makes.\<close>

definition record_service ::
    "real \<Rightarrow> listener \<Rightarrow> string \<Rightarrow> service_info \<Rightarrow> store \<Rightarrow> (store \<times> (string \<times> string \<times> int \<times> int) option) result" where
  "record_service now bl name info s =
     (let host = peer_host_from_name name (bl_service_type bl) in
      if bl_own_host bl = Some host then Inr (s, None)
      else let address = choose_address (bl_networks bl) info in
      if address \<in> set (bl_own_addresses bl) \<and> si_port info = Some (bl_own_port bl) then Inr (s, None)
      else (case txt_get info ''remote_port'' of
              None \<Rightarrow> Inr (s, None)
            | Some remote_port_str \<Rightarrow>
                if address = [] \<or> remote_port_str = [] then Inr (s, None)
                else if py_int remote_port_str = None then Inr (s, None)
                else (case record_peer_seen now host (address @ '':'' @ remote_port_str) s of
                        Inl e \<Rightarrow> Inl e
                      | Inr (s', _) \<Rightarrow>
                          (let port_of = (\<lambda>k. case txt_get info k of None \<Rightarrow> Inr None
                                                | Some p \<Rightarrow> (case py_int p of None \<Rightarrow> Inl () | Some n \<Rightarrow> Inr (Some n)))
                           in case (port_of ''pub_port'', port_of ''snapshot_port'') of
                                (Inr (Some pub), Inr (Some snap)) \<Rightarrow> Inr (s', Some (host, address, pub, snap))
                              | _ \<Rightarrow> Inr (s', None)))))"

subsection \<open>The link to one peer\<close>

datatype snapshot_reply = TimedOut | Malformed | Refused | Reply "wire_device list" "wire_name list"

datatype peer_notice = PeerUp string | PeerDown string

record link =
  ln_host :: string
  ln_started :: bool
  ln_stopped :: bool
  ln_dropped :: bool
  ln_store :: store
  ln_notices :: "peer_notice list"

text \<open>\<open>PeerDiscovery._on_peer_unreachable\<close> and \<open>_on_peer_reachable\<close>.\<close>

definition on_peer_unreachable :: "link \<Rightarrow> link" where
  "on_peer_unreachable l =
     l\<lparr>ln_store := (case mark_peer_unreachable (ln_host l) (ln_store l) of Inl _ \<Rightarrow> ln_store l | Inr (s', _) \<Rightarrow> s'),
       ln_notices := ln_notices l @ [PeerDown (ln_host l)]\<rparr>"

definition on_peer_reachable :: "link \<Rightarrow> link" where
  "on_peer_reachable l =
     l\<lparr>ln_store := (case mark_peer_reachable (ln_host l) (ln_store l) of Inl _ \<Rightarrow> ln_store l | Inr (s', _) \<Rightarrow> s'),
       ln_notices := ln_notices l @ [PeerUp (ln_host l)]\<rparr>"

text \<open>The disconnect branch of \<open>_monitor_loop\<close>.\<close>

definition monitor_disconnected :: "link \<Rightarrow> link" where
  "monitor_disconnected l = on_peer_unreachable (l\<lparr>ln_dropped := True\<rparr>)"

definition fetch_snapshot :: "real \<Rightarrow> snapshot_reply \<Rightarrow> bool \<Rightarrow> link \<Rightarrow> bool \<times> link" where
  "fetch_snapshot now reply dropped_meanwhile l =
     (let l = (if dropped_meanwhile then monitor_disconnected l else l) in
      case reply of
        TimedOut \<Rightarrow> (False, on_peer_unreachable l)
      | Malformed \<Rightarrow> (False, l)
      | Refused \<Rightarrow> (False, l)
      | Reply devices names \<Rightarrow>
          (let l = l\<lparr>ln_store := after (apply_snapshot now (ln_host l) devices names (ln_store l))\<rparr>
           in if ln_dropped l then (False, l) else (True, on_peer_reachable l)))"

text \<open>\<open>resync\<close>; of two that run at the same time the second returns \<open>False\<close> at once.\<close>

definition resync :: "real \<Rightarrow> snapshot_reply \<Rightarrow> bool \<Rightarrow> link \<Rightarrow> bool \<times> link" where
  "resync now reply dropped_meanwhile l =
     (if ln_stopped l \<or> \<not> ln_dropped l then (False, l)
      else let (ok, l) = fetch_snapshot now reply dropped_meanwhile (l\<lparr>ln_dropped := False\<rparr>)
           in if ok then (True, l) else (False, l\<lparr>ln_dropped := True\<rparr>))"

definition force_resync :: "real \<Rightarrow> snapshot_reply \<Rightarrow> bool \<Rightarrow> link \<Rightarrow> link" where
  "force_resync now reply dropped_meanwhile l =
     (if \<not> ln_started l \<or> ln_stopped l then l else snd (fetch_snapshot now reply dropped_meanwhile l))"

definition start_link :: "real \<Rightarrow> snapshot_reply \<Rightarrow> bool \<Rightarrow> link \<Rightarrow> link" where
  "start_link now reply dropped_meanwhile l =
     (if ln_started l then l
      else snd (fetch_snapshot now reply dropped_meanwhile (l\<lparr>ln_started := True, ln_stopped := False\<rparr>)))"

definition stop_link :: "link \<Rightarrow> link" where
  "stop_link l = (if \<not> ln_started l then l else l\<lparr>ln_started := False, ln_stopped := True\<rparr>)"

text \<open>What can happen to a link: an event from the peer, the monitor's disconnect, a re-fetch (after the
  monitor's reconnect event, or by the periodic check), a forced re-fetch.\<close>

inductive link_step :: "link \<Rightarrow> link \<Rightarrow> bool" where
  event: "link_step l (l\<lparr>ln_store := after (apply_event now (ln_host l) e (ln_store l))\<rparr>)"
| drop: "link_step l (monitor_disconnected l)"
| refetch: "link_step l (snd (resync now reply dm l))"
| forced: "link_step l (force_resync now reply dm l)"

inductive_cases link_stepE: "link_step l l'"

subsection \<open>Lemmas about the link\<close>

definition peer_known :: "link \<Rightarrow> bool" where
  "peer_known l \<longleftrightarrow> get_peer (ln_store l) (ln_host l) \<noteq> None"

definition peer_up :: "link \<Rightarrow> bool" where
  "peer_up l \<longleftrightarrow> (\<exists>p. get_peer (ln_store l) (ln_host l) = Some p \<and> pe_reachable p)"

definition link_ok :: "link \<Rightarrow> bool" where
  "link_ok l \<longleftrightarrow> \<not> (ln_dropped l \<and> peer_up l)"

lemma set_reachable_store:
  "get_peer (case set_peer_reachable host b s of Inl _ \<Rightarrow> s | Inr (s', _) \<Rightarrow> s') host
     = map_option (\<lambda>p. p\<lparr>pe_reachable := b\<rparr>) (get_peer s host)
   \<and> st_devices (case set_peer_reachable host b s of Inl _ \<Rightarrow> s | Inr (s', _) \<Rightarrow> s') = st_devices s"
  using peers.get_upd [of "\<lambda>p. p\<lparr>pe_reachable := b\<rparr>" host s]
  by (auto simp: set_peer_reachable_eq update_peer_def split: option.split)

lemma on_peer_simps [simp]:
  "peer_up (on_peer_unreachable l) = False" "peer_known (on_peer_unreachable l) = peer_known l"
  "peer_up (on_peer_reachable l) = peer_known l" "peer_known (on_peer_reachable l) = peer_known l"
  "ln_dropped (on_peer_unreachable l) = ln_dropped l" "ln_dropped (on_peer_reachable l) = ln_dropped l"
  "ln_started (on_peer_unreachable l) = ln_started l" "ln_started (on_peer_reachable l) = ln_started l"
  "ln_stopped (on_peer_unreachable l) = ln_stopped l" "ln_stopped (on_peer_reachable l) = ln_stopped l"
  "ln_host (on_peer_unreachable l) = ln_host l" "ln_host (on_peer_reachable l) = ln_host l"
  "st_devices (ln_store (on_peer_unreachable l)) = st_devices (ln_store l)"
  "st_devices (ln_store (on_peer_reachable l)) = st_devices (ln_store l)"
  using set_reachable_store [where host = "ln_host l" and b = False and s = "ln_store l"]
    set_reachable_store [where host = "ln_host l" and b = True and s = "ln_store l"]
  by (auto simp: on_peer_unreachable_def on_peer_reachable_def mark_peer_unreachable_def mark_peer_reachable_def
      peer_up_def peer_known_def)

lemma monitor_simps [simp]:
  "peer_up (monitor_disconnected l) = False" "peer_known (monitor_disconnected l) = peer_known l"
  "ln_dropped (monitor_disconnected l) = True" "ln_host (monitor_disconnected l) = ln_host l"
  "ln_started (monitor_disconnected l) = ln_started l" "ln_stopped (monitor_disconnected l) = ln_stopped l"
  "st_devices (ln_store (monitor_disconnected l)) = st_devices (ln_store l)"
  by (simp_all add: monitor_disconnected_def) (simp add: peer_known_def)

lemma peer_table_cong:
  assumes "st_peers s' = st_peers (ln_store l)"
  shows "peer_up (l\<lparr>ln_store := s'\<rparr>) = peer_up l" "peer_known (l\<lparr>ln_store := s'\<rparr>) = peer_known l"
  using assms by (simp_all add: peer_up_def peer_known_def get_peer_def)

lemma apply_event_peers: "st_peers (after (apply_event now host e s)) = st_peers s"
  using apply_event_eq [of now host e s] by metis

lemma detach_missing_peers: "st_peers (after (detach_missing_loop now host seen rs s)) = st_peers s"
proof (induction rs arbitrary: s)
  case (Cons r rs)
  then show ?case
    by (auto simp: mark_remote_detached_eq after_def split: option.split)
qed (simp add: after_def)

lemma apply_snapshot_peers: "st_peers (after (apply_snapshot now host ds ns s)) = st_peers s"
proof -
  let ?s1 = "snapshot_device_loop now host ds s"
  have "st_peers ?s1 = st_peers s" using snapshot_device_loop_frame [of now host ds s] by simp
  moreover have "st_peers (after (detach_missing_loop now host (map wd_uid ds) (list_devices ?s1) ?s1)) = st_peers ?s1"
    by (rule detach_missing_peers)
  ultimately show ?thesis
    by (auto simp: apply_snapshot_def Let_def after_def split: sum.splits prod.splits)
qed

lemma fetch_snapshot_cases:
  obtains (timed_out) l' where "fetch_snapshot now reply dm l = (False, l')" "\<not> peer_up l'" "ln_dropped l' = (dm \<or> ln_dropped l)"
      "reply = TimedOut" "ln_host l' = ln_host l" "peer_known l' = peer_known l" "ln_stopped l' = ln_stopped l"
  | (refused) l' where "fetch_snapshot now reply dm l = (False, l')" "peer_up l' = (peer_up l \<and> \<not> dm)"
      "ln_dropped l' = (dm \<or> ln_dropped l)" "reply = Malformed \<or> reply = Refused" "ln_host l' = ln_host l"
      "peer_known l' = peer_known l" "ln_stopped l' = ln_stopped l"
  | (late_drop) ds ns l' where "fetch_snapshot now reply dm l = (False, l')" "dm \<or> ln_dropped l" "ln_dropped l'"
      "peer_up l' = (peer_up l \<and> \<not> dm)" "reply = Reply ds ns" "ln_host l' = ln_host l" "peer_known l' = peer_known l"
      "ln_stopped l' = ln_stopped l"
  | (fetched) ds ns l' where "fetch_snapshot now reply dm l = (True, l')" "\<not> dm" "\<not> ln_dropped l" "\<not> ln_dropped l'"
      "peer_up l' = peer_known l" "reply = Reply ds ns" "ln_host l' = ln_host l" "peer_known l' = peer_known l"
      "ln_stopped l' = ln_stopped l"
      "st_devices (ln_store l') = st_devices (after (apply_snapshot now (ln_host l) ds ns (ln_store l)))"
proof (cases reply)
  case TimedOut
  then show ?thesis by (intro timed_out [of "snd (fetch_snapshot now reply dm l)"]) (auto simp: fetch_snapshot_def Let_def)
next
  case Malformed
  then show ?thesis by (intro refused [of "snd (fetch_snapshot now reply dm l)"]) (auto simp: fetch_snapshot_def Let_def)
next
  case Refused
  then show ?thesis by (intro refused [of "snd (fetch_snapshot now reply dm l)"]) (auto simp: fetch_snapshot_def Let_def)
next
  case (Reply ds ns)
  note cong = peer_table_cong [OF apply_snapshot_peers]
  show ?thesis
  proof (cases "dm \<or> ln_dropped l")
    case True
    then show ?thesis using Reply by (intro late_drop [of "snd (fetch_snapshot now reply dm l)" ds ns]) (auto simp: fetch_snapshot_def Let_def cong)
  next
    case False
    then show ?thesis using Reply by (intro fetched [of "snd (fetch_snapshot now reply dm l)" ds ns]) (auto simp: fetch_snapshot_def Let_def cong)
  qed
qed

lemma resync_cases:
  assumes "ln_dropped l" and "\<not> ln_stopped l" and "link_ok l"
  shows "(fst (resync now reply dm l) \<longleftrightarrow> \<not> dm \<and> (\<exists>ds ns. reply = Reply ds ns))
     \<and> (if fst (resync now reply dm l)
         then \<not> ln_dropped (snd (resync now reply dm l)) \<and> peer_up (snd (resync now reply dm l)) = peer_known l
              \<and> (\<forall>ds ns. reply = Reply ds ns \<longrightarrow> st_devices (ln_store (snd (resync now reply dm l)))
                    = st_devices (after (apply_snapshot now (ln_host l) ds ns (ln_store l))))
         else ln_dropped (snd (resync now reply dm l)) \<and> \<not> peer_up (snd (resync now reply dm l)))"
proof -
  let ?l = "l\<lparr>ln_dropped := False\<rparr>"
  have up: "\<not> peer_up ?l" "peer_known ?l = peer_known l" and redrop: "peer_up (x\<lparr>ln_dropped := True\<rparr>) = peer_up x" for x
    using assms by (auto simp: link_ok_def peer_up_def peer_known_def)
  have go: "resync now reply dm l = (let (ok, x) = fetch_snapshot now reply dm ?l
      in if ok then (True, x) else (False, x\<lparr>ln_dropped := True\<rparr>))"
    using assms by (simp add: resync_def)
  show ?thesis
    unfolding go Let_def
    by (cases rule: fetch_snapshot_cases [of now reply dm ?l]) (auto simp: up redrop)
qed

lemma link_step_ok:
  assumes "link_step l l'" and "link_ok l"
  shows "link_ok l' \<and> ln_host l' = ln_host l"
  using assms(1)
proof (cases rule: link_step.cases)
  case (event now e)
  then show ?thesis
    using assms(2) peer_table_cong [OF apply_event_peers] by (simp add: link_ok_def)
next
  case drop
  then show ?thesis by (simp add: link_ok_def)
next
  case (refetch now reply dm)
  show ?thesis
  proof (cases "ln_stopped l \<or> \<not> ln_dropped l")
    case True
    then show ?thesis using refetch assms(2) by (simp add: resync_def)
  next
    case False
    then have "link_ok l'" using resync_cases [of l now reply dm] assms(2) refetch
      by (auto simp: link_ok_def split: if_splits)
    moreover have "ln_host (snd (fetch_snapshot now reply dm x)) = ln_host x" for x
      by (cases rule: fetch_snapshot_cases [of now reply dm x]) simp_all
    then have "ln_host l' = ln_host l" using refetch by (simp add: resync_def case_prod_beta Let_def)
    ultimately show ?thesis by blast
  qed
next
  case (forced now reply dm)
  show ?thesis
    by (cases rule: fetch_snapshot_cases [of now reply dm l])
       (use forced assms(2) in \<open>auto simp: force_resync_def link_ok_def\<close>)
qed

lemma link_run_ok: "rtranclp link_step l l' \<Longrightarrow> link_ok l \<Longrightarrow> link_ok l' \<and> ln_host l' = ln_host l"
  by (induction rule: rtranclp_induct) (auto dest: link_step_ok)

subsection \<open>Properties\<close>


definition demo_link :: link where
  "demo_link = \<lparr>ln_host = ''loki'', ln_started = True, ln_stopped = False, ln_dropped = False,
     ln_store = demo_store, ln_notices = []\<rparr>"


text \<open>Discovery never raises and never makes this host its own peer: an advertisement under this host's
  name, or from one of its addresses with its port, changes nothing; every other one touches at most
  the peer it names, which is then recorded as reachable at the chosen address, and a link is only asked
  for a peer that was recorded.\<close>

theorem discovery_records_only_peers:
  "\<exists>s' ready. record_service now bl name info s = Inr (s', ready)
     \<and> (let host = peer_host_from_name name (bl_service_type bl); address = choose_address (bl_networks bl) info in
        st_devices s' = st_devices s \<and> st_names s' = st_names s
        \<and> (\<forall>h. h = host \<or> get_peer s' h = get_peer s h)
        \<and> (if bl_own_host bl = Some host
              \<or> address \<in> set (bl_own_addresses bl) \<and> si_port info = Some (bl_own_port bl)
           then s' = s \<and> ready = None
           else s' = s \<and> ready = None
              \<or> (\<exists>p port. get_peer s' host = Some p \<and> pe_reachable p \<and> txt_get info ''remote_port'' = Some port
                   \<and> py_int port \<noteq> None \<and> pe_endpoint p = address @ '':'' @ port
                   \<and> (ready = None \<or> (\<exists>pub snap. ready = Some (host, address, pub, snap))))))"
proof -
  let ?host = "peer_host_from_name name (bl_service_type bl)" and ?address = "choose_address (bl_networks bl) info"
  let ?own = "bl_own_host bl = Some ?host \<or> ?address \<in> set (bl_own_addresses bl) \<and> si_port info = Some (bl_own_port bl)"
  show ?thesis
  proof (cases "\<not> ?own \<and> ?address \<noteq> [] \<and> (\<exists>port. txt_get info ''remote_port'' = Some port \<and> port \<noteq> []
      \<and> py_int port \<noteq> None)")
    case False
    then have "record_service now bl name info s = Inr (s, None)"
      by (auto simp: record_service_def Let_def split: option.split)
    then show ?thesis by (auto simp: Let_def)
  next
    case True
    then obtain port where port: "txt_get info ''remote_port'' = Some port" "port \<noteq> []" "py_int port \<noteq> None" by blast
    obtain s' p where s': "record_peer_seen now ?host (?address @ '':'' @ port) s = Inr (s', p)"
      "get_peer s' = (get_peer s)(?host \<mapsto> p)" "pe_reachable p" "pe_endpoint p = ?address @ '':'' @ port"
      "st_devices s' = st_devices s" "st_names s' = st_names s"
      by (rule record_peer_seen_eq [of now ?host "?address @ '':'' @ port" s]) blast
    have "\<exists>ready. record_service now bl name info s = Inr (s', ready)
        \<and> (ready = None \<or> (\<exists>pub snap. ready = Some (?host, ?address, pub, snap)))"
      using True port s'(1) by (auto simp: record_service_def Let_def split: option.splits sum.splits)
    then show ?thesis using True port s' by (auto simp: Let_def)
  qed
qed

subsection \<open>Where a link stays behind\<close>

text \<open>A first snapshot that times out is not retried: as long as the link neither drops nor is forced, the
  peer's events are applied but the peer stays unreachable and its boards unfetched.\<close>

definition quiet_step :: "link \<Rightarrow> link \<Rightarrow> bool" where
  "quiet_step l l' \<longleftrightarrow> (\<exists>now e. l' = l\<lparr>ln_store := after (apply_event now (ln_host l) e (ln_store l))\<rparr>)
     \<or> (\<exists>now reply dm. l' = snd (resync now reply dm l))"

lemma first_snapshot_is_not_retried:
  assumes "\<not> ln_started l0" and "\<not> ln_dropped l0"
    and "rtranclp quiet_step (start_link now TimedOut False l0) l"
  shows "\<not> peer_up l \<and> \<not> ln_dropped l"
  using assms(3)
proof (induction rule: rtranclp_induct)
  case base
  then show ?case using assms(1,2) by (simp add: start_link_def fetch_snapshot_def Let_def)
next
  case (step x y)
  then show ?case
    using peer_table_cong [OF apply_event_peers] by (auto simp: quiet_step_def resync_def)
qed

end
