(* ===== verification/MB_Hex.thy ===== *)
theory MB_Hex
  imports MB_Prelude "HOL-Library.Word"
begin

text \<open>
  Model of \<open>src/mbtools/registry/universal_hex.py\<close>: recognising a micro:bit Universal Hex and
  extracting one board's plain Intel hex from it. The text is what \<open>open(encoding="ascii",
  errors="replace")\<close> reads, so its characters are ASCII or the replacement character, for which any
  character above 127 stands. \<open>normalized_hex\<close>, which wraps the two functions in file I/O, is
  \<open>normalized_text\<close>: the text that is flashed.
\<close>

subsection \<open>Library functions\<close>

text \<open>\<open>str.splitlines()\<close>.\<close>

definition is_line_break :: "char \<Rightarrow> bool" where
  "is_line_break c \<longleftrightarrow> (of_char c :: nat) \<in> {10, 11, 12, 13, 28, 29, 30}"

fun lines_from :: "string \<Rightarrow> string \<Rightarrow> string list" where
  "lines_from cur [] = (if cur = [] then [] else [cur])"
| "lines_from cur (c # cs) =
     (if is_line_break c
      then cur # (case cs of
                    [] \<Rightarrow> []
                  | d # ds \<Rightarrow> if c = CHR 0x0D \<and> d = CHR 0x0A then lines_from [] ds else lines_from [] (d # ds))
      else lines_from (cur @ [c]) cs)"

definition splitlines :: "string \<Rightarrow> string list" where
  "splitlines text = lines_from [] text"

text \<open>\<open>int(s, 16)\<close>: white space around it, a sign, a \<open>0x\<close> prefix, single underscores between digits.\<close>

definition hex_val :: "char \<Rightarrow> nat option" where
  "hex_val c = (let n = (of_char c :: nat) in
     if 48 \<le> n \<and> n \<le> 57 then Some (n - 48)
     else if 97 \<le> n \<and> n \<le> 102 then Some (n - 87)
     else if 65 \<le> n \<and> n \<le> 70 then Some (n - 55) else None)"

definition hex_digits_val :: "string \<Rightarrow> nat" where
  "hex_digits_val s = foldl (\<lambda>n c. n * 16 + the (hex_val c)) 0 s"

definition int16 :: "string \<Rightarrow> int option" where
  "int16 s =
     (let t = py_strip s;
          neg = starts_with ''-'' t;
          u = (if neg \<or> starts_with ''+'' t then drop 1 t else t);
          v = (if starts_with ''0x'' u \<or> starts_with ''0X'' u
               then (if starts_with ''_'' (drop 2 u) then drop 3 u else drop 2 u) else u);
          parts = split_on (CHR ''_'') v
      in if \<forall>p\<in>set parts. p \<noteq> [] \<and> (\<forall>c\<in>set p. hex_val c \<noteq> None)
         then Some ((if neg then - 1 else 1) * int (hex_digits_val (concat parts))) else None)"

text \<open>\<open>bytearray.fromhex(s)\<close>, \<open>None\<close> for its \<open>ValueError\<close>, and \<open>bytes.hex().upper()\<close>.\<close>

definition is_bytes_ws :: "char \<Rightarrow> bool" where
  "is_bytes_ws c \<longleftrightarrow> (of_char c :: nat) \<in> {9, 10, 11, 12, 13, 32}"

fun fromhex :: "string \<Rightarrow> 8 word list option" where
  "fromhex [] = Some []"
| "fromhex (c # cs) =
     (if is_bytes_ws c then fromhex cs
      else case cs of
             [] \<Rightarrow> None
           | d # ds \<Rightarrow>
               (case (hex_val c, hex_val d) of
                  (Some h, Some l) \<Rightarrow> map_option (\<lambda>bs. of_nat (h * 16 + l) # bs) (fromhex ds)
                | _ \<Rightarrow> None))"

definition upper_digit :: "nat \<Rightarrow> char" where
  "upper_digit d = (if d < 10 then char_of (48 + d) else char_of (55 + d))"

definition hex2 :: "8 word \<Rightarrow> string" where
  "hex2 b = [upper_digit (unat b div 16), upper_digit (unat b mod 16)]"

definition tohex :: "8 word list \<Rightarrow> string" where
  "tohex bs = concat (map hex2 bs)"

subsection \<open>The module\<close>

definition BLOCK_START :: int where "BLOCK_START = 0x0A"
definition BLOCK_END :: int where "BLOCK_END = 0x0B"
definition PADDED_DATA :: int where "PADDED_DATA = 0x0C"
definition CUSTOM_DATA :: int where "CUSTOM_DATA = 0x0D"
definition OTHER_DATA :: int where "OTHER_DATA = 0x0E"
definition DATA :: int where "DATA = 0"
definition EOF :: int where "EOF = 1"
definition EXT_LINEAR_ADDR :: int where "EXT_LINEAR_ADDR = 4"

lemmas record_types = BLOCK_START_def BLOCK_END_def PADDED_DATA_def CUSTOM_DATA_def OTHER_DATA_def
  DATA_def EOF_def EXT_LINEAR_ADDR_def

definition V1_BOARD_IDS :: "int list" where "V1_BOARD_IDS = [0x9900, 0x9901]"
definition V2_BOARD_IDS :: "int list" where "V2_BOARD_IDS = [0x9903, 0x9904, 0x9905, 0x9906]"

text \<open>\<open>UniversalHexError\<close> for an unknown target and for a file without an image for it, and the other
  exceptions that malformed records raise.\<close>

datatype hex_error = UnknownTarget | NoImage "int list" | PlainValueError | PlainIndexError

definition record_type :: "string \<Rightarrow> int option" where
  "record_type line =
     (let l = py_strip line in
      if \<not> starts_with '':'' l \<or> length l < 11 then None else int16 (take 2 (drop 7 l)))"

definition is_universal_hex :: "string \<Rightarrow> bool" where
  "is_universal_hex text \<longleftrightarrow> (\<exists>line\<in>set (splitlines text). record_type line = Some BLOCK_START)"

definition board_ids_for_mcu :: "string \<Rightarrow> hex_error + int list" where
  "board_ids_for_mcu target_mcu =
     (let mcu = str_lower target_mcu in
      if starts_with ''nrf51'' mcu then Inr V1_BOARD_IDS
      else if starts_with ''nrf52'' mcu then Inr V2_BOARD_IDS
      else Inl UnknownTarget)"

definition checksum :: "8 word list \<Rightarrow> 8 word" where
  "checksum raw = word_of_int ((- sum_list (map uint raw)) mod 256)"

definition retype :: "string \<Rightarrow> 8 word \<Rightarrow> hex_error + string" where
  "retype line new_type =
     (let l = py_strip line in
      case fromhex (take (length l - 3) (drop 1 l)) of
        None \<Rightarrow> Inl PlainValueError
      | Some raw \<Rightarrow>
          if length raw \<le> 3 then Inl PlainIndexError
          else let raw = raw[3 := new_type]
               in Inr ('':'' @ tohex raw @ hex2 (checksum raw)))"

type_synonym block = "int option \<times> string list"

fun block_loop :: "string list \<Rightarrow> int option \<Rightarrow> string list \<Rightarrow> block list \<Rightarrow> hex_error + block list" where
  "block_loop [] current_id current blocks = Inr (blocks @ [(current_id, current)])"
| "block_loop (line # lines) current_id current blocks =
     (if record_type line = Some BLOCK_START
      then let carry = (current \<noteq> [] \<and> record_type (last current) = Some EXT_LINEAR_ADDR);
               carried = (if carry then [last current] else []);
               current = (if carry then butlast current else current)
           in case int16 (take 4 (drop 9 line)) of
                None \<Rightarrow> Inl PlainValueError
              | Some bid \<Rightarrow> block_loop lines (Some bid) carried (blocks @ [(current_id, current)])
      else block_loop lines current_id (current @ [line]) blocks)"

fun emit_block :: "string list \<Rightarrow> string list \<Rightarrow> hex_error + string list" where
  "emit_block [] out = Inr out"
| "emit_block (line # lines) out =
     (let rtype = record_type line in
      if rtype = Some CUSTOM_DATA
      then (case retype line 0 of Inl e \<Rightarrow> Inl e | Inr l \<Rightarrow> emit_block lines (out @ [l]))
      else if rtype \<in> {Some BLOCK_END, Some PADDED_DATA, Some OTHER_DATA, Some EOF, None}
      then emit_block lines out
      else emit_block lines (out @ [line]))"

fun emit_blocks :: "int list \<Rightarrow> block list \<Rightarrow> string list \<Rightarrow> hex_error + string list" where
  "emit_blocks wanted [] out = Inr out"
| "emit_blocks wanted ((board_id, lines) # blocks) out =
     (if board_id \<notin> Some ` set wanted then emit_blocks wanted blocks out
      else case emit_block lines out of Inl e \<Rightarrow> Inl e | Inr out' \<Rightarrow> emit_blocks wanted blocks out')"

definition EOF_RECORD :: string where "EOF_RECORD = '':00000001FF''"

definition extract_for_mcu :: "string \<Rightarrow> string \<Rightarrow> hex_error + string" where
  "extract_for_mcu text target_mcu =
     (case board_ids_for_mcu target_mcu of Inl e \<Rightarrow> Inl e | Inr wanted \<Rightarrow>
     (let lines = map py_strip (filter (\<lambda>l. py_strip l \<noteq> []) (splitlines text)) in
      case block_loop lines None [] [] of Inl e \<Rightarrow> Inl e | Inr blocks \<Rightarrow>
     (let found = sort (remdups (List.map_filter fst blocks)) in
      case emit_blocks wanted blocks [] of Inl e \<Rightarrow> Inl e | Inr out \<Rightarrow>
        if \<not> (\<exists>line\<in>set out. record_type line = Some DATA) then Inl (NoImage found)
        else Inr (join_with newline (out @ [EOF_RECORD]) @ [newline]))))"

definition normalized_text :: "string option \<Rightarrow> string \<Rightarrow> hex_error + string option" where
  "normalized_text file target_mcu =
     (case file of
        None \<Rightarrow> Inr None
      | Some text \<Rightarrow>
          if \<not> is_universal_hex text then Inr (Some text)
          else (case extract_for_mcu text target_mcu of Inl e \<Rightarrow> Inl e | Inr t \<Rightarrow> Inr (Some t)))"

subsection \<open>Digits, bytes and records\<close>

lemma hex_val_upper [simp]: "d < 16 \<Longrightarrow> hex_val (upper_digit d) = Some d"
  by (auto simp: hex_val_def upper_digit_def Let_def of_char_of)

lemma upper_digit_code: "d < 16 \<Longrightarrow> (of_char (upper_digit d) :: nat) = (if d < 10 then 48 + d else 55 + d)"
  by (simp add: upper_digit_def of_char_of)

definition hexish :: "char \<Rightarrow> bool" where
  "hexish c \<longleftrightarrow> (\<exists>d<16. c = upper_digit d)"

lemma hexish_plain:
  assumes "hexish c"
  shows "\<not> is_space_char c" "\<not> is_bytes_ws c" "\<not> is_line_break c" "c \<noteq> CHR ''-''" "c \<noteq> CHR ''+''"
    "c \<noteq> CHR ''x''" "c \<noteq> CHR ''X''" "c \<noteq> CHR ''_''" "hex_val c \<noteq> None"
proof -
  obtain d where d: "d < 16" "c = upper_digit d" using assms by (auto simp: hexish_def)
  then have n: "(of_char c :: nat) = (if d < 10 then 48 + d else 55 + d)" by (simp add: upper_digit_code)
  show "\<not> is_space_char c" "\<not> is_bytes_ws c" "\<not> is_line_break c"
    using n d(1) by (auto simp: is_space_char_def is_bytes_ws_def is_line_break_def split: if_splits)
  show "c \<noteq> CHR ''-''" "c \<noteq> CHR ''+''" "c \<noteq> CHR ''x''" "c \<noteq> CHR ''X''" "c \<noteq> CHR ''_''"
    using n d(1) by (auto split: if_splits)
  show "hex_val c \<noteq> None" using d by simp
qed

lemma nibbles: "unat (b :: 8 word) div 16 < 16" "unat b mod 16 < 16"
proof -
  have "unat b < 256" using unsigned_less [of b, where 'a = nat] by simp
  then show "unat b div 16 < 16" by simp
qed simp

lemma hex2_hexish: "c \<in> set (hex2 b) \<Longrightarrow> hexish c"
proof -
  show "c \<in> set (hex2 b) \<Longrightarrow> hexish c" 
    unfolding hex2_def hexish_def using nibbles [of b] by (simp only: list.set insert_iff empty_iff) blast
qed

lemma tohex_hexish: "c \<in> set (tohex bs) \<Longrightarrow> hexish c"
  using hex2_hexish by (auto simp: tohex_def)

lemma length_tohex [simp]: "length (tohex bs) = 2 * length bs"
  by (induction bs) (simp_all add: tohex_def hex2_def)

lemma tohex_Cons [simp]: "tohex (b # bs) = hex2 b @ tohex bs" and tohex_Nil [simp]: "tohex [] = []"
  by (simp_all add: tohex_def)

lemma fromhex_hex2: "fromhex (hex2 b @ s) = map_option ((#) b) (fromhex s)"
proof -
  have lt: "unat b div 16 < 16" "unat b mod 16 < 16" by (rule nibbles)+
  have ws: "\<not> is_bytes_ws (upper_digit (unat b div 16))"
    using hexish_plain(2) lt(1) by (auto simp: hexish_def)
  have "word_of_nat (unat b div 16) * 16 + word_of_nat (unat b mod 16)
      = (of_nat (unat b div 16 * 16 + unat b mod 16) :: 8 word)"
    by (simp only: of_nat_add of_nat_mult of_nat_numeral)
  also have "\<dots> = b" by (simp only: div_mult_mod_eq) simp
  finally have byte: "word_of_nat (unat b div 16) * 16 + word_of_nat (unat b mod 16) = b" .
  show ?thesis using ws lt by (simp add: hex2_def byte)
qed

lemma fromhex_tohex [simp]: "fromhex (tohex bs) = Some bs"
  by (induction bs) (simp_all add: fromhex_hex2)

lemma int16_digits:
  assumes "s \<noteq> []" and "\<forall>c\<in>set s. hexish c"
  shows "int16 s = Some (int (hex_digits_val s))"
proof -
  have strip: "py_strip s = s" using assms(2) hexish_plain(1) by (intro strip_if_none) blast
  have nosign: "\<not> starts_with ''-'' s" "\<not> starts_with ''+'' s"
    using assms hexish_plain(4,5) by (cases s; auto simp: starts_with_def)+
  have noprefix: "\<not> starts_with ''0x'' s" "\<not> starts_with ''0X'' s"
    using assms(2) hexish_plain(6,7)
    by (cases s; cases "tl s"; auto simp: starts_with_def)+
  have "CHR ''_'' \<notin> set s" using assms(2) hexish_plain(8) by blast
  then have parts: "split_on (CHR ''_'') s = [s]" by (rule split_on_no_sep)
  have ok: "\<forall>c\<in>set s. \<exists>y. hex_val c = Some y" using assms(2) hexish_plain(9) by auto
  show ?thesis
    using assms(1) ok by (simp add: int16_def strip nosign noprefix parts Let_def)
qed

lemma int16_hex2 [simp]: "int16 (hex2 b) = Some (uint b)"
proof -
  have lt: "unat b div 16 < 16" "unat b mod 16 < 16" by (rule nibbles)+
  have "int16 (hex2 b) = Some (int (hex_digits_val (hex2 b)))"
    by (rule int16_digits) (simp_all add: hex2_hexish, simp add: hex2_def)
  also have "hex_digits_val (hex2 b) = unat b" using lt by (simp add: hex_digits_val_def hex2_def)
  finally show ?thesis by simp
qed

lemma int16_hex2_hex2: "int16 (hex2 a @ hex2 b) = Some (uint a * 256 + uint b)"
proof -
  have lt: "unat a div 16 < 16" "unat a mod 16 < 16" "unat b div 16 < 16" "unat b mod 16 < 16"
    by (rule nibbles)+
  have "int16 (hex2 a @ hex2 b) = Some (int (hex_digits_val (hex2 a @ hex2 b)))"
    by (rule int16_digits) (auto simp: hex2_hexish, simp add: hex2_def)
  also have "hex_digits_val (hex2 a @ hex2 b) = unat a * 256 + unat b"
    using lt div_mult_mod_eq [of "unat a" 16] div_mult_mod_eq [of "unat b" 16]
    by (simp add: hex_digits_val_def hex2_def)
  finally show ?thesis by simp
qed

text \<open>A record with the checksum it must carry.\<close>

definition hex_line :: "8 word list \<Rightarrow> string" where
  "hex_line bs = '':'' @ tohex bs @ hex2 (checksum bs)"

lemma hex_line_plain: "c \<in> set (hex_line bs) \<Longrightarrow> \<not> is_space_char c \<and> \<not> is_line_break c"
  using tohex_hexish hex2_hexish hexish_plain(1,3)
  by (auto simp: hex_line_def is_space_char_def is_line_break_def)

lemma hex_line_strip [simp]: "py_strip (hex_line bs) = hex_line bs"
  using hex_line_plain by (intro strip_if_none) blast

lemma hex_line_not_Nil [simp]: "hex_line bs \<noteq> []"
  by (simp add: hex_line_def)

lemma bytes4:
  assumes "4 \<le> length bs"
  obtains a b c t ds where "bs = a # b # c # t # ds"
  using assms by (auto simp: Suc_le_length_iff numeral_eq_Suc)

lemma record_type_hex_line:
  assumes "4 \<le> length bs"
  shows "record_type (hex_line bs) = Some (uint (bs ! 3))"
proof -
  obtain a b c t ds where bs: "bs = a # b # c # t # ds" by (rule bytes4 [OF assms])
  have "take 2 (drop 7 (hex_line bs)) = hex2 t" by (simp add: hex_line_def bs hex2_def)
  moreover have "\<not> length (hex_line bs) < 11" by (simp add: hex_line_def bs hex2_def)
  moreover have "starts_with '':'' (hex_line bs)" by (simp add: hex_line_def starts_with_def)
  ultimately show ?thesis by (simp add: record_type_def Let_def bs)
qed

lemma retype_hex_line:
  assumes "4 \<le> length bs"
  shows "retype (hex_line bs) t = Inr (hex_line (bs[3 := t]))"
proof -
  have "take (length (hex_line bs) - 3) (drop 1 (hex_line bs)) = tohex bs"
    by (simp add: hex_line_def hex2_def)
  then show ?thesis using assms by (simp add: retype_def Let_def) (simp add: hex_line_def)
qed

text \<open>What the checksum is for: the bytes of a record with it sum to zero.\<close>

lemma checksum_sums_to_zero: "sum_list bs + checksum bs = 0"
proof -
  have "(word_of_int (x mod 256) :: 8 word) = word_of_int x" for x
    by (simp add: word_of_int_eq_iff take_bit_eq_mod)
  then have "checksum bs = - word_of_int (sum_list (map uint bs))" by (simp add: checksum_def)
  also have "(word_of_int (sum_list (map uint bs)) :: 8 word) = sum_list bs"
    by (induction bs) simp_all
  finally show ?thesis by simp
qed

subsection \<open>Lines\<close>

lemma lines_from_plain:
  "\<forall>c\<in>set l. \<not> is_line_break c \<Longrightarrow> lines_from cur (l @ s) = lines_from (cur @ l) s"
  by (induction l arbitrary: cur) simp_all

lemma newline_break [simp]: "is_line_break newline" "newline \<noteq> CHR 0x0D"
  by (simp_all add: is_line_break_def newline_def)

lemma lines_from_newline: "lines_from cur (newline # s) = cur # lines_from [] s"
  by (cases s) simp_all

text \<open>\<open>"\\n".join(lines) + "\\n"\<close> splits back into its lines.\<close>

lemma splitlines_join:
  assumes "ls \<noteq> []" and "\<forall>l\<in>set ls. \<forall>c\<in>set l. \<not> is_line_break c"
  shows "splitlines (join_with newline ls @ [newline]) = ls"
proof -
  have "lines_from [] (join_with newline ls @ [newline]) = ls"
    using assms
  proof (induction newline ls rule: join_with.induct)
    case (2 w)
    then show ?case by (simp add: lines_from_plain lines_from_newline [of _ "[]"] del: lines_from.simps(2))
  next
    case (3 w v ws)
    then show ?case by (simp add: lines_from_plain lines_from_newline del: lines_from.simps(2))
  qed simp
  then show ?thesis by (simp add: splitlines_def)
qed

lemma hex_lines_of_text:
  assumes "ls \<noteq> []" and "\<forall>l\<in>set ls. \<exists>bs. l = hex_line bs"
  shows "map py_strip (filter (\<lambda>l. py_strip l \<noteq> []) (splitlines (join_with newline ls @ [newline]))) = ls"
proof -
  have "\<forall>l\<in>set ls. \<forall>c\<in>set l. \<not> is_line_break c"
  proof (intro ballI)
    fix l c assume "l \<in> set ls" "c \<in> set l"
    then obtain bs where "l = hex_line bs" using assms(2) by blast
    then show "\<not> is_line_break c" using \<open>c \<in> set l\<close> hex_line_plain by simp
  qed
  then have "splitlines (join_with newline ls @ [newline]) = ls" by (rule splitlines_join [OF assms(1)])
  moreover have plain: "py_strip l = l \<and> py_strip l \<noteq> []" if mem: "l \<in> set ls" for l
  proof -
    obtain bs where l: "l = hex_line bs" using assms(2) mem by blast
    show ?thesis unfolding l hex_line_strip using hex_line_not_Nil by blast
  qed
  moreover have "filter (\<lambda>l. py_strip l \<noteq> []) ls = ls" unfolding filter_id_conv using plain by blast
  moreover have "map py_strip ls = ls" by (rule map_idI) (use plain in blast)
  ultimately show ?thesis by (simp only:)
qed

subsection \<open>Building a Universal Hex\<close>

text \<open>The image of one board: its two-byte board id, the upper address bytes, and its data records (two
  address bytes and the bytes). \<open>universal_lines\<close> is its block of a Universal Hex, in the layout of the
  specification (the extended address record, then the block start that carries the id, the data as
  custom-data records, the block end); \<open>plain_lines\<close> is the same image as plain Intel hex.\<close>

record board_image =
  im_id :: "8 word \<times> 8 word"
  im_ext :: "8 word \<times> 8 word"
  im_records :: "((8 word \<times> 8 word) \<times> 8 word list) list"

definition board_id_of :: "board_image \<Rightarrow> int" where
  "board_id_of im = uint (fst (im_id im)) * 256 + uint (snd (im_id im))"

definition data_record :: "8 word \<Rightarrow> (8 word \<times> 8 word) \<times> 8 word list \<Rightarrow> string" where
  "data_record ty r = hex_line ([of_nat (length (snd r)), fst (fst r), snd (fst r), ty] @ snd r)"

definition ext_record :: "board_image \<Rightarrow> string" where
  "ext_record im = hex_line [2, 0, 0, 4, fst (im_ext im), snd (im_ext im)]"

definition universal_lines :: "board_image \<Rightarrow> string list" where
  "universal_lines im = [ext_record im, hex_line [4, 0, 0, 0x0A, fst (im_id im), snd (im_id im), 0xC0, 0xDE]]
     @ map (data_record 0x0D) (im_records im) @ [hex_line [0, 0, 0, 0x0B]]"

definition plain_lines :: "board_image \<Rightarrow> string list" where
  "plain_lines im = ext_record im # map (data_record 0) (im_records im)"

definition unlines :: "string list \<Rightarrow> string" where
  "unlines ls = join_with newline ls @ [newline]"

definition universal_hex :: "board_image list \<Rightarrow> string" where
  "universal_hex ims = unlines (concat (map universal_lines ims) @ [EOF_RECORD])"

definition block_body :: "board_image \<Rightarrow> string list" where
  "block_body im = ext_record im # map (data_record 0x0D) (im_records im) @ [hex_line [0, 0, 0, 0x0B]]"

fun blocks_of :: "int option \<Rightarrow> string list \<Rightarrow> board_image list \<Rightarrow> block list" where
  "blocks_of cid current [] = [(cid, current @ [EOF_RECORD])]"
| "blocks_of cid current (im # ims) = (cid, current) # blocks_of (Some (board_id_of im)) (block_body im) ims"

lemma EOF_hex_line: "EOF_RECORD = hex_line [0, 0, 0, 1]"
  by code_simp

lemma record_type_simps [simp]:
  "record_type EOF_RECORD = Some EOF" "record_type (ext_record im) = Some EXT_LINEAR_ADDR"
  "record_type (data_record ty r) = Some (uint ty)" "record_type (hex_line [0, 0, 0, 0x0B]) = Some BLOCK_END"
  "record_type (hex_line [4, 0, 0, 0x0A, a, b, c, d]) = Some BLOCK_START"
  by (simp_all add: EOF_hex_line ext_record_def data_record_def record_type_hex_line record_types)

lemma block_loop_records:
  "\<forall>l\<in>set ls. record_type l \<noteq> Some BLOCK_START
     \<Longrightarrow> block_loop (ls @ rest) cid cur blocks = block_loop rest cid (cur @ ls) blocks"
  by (induction ls arbitrary: cur) simp_all

lemma block_loop_image:
  "block_loop (universal_lines im @ rest) cid cur blocks
     = block_loop rest (Some (board_id_of im)) (block_body im) (blocks @ [(cid, cur)])"
proof -
  let ?start = "hex_line [4, 0, 0, 0x0A, fst (im_id im), snd (im_id im), 0xC0, 0xDE]"
  have "take 4 (drop 9 ?start) = hex2 (fst (im_id im)) @ hex2 (snd (im_id im))"
    by (simp add: hex_line_def hex2_def)
  then have id: "int16 (take 4 (drop 9 ?start)) = Some (board_id_of im)"
    by (simp only: int16_hex2_hex2 board_id_of_def)
  have data: "\<forall>l\<in>set (map (data_record 0x0D) (im_records im) @ [hex_line [0, 0, 0, 0x0B]]).
      record_type l \<noteq> Some BLOCK_START"
    by (auto simp: record_types)
  have "block_loop (universal_lines im @ rest) cid cur blocks
      = block_loop (map (data_record 0x0D) (im_records im) @ [hex_line [0, 0, 0, 0x0B]] @ rest)
          (Some (board_id_of im)) [ext_record im] (blocks @ [(cid, cur)])"
    using id by (simp add: universal_lines_def) (simp add: record_types)
  then show ?thesis
    using block_loop_records [OF data, of rest] by (simp add: block_body_def)
qed

lemma block_loop_universal:
  "block_loop (concat (map universal_lines ims) @ [EOF_RECORD]) cid cur blocks = Inr (blocks @ blocks_of cid cur ims)"
  by (induction ims arbitrary: cid cur blocks) (simp_all add: block_loop_image, simp add: record_types)

lemma retype_data: "retype (data_record ty r) 0 = Inr (data_record 0 r)"
  by (simp add: data_record_def retype_hex_line)

lemma emit_block_data:
  "emit_block (map (data_record 0x0D) rs @ ls) out = emit_block ls (out @ map (data_record 0) rs)"
  by (induction rs arbitrary: out) (simp_all add: retype_data record_types)

lemma emit_block_body:
  "emit_block (block_body im) out = Inr (out @ plain_lines im)"
  "emit_block (block_body im @ [EOF_RECORD]) out = Inr (out @ plain_lines im)"
proof -
  have "emit_block (ext_record im # ls) out = emit_block ls (out @ [ext_record im])" for ls
    by (simp add: record_types)
  moreover have "emit_block [hex_line [0, 0, 0, 0x0B]] out = Inr out"
    "emit_block [hex_line [0, 0, 0, 0x0B], EOF_RECORD] out = Inr out" for out
    by (simp_all add: record_types)
  ultimately show "emit_block (block_body im) out = Inr (out @ plain_lines im)"
    "emit_block (block_body im @ [EOF_RECORD]) out = Inr (out @ plain_lines im)"
    by (simp_all add: block_body_def plain_lines_def emit_block_data)
qed

definition picked :: "int list \<Rightarrow> board_image list \<Rightarrow> string list" where
  "picked wanted ims = concat (map plain_lines (filter (\<lambda>im. board_id_of im \<in> set wanted) ims))"

lemma emit_blocks_of:
  "emit_blocks wanted (blocks_of (Some (board_id_of im)) (block_body im) ims) out
     = Inr (out @ picked wanted (im # ims))"
proof (induction ims arbitrary: im out)
  case Nil
  then show ?case by (auto simp: emit_block_body picked_def image_iff)
next
  case (Cons im2 ims)
  show ?case using Cons.IH [of im2] by (auto simp: emit_block_body picked_def image_iff)
qed

lemma emit_blocks_universal: "emit_blocks wanted (blocks_of None [] ims) [] = Inr (picked wanted ims)"
  using emit_blocks_of [of wanted "hd ims" "tl ims" "[]"]
  by (cases ims) (simp_all add: picked_def image_iff)

lemma found_universal: "List.map_filter fst (blocks_of cid cur ims)
    = (case cid of None \<Rightarrow> [] | Some i \<Rightarrow> [i]) @ map board_id_of ims"
  by (induction ims arbitrary: cid cur) (simp_all add: List.map_filter_simps split: option.split)

subsection \<open>Properties\<close>

lemma universal_lines_records: "l \<in> set (universal_lines im) \<Longrightarrow> \<exists>bs. l = hex_line bs"
  by (auto simp: universal_lines_def ext_record_def data_record_def)

lemma universal_text:
  "map py_strip (filter (\<lambda>l. py_strip l \<noteq> []) (splitlines (universal_hex ims)))
     = concat (map universal_lines ims) @ [EOF_RECORD]"
  unfolding universal_hex_def unlines_def
proof (rule hex_lines_of_text)
  show "\<forall>l\<in>set (concat (map universal_lines ims) @ [EOF_RECORD]). \<exists>bs. l = hex_line bs"
    using universal_lines_records EOF_hex_line by auto
qed simp

lemma picked_has_data:
  "(\<exists>l\<in>set (picked wanted ims). record_type l = Some DATA)
     \<longleftrightarrow> (\<exists>im\<in>set ims. board_id_of im \<in> set wanted \<and> im_records im \<noteq> [])"
proof -
  have "(\<exists>l\<in>set (plain_lines im). record_type l = Some DATA) \<longleftrightarrow> im_records im \<noteq> []" for im
    by (cases "im_records im") (auto simp: plain_lines_def record_types)
  then show ?thesis by (auto simp: picked_def)
qed


text \<open>The lines of a text hold no line break, and neither does what the extraction makes of them.\<close>

lemma lines_from_no_break:
  "\<forall>c\<in>set cur. \<not> is_line_break c \<Longrightarrow> l \<in> set (lines_from cur s) \<Longrightarrow> c \<in> set l \<Longrightarrow> \<not> is_line_break c"
proof (induction cur s arbitrary: l rule: lines_from.induct)
  case (2 cur b cs)
  show ?case
  proof (cases "is_line_break b")
    case False
    then show ?thesis using 2(3) [OF False, of l] 2(4,5,6) by simp
  next
    case True
    show ?thesis
    proof (cases cs)
      case Nil
      then show ?thesis using 2(4-6) True by simp
    next
      case (Cons d ds)
      note IH = 2(1,2) [OF True Cons] and facts = 2(4,6)
      let ?crlf = "b = CHR 0x0D \<and> d = CHR 0x0A"
      have eq: "lines_from cur (b # cs) = cur # (if ?crlf then lines_from [] ds else lines_from [] (d # ds))"
        unfolding Cons by (subst lines_from.simps(2)) (simp only: True if_True list.case)
      show ?thesis
      proof (cases ?crlf)
        case yes: True
        have "l = cur \<or> l \<in> set (lines_from [] ds)" using 2(5) unfolding eq if_P [OF yes] by (rule set_ConsD)
        then show ?thesis using IH(1) [OF yes _ _ facts(2)] facts by auto
      next
        case no: False
        have "l = cur \<or> l \<in> set (lines_from [] (d # ds))" using 2(5) unfolding eq if_not_P [OF no] by (rule set_ConsD)
        then show ?thesis using IH(2) [OF no _ _ facts(2)] facts by (auto simp del: lines_from.simps)
      qed
    qed
  qed
qed (auto split: if_splits)

lemma lines_no_break: "l \<in> set (splitlines s) \<Longrightarrow> c \<in> set (py_strip l) \<Longrightarrow> \<not> is_line_break c"
  unfolding splitlines_def using lines_from_no_break [of "[]" l s c] set_strip_if [of is_space_char l] by auto

lemma block_loop_lines:
  assumes "block_loop lines cid cur blocks = Inr bs"
    and "\<forall>l\<in>set cur. P l \<and> record_type l \<noteq> Some BLOCK_START"
    and "\<forall>b\<in>set blocks. \<forall>l\<in>set (snd b). P l \<and> record_type l \<noteq> Some BLOCK_START"
    and "\<forall>l\<in>set lines. P l" and "b \<in> set bs" and "l \<in> set (snd b)"
  shows "P l \<and> record_type l \<noteq> Some BLOCK_START"
  using assms
proof (induction lines cid cur blocks rule: block_loop.induct)
  case (2 line lines cid cur blocks)
  show ?case
  proof (cases "record_type line = Some BLOCK_START")
    case False
    then show ?thesis using 2(2) 2(3-) by auto
  next
    case True
    let ?carry = "cur \<noteq> [] \<and> record_type (last cur) = Some EXT_LINEAR_ADDR"
    let ?carried = "if ?carry then [last cur] else []" and ?cur = "if ?carry then butlast cur else cur"
    obtain bid where bid: "int16 (take 4 (drop 9 line)) = Some bid"
      "block_loop lines (Some bid) ?carried (blocks @ [(cid, ?cur)]) = Inr bs"
      using 2(3) True by (auto simp: Let_def split: option.splits)
    have "set ?carried \<subseteq> set cur" "set ?cur \<subseteq> set cur" by (auto dest: in_set_butlastD)
    then have "\<forall>l\<in>set ?carried. P l \<and> record_type l \<noteq> Some BLOCK_START"
      "\<forall>b\<in>set (blocks @ [(cid, ?cur)]). \<forall>l\<in>set (snd b). P l \<and> record_type l \<noteq> Some BLOCK_START"
      using 2(4,5) by auto
    then show ?thesis using 2(1) [OF True refl refl refl bid(1)] bid(2) 2(6-) by simp
  qed
qed auto

definition recomputed :: "string \<Rightarrow> bool" where
  "recomputed l \<longleftrightarrow> (\<exists>raw. 4 \<le> length raw \<and> raw ! 3 = 0 \<and> l = hex_line raw)"

lemma retype_recomputed: "retype line 0 = Inr l \<Longrightarrow> recomputed l"
  unfolding retype_def recomputed_def hex_line_def
  by (auto simp: Let_def split: option.splits if_splits intro!: exI [of _ "_[3 := 0]"])

lemma emit_block_lines:
  "emit_block lines out = Inr out' \<Longrightarrow> l \<in> set out' \<Longrightarrow> l \<in> set out \<or> l \<in> set lines \<or> recomputed l"
  by (induction lines out rule: emit_block.induct)
     (auto simp: Let_def split: if_splits sum.splits dest: retype_recomputed)

lemma emit_blocks_lines:
  "emit_blocks wanted blocks out = Inr out' \<Longrightarrow> l \<in> set out'
     \<Longrightarrow> l \<in> set out \<or> l \<in> \<Union>(set ` snd ` set blocks) \<or> recomputed l"
  by (induction wanted blocks out rule: emit_blocks.induct)
     (auto split: if_splits sum.splits dest!: emit_block_lines)

lemma recomputed_type: "recomputed l \<Longrightarrow> record_type l = Some DATA"
  by (auto simp: recomputed_def record_type_hex_line record_types)

lemma recomputed_no_break: "recomputed l \<Longrightarrow> c \<in> set l \<Longrightarrow> \<not> is_line_break c"
  using hex_line_plain by (auto simp: recomputed_def)

text \<open>Whatever text it was extracted from, the result is a plain Intel hex: its lines are lines of the
  source or data records whose checksum was recomputed, at least one of them is a data record, the last
  is the end-of-file record, none starts a Universal Hex block (so extracting again is never tried), and
  a recomputed record's bytes and checksum sum to zero.\<close>

theorem extracted_hex_is_plain:
  assumes "extract_for_mcu text mcu = Inr out"
  shows "\<exists>ls. out = unlines (ls @ [EOF_RECORD]) \<and> splitlines out = ls @ [EOF_RECORD]
     \<and> (\<exists>l\<in>set ls. record_type l = Some DATA)
     \<and> (\<forall>l\<in>set ls. l \<in> py_strip ` set (splitlines text)
          \<or> (\<exists>raw. l = '':'' @ tohex raw @ hex2 (checksum raw) \<and> sum_list raw + checksum raw = 0))
     \<and> \<not> is_universal_hex out"
proof -
  let ?lines = "map py_strip (filter (\<lambda>l. py_strip l \<noteq> []) (splitlines text))"
  let ?P = "\<lambda>l. l \<in> py_strip ` set (splitlines text)"
  obtain wanted blocks ls where ok: "block_loop ?lines None [] [] = Inr blocks"
    "emit_blocks wanted blocks [] = Inr ls" "\<exists>l\<in>set ls. record_type l = Some DATA"
    "out = unlines (ls @ [EOF_RECORD])"
    using assms by (auto simp: extract_for_mcu_def Let_def unlines_def split: sum.splits if_splits)
  have src: "?P l \<and> record_type l \<noteq> Some BLOCK_START" if "b \<in> set blocks" "l \<in> set (snd b)" for b l
    by (rule block_loop_lines [OF ok(1) _ _ _ that]) auto
  have line: "?P l \<and> record_type l \<noteq> Some BLOCK_START \<or> recomputed l" if "l \<in> set ls" for l
    using emit_blocks_lines [OF ok(2) that] src by auto
  have src_nb: "\<not> is_line_break c" if "?P l" "c \<in> set l" for l c
    using that lines_no_break by (elim imageE) simp
  have nb1: "\<not> is_line_break c" if "l \<in> set ls" "c \<in> set l" for l c
    using line [OF that(1)] src_nb that(2) recomputed_no_break by blast
  have nb2: "\<not> is_line_break c" if "c \<in> set EOF_RECORD" for c
    using that hex_line_plain unfolding EOF_hex_line by blast
  have nb: "\<forall>l\<in>set (ls @ [EOF_RECORD]). \<forall>c\<in>set l. \<not> is_line_break c"
    unfolding set_append list.set using nb1 nb2 by blast
  have split_out: "splitlines out = ls @ [EOF_RECORD]"
    unfolding ok(4) unlines_def by (rule splitlines_join [OF _ nb]) simp
  have "record_type l \<noteq> Some BLOCK_START" if "l \<in> set ls" for l
    using line [OF that] recomputed_type [of l] by (auto simp: record_types)
  then have "\<not> is_universal_hex out"
    unfolding is_universal_hex_def split_out by (auto simp: EOF_def BLOCK_START_def)
  moreover have "?P l \<or> (\<exists>raw. l = '':'' @ tohex raw @ hex2 (checksum raw) \<and> sum_list raw + checksum raw = 0)"
    if "l \<in> set ls" for l
    using line [OF that] checksum_sums_to_zero by (auto simp: recomputed_def hex_line_def)
  ultimately show ?thesis using ok(3,4) split_out by blast
qed

text \<open>A Universal Hex made of one V1 and one V2 image.\<close>

definition demo_images :: "board_image list" where
  "demo_images = [\<lparr>im_id = (0x99, 0x00), im_ext = (0, 0), im_records = [((0, 0), [1, 2])]\<rparr>,
                  \<lparr>im_id = (0x99, 0x03), im_ext = (0, 0), im_records = [((0, 0x10), [0xAB])]\<rparr>]"

theorem extracted_hex_is_plain_witness:
  "\<exists>out. extract_for_mcu (universal_hex demo_images) ''nrf52833'' = Inr out \<and> \<not> is_universal_hex out
     \<and> hd (splitlines out) = '':020000040000FA''"
proof -
  have b: "board_ids_for_mcu ''nrf52833'' = Inr V2_BOARD_IDS" by code_simp
  let ?ims = "filter (\<lambda>im. board_id_of im \<in> set V2_BOARD_IDS) demo_images"
  have one: "?ims = [\<lparr>im_id = (0x99, 0x03), im_ext = (0, 0), im_records = [((0, 0x10), [0xAB])]\<rparr>]"
    by (simp add: demo_images_def board_id_of_def V2_BOARD_IDS_def)
  then have "\<exists>im\<in>set demo_images. board_id_of im \<in> set V2_BOARD_IDS \<and> im_records im \<noteq> []"
    by (simp add: demo_images_def board_id_of_def V2_BOARD_IDS_def)
  then have e: "extract_for_mcu (universal_hex demo_images) ''nrf52833''
      = Inr (unlines (concat (map plain_lines ?ims) @ [EOF_RECORD]))"
    unfolding extract_for_mcu_def universal_text Let_def block_loop_universal b
    using picked_has_data [of V2_BOARD_IDS demo_images]
    by (simp add: emit_blocks_universal found_universal unlines_def picked_def)
  have ext: "ext_record \<lparr>im_id = (0x99, 0x03), im_ext = (0, 0), im_records = [((0, 0x10), [0xAB])]\<rparr> = '':020000040000FA''"
    by code_simp
  obtain ls where ls: "splitlines (unlines (concat (map plain_lines ?ims) @ [EOF_RECORD])) = ls @ [EOF_RECORD]"
    "unlines (concat (map plain_lines ?ims) @ [EOF_RECORD]) = unlines (ls @ [EOF_RECORD])"
    "\<not> is_universal_hex (unlines (concat (map plain_lines ?ims) @ [EOF_RECORD]))"
    using extracted_hex_is_plain [OF e] by blast
  have "splitlines (unlines (concat (map plain_lines ?ims) @ [EOF_RECORD])) = concat (map plain_lines ?ims) @ [EOF_RECORD]"
    unfolding unlines_def
  proof (rule splitlines_join)
    show "\<forall>l\<in>set (concat (map plain_lines ?ims) @ [EOF_RECORD]). \<forall>c\<in>set l. \<not> is_line_break c"
      using hex_line_plain by (auto simp: plain_lines_def ext_record_def data_record_def EOF_hex_line)
  qed simp
  then show ?thesis using e ls(3) one ext by (simp add: plain_lines_def)
qed

text \<open>A block start whose board id is not a number raises a plain \<open>ValueError\<close>, which the callers that
  expect \<open>UniversalHexError\<close> do not catch.\<close>

lemma malformed_block_start_escapes:
  "extract_for_mcu ('':0400000AZZ03C0DEB8'' @ [newline]) ''nrf52833'' = Inl PlainValueError"
  by code_simp

end
