(* ===== verification/MB_Names.thy ===== *)
theory MB_Names
  imports MB_Registry
begin

text \<open>
  Model of \<open>src/mbtools/registry/console_compat/names_api.py\<close>, the HTTP interface of the name registry
  (\<open>GET\<close>, \<open>PUT\<close> and \<open>DELETE /names/<name>\<close>), from the request line to the status, the body and the
  replication callbacks; and of \<open>src/mbtools/registry/eventbus.py\<close>, the fan-out of events to the
  connected \<open>watch\<close> clients. The HTTP server itself is the standard library's. A request is its method,
  its path, its \<open>Content-Length\<close> header and its body, decoded; characters outside ASCII never belong to a
  name, so a path is its bytes.
\<close>

subsection \<open>Requests and responses\<close>

datatype http_method = GET | PUT | DELETE

text \<open>The bytes of a body after \<open>json.loads\<close>: empty (read as an empty object), not JSON, or a value.\<close>

datatype body = EmptyBody | NotJson | Json json

record http_request =
  hq_method :: http_method
  hq_path :: string
  hq_length :: "string option"
  hq_body :: body

datatype payload =
    PEntry int int string
  | PError string

definition CHANNEL_MIN :: int where "CHANNEL_MIN = 0"
definition CHANNEL_MAX :: int where "CHANNEL_MAX = 83"
definition GROUP_MIN :: int where "GROUP_MIN = 0"
definition GROUP_MAX :: int where "GROUP_MAX = 255"
definition MAX_BODY :: int where "MAX_BODY = 64 * 1024"
definition NAME_PREFIX :: string where "NAME_PREFIX = ''/names/''"

definition entry_payload :: "name_entry \<Rightarrow> payload" where
  "entry_payload entry = PEntry (en_channel entry) (en_group entry) (en_source entry)"

definition bad_request :: payload where "bad_request = PError ''bad_request''"

definition parse_pair :: "body \<Rightarrow> (int \<times> int) result" where
  "parse_pair body =
     (case body of
        NotJson \<Rightarrow> Inl ValueError
      | EmptyBody \<Rightarrow> Inl ValueError
      | Json (JObj data) \<Rightarrow>
          if dget data ''channel'' = None \<or> dget data ''group'' = None then Inl ValueError
          else (case json_int (jget data ''channel'') of
                  Inl OverflowError \<Rightarrow> Inl OverflowError
                | Inl _ \<Rightarrow> Inl ValueError
                | Inr channel \<Rightarrow>
                    (case json_int (jget data ''group'') of
                       Inl OverflowError \<Rightarrow> Inl OverflowError
                     | Inl _ \<Rightarrow> Inl ValueError
                     | Inr grp \<Rightarrow>
                         if \<not> (CHANNEL_MIN \<le> channel \<and> channel \<le> CHANNEL_MAX) then Inl ValueError
                         else if \<not> (GROUP_MIN \<le> grp \<and> grp \<le> GROUP_MAX) then Inl ValueError
                         else Inr (channel, grp)))
      | Json _ \<Rightarrow> Inl ValueError)"

subsection \<open>The handlers\<close>

text \<open>An answer (status and payload) with the store and the callbacks made; an exception a handler does not
  catch keeps the store it had reached and the callbacks made so far.\<close>

type_synonym answer = "(py_error + int \<times> payload) \<times> store \<times> reg_event list"

definition handle_get :: "real \<Rightarrow> string \<Rightarrow> store \<Rightarrow> answer" where
  "handle_get now name s =
     (case get_name name s of
        Inl ValueError \<Rightarrow> (Inr (400, bad_request), s, [])
      | Inl e \<Rightarrow> (Inl e, s, [])
      | Inr existing \<Rightarrow>
          (case resolve now name s of
             Inl ValueError \<Rightarrow> (Inr (400, bad_request), s, [])
           | Inl e \<Rightarrow> (Inl e, s, [])
           | Inr (s', entry) \<Rightarrow>
               (Inr (200, entry_payload entry), s', if existing = None then [EvNameSet entry] else [])))"

definition handle_put :: "real \<Rightarrow> string \<Rightarrow> body \<Rightarrow> store \<Rightarrow> answer" where
  "handle_put now name body s =
     (case parse_pair body of
        Inl ValueError \<Rightarrow> (Inr (400, bad_request), s, [])
      | Inl e \<Rightarrow> (Inl e, s, [])
      | Inr (channel, grp) \<Rightarrow>
          (case set_name now name channel grp s of
             Inl ValueError \<Rightarrow> (Inr (400, bad_request), s, [])
           | Inl e \<Rightarrow> (Inl e, s, [])
           | Inr (s', entry) \<Rightarrow> (Inr (200, entry_payload entry), s', [EvNameSet entry])))"

text \<open>\<open>handle_delete\<close> has two critical sections; \<open>others\<close> is what other threads do in between.\<close>

definition handle_delete :: "real \<Rightarrow> (store \<Rightarrow> store) \<Rightarrow> string \<Rightarrow> store \<Rightarrow> answer" where
  "handle_delete now others name s =
     (case clear_name name s of
        Inl ValueError \<Rightarrow> (Inr (400, bad_request), s, [])
      | Inl e \<Rightarrow> (Inl e, s, [])
      | Inr s1 \<Rightarrow>
          (let s1 = others s1 in
           case resolve now name s1 of
             Inl e \<Rightarrow> (Inl e, s1, [EvNameClear name])
           | Inr (s2, entry) \<Rightarrow> (Inr (200, entry_payload entry), s2, [EvNameClear name, EvNameSet entry])))"

subsection \<open>Dispatch\<close>

definition hex_digit_of :: "char \<Rightarrow> nat option" where
  "hex_digit_of c =
     (if is_digit_char c then Some (of_char c - 48)
      else if 65 \<le> (of_char c :: nat) \<and> (of_char c :: nat) \<le> 70 then Some (of_char c - 55)
      else if 97 \<le> (of_char c :: nat) \<and> (of_char c :: nat) \<le> 102 then Some (of_char c - 87)
      else None)"

text \<open>\<open>urllib.parse.unquote\<close>: an escape that is not one stays as it is.\<close>

fun unquote :: "string \<Rightarrow> string" where
  "unquote (p # a # b # rest) =
     (if p = CHR ''%'' then
        (case (hex_digit_of a, hex_digit_of b) of
           (Some x, Some y) \<Rightarrow> char_of (16 * x + y) # unquote rest
         | _ \<Rightarrow> p # unquote (a # b # rest))
      else p # unquote (a # b # rest))"
| "unquote s = s"

definition extract_name :: "string \<Rightarrow> string option" where
  "extract_name path =
     (let path = hd (split_on (CHR ''?'') path) in
      if \<not> starts_with NAME_PREFIX path then None
      else let raw = drop (length NAME_PREFIX) path in
           if raw = [] \<or> CHR ''/'' \<in> set raw then None else Some (unquote raw))"

definition read_body :: "string option \<Rightarrow> body \<Rightarrow> (int \<times> payload) + body" where
  "read_body header body =
     (case py_int (case header of None \<Rightarrow> ''0'' | Some [] \<Rightarrow> ''0'' | Some h \<Rightarrow> h) of
        None \<Rightarrow> Inl (400, bad_request)
      | Some len \<Rightarrow>
          if len < 0 then Inl (400, bad_request)
          else if MAX_BODY < len then Inl (413, PError ''too_large'')
          else Inr (if len \<noteq> 0 then body else EmptyBody))"

text \<open>\<open>_dispatch\<close>: an exception of a handler is answered with 500.\<close>

definition caught :: "answer \<Rightarrow> (int \<times> payload) \<times> store \<times> reg_event list" where
  "caught a = (case a of (r, s, evs) \<Rightarrow>
     (case r of Inl _ \<Rightarrow> (500, PError ''internal_error'') | Inr response \<Rightarrow> response, s, evs))"

definition dispatch :: "real \<Rightarrow> (store \<Rightarrow> store) \<Rightarrow> http_request \<Rightarrow> store \<Rightarrow> (int \<times> payload) \<times> store \<times> reg_event list" where
  "dispatch now others q s =
     (case extract_name (hq_path q) of
        None \<Rightarrow> ((404, PError ''not_found''), s, [])
      | Some name \<Rightarrow>
          (case hq_method q of
             GET \<Rightarrow> caught (handle_get now name s)
           | PUT \<Rightarrow> (case read_body (hq_length q) (hq_body q) of
                       Inl response \<Rightarrow> (response, s, [])
                     | Inr body \<Rightarrow> caught (handle_put now name body s))
           | DELETE \<Rightarrow> caught (handle_delete now others name s)))"

subsection \<open>The event bus\<close>

text \<open>A subscriber is the number of its queue; a queue that was handed out keeps what it holds.\<close>

record 'e event_bus =
  eb_next :: nat
  eb_subscribers :: "nat list"
  eb_queues :: "nat \<Rightarrow> 'e list"

definition new_bus :: "'e event_bus" where
  "new_bus = \<lparr>eb_next = 0, eb_subscribers = [], eb_queues = (\<lambda>_. [])\<rparr>"

definition subscribe :: "'e event_bus \<Rightarrow> 'e event_bus \<times> nat" where
  "subscribe b = (b\<lparr>eb_next := Suc (eb_next b), eb_subscribers := eb_subscribers b @ [eb_next b]\<rparr>, eb_next b)"

definition unsubscribe :: "nat \<Rightarrow> 'e event_bus \<Rightarrow> 'e event_bus" where
  "unsubscribe q b = b\<lparr>eb_subscribers := filter (\<lambda>x. x \<noteq> q) (eb_subscribers b)\<rparr>"

definition publish :: "'e \<Rightarrow> 'e event_bus \<Rightarrow> 'e event_bus" where
  "publish e b = b\<lparr>eb_queues := fold (\<lambda>q qs. qs(q := qs q @ [e])) (eb_subscribers b) (eb_queues b)\<rparr>"

datatype 'e bus_op = Subscribe | Unsubscribe nat | Publish 'e

fun bus_step :: "'e bus_op \<Rightarrow> 'e event_bus \<Rightarrow> 'e event_bus" where
  "bus_step Subscribe b = fst (subscribe b)"
| "bus_step (Unsubscribe q) b = unsubscribe q b"
| "bus_step (Publish e) b = publish e b"

text \<open>What a subscriber should see of a history: everything published until it leaves.\<close>

fun published_until :: "nat \<Rightarrow> 'e bus_op list \<Rightarrow> 'e list" where
  "published_until q [] = []"
| "published_until q (Subscribe # ops) = published_until q ops"
| "published_until q (Unsubscribe p # ops) = (if p = q then [] else published_until q ops)"
| "published_until q (Publish e # ops) = e # published_until q ops"

definition bus_ok :: "'e event_bus \<Rightarrow> bool" where
  "bus_ok b \<longleftrightarrow> distinct (eb_subscribers b) \<and> (\<forall>q\<in>set (eb_subscribers b). q < eb_next b)
     \<and> (\<forall>q. eb_next b \<le> q \<longrightarrow> eb_queues b q = [])"

lemma fold_publish:
  "distinct subs \<Longrightarrow> fold (\<lambda>q qs. qs(q := qs q @ [e])) subs qs x = (if x \<in> set subs then qs x @ [e] else qs x)"
  by (induction subs arbitrary: qs) auto

lemma bus_step_ok: "bus_ok b \<Longrightarrow> bus_ok (bus_step op b)"
  by (cases op) (auto simp: bus_ok_def subscribe_def unsubscribe_def publish_def fold_publish less_Suc_eq)

lemma bus_ok_run: "bus_ok (fold bus_step ops b)" if "bus_ok b"
  using that by (induction ops arbitrary: b) (auto simp: bus_step_ok)

lemma bus_ok_new: "bus_ok new_bus"
  by (simp add: bus_ok_def new_bus_def)

lemma queue_absent:
  assumes "bus_ok b" and "q \<notin> set (eb_subscribers b)" and "q < eb_next b"
  shows "eb_queues (fold bus_step ops b) q = eb_queues b q"
  using assms
proof (induction ops arbitrary: b)
  case (Cons op ops)
  have "bus_ok (bus_step op b)" "q \<notin> set (eb_subscribers (bus_step op b))" "q < eb_next (bus_step op b)"
    "eb_queues (bus_step op b) q = eb_queues b q"
    using Cons.prems bus_step_ok [OF Cons.prems(1), of op]
    by (cases op; auto simp: bus_ok_def subscribe_def unsubscribe_def publish_def fold_publish)+
  then show ?case using Cons.IH by simp
qed simp

lemma queue_present:
  assumes "bus_ok b" and "q \<in> set (eb_subscribers b)"
  shows "eb_queues (fold bus_step ops b) q = eb_queues b q @ published_until q ops"
  using assms
proof (induction ops arbitrary: b)
  case (Cons op ops)
  have ok: "bus_ok (bus_step op b)" using Cons.prems(1) by (rule bus_step_ok)
  show ?case
  proof (cases "op = Unsubscribe q")
    case True
    have "eb_queues (fold bus_step ops (unsubscribe q b)) q = eb_queues (unsubscribe q b) q"
      by (rule queue_absent) (use ok Cons.prems True in \<open>auto simp: unsubscribe_def bus_ok_def\<close>)
    then show ?thesis using True by (simp add: unsubscribe_def)
  next
    case False
    then have "q \<in> set (eb_subscribers (bus_step op b))"
      using Cons.prems(2) by (cases op) (auto simp: subscribe_def unsubscribe_def publish_def)
    moreover have "eb_queues (bus_step op b) q = eb_queues b q @ published_until q [op]"
      using False Cons.prems by (cases op) (auto simp: subscribe_def unsubscribe_def publish_def bus_ok_def fold_publish)
    moreover have "published_until q (op # ops) = published_until q [op] @ published_until q ops"
      using False by (cases op) auto
    ultimately show ?thesis using Cons.IH [OF ok] by simp
  qed
qed simp

subsection \<open>What the handlers answer\<close>

lemma validate_Inl: "validate nm = Inl e \<Longrightarrow> e = ValueError"
  by (auto simp: validate_def Let_def split: if_splits)

lemma resolve_valid:
  assumes "validate nm = Inr name"
  shows "\<exists>s' e. resolve now nm s = Inr (s', e)
     \<and> (get_name_row s name = None \<longrightarrow> en_source e = SOURCE_DERIVED \<and> en_name e = name
          \<and> name_to_radio name = Inr (en_channel e, en_group e) \<and> get_name_row s' = (get_name_row s)(name \<mapsto> e))
     \<and> (\<forall>x. get_name_row s name = Some x \<longrightarrow> s' = s \<and> e = x)"
proof (cases "get_name_row s name")
  case None
  obtain a b where ab: "name_to_radio name = Inr (a, b)"
    using name_to_radio_total [OF validate_idem [OF assms]] by auto
  let ?e = "row_to_entry name a b SOURCE_DERIVED now"
  have "get_name_row (insert_name ?e s) = (get_name_row s)(name \<mapsto> ?e)"
    using nam.get_ins [of s ?e] None by (simp add: row_to_entry_def)
  then show ?thesis using None ab assms by (simp add: resolve_eq Let_def row_to_entry_def)
next
  case (Some x)
  then show ?thesis using assms by (simp add: resolve_eq)
qed

lemma resolve_entry:
  assumes "validate nm = Inr name"
  shows "\<exists>s' e. resolve now nm s = Inr (s', e) \<and> get_name_row s' name = Some e"
  using resolve_valid [OF assms, of now s] by (cases "get_name_row s name") auto

lemma read_body_Inl: "read_body len body = Inl response \<Longrightarrow> fst response \<in> {400, 413}"
  and read_body_Inr: "read_body len body = Inr body' \<Longrightarrow> body' = body \<or> body' = EmptyBody"
  by (auto simp: read_body_def split: option.splits if_splits)

lemma handle_get_valid:
  assumes "validate nm = Inr name" and "get_name_row s name = Some x"
  shows "handle_get now nm s = (Inr (200, entry_payload x), s, [])"
  using resolve_valid [OF assms(1), of now s] assms by (auto simp: handle_get_def get_name_def)

lemma handle_put_valid:
  assumes "validate nm = Inr name" and "parse_pair body = Inr (c, g)"
  obtains s' e where "handle_put now nm body s = (Inr (200, PEntry c g SOURCE_REGISTRY), s', [EvNameSet e])"
    "get_name_row s' = (get_name_row s)(name \<mapsto> e)" "en_name e = name" "entry_payload e = PEntry c g SOURCE_REGISTRY"
    "st_devices s' = st_devices s" "st_peers s' = st_peers s"
proof -
  obtain s' e where s': "set_name now nm c g s = Inr (s', e)" "get_name_row s' = (get_name_row s)(name \<mapsto> e)"
    "en_name e = name" "en_channel e = c" "en_group e = g" "en_source e = SOURCE_REGISTRY"
    "st_devices s' = st_devices s" "st_peers s' = st_peers s"
    by (rule set_name_eq [OF assms(1), of now c g s]) blast
  show thesis
    by (rule that [of s' e]) (use s' assms(2) in \<open>simp_all add: handle_put_def entry_payload_def\<close>)
qed

lemma handle_delete_valid:
  assumes "validate nm = Inr name" and "get_name_row (others (delete_name name s)) name = None"
  obtains s' e where "handle_delete now others nm s = (Inr (200, entry_payload e), s', [EvNameClear nm, EvNameSet e])"
    "get_name_row s' = (get_name_row (others (delete_name name s)))(name \<mapsto> e)" "en_name e = name"
    "en_source e = SOURCE_DERIVED" "name_to_radio name = Inr (en_channel e, en_group e)"
proof -
  let ?s = "others (delete_name name s)"
  obtain s' e where r: "resolve now nm ?s = Inr (s', e)" "en_source e = SOURCE_DERIVED" "en_name e = name"
    "name_to_radio name = Inr (en_channel e, en_group e)" "get_name_row s' = (get_name_row ?s)(name \<mapsto> e)"
    using resolve_valid [OF assms(1), of now ?s] assms(2) by auto
  show thesis
    by (rule that [of e s']) (use r assms(1) in \<open>simp_all add: handle_delete_def clear_name_def Let_def\<close>)
qed

lemma parse_pair_ints:
  assumes "dget data ''channel'' = Some (JInt c)" and "dget data ''group'' = Some (JInt g)"
  shows "parse_pair (Json (JObj data))
    = (if CHANNEL_MIN \<le> c \<and> c \<le> CHANNEL_MAX \<and> GROUP_MIN \<le> g \<and> g \<le> GROUP_MAX then Inr (c, g) else Inl ValueError)"
  using assms by (simp add: parse_pair_def jget_def json_int_def)

lemma parse_pair_errors: "parse_pair body = Inl e \<Longrightarrow> e = ValueError \<or> e = OverflowError"
  by (auto simp: parse_pair_def Let_def split: body.splits json.splits sum.splits if_splits py_error.splits)

subsection \<open>Properties\<close>

text \<open>C33: the HTTP interface reads back what was put. A \<open>PUT\<close> of a pair in range on a path that spells a
  valid name (in any case, with surrounding blanks or percent escapes) answers that pair as an override
  and announces it; from then on a \<open>GET\<close> on any spelling of the same name answers exactly that pair and
  changes nothing, and a \<open>DELETE\<close> on any spelling announces the clearing and puts the name back on the
  pair derived from it. No other name, no device and no peer is touched by the \<open>PUT\<close>.\<close>

theorem names_api_roundtrip:
  assumes "extract_name path = Some nm" and "validate nm = Inr name"
    and "read_body len (Json (JObj data)) = Inr (Json (JObj data))"
    and "dget data ''channel'' = Some (JInt c)" and "dget data ''group'' = Some (JInt g)"
    and "0 \<le> c" and "c \<le> 83" and "0 \<le> g" and "g \<le> 255"
  shows "\<exists>s1 e. dispatch now others \<lparr>hq_method = PUT, hq_path = path, hq_length = len, hq_body = Json (JObj data)\<rparr> s
        = ((200, PEntry c g SOURCE_REGISTRY), s1, [EvNameSet e])
     \<and> en_name e = name \<and> en_channel e = c \<and> en_group e = g
     \<and> st_devices s1 = st_devices s \<and> st_peers s1 = st_peers s
     \<and> (\<forall>n. n \<noteq> name \<longrightarrow> get_name_row s1 n = get_name_row s n)
     \<and> (\<forall>path' nm' t. extract_name path' = Some nm' \<and> validate nm' = Inr name \<longrightarrow>
          dispatch t others \<lparr>hq_method = GET, hq_path = path', hq_length = None, hq_body = EmptyBody\<rparr> s1
            = ((200, PEntry c g SOURCE_REGISTRY), s1, [])
        \<and> (\<exists>s2 e'. dispatch t id \<lparr>hq_method = DELETE, hq_path = path', hq_length = None, hq_body = EmptyBody\<rparr> s1
            = ((200, PEntry (en_channel e') (en_group e') SOURCE_DERIVED), s2, [EvNameClear nm', EvNameSet e'])
          \<and> name_to_radio name = Inr (en_channel e', en_group e')
          \<and> (\<forall>n. n \<noteq> name \<longrightarrow> get_name_row s2 n = get_name_row s n)))"
proof -
  have pair: "parse_pair (Json (JObj data)) = Inr (c, g)"
    using parse_pair_ints [OF assms(4,5)] assms(6-9)
    by (simp add: CHANNEL_MIN_def CHANNEL_MAX_def GROUP_MIN_def GROUP_MAX_def)
  obtain s1 e where put: "handle_put now nm (Json (JObj data)) s = (Inr (200, PEntry c g SOURCE_REGISTRY), s1, [EvNameSet e])"
    "get_name_row s1 = (get_name_row s)(name \<mapsto> e)" "en_name e = name" "entry_payload e = PEntry c g SOURCE_REGISTRY"
    "st_devices s1 = st_devices s" "st_peers s1 = st_peers s"
    by (rule handle_put_valid [OF assms(2) pair])
  have got: "handle_get t nm' s1 = (Inr (200, PEntry c g SOURCE_REGISTRY), s1, [])" if "validate nm' = Inr name" for t nm'
    using handle_get_valid [OF that, of s1 e t] put(2,4) by simp
  have deleted: "\<exists>s2 e'. handle_delete t id nm' s1
        = (Inr (200, PEntry (en_channel e') (en_group e') SOURCE_DERIVED), s2, [EvNameClear nm', EvNameSet e'])
      \<and> name_to_radio name = Inr (en_channel e', en_group e') \<and> (\<forall>n. n \<noteq> name \<longrightarrow> get_name_row s2 n = get_name_row s n)"
    if "validate nm' = Inr name" for t nm'
  proof -
    have none: "get_name_row (id (delete_name name s1)) name = None" by (simp add: nam.get_del)
    show ?thesis
      by (rule handle_delete_valid [where others = id and s = s1 and now = t, OF that none]) (auto simp: entry_payload_def nam.get_del put(2))
  qed
  have del: "\<exists>s2 e'. dispatch t id \<lparr>hq_method = DELETE, hq_path = path', hq_length = None, hq_body = EmptyBody\<rparr> s1
        = ((200, PEntry (en_channel e') (en_group e') SOURCE_DERIVED), s2, [EvNameClear nm', EvNameSet e'])
      \<and> name_to_radio name = Inr (en_channel e', en_group e') \<and> (\<forall>n. n \<noteq> name \<longrightarrow> get_name_row s2 n = get_name_row s n)"
    if p: "extract_name path' = Some nm'" and v: "validate nm' = Inr name" for path' nm' t
  proof -
    obtain s2 e' where "handle_delete t id nm' s1
        = (Inr (200, PEntry (en_channel e') (en_group e') SOURCE_DERIVED), s2, [EvNameClear nm', EvNameSet e'])"
      "name_to_radio name = Inr (en_channel e', en_group e')" "\<forall>n. n \<noteq> name \<longrightarrow> get_name_row s2 n = get_name_row s n"
      using deleted [OF v] by blast
    then show ?thesis using p by (intro exI [of _ s2] exI [of _ e']) (simp add: dispatch_def caught_def)
  qed
  have get: "dispatch t others \<lparr>hq_method = GET, hq_path = path', hq_length = None, hq_body = EmptyBody\<rparr> s1
      = ((200, PEntry c g SOURCE_REGISTRY), s1, [])"
    if p: "extract_name path' = Some nm'" and v: "validate nm' = Inr name" for path' nm' t
    using got [OF v] p by (simp add: dispatch_def caught_def)
  have "dispatch now others \<lparr>hq_method = PUT, hq_path = path, hq_length = len, hq_body = Json (JObj data)\<rparr> s
      = ((200, PEntry c g SOURCE_REGISTRY), s1, [EvNameSet e])"
    using assms(1,3) put(1) by (simp add: dispatch_def caught_def)
  then show ?thesis
    using put(2-) get del by (intro exI [of _ s1] exI [of _ e]) (simp add: entry_payload_def)
qed

text \<open>C34: an HTTP request that is not answered with 200 has no effect: the store is as before and nothing
  is announced. The status is 404 exactly off \<open>/names/<name>\<close>, 400 or 413 for a malformed name or body,
  and 500 only for a \<open>PUT\<close> whose numbers overflow; every other request is answered with the entry the
  store now has for the name.\<close>

theorem names_api_errors_have_no_effect:
  "case dispatch now others q s of ((st, answer), s', evs) \<Rightarrow>
     if st = 200 then
       (\<exists>nm name e. extract_name (hq_path q) = Some nm \<and> validate nm = Inr name
          \<and> get_name_row s' name = Some e \<and> answer = entry_payload e)
     else s' = s \<and> evs = []
       \<and> (if extract_name (hq_path q) = None then st = 404
          else st \<in> {400, 413}
             \<or> st = 500 \<and> hq_method q = PUT \<and> parse_pair (hq_body q) = Inl OverflowError)"
proof (cases "extract_name (hq_path q)")
  case None
  then show ?thesis by (simp add: dispatch_def)
next
  case (Some nm)
  note d = dispatch_def caught_def Some
  show ?thesis
  proof (cases "hq_method q")
    case GET
    then show ?thesis
      using validate_Inl [of nm] resolve_entry [of nm _ now s]
      by (cases "validate nm") (auto simp: d handle_get_def get_name_def)
  next
    case DELETE
    then show ?thesis
      using validate_Inl [of nm] resolve_entry [of nm _ now "others (delete_name (projr (validate nm)) s)"]
      by (cases "validate nm") (auto simp: d handle_delete_def clear_name_def Let_def)
  next
    case PUT
    show ?thesis
    proof (cases "read_body (hq_length q) (hq_body q)")
      case (Inl response)
      then show ?thesis using PUT read_body_Inl [OF Inl] by (cases response) (auto simp: d)
    next
      case (Inr body)
      show ?thesis
      proof (cases "parse_pair body")
        case (Inl e)
        then have "e = ValueError \<or> e = OverflowError \<and> parse_pair (hq_body q) = Inl OverflowError"
          using parse_pair_errors [OF Inl] read_body_Inr [OF Inr] by (auto simp: parse_pair_def)
        then show ?thesis using PUT Inr Inl by (auto simp: d handle_put_def)
      next
        case (Inr cg)
        obtain c g where cg: "cg = (c, g)" by force
        show ?thesis
        proof (cases "validate nm")
          case (Inl e)
          then show ?thesis
            using PUT \<open>read_body _ _ = Inr body\<close> Inr cg validate_Inl [OF Inl] by (simp add: d handle_put_def set_name_def)
        next
          case (Inr name)
          show ?thesis
            by (rule handle_put_valid [OF Inr \<open>parse_pair body = Inr cg\<close> [unfolded cg], of now s])
               (use PUT \<open>read_body _ _ = Inr body\<close> Inr in \<open>auto simp: d\<close>)
        qed
      qed
    qed
  qed
qed

theorem names_api_roundtrip_witness:
  "\<exists>s1 e. dispatch 5 id \<lparr>hq_method = PUT, hq_path = ''/names/%56evov'', hq_length = Some ''26'',
        hq_body = Json (JObj [(''channel'', JInt 20), (''group'', JInt 7)])\<rparr> empty_store
      = ((200, PEntry 20 7 SOURCE_REGISTRY), s1, [EvNameSet e])
    \<and> dispatch 6 id \<lparr>hq_method = GET, hq_path = ''/names/vevov?x=1'', hq_length = None, hq_body = EmptyBody\<rparr> s1
      = ((200, PEntry 20 7 SOURCE_REGISTRY), s1, [])"
proof -
  have "extract_name ''/names/%56evov'' = Some ''Vevov''" "validate ''Vevov'' = Inr ''vevov''"
    "extract_name ''/names/vevov?x=1'' = Some ''vevov''" "validate ''vevov'' = Inr ''vevov''" by code_simp+
  moreover have "read_body (Some ''26'') (Json (JObj [(''channel'', JInt 20), (''group'', JInt 7)]))
      = Inr (Json (JObj [(''channel'', JInt 20), (''group'', JInt 7)]))" by code_simp
  ultimately show ?thesis
    using names_api_roundtrip [of "''/names/%56evov''" "''Vevov''" "''vevov''" "Some ''26''"
        "[(''channel'', JInt 20), (''group'', JInt 7)]" 20 7 5 id empty_store]
    by (auto simp: dget_def)
qed

text \<open>The event feed is exact. Whoever subscribes, at whatever point of whatever history of subscriptions,
  departures and events, finds in its queue every event published from then until it leaves, in order and
  once each, and nothing else; no other subscriber's coming or going makes a difference.\<close>

theorem watch_feed_exact:
  "case subscribe (fold bus_step earlier new_bus) of (b, q) \<Rightarrow>
     eb_queues (fold bus_step later b) q = published_until q later"
proof -
  let ?b = "fold bus_step earlier (new_bus :: 'a event_bus)"
  have ok: "bus_ok ?b" by (rule bus_ok_run [OF bus_ok_new])
  have "bus_ok (fst (subscribe ?b))" using bus_step_ok [OF ok, of Subscribe] by simp
  then have "eb_queues (fold bus_step later (fst (subscribe ?b))) (eb_next ?b)
      = eb_queues (fst (subscribe ?b)) (eb_next ?b) @ published_until (eb_next ?b) later"
    by (rule queue_present) (simp add: subscribe_def)
  moreover have "eb_queues ?b (eb_next ?b) = []" using ok by (simp add: bus_ok_def)
  ultimately show ?thesis by (simp add: subscribe_def)
qed

end
