(* ===== verification/MB_Server.thy ===== *)
theory MB_Server
  imports MB_Api MB_Frames
begin

text \<open>
  Model of the connections of the two servers: \<open>_handle_connection\<close> and \<open>_dispatch_line\<close> of
  \<open>src/mbtools/registry/api.py\<close> and of \<open>remote_api.py\<close>, the token check, the upload of hex files and
  the \<open>flash\<close> of the remote server, and \<open>_handle_stream\<close> of \<open>_api_base.py\<close>. The handlers themselves are
  those of \<open>MB_Api\<close>. A connection is run over what arrives on it: one line at a time, with what the world
  does meanwhile (the clocks, the file system, pyOCD, the other threads, whether the answer can still be
  written). A line is given as its JSON; characters are bytes.
\<close>

subsection \<open>Base64\<close>

definition B64_ALPHABET :: string where
  "B64_ALPHABET = ''ABCDEFGHIJKLMNOPQRSTUVWXYZabcdefghijklmnopqrstuvwxyz0123456789+/''"

fun b64_bytes :: "nat list \<Rightarrow> string" where
  "b64_bytes (a # b # c # d # rest) =
     char_of (4 * a + b div 16) # char_of (16 * (b mod 16) + c div 4) # char_of (64 * (c mod 4) + d) # b64_bytes rest"
| "b64_bytes [a, b, c] = [char_of (4 * a + b div 16), char_of (16 * (b mod 16) + c div 4)]"
| "b64_bytes [a, b] = [char_of (4 * a + b div 16)]"
| "b64_bytes _ = []"

text \<open>\<open>base64.b64decode(data, validate=True)\<close>: the alphabet, then at most two \<open>=\<close>. A group of two or three
  characters needs its padding; padding after a whole group is ignored.\<close>

definition b64decode :: "string \<Rightarrow> string option" where
  "b64decode data =
     (let body = takeWhile (\<lambda>c. c \<in> set B64_ALPHABET) data; pad = dropWhile (\<lambda>c. c \<in> set B64_ALPHABET) data in
      if pad \<notin> {[], ''='', ''==''} then None
      else if length body mod 4 = 1 then None
      else if length body mod 4 = 2 \<and> length pad < 2 then None
      else if length body mod 4 = 3 \<and> length pad < 1 then None
      else Some (b64_bytes (map (\<lambda>c. the (str_index B64_ALPHABET c)) body)))"

definition b64_char :: "nat \<Rightarrow> char" where
  "b64_char n = B64_ALPHABET ! n"

fun b64encode :: "string \<Rightarrow> string" where
  "b64encode (x # y # z # rest) =
     (let a = of_char x :: nat; b = of_char y; c = of_char z in
      b64_char (a div 4) # b64_char (16 * (a mod 4) + b div 16) # b64_char (4 * (b mod 16) + c div 64)
        # b64_char (c mod 64) # b64encode rest)"
| "b64encode [x, y] =
     (let a = of_char x :: nat; b = of_char y in
      [b64_char (a div 4), b64_char (16 * (a mod 4) + b div 16), b64_char (4 * (b mod 16)), CHR ''=''])"
| "b64encode [x] =
     (let a = of_char x :: nat in [b64_char (a div 4), b64_char (16 * (a mod 4)), CHR ''='', CHR ''=''])"
| "b64encode [] = []"

subsection \<open>Base64 round trip\<close>

fun b64_codes :: "string \<Rightarrow> nat list" where
  "b64_codes (x # y # z # rest) =
     (let a = of_char x; b = of_char y; c = of_char z in
      [a div 4, 16 * (a mod 4) + b div 16, 4 * (b mod 16) + c div 64, c mod 64] @ b64_codes rest)"
| "b64_codes [x, y] =
     (let a = of_char x; b = of_char y in [a div 4, 16 * (a mod 4) + b div 16, 4 * (b mod 16)])"
| "b64_codes [x] = (let a = of_char x in [a div 4, 16 * (a mod 4)])"
| "b64_codes [] = []"

fun b64_pad :: "string \<Rightarrow> string" where
  "b64_pad (x # y # z # rest) = b64_pad rest"
| "b64_pad [x, y] = ''=''"
| "b64_pad [x] = ''==''"
| "b64_pad [] = []"

lemma b64encode_codes: "b64encode s = map b64_char (b64_codes s) @ b64_pad s"
  by (induction s rule: b64encode.induct) (simp_all add: Let_def)

lemma char_less: "(of_char x :: nat) < 256"
  using of_char_of [of "of_char x :: nat"] by (metis char_of_char nat_of_char_less_256)

lemma sextets:
  fixes a b c :: nat
  assumes "a < 256" and "b < 256" and "c < 256"
  shows "a div 4 < 64" and "16 * (a mod 4) + b div 16 < 64" and "4 * (b mod 16) + c div 64 < 64"
    and "16 * (a mod 4) < 64" and "4 * (b mod 16) < 64"
proof -
  show "a div 4 < 64" using assms(1) by (simp add: div_less_iff_less_mult)
  have "b div 16 < 16" "c div 64 < 4" using assms(2,3) by (simp_all add: div_less_iff_less_mult)
  moreover have "a mod 4 < 4" "b mod 16 < 16" by simp_all
  ultimately show "16 * (a mod 4) + b div 16 < 64" "4 * (b mod 16) + c div 64 < 64" "16 * (a mod 4) < 64" "4 * (b mod 16) < 64"
    by linarith+
qed

lemma b64_codes_less: "n \<in> set (b64_codes s) \<Longrightarrow> n < 64"
proof (induction s rule: b64_codes.induct)
  case (1 x y z rest)
  then show ?case using sextets [OF char_less [of x] char_less [of y] char_less [of z]] by (auto simp: Let_def)
next
  case (2 x y)
  then show ?case using sextets [OF char_less [of x] char_less [of y] char_less [of y]] by (auto simp: Let_def)
next
  case (3 x)
  then show ?case using sextets [OF char_less [of x] char_less [of x] char_less [of x]] by (auto simp: Let_def)
qed simp

lemma regroup:
  fixes a b c :: nat
  assumes "b < 256" and "c < 256"
  shows "4 * (a div 4) + (16 * (a mod 4) + b div 16) div 16 = a"
    and "16 * ((16 * (a mod 4) + b div 16) mod 16) + (4 * (b mod 16) + c div 64) div 4 = b"
    and "64 * ((4 * (b mod 16) + c div 64) mod 4) + c mod 64 = c"
    and "4 * (a div 4) + (16 * (a mod 4)) div 16 = a"
    and "16 * ((16 * (a mod 4) + b div 16) mod 16) + (4 * (b mod 16)) div 4 = b"
proof -
  have q: "b div 16 < 16" "c div 64 < 4" using assms by (simp_all add: div_less_iff_less_mult)
  have split: "(k * r + q) div k = r" "(k * r + q) mod k = q" if "q < k" for k q r :: nat using that by simp_all
  show "4 * (a div 4) + (16 * (a mod 4) + b div 16) div 16 = a"
    and "16 * ((16 * (a mod 4) + b div 16) mod 16) + (4 * (b mod 16) + c div 64) div 4 = b"
    and "64 * ((4 * (b mod 16) + c div 64) mod 4) + c mod 64 = c"
    and "16 * ((16 * (a mod 4) + b div 16) mod 16) + (4 * (b mod 16)) div 4 = b"
    unfolding split [OF q(1)] split [OF q(2)] by simp_all
  show "4 * (a div 4) + (16 * (a mod 4)) div 16 = a" by simp
qed

lemma b64_bytes_codes: "b64_bytes (b64_codes s) = s"
proof (induction s rule: b64_codes.induct)
  case (1 x y z rest)
  then show ?case 
    by (simp only: b64_codes.simps Let_def append_Cons append_Nil b64_bytes.simps regroup [OF char_less char_less] char_of_char)
next
  case (2 x y)
  then show ?case 
    by (simp only: b64_codes.simps Let_def b64_bytes.simps regroup [OF char_less char_less] char_of_char)
next
  case (3 x)
  then show ?case by (simp add: Let_def regroup(4))
qed simp

lemma b64_length:
  "length (b64_codes s) mod 4 \<noteq> 1" "length (b64_codes s) mod 4 = 2 \<Longrightarrow> length (b64_pad s) = 2"
  "length (b64_codes s) mod 4 = 3 \<Longrightarrow> length (b64_pad s) = 1" "b64_pad s \<in> {[], ''='', ''==''}"
  by (induction s rule: b64_codes.induct) (simp_all add: Let_def)

lemma b64_alphabet: "distinct B64_ALPHABET" "length B64_ALPHABET = 64" "CHR ''='' \<notin> set B64_ALPHABET"
  by code_simp+

lemma b64_char_in: "n < 64 \<Longrightarrow> b64_char n \<in> set B64_ALPHABET"
  by (simp add: b64_char_def b64_alphabet)

lemma b64_char_index: "n < 64 \<Longrightarrow> str_index B64_ALPHABET (b64_char n) = Some n"
  by (simp add: b64_char_def b64_alphabet str_index_distinct)

lemma b64decode_encode: "b64decode (b64encode s) = Some s"
proof -
  let ?body = "map b64_char (b64_codes s)"
  have in_alphabet: "c \<in> set B64_ALPHABET" if "c \<in> set ?body" for c
    using that b64_codes_less b64_char_in by auto
  have pad: "takeWhile (\<lambda>c. c \<in> set B64_ALPHABET) (b64_pad s) = []" "dropWhile (\<lambda>c. c \<in> set B64_ALPHABET) (b64_pad s) = b64_pad s"
    using b64_length(4) [of s] b64_alphabet(3) by auto
  have "takeWhile (\<lambda>c. c \<in> set B64_ALPHABET) (b64encode s) = ?body" "dropWhile (\<lambda>c. c \<in> set B64_ALPHABET) (b64encode s) = b64_pad s"
    unfolding b64encode_codes using in_alphabet pad
    by (simp_all only: takeWhile_append2 dropWhile_append2 append_Nil2)
  moreover have "map (\<lambda>c. the (str_index B64_ALPHABET c)) ?body = b64_codes s"
    using b64_codes_less b64_char_index by (simp add: map_idI)
  ultimately show ?thesis
    using b64_length [of s] by (auto simp: b64decode_def Let_def b64_bytes_codes)
qed

subsection \<open>The state of a connection\<close>

record host =
  ho_registry :: registry
  ho_files :: "(string, string) dict"
  ho_sessions :: "string list"

record conn =
  cn_host :: host
  cn_acquired :: "uid list"
  cn_uploaded :: "string list"
  cn_sent :: "response list"
  cn_events :: "reg_event list"
  cn_shut :: "nat list"

record client_request = request +
  cr_op :: "string option"
  cr_data :: "string option"
  cr_fields :: "(string, json) dict"

datatype client_line =
    Blank
  | Undecodable
  | BadJson
  | NotAnObject
  | Request client_request

text \<open>What the world does while one line is served. \<open>wd_others\<close> happens before it, \<open>wd_during\<close> while the
  remote server flashes without the lock; \<open>wd_log_lost\<close> is a progress line that cannot be written, which
  ends the flash with an exception.\<close>

record world =
  wd_wall :: real
  wd_tick :: real
  wd_flash :: "string \<Rightarrow> flash_env"
  wd_readable :: "string \<Rightarrow> bool"
  wd_ep_flash :: "registration \<Rightarrow> endpoint_flash"
  wd_ep_open :: "registration \<Rightarrow> string \<Rightarrow> api_error option"
  wd_mkstemp :: "(string, string) dict \<Rightarrow> string option"
  wd_disk_ok :: bool
  wd_log_lost :: bool
  wd_written :: bool
  wd_others :: "host \<Rightarrow> host"
  wd_during :: "host \<Rightarrow> host"

text \<open>How serving goes on after a line: the next line, one of the modes a connection can turn into, the
  end, or an exception that ends it.\<close>

datatype mode =
    Continue
  | Stream device
  | Watch
  | Hold registration
  | Closed
  | Died

definition set_registry :: "registry \<Rightarrow> conn \<Rightarrow> conn" where
  "set_registry rg c = c\<lparr>cn_host := (cn_host c)\<lparr>ho_registry := rg\<rparr>\<rparr>"

definition registry_of :: "conn \<Rightarrow> registry" where
  "registry_of c = ho_registry (cn_host c)"

definition handled :: "handler_result \<Rightarrow> conn \<Rightarrow> response \<times> conn" where
  "handled r c =
     (case r of (resp, rg, acquired, evs) \<Rightarrow>
        (resp, (set_registry rg c)\<lparr>cn_acquired := acquired, cn_events := cn_events c @ evs\<rparr>))"

definition stay :: "response \<times> conn \<Rightarrow> response \<times> conn \<times> mode" where
  "stay r = (fst r, snd r, Continue)"

subsection \<open>The remote server\<close>

definition MAX_HEX_PAYLOAD_BYTES :: nat where "MAX_HEX_PAYLOAD_BYTES = 8 * 1024 * 1024"

definition MAX_HEX_B64_CHARS :: nat where "MAX_HEX_B64_CHARS = 4 * ((MAX_HEX_PAYLOAD_BYTES + 2) div 3)"

text \<open>\<open>_op_send_hex\<close>; an \<open>mkstemp\<close> that fails raises, which ends the connection.\<close>

definition op_send_hex :: "world \<Rightarrow> string option \<Rightarrow> conn \<Rightarrow> response \<times> conn \<times> mode" where
  "op_send_hex w data c =
     (if \<not> truthy data then (Failed InvalidRequest, c, Continue)
      else if MAX_HEX_B64_CHARS < length (the data) then (Failed InvalidRequest, c, Continue)
      else case b64decode (the data) of
             None \<Rightarrow> (Failed InvalidRequest, c, Continue)
           | Some raw \<Rightarrow>
               if MAX_HEX_PAYLOAD_BYTES < length raw then (Failed InvalidRequest, c, Continue)
               else (case wd_mkstemp w (ho_files (cn_host c)) of
                       None \<Rightarrow> (Failed InternalError, c, Closed)
                     | Some path \<Rightarrow>
                         if \<not> wd_disk_ok w then (Failed InvalidRequest, c, Continue)
                         else (OkHexPath path,
                               c\<lparr>cn_host := (cn_host c)\<lparr>ho_files := dset path raw (ho_files (cn_host c))\<rparr>,
                                 cn_uploaded := List.insert path (cn_uploaded c)\<rparr>,
                               Continue)))"

definition unlink :: "string \<Rightarrow> conn \<Rightarrow> conn" where
  "unlink path c = c\<lparr>cn_host := (cn_host c)\<lparr>ho_files := ddel path (ho_files (cn_host c))\<rparr>\<rparr>"

text \<open>The flash itself, outside the lock: the exit code, \<open>None\<close> when writing a progress line raised, with
  the commands given to pyOCD. A staged file that is gone does not parse.\<close>

definition remote_flash_hex :: "world \<Rightarrow> string \<Rightarrow> device \<Rightarrow> conn \<Rightarrow> int option \<times> trace" where
  "remote_flash_hex w path record c =
     (let env = wd_flash w (case dget (ho_files (cn_host c)) path of None \<Rightarrow> [] | Some raw \<Rightarrow> raw);
          present = (dget (ho_files (cn_host c)) path \<noteq> None);
          (rc, tr) = flash_hex_policy (fe_pyocd env) (present \<and> fe_hex_ok env) (fe_port_denied env (dv_port record))
                       TARGET_MCU (dv_uid record) path
      in (if wd_log_lost w then None else Some rc, tr))"

text \<open>\<open>_op_flash\<close>: a row that is gone by the time the flash is counted raises \<open>KeyError\<close>.\<close>

definition remote_op_flash :: "world \<Rightarrow> request \<Rightarrow> holder_ref \<Rightarrow> conn \<Rightarrow> response \<times> conn \<times> mode" where
  "remote_op_flash w req holder c =
     (if \<not> truthy (rq_uid req) \<or> \<not> truthy (rq_hex_path req) then (Failed InvalidRequest, c, Continue)
      else let path = the (rq_hex_path req) in
      if path \<notin> set (cn_uploaded c) then (Failed InvalidRequest, c, Continue)
      else case resolve_visible remote_visible (registry_of c) (the (rq_uid req)) of
             Inl err \<Rightarrow> (Failed err, c, Continue)
           | Inr record \<Rightarrow>
               let uid = dv_uid record;
                   not_held = (case status (rg_locks (registry_of c)) uid of None \<Rightarrow> True
                     | Some st \<Rightarrow> ls_kind st \<noteq> KIND_FLASH \<or> ls_holder st \<noteq> holder) in
               if not_held then (Failed NotLocked, c, Continue)
               else if is_detached record then (Failed NotFound, c, Continue)
               else let exit_code = fst (remote_flash_hex w path record c);
                        c1 = c\<lparr>cn_host := wd_during w (cn_host c)\<rparr>;
                        c2 = (unlink path c1)\<lparr>cn_uploaded := removeAll path (cn_uploaded c1)\<rparr>;
                        (b, rg, evs) = release_lock (wd_tick w) uid holder (registry_of c2);
                        c3 = (set_registry rg c2)\<lparr>cn_acquired := removeAll uid (cn_acquired c2),
                                                  cn_events := cn_events c2 @ evs\<rparr> in
                    if exit_code \<noteq> Some 0 then (FlashDone False exit_code, c3, Continue)
                    else (case increment_flash_count uid (rg_store rg) of
                            Inl e \<Rightarrow> (Failed (Raised e), c3, Died)
                          | Inr (s', _) \<Rightarrow> (FlashDone True exit_code, set_registry (rg\<lparr>rg_store := s'\<rparr>) c3, Continue)))"

text \<open>A response that stands for an exception of the handler ends the connection.\<close>

definition raises :: "response \<Rightarrow> bool" where
  "raises resp \<longleftrightarrow> (case resp of Failed (Raised e) \<Rightarrow> True | Failed RaisedLockNotHeld \<Rightarrow> True | _ \<Rightarrow> False)"

definition stream_mode :: "response \<Rightarrow> mode" where
  "stream_mode resp = (case resp of OkStream record \<Rightarrow> Stream record | _ \<Rightarrow> Continue)"

definition remote_dispatch_op :: "world \<Rightarrow> holder_ref \<Rightarrow> client_request \<Rightarrow> conn \<Rightarrow> response \<times> conn \<times> mode" where
  "remote_dispatch_op w holder q c =
     (let req = request.truncate q; rg = registry_of c; acq = cn_acquired c in
      case cr_op q of
        None \<Rightarrow> (Failed InvalidRequest, c, Continue)
      | Some op \<Rightarrow>
          if op = ''list'' then stay (remote_op_list rg, c)
          else if op = ''get'' \<or> op = ''find'' then stay (op_find remote_visible req rg, c)
          else if op = ''lock'' then stay (handled (op_lock remote_visible (wd_wall w) req holder acq rg) c)
          else if op = ''unlock'' then stay (handled (op_unlock remote_visible (wd_tick w) req holder acq rg) c)
          else if op = ''mark_flashed''
          then (let (resp, rg') = op_mark_flashed remote_visible req holder rg in stay (resp, set_registry rg' c))
          else if op = ''send_hex'' then op_send_hex w (cr_data q) c
          else if op = ''flash'' then remote_op_flash w req holder c
          else if op = ''stream''
          then (let resp = op_stream_precheck remote_visible (wd_ep_open w) req holder rg in (resp, c, stream_mode resp))
          else if op = ''watch'' then (Ok, c, Watch)
          else (Failed InvalidRequest, c, Continue))"

subsection \<open>The local server\<close>

definition local_dispatch_op ::
    "world \<Rightarrow> int \<Rightarrow> nat \<Rightarrow> client_request \<Rightarrow> conn \<Rightarrow> response \<times> conn \<times> mode" where
  "local_dispatch_op w pid me q c =
     (let req = request.truncate q; rg = registry_of c; acq = cn_acquired c; holder = local_holder pid in
      case cr_op q of
        None \<Rightarrow> (Failed InvalidRequest, c, Continue)
      | Some op \<Rightarrow>
          if op = ''list'' then stay (op_list rg, c)
          else if op = ''get'' \<or> op = ''find'' then stay (op_find local_visible req rg, c)
          else if op = ''lock'' then stay (handled (dispatch_lock (wd_wall w) me req holder acq rg) c)
          else if op = ''unlock'' then stay (handled (dispatch_unlock (wd_tick w) req holder acq rg) c)
          else if op = ''force_unlock''
          then (let (resp, rg', victim, evs) = op_force_unlock (wd_tick w) req rg;
                    (resp', c') = handled (resp, rg', acq, evs) c
                in stay (resp', c'\<lparr>cn_shut := cn_shut c' @ (case victim of None \<Rightarrow> [] | Some v \<Rightarrow> [v])\<rparr>))
          else if op = ''flash''
          then stay (handled (op_flash (wd_flash w (case rq_hex_path req of None \<Rightarrow> [] | Some p \<Rightarrow> p))
                 (wd_readable w (case rq_hex_path req of None \<Rightarrow> [] | Some p \<Rightarrow> p)) (wd_ep_flash w) (wd_tick w) req pid acq rg) c)
          else if op = ''mark_flashed''
          then (let (resp, rg') = op_mark_flashed local_visible req holder rg in stay (resp, set_registry rg' c))
          else if op = ''rescan''
          then (let (resp, rg', evs) = op_rescan req rg in stay (handled (resp, rg', acq, evs) c))
          else if op = ''names_get'' then stay (op_names_get req rg, c)
          else if op = ''names_set''
          then (let (resp, rg', evs) = op_names_set (wd_wall w) req rg in stay (handled (resp, rg', acq, evs) c))
          else if op = ''names_clear''
          then (let (resp, rg', evs) = op_names_clear req rg in stay (handled (resp, rg', acq, evs) c))
          else if op = ''names_list'' then stay (op_names_list rg, c)
          else if op = ''stream''
          then (let resp = op_stream_precheck local_visible (wd_ep_open w) req holder rg in (resp, c, stream_mode resp))
          else if op = ''watch'' then (Ok, c, Watch)
          else if op = ''register_board''
          then (let (resp, rg', reg, evs) = op_register_board (wd_wall w) (cr_fields q) me rg;
                    (resp', c') = handled (resp, rg', acq, evs) c
                in (resp', c', case reg of None \<Rightarrow> Continue | Some r \<Rightarrow> Hold r))
          else (Failed InvalidRequest, c, Continue))"

subsection \<open>Serving lines\<close>

text \<open>What happens once a handler is done: an exception ends the connection with no answer; otherwise the
  answer is written, and a write that fails ends it too.\<close>

definition answer :: "world \<Rightarrow> response \<times> conn \<times> mode \<Rightarrow> conn \<times> mode" where
  "answer w r =
     (case r of (resp, c, m) \<Rightarrow>
        if raises resp \<or> m = Died then (c, Died)
        else if m = Closed \<or> \<not> wd_written w then (c, Closed)
        else (c\<lparr>cn_sent := cn_sent c @ [resp]\<rparr>, m))"

text \<open>One line, for either server: \<open>op\<close> is its \<open>_dispatch_line\<close> on a JSON object.\<close>

definition serve_line ::
    "(world \<Rightarrow> client_request \<Rightarrow> conn \<Rightarrow> response \<times> conn \<times> mode) \<Rightarrow> world \<Rightarrow> client_line \<Rightarrow> conn \<Rightarrow> conn \<times> mode" where
  "serve_line op w line c =
     (case line of
        Blank \<Rightarrow> (c, Continue)
      | Undecodable \<Rightarrow> (c, Died)
      | BadJson \<Rightarrow> answer w (Failed InvalidRequest, c, Continue)
      | NotAnObject \<Rightarrow> answer w (Failed InvalidRequest, c, Continue)
      | Request q \<Rightarrow> answer w (op w q c))"

text \<open>\<open>_check_auth\<close>: the line must be an object whose \<open>token\<close> is the server's.\<close>

definition check_auth :: "string option \<Rightarrow> world \<Rightarrow> client_line \<Rightarrow> conn \<Rightarrow> conn \<times> mode" where
  "check_auth auth_token w line c =
     (case line of
        Blank \<Rightarrow> (c, Continue)
      | Undecodable \<Rightarrow> (c, Died)
      | _ \<Rightarrow>
          (let token = (case line of Request q \<Rightarrow> rq_token q | _ \<Rightarrow> None) in
           if token \<noteq> auth_token
           then (let (c', m) = answer w (Failed Unauthorized, c, Continue)
                 in (c', if m = Continue then Closed else m))
           else answer w (Ok, c, Continue)))"

definition authenticates :: "string option \<Rightarrow> client_line \<Rightarrow> bool" where
  "authenticates auth_token line =
     (case line of Request q \<Rightarrow> rq_token q = auth_token | Blank \<Rightarrow> False | Undecodable \<Rightarrow> False | _ \<Rightarrow> auth_token = None)"

definition interleave :: "world \<Rightarrow> conn \<Rightarrow> conn" where
  "interleave w c = c\<lparr>cn_host := wd_others w (cn_host c)\<rparr>"

text \<open>The loop over the lines. The end of the input is the client closing the connection.\<close>

fun serve_lines ::
    "(world \<Rightarrow> client_request \<Rightarrow> conn \<Rightarrow> response \<times> conn \<times> mode) \<Rightarrow> string option \<Rightarrow> bool
       \<Rightarrow> (world \<times> client_line) list \<Rightarrow> conn \<Rightarrow> conn \<times> mode" where
  "serve_lines op auth_token authenticated [] c = (c, Closed)"
| "serve_lines op auth_token authenticated ((w, line) # rest) c =
     (let (c', m) = (if authenticated then serve_line op w line (interleave w c)
                     else check_auth auth_token w line (interleave w c))
      in if m = Continue
         then serve_lines op auth_token (authenticated \<or> authenticates auth_token line) rest c'
         else (c', m))"

subsection \<open>The modes\<close>

text \<open>What arrives on a streaming connection, whether the port opens, which writes to it succeed, and what
  the other threads do until it ends.\<close>

record stream_env =
  se_opens :: bool
  se_port_ok :: "port_op list \<Rightarrow> port_op \<Rightarrow> bool"
  se_bytes :: socket
  se_tick :: real
  se_others :: "host \<Rightarrow> host"

definition end_stream :: "real \<Rightarrow> uid \<Rightarrow> holder_ref \<Rightarrow> conn \<Rightarrow> conn" where
  "end_stream tick uid holder c =
     (let (b, rg, evs) = release_lock tick uid holder (registry_of c)
      in (set_registry rg c)\<lparr>cn_acquired := removeAll uid (cn_acquired c), cn_events := cn_events c @ evs\<rparr>)"

text \<open>\<open>_handle_virtual_stream\<close>, from the client to the endpoint: bytes go through as they are, until the
  client ends or a write fails.\<close>

fun forward_loop :: "(port_op list \<Rightarrow> port_op \<Rightarrow> bool) \<Rightarrow> port_op list \<Rightarrow> socket \<Rightarrow> port_op list" where
  "forward_loop port_ok ops [] = ops"
| "forward_loop port_ok ops (chunk # conn) =
     (if chunk = [] then ops
      else if port_ok ops (PortWrite chunk) then forward_loop port_ok (ops @ [PortWrite chunk]) conn
      else ops)"

text \<open>\<open>_handle_stream\<close>: what was done to the port, and the connection after it.\<close>

definition handle_stream :: "stream_env \<Rightarrow> holder_ref \<Rightarrow> device \<Rightarrow> conn \<Rightarrow> port_op list \<times> conn" where
  "handle_stream se holder record c =
     (if \<not> is_virtual record \<and> \<not> se_opens se then ([], end_stream (se_tick se) (dv_uid record) holder c)
      else let ops = (if is_virtual record then forward_loop (se_port_ok se) [] (se_bytes se)
                      else fst (stream_loop (se_port_ok se) [] (se_bytes se)))
           in (ops, end_stream (se_tick se) (dv_uid record) holder (c\<lparr>cn_host := se_others se (cn_host c)\<rparr>)))"

text \<open>The \<open>finally\<close> of the remote \<open>_handle_connection\<close>.\<close>

fun release_all :: "real \<Rightarrow> holder_ref \<Rightarrow> uid list \<Rightarrow> registry \<Rightarrow> reg_event list \<Rightarrow> registry \<times> reg_event list" where
  "release_all tick holder [] rg out = (rg, out)"
| "release_all tick holder (uid # uids) rg out =
     (let (b, rg1, evs) = release_lock tick uid holder rg in release_all tick holder uids rg1 (out @ evs))"

definition remote_close :: "real \<Rightarrow> holder_ref \<Rightarrow> conn \<Rightarrow> conn" where
  "remote_close tick holder c =
     (let (rg, evs) = release_all tick holder (cn_acquired c) (registry_of c) [];
          c1 = (set_registry rg c)\<lparr>cn_events := cn_events c @ evs\<rparr>;
          c2 = fold unlink (cn_uploaded c) c1
      in c2\<lparr>cn_host := (cn_host c2)\<lparr>ho_sessions := removeAll (h_ref holder) (ho_sessions (cn_host c2))\<rparr>\<rparr>)"

definition new_conn :: "host \<Rightarrow> conn" where
  "new_conn h = \<lparr>cn_host = h, cn_acquired = [], cn_uploaded = [], cn_sent = [], cn_events = [], cn_shut = []\<rparr>"

text \<open>\<open>_holder_for_connection\<close>: the session's own identity, a fresh UUID with the peer's address.\<close>

definition remote_holder :: "string \<Rightarrow> string \<Rightarrow> holder_ref" where
  "remote_holder uuid addr = \<lparr>h_origin = ''remote'', h_ref = uuid, h_pid = None, h_host = Some addr\<rparr>"

definition remote_handle_connection ::
    "string option \<Rightarrow> holder_ref \<Rightarrow> (world \<times> client_line) list \<Rightarrow> stream_env \<Rightarrow> host \<Rightarrow> port_op list \<times> conn \<times> mode" where
  "remote_handle_connection auth_token holder lines se h =
     (let c0 = new_conn (h\<lparr>ho_sessions := List.insert (h_ref holder) (ho_sessions h)\<rparr>);
          (c1, m) = serve_lines (\<lambda>w q. remote_dispatch_op w holder q) auth_token (auth_token = None) lines c0;
          (ops, c2) = (case m of
                         Stream record \<Rightarrow> handle_stream se holder record c1
                       | Watch \<Rightarrow> ([], c1\<lparr>cn_host := se_others se (cn_host c1)\<rparr>)
                       | _ \<Rightarrow> ([], c1))
      in (ops, remote_close (se_tick se) holder c2, m))"

definition local_handle_connection ::
    "int \<Rightarrow> nat \<Rightarrow> (world \<times> client_line) list \<Rightarrow> stream_env \<Rightarrow> host \<Rightarrow> port_op list \<times> conn \<times> mode" where
  "local_handle_connection pid me lines se h =
     (let (c1, m) = serve_lines (\<lambda>w q. local_dispatch_op w pid me q) None True lines (new_conn h);
          (ops, c2) = (case m of
                         Stream record \<Rightarrow> handle_stream se (local_holder pid) record c1
                       | Watch \<Rightarrow> ([], c1\<lparr>cn_host := se_others se (cn_host c1)\<rparr>)
                       | Hold reg \<Rightarrow>
                           (let c = c1\<lparr>cn_host := se_others se (cn_host c1)\<rparr>;
                                (rg, victim, evs) = detach_virtual (se_tick se) reg (registry_of c)
                            in ([], (set_registry rg c)\<lparr>cn_events := cn_events c @ evs,
                                      cn_shut := cn_shut c @ (case victim of None \<Rightarrow> [] | Some v \<Rightarrow> [v])\<rparr>))
                       | _ \<Rightarrow> ([], c1));
          (rg, evs) = close_connection (se_tick se) (local_holder pid) (cn_acquired c2) (registry_of c2) []
      in (ops, (set_registry rg c2)\<lparr>cn_events := cn_events c2 @ evs\<rparr>, m))"

subsection \<open>The contract of a server\<close>

text \<open>What the loop needs of a server to keep an invariant: every dispatched request, whatever it is, keeps
  it in an admissible world, the other threads keep it, and it does not depend on the answers written.\<close>

locale line_server =
  fixes op :: "world \<Rightarrow> client_request \<Rightarrow> conn \<Rightarrow> response \<times> conn \<times> mode"
    and inv :: "conn \<Rightarrow> bool"
    and fair :: "world \<Rightarrow> bool"
  assumes op_inv: "inv c \<Longrightarrow> fair w \<Longrightarrow> op w q c = (resp, c', m) \<Longrightarrow> inv c'"
    and others_inv: "inv c \<Longrightarrow> fair w \<Longrightarrow> inv (interleave w c)"
    and sent_inv: "inv c \<Longrightarrow> inv (c\<lparr>cn_sent := s\<rparr>)"
begin

lemma answer_inv: "inv c \<Longrightarrow> answer w (resp, c, m) = (c', m') \<Longrightarrow> inv c'"
  using sent_inv by (auto simp: answer_def split: if_splits)

lemma serve_line_inv: "inv c \<Longrightarrow> fair w \<Longrightarrow> serve_line op w line c = (c', m) \<Longrightarrow> inv c'"
proof (cases line)
  case (Request q)
  assume a: "inv c" "fair w" "serve_line op w line c = (c', m)"
  obtain resp c1 m1 where o': "op w q c = (resp, c1, m1)" by (cases "op w q c")
  then show ?thesis
    using a Request answer_inv op_inv [OF a(1,2) o'] by (auto simp: serve_line_def)
qed (auto simp: serve_line_def answer_inv)

lemma check_auth_inv: "inv c \<Longrightarrow> check_auth tok w line c = (c', m) \<Longrightarrow> inv c'"
  by (auto simp: check_auth_def Let_def answer_inv split: client_line.splits if_splits prod.splits)

lemma serve_lines_inv:
  assumes "inv c" and "\<forall>(w, line)\<in>set lines. fair w" and "serve_lines op tok authenticated lines c = (c', m)"
  shows "inv c'"
  using assms
proof (induction lines arbitrary: c authenticated)
  case (Cons a lines)
  obtain w line where a: "a = (w, line)" by (cases a)
  let ?r = "if authenticated then serve_line op w line (interleave w c) else check_auth tok w line (interleave w c)"
  obtain c1 m1 where r: "?r = (c1, m1)" by (cases ?r)
  have w: "fair w" and i: "inv (interleave w c)" using Cons.prems(1,2) a others_inv by auto
  have c1: "inv c1"
  proof (cases authenticated)
    case True
    then show ?thesis using serve_line_inv [OF i w] r by simp
  next
    case False
    then show ?thesis using check_auth_inv [OF i] r by simp
  qed
  show ?case
  proof (cases "m1 = Continue")
    case True
    then show ?thesis using Cons.IH [OF c1, of "authenticated \<or> authenticates tok line"] Cons.prems(2,3) a r by simp
  next
    case False
    then show ?thesis using Cons.prems(3) a r c1 by simp
  qed
qed simp

end

text \<open>The invariants: a lock taken in the connection's name is in its \<open>acquired\<close> set; and the only files
  it added to those of \<open>base\<close> are the ones in its \<open>uploaded\<close> set.\<close>

definition covered :: "holder_ref \<Rightarrow> conn \<Rightarrow> bool" where
  "covered holder c \<longleftrightarrow> (\<forall>u. held_by holder (registry_of c) u \<longrightarrow> u \<in> set (cn_acquired c))"

definition staged :: "(string, string) dict \<Rightarrow> conn \<Rightarrow> bool" where
  "staged base c \<longleftrightarrow>
     (\<forall>p. if p \<in> set (cn_uploaded c) then dget base p = None else dget (ho_files (cn_host c)) p = dget base p)"

definition leaves_holder :: "holder_ref \<Rightarrow> (host \<Rightarrow> host) \<Rightarrow> bool" where
  "leaves_holder holder f \<longleftrightarrow> (\<forall>h u. held_by holder (ho_registry (f h)) u \<longrightarrow> held_by holder (ho_registry h) u)"

definition leaves_files :: "(host \<Rightarrow> host) \<Rightarrow> bool" where
  "leaves_files f \<longleftrightarrow> (\<forall>h. ho_files (f h) = ho_files h)"

definition private_world :: "holder_ref \<Rightarrow> world \<Rightarrow> bool" where
  "private_world holder w \<longleftrightarrow> leaves_holder holder (wd_others w) \<and> leaves_holder holder (wd_during w)"

text \<open>\<open>tempfile.mkstemp\<close> answers a name that did not exist, and nobody else uses it.\<close>

definition private_files :: "world \<Rightarrow> bool" where
  "private_files w \<longleftrightarrow> leaves_files (wd_others w) \<and> leaves_files (wd_during w)
     \<and> (\<forall>fs p. wd_mkstemp w fs = Some p \<longrightarrow> dget fs p = None)"

lemma covered_simps [simp]:
  "covered holder (c\<lparr>cn_events := e\<rparr>) = covered holder c"
  "covered holder (c\<lparr>cn_sent := s\<rparr>) = covered holder c"
  "covered holder (c\<lparr>cn_shut := v\<rparr>) = covered holder c"
  "covered holder (c\<lparr>cn_uploaded := p\<rparr>) = covered holder c"
  "covered holder (c\<lparr>cn_host := (cn_host c)\<lparr>ho_files := f\<rparr>\<rparr>) = covered holder c"
  by (simp_all add: covered_def registry_of_def)

lemma registry_of_simps [simp]:
  "registry_of (set_registry rg c) = rg"
  "registry_of (unlink path c) = registry_of c"
  "registry_of (c\<lparr>cn_acquired := a\<rparr>) = registry_of c"
  "registry_of (c\<lparr>cn_events := e\<rparr>) = registry_of c"
  "registry_of (c\<lparr>cn_uploaded := p\<rparr>) = registry_of c"
  "registry_of (c\<lparr>cn_sent := s\<rparr>) = registry_of c"
  "registry_of (c\<lparr>cn_shut := v\<rparr>) = registry_of c"
  by (simp_all add: registry_of_def set_registry_def unlink_def)

lemma conn_simps [simp]:
  "cn_acquired (set_registry rg c) = cn_acquired c"
  "cn_uploaded (set_registry rg c) = cn_uploaded c"
  "cn_sent (set_registry rg c) = cn_sent c"
  "cn_events (set_registry rg c) = cn_events c"
  "ho_files (cn_host (set_registry rg c)) = ho_files (cn_host c)"
  "ho_sessions (cn_host (set_registry rg c)) = ho_sessions (cn_host c)"
  "cn_acquired (unlink path c) = cn_acquired c"
  "cn_uploaded (unlink path c) = cn_uploaded c"
  "cn_sent (unlink path c) = cn_sent c"
  "cn_events (unlink path c) = cn_events c"
  "ho_files (cn_host (unlink path c)) = ddel path (ho_files (cn_host c))"
  "ho_sessions (cn_host (unlink path c)) = ho_sessions (cn_host c)"
  by (simp_all add: set_registry_def unlink_def)

lemma covered_set_registry:
  "rg_locks rg = rg_locks (registry_of c) \<Longrightarrow> covered holder (set_registry rg c) = covered holder c"
  by (simp add: covered_def held_by_def)

subsection \<open>Both servers keep it\<close>

lemma covered_handled:
  assumes "covered holder c"
    and "\<And>u. held_by holder rg u \<Longrightarrow> u \<in> set acq \<or> held_by holder (registry_of c) u \<and> (u \<in> set (cn_acquired c) \<longrightarrow> u \<in> set acq)"
  shows "covered holder (snd (handled (resp, rg, acq, evs) c))"
proof -
  have "u \<in> set acq" if "held_by holder rg u" for u using assms(1) assms(2) [OF that] by (auto simp: covered_def)
  then show ?thesis by (simp add: handled_def covered_def)
qed

lemma force_release_held:
  "force_release_lock tick uid rg = (st, rg', evs) \<Longrightarrow> held_by holder rg' u \<Longrightarrow> held_by holder rg u"
  by (auto simp: force_release_lock_eq held_by_def split: option.splits if_splits)

lemma op_force_unlock_held:
  "op_force_unlock tick req rg = (resp, rg', v, evs) \<Longrightarrow> held_by holder rg' u \<Longrightarrow> held_by holder rg u"
  by (auto simp: op_force_unlock_def force_release_held Let_def split: if_splits sum.splits prod.splits)

lemma mark_flashed_locks: "op_mark_flashed vis req holder rg = (resp, rg') \<Longrightarrow> rg_locks rg' = rg_locks rg"
  by (auto simp: op_mark_flashed_def Let_def split: if_splits sum.splits prod.splits)

lemma rescan_locks: "op_rescan req rg = (resp, rg', evs) \<Longrightarrow> rg_locks rg' = rg_locks rg"
  by (auto simp: op_rescan_def Let_def split: if_splits prod.splits)

lemma names_locks:
  "op_names_set wall req rg = (resp, rg', evs) \<Longrightarrow> rg_locks rg' = rg_locks rg"
  "op_names_clear req rg = (resp, rg', evs) \<Longrightarrow> rg_locks rg' = rg_locks rg"
  by (auto simp: op_names_set_def op_names_clear_def Let_def split: if_splits sum.splits prod.splits py_error.splits)

lemma register_locks: "op_register_board wall js me rg = (resp, rg', reg, evs) \<Longrightarrow> rg_locks rg' = rg_locks rg"
  by (auto simp: op_register_board_def Let_def split: if_splits sum.splits prod.splits)

lemma dispatch_lock_held:
  assumes "dispatch_lock wall me req holder acq rg = (resp, rg', acq', evs)" and "held_by holder rg' u"
  shows "(held_by holder rg u \<or> u \<in> set acq') \<and> set acq \<subseteq> set acq'"
proof -
  obtain r1 rg1 acq1 e1 where o': "op_lock local_visible wall req holder acq rg = (r1, rg1, acq1, e1)"
    by (metis prod_cases4)
  then show ?thesis using assms op_lock_held [OF o', of u] by (auto simp: dispatch_lock_def Let_def)
qed

lemma dispatch_unlock_held:
  assumes "dispatch_unlock tick req holder acq rg = (resp, rg', acq', evs)" and "held_by holder rg' u"
  shows "held_by holder rg u \<and> (u \<in> set acq \<longrightarrow> u \<in> set acq')"
proof -
  obtain r1 rg1 acq1 e1 where o': "op_unlock local_visible tick req holder acq rg = (r1, rg1, acq1, e1)"
    by (metis prod_cases4)
  then have "held_by holder rg1 u" using assms by (auto simp: dispatch_unlock_def Let_def)
  then show ?thesis using op_unlock_held [OF o'] op_unlock_shrinks [OF o'] assms(1) o'
    by (auto simp: dispatch_unlock_def Let_def)
qed

lemma covered_release:
  assumes "covered holder c" and "release_lock tick uid holder (registry_of c) = (b, rg, evs)"
  shows "covered holder ((set_registry rg c)\<lparr>cn_acquired := removeAll uid (cn_acquired c)\<rparr>)"
  using assms by (auto simp: covered_def held_by_release)

lemma send_hex_covered: "op_send_hex w data c = (resp, c', m) \<Longrightarrow> covered holder c' = covered holder c"
  by (auto simp: op_send_hex_def covered_def registry_of_def split: if_splits option.splits)

lemma remote_flash_covered:
  assumes "covered holder c" and "leaves_holder holder (wd_during w)"
    and "remote_op_flash w req holder c = (resp, c', m)"
  shows "covered holder c'"
proof -
  have mid: "covered holder (unlink p (c\<lparr>cn_host := wd_during w (cn_host c)\<rparr>)\<lparr>cn_uploaded := ps\<rparr>)" for p ps
    using assms(1,2) by (auto simp: covered_def leaves_holder_def registry_of_def unlink_def)
  show ?thesis
    using assms(1,3) covered_release [OF mid]
    by (auto simp: remote_op_flash_def Let_def covered_set_registry
        split: if_splits sum.splits prod.splits split del: if_split)
qed

lemma remote_dispatch_covered:
  assumes "covered holder c" and "leaves_holder holder (wd_during w)"
    and "remote_dispatch_op w holder q c = (resp, c', m)"
  shows "covered holder c'"
proof -
  let ?req = "request.truncate q" and ?rg = "registry_of c" and ?acq = "cn_acquired c"
  have lock: "covered holder (snd (handled (op_lock remote_visible (wd_wall w) ?req holder ?acq ?rg) c))"
  proof -
    obtain r rg1 acq1 e where o': "op_lock remote_visible (wd_wall w) ?req holder ?acq ?rg = (r, rg1, acq1, e)" by (metis prod_cases4)
    show ?thesis
      unfolding o' using op_lock_held [OF o'] op_lock_grows [OF o']
      by (intro covered_handled [OF assms(1), of rg1 acq1 r e]) auto
  qed
  have unlock: "covered holder (snd (handled (op_unlock remote_visible (wd_tick w) ?req holder ?acq ?rg) c))"
  proof -
    obtain r rg1 acq1 e where o': "op_unlock remote_visible (wd_tick w) ?req holder ?acq ?rg = (r, rg1, acq1, e)" by (metis prod_cases4)
    show ?thesis
      unfolding o' using op_unlock_held [OF o'] op_unlock_shrinks [OF o']
      by (intro covered_handled [OF assms(1), of rg1 acq1 r e]) auto
  qed
  show ?thesis
    using assms lock unlock remote_flash_covered [OF assms(1,2)] send_hex_covered covered_set_registry mark_flashed_locks
    by (fastforce simp: remote_dispatch_op_def stay_def Let_def split: if_splits option.splits prod.splits)
qed

lemma local_dispatch_covered:
  assumes "covered (local_holder pid) c" and "local_dispatch_op w pid me q c = (resp, c', m)"
  shows "covered (local_holder pid) c'"
proof -
  let ?h = "local_holder pid"
  let ?req = "request.truncate q" and ?rg = "registry_of c" and ?acq = "cn_acquired c"
  have lock: "covered ?h (snd (handled (dispatch_lock (wd_wall w) me ?req ?h ?acq ?rg) c))"
  proof -
    obtain r rg1 acq1 e where o': "dispatch_lock (wd_wall w) me ?req ?h ?acq ?rg = (r, rg1, acq1, e)" by (metis prod_cases4)
    show ?thesis
      unfolding o' using dispatch_lock_held [OF o'] by (intro covered_handled [OF assms(1), of rg1 acq1 r e]) auto
  qed
  have unlock: "covered ?h (snd (handled (dispatch_unlock (wd_tick w) ?req ?h ?acq ?rg) c))"
  proof -
    obtain r rg1 acq1 e where o': "dispatch_unlock (wd_tick w) ?req ?h ?acq ?rg = (r, rg1, acq1, e)" by (metis prod_cases4)
    show ?thesis
      unfolding o' using dispatch_unlock_held [OF o'] by (intro covered_handled [OF assms(1), of rg1 acq1 r e]) auto
  qed
  have flash: "covered ?h (snd (handled (op_flash env ok ep tick ?req pid ?acq ?rg) c))" for env ok ep tick
  proof -
    obtain r rg1 acq1 e where o': "op_flash env ok ep tick ?req pid ?acq ?rg = (r, rg1, acq1, e)" by (metis prod_cases4)
    show ?thesis
      unfolding o' using op_flash_held [OF o'] by (intro covered_handled [OF assms(1), of rg1 acq1 r e]) auto
  qed
  have same: "covered ?h (snd (handled (r, rg1, ?acq, e) c))"
    if "\<And>u. held_by ?h rg1 u \<Longrightarrow> held_by ?h ?rg u" for r rg1 e
    using that by (intro covered_handled [OF assms(1), of rg1 ?acq r e]) auto
  have same': "covered ?h (snd (handled (r, rg1, ?acq, e) c))" if "rg_locks rg1 = rg_locks ?rg" for r rg1 e
    by (rule same) (simp add: held_by_locks [OF that])
  obtain fr frg fv fe where force: "op_force_unlock (wd_tick w) ?req ?rg = (fr, frg, fv, fe)" by (metis prod_cases4)
  obtain sr srg se where rescan: "op_rescan ?req ?rg = (sr, srg, se)" by (metis prod_cases3)
  obtain nr nrg ne where nset: "op_names_set (wd_wall w) ?req ?rg = (nr, nrg, ne)" by (metis prod_cases3)
  obtain cr crg ce where nclear: "op_names_clear ?req ?rg = (cr, crg, ce)" by (metis prod_cases3)
  obtain br brg breg be where board: "op_register_board (wd_wall w) (cr_fields q) me ?rg = (br, brg, breg, be)" by (metis prod_cases4)
  obtain mr mrg where mark: "op_mark_flashed local_visible ?req ?h ?rg = (mr, mrg)" by fastforce
  have "covered ?h (snd (handled (fr, frg, ?acq, fe) c))" by (rule same) (rule op_force_unlock_held [OF force])
  moreover have "covered ?h (snd (handled (sr, srg, ?acq, se) c))" by (rule same') (rule rescan_locks [OF rescan])
  moreover have "covered ?h (snd (handled (nr, nrg, ?acq, ne) c))" by (rule same') (rule names_locks(1) [OF nset])
  moreover have "covered ?h (snd (handled (cr, crg, ?acq, ce) c))" by (rule same') (rule names_locks(2) [OF nclear])
  moreover have "covered ?h (snd (handled (br, brg, ?acq, be) c))" by (rule same') (rule register_locks [OF board])
  moreover have "covered ?h (set_registry mrg c)"
    using assms(1) covered_set_registry [OF mark_flashed_locks [OF mark]] by simp
  ultimately show ?thesis
    using assms lock unlock flash force rescan nset nclear board mark
    by (fastforce simp: local_dispatch_op_def stay_def Let_def split: if_splits option.splits prod.splits)
qed

lemma staged_simps [simp]:
  "staged base (c\<lparr>cn_events := e\<rparr>) = staged base c"
  "staged base (c\<lparr>cn_sent := s\<rparr>) = staged base c"
  "staged base (c\<lparr>cn_shut := v\<rparr>) = staged base c"
  "staged base (c\<lparr>cn_acquired := a\<rparr>) = staged base c"
  "staged base (set_registry rg c) = staged base c"
  by (simp_all add: staged_def set_registry_def)

lemma staged_handled [simp]: "staged base (snd (handled r c)) = staged base c"
  by (simp add: handled_def split: prod.split)

lemma send_hex_staged:
  "staged base c \<Longrightarrow> private_files w \<Longrightarrow> op_send_hex w data c = (resp, c', m) \<Longrightarrow> staged base c'"
  by (auto simp: op_send_hex_def staged_def private_files_def split: if_splits option.splits)

lemma remote_flash_staged:
  assumes "staged base c" and "private_files w" and "remote_op_flash w req holder c = (resp, c', m)"
  shows "staged base c'"
proof -
  have "staged base (unlink p (c\<lparr>cn_host := wd_during w (cn_host c)\<rparr>)\<lparr>cn_uploaded := removeAll p (cn_uploaded c)\<rparr>)"
    if "p \<in> set (cn_uploaded c)" for p
    using that assms(1,2) by (auto simp: staged_def private_files_def leaves_files_def unlink_def split: if_splits)
  then show ?thesis
    using assms(1,3)
    by (auto simp: remote_op_flash_def Let_def split: if_splits sum.splits prod.splits split del: if_split)
qed

lemma remote_dispatch_staged:
  assumes "staged base c" and "private_files w" and "remote_dispatch_op w holder q c = (resp, c', m)"
  shows "staged base c'"
proof -
  have "staged base (fst (snd (op_send_hex w (cr_data q) c)))"
    by (metis prod.collapse send_hex_staged [OF assms(1,2)])
  moreover have "staged base (fst (snd (remote_op_flash w (request.truncate q) holder c)))"
    by (metis prod.collapse remote_flash_staged [OF assms(1,2)])
  ultimately have "staged base (fst (snd (remote_dispatch_op w holder q c)))"
    using assms(1) by (simp add: remote_dispatch_op_def stay_def Let_def case_prod_beta split: option.split)
  then show ?thesis using assms(3) by simp
qed

lemma leaves_holderD:
  "leaves_holder holder f \<Longrightarrow> held_by holder (ho_registry (f h)) u \<Longrightarrow> held_by holder (ho_registry h) u"
  unfolding leaves_holder_def by blast

lemma changed_host_covered:
  "covered holder c \<Longrightarrow> leaves_holder holder f \<Longrightarrow> covered holder (c\<lparr>cn_host := f (cn_host c)\<rparr>)"
  using leaves_holderD [of holder f "cn_host c"] by (auto simp: covered_def registry_of_def)

lemma interleave_covered: "covered holder c \<Longrightarrow> private_world holder w \<Longrightarrow> covered holder (interleave w c)"
  by (simp add: interleave_def private_world_def changed_host_covered)

lemma interleave_staged: "staged base c \<Longrightarrow> private_files w \<Longrightarrow> staged base (interleave w c)"
  unfolding staged_def private_files_def leaves_files_def interleave_def by simp

interpretation remote: line_server "\<lambda>w q. remote_dispatch_op w holder q"
    "\<lambda>c. covered holder c \<and> staged base c" "\<lambda>w. private_world holder w \<and> private_files w" for holder base
  by unfold_locales
    (auto simp: private_world_def intro: remote_dispatch_covered remote_dispatch_staged interleave_covered interleave_staged)

interpretation local: line_server "\<lambda>w q. local_dispatch_op w pid me q"
    "covered (local_holder pid)" "private_world (local_holder pid)" for pid me
  by unfold_locales (auto intro: local_dispatch_covered interleave_covered)

subsection \<open>The end of a connection\<close>

lemma release_all_held:
  "held_by holder (fst (release_all tick holder uids rg out)) u \<longleftrightarrow> held_by holder rg u \<and> u \<notin> set uids"
proof (induction uids arbitrary: rg out)
  case (Cons uid uids)
  obtain b rg1 evs where r: "release_lock tick uid holder rg = (b, rg1, evs)" by (metis prod_cases3)
  show ?case using Cons [of rg1 "out @ evs"] held_by_release [OF r, of u] by (auto simp: r)
qed simp

lemma unlink_all:
  "registry_of (fold unlink ps c) = registry_of c"
  "dget (ho_files (cn_host (fold unlink ps c))) p = (if p \<in> set ps then None else dget (ho_files (cn_host c)) p)"
  "ho_sessions (cn_host (fold unlink ps c)) = ho_sessions (cn_host c)"
  "cn_sent (fold unlink ps c) = cn_sent c"
  by (induction ps arbitrary: c) auto

lemma end_stream_covered: "covered holder c \<Longrightarrow> covered holder (end_stream tick uid holder c)"
  using covered_release [of holder c tick uid] by (auto simp: end_stream_def split: prod.splits)

lemma end_stream_staged [simp]: "staged base (end_stream tick uid holder c) = staged base c"
  by (simp add: end_stream_def split: prod.split)

lemma changed_host_staged:
  "staged base c \<Longrightarrow> leaves_files f \<Longrightarrow> staged base (c\<lparr>cn_host := f (cn_host c)\<rparr>)"
  by (simp add: staged_def leaves_files_def)

lemma handle_stream_inv:
  assumes "covered holder c \<and> staged base c" and "leaves_holder holder (se_others se)" and "leaves_files (se_others se)"
  shows "covered holder (snd (handle_stream se holder record c)) \<and> staged base (snd (handle_stream se holder record c))"
  using assms by (simp add: handle_stream_def end_stream_covered changed_host_covered changed_host_staged)

lemma remote_close_clean:
  assumes "covered holder c" and "staged base c"
  shows "\<not> held_by holder (registry_of (remote_close tick holder c)) u"
    and "dget (ho_files (cn_host (remote_close tick holder c))) p = dget base p"
    and "h_ref holder \<notin> set (ho_sessions (cn_host (remote_close tick holder c)))"
proof -
  obtain rg evs where r: "release_all tick holder (cn_acquired c) (registry_of c) [] = (rg, evs)" by fastforce
  let ?c1 = "(set_registry rg c)\<lparr>cn_events := cn_events c @ evs\<rparr>"
  have close: "remote_close tick holder c
      = (fold unlink (cn_uploaded c) ?c1)\<lparr>cn_host := (cn_host (fold unlink (cn_uploaded c) ?c1))\<lparr>ho_sessions :=
          removeAll (h_ref holder) (ho_sessions (cn_host (fold unlink (cn_uploaded c) ?c1)))\<rparr>\<rparr>"
    by (simp add: remote_close_def r Let_def)
  have "\<not> held_by holder rg u"
    using release_all_held [of holder tick "cn_acquired c" "registry_of c" "[]" u] assms(1) r by (auto simp: covered_def)
  then show "\<not> held_by holder (registry_of (remote_close tick holder c)) u"
    using unlink_all(1) [of "cn_uploaded c" ?c1] by (simp add: close registry_of_def) (simp add: set_registry_def)
  show "dget (ho_files (cn_host (remote_close tick holder c))) p = dget base p"
    using assms(2) by (simp add: close unlink_all staged_def)
  show "h_ref holder \<notin> set (ho_sessions (cn_host (remote_close tick holder c)))"
    by (simp add: close)
qed

subsection \<open>The two servers compared\<close>

text \<open>The board a request is about.\<close>

definition asked :: "client_request \<Rightarrow> string" where
  "asked q = the (if cr_op q \<in> {Some ''get'', Some ''find''} \<and> \<not> truthy (rq_uid q) then rq_token q else rq_uid q)"

lemma resolve_both:
  assumes "\<forall>d. find_device (rg_store rg) token = Inr (Some d) \<longrightarrow> remote_visible d"
  shows "resolve_visible remote_visible rg token = resolve_visible local_visible rg token"
  using assms by (auto simp: resolve_visible_def local_visible_def split: sum.splits option.splits py_error.splits)

lemma ops_of_visible:
  assumes "resolve_visible v rg (the (rq_uid req)) = resolve_visible v' rg (the (rq_uid req))"
  shows "op_lock v wall req holder acq rg = op_lock v' wall req holder acq rg"
    and "op_unlock v tick req holder acq rg = op_unlock v' tick req holder acq rg"
    and "op_mark_flashed v req holder rg = op_mark_flashed v' req holder rg"
    and "op_stream_precheck v ep req holder rg = op_stream_precheck v' ep req holder rg"
  using assms by (simp_all add: op_lock_def op_unlock_def op_mark_flashed_def op_stream_precheck_def)

lemma find_of_visible:
  assumes "resolve_visible v rg (the (if truthy (rq_uid req) then rq_uid req else rq_token req))
    = resolve_visible v' rg (the (if truthy (rq_uid req) then rq_uid req else rq_token req))"
  shows "op_find v req rg = op_find v' req rg"
  using assms by (simp add: op_find_def Let_def)

lemma remote_list_of_local:
  "remote_op_list rg = (case op_list rg of OkDevices views \<Rightarrow> OkDevices (filter (\<lambda>v. remote_visible (dw_device v) \<and> dv_state (dw_device v) \<noteq> STATE_DISCONNECTED) views) | r \<Rightarrow> r)"
proof -
  have "dw_device (device_dict rg d) = d" for d by (simp add: device_dict_def Let_def split: option.split)
  then show ?thesis
    by (simp add: remote_op_list_def op_list_def snapshot_local_devices_def list_devices_def remote_visible_def filter_map comp_def conj_commute conj_left_commute)
qed

lemma same_but_conns:
  "(case op_lock v wall req holder acq rg of (resp, rg1, acq1, evs) \<Rightarrow>
      case dispatch_lock wall me req holder acq rg of (resp', rg2, acq2, evs') \<Rightarrow>
        v = local_visible \<longrightarrow> resp = resp' \<and> acq1 = acq2 \<and> evs = evs' \<and> rg1\<lparr>rg_conns := []\<rparr> = rg2\<lparr>rg_conns := []\<rparr>)"
  "(case op_unlock v tick req holder acq rg of (resp, rg1, acq1, evs) \<Rightarrow>
      case dispatch_unlock tick req holder acq rg of (resp', rg2, acq2, evs') \<Rightarrow>
        v = local_visible \<longrightarrow> resp = resp' \<and> acq1 = acq2 \<and> evs = evs' \<and> rg1\<lparr>rg_conns := []\<rparr> = rg2\<lparr>rg_conns := []\<rparr>)"
  by (auto simp: dispatch_lock_def dispatch_unlock_def Let_def split: prod.splits)

subsection \<open>Properties\<close>

text \<open>C35: a connection of the remote server leaves nothing behind, however it ends: by the client at any
  point, by a malformed line, by an exception of a handler, by a write that fails, or out of a stream. Whatever the
  client sent and the other threads did, no lock is held in its name, every file it uploaded is gone and
  no other file was touched, and its session is no longer alive.\<close>

theorem remote_connection_leaves_nothing:
  assumes "\<forall>u. \<not> held_by holder (ho_registry h) u"
    and "\<forall>(w, line)\<in>set lines. private_world holder w \<and> private_files w"
    and "leaves_holder holder (se_others se)" and "leaves_files (se_others se)"
  shows "case remote_handle_connection auth_token holder lines se h of (ops, c, m) \<Rightarrow>
      (\<forall>u. \<not> held_by holder (registry_of c) u)
    \<and> (\<forall>p. dget (ho_files (cn_host c)) p = dget (ho_files h) p)
    \<and> h_ref holder \<notin> set (ho_sessions (cn_host c))"
proof -
  let ?c0 = "new_conn (h\<lparr>ho_sessions := List.insert (h_ref holder) (ho_sessions h)\<rparr>)"
  let ?inv = "\<lambda>c. covered holder c \<and> staged (ho_files h) c"
  obtain c1 m where s: "serve_lines (\<lambda>w q. remote_dispatch_op w holder q) auth_token (auth_token = None) lines ?c0 = (c1, m)"
    by fastforce
  have "?inv ?c0" using assms(1) by (simp add: covered_def staged_def new_conn_def registry_of_def)
  then have c1: "?inv c1" using remote.serve_lines_inv [OF _ _ s] assms(2) by auto
  let ?r = "case m of Stream record \<Rightarrow> handle_stream se holder record c1
     | Watch \<Rightarrow> ([], c1\<lparr>cn_host := se_others se (cn_host c1)\<rparr>) | _ \<Rightarrow> ([], c1)"
  obtain ops c2 where r: "?r = (ops, c2)" by fastforce
  have "?inv (snd ?r)"
    using c1 handle_stream_inv [OF c1 assms(3,4)] assms(3,4)
    by (cases m) (simp_all add: changed_host_covered changed_host_staged)
  then show ?thesis
    using remote_close_clean [of holder c2 "ho_files h" "se_tick se"]
    unfolding remote_handle_connection_def Let_def s prod.case r by simp
qed

text \<open>C36: nothing is done for a client that has not shown the token. Where the server has one, the first line
  that is not blank decides: unless it is an object with that token, the connection ends with the one
  answer \<open>unauthorized\<close> (none, if the bytes were not UTF-8 or it cannot be written), nothing after that line is even
  looked at, and the registry, the locks and the files are what the other threads made of them.\<close>

theorem remote_needs_the_token:
  assumes "auth_token = Some t" and "\<forall>(w, line)\<in>set blanks. line = Blank"
    and "line \<noteq> Blank" and "\<not> authenticates auth_token line"
  shows "case remote_handle_connection auth_token holder (blanks @ (w, line) # rest) se h of (ops, c, m) \<Rightarrow>
      ops = [] \<and> (m = Closed \<or> m = Died)
    \<and> cn_host c = (let h' = wd_others w (fold (\<lambda>(w, line). wd_others w) blanks
                              (h\<lparr>ho_sessions := List.insert (h_ref holder) (ho_sessions h)\<rparr>))
                   in h'\<lparr>ho_sessions := removeAll (h_ref holder) (ho_sessions h')\<rparr>)
    \<and> cn_sent c = (if line \<noteq> Undecodable \<and> wd_written w then [Failed Unauthorized] else [])
    \<and> cn_events c = []"
proof -
  let ?op = "\<lambda>w q. remote_dispatch_op w holder q"
  have skip: "serve_lines ?op auth_token False (blanks @ ls) c
      = serve_lines ?op auth_token False ls (c\<lparr>cn_host := fold (\<lambda>(w, line). wd_others w) blanks (cn_host c)\<rparr>)" for ls c
    using assms(2)
  proof (induction blanks arbitrary: c)
    case (Cons a blanks)
    then show ?case by (cases a) (simp add: check_auth_def authenticates_def interleave_def)
  qed simp
  define c1 where "c1 = new_conn (wd_others w (fold (\<lambda>(w, line). wd_others w) blanks
      (h\<lparr>ho_sessions := List.insert (h_ref holder) (ho_sessions h)\<rparr>)))"
  have "serve_lines ?op auth_token False (blanks @ (w, line) # rest) (new_conn (h\<lparr>ho_sessions := List.insert (h_ref holder) (ho_sessions h)\<rparr>))
      = (if line = Undecodable then (c1, Died)
         else (if wd_written w then c1\<lparr>cn_sent := [Failed Unauthorized]\<rparr> else c1, Closed))"
    using assms(1,3,4) unfolding skip c1_def new_conn_def
    by (cases line) (auto simp: check_auth_def authenticates_def interleave_def answer_def raises_def Let_def)
  then show ?thesis
    using assms(1)
    by (auto simp: remote_handle_connection_def remote_close_def c1_def new_conn_def set_registry_def registry_of_def Let_def)
qed


subsection \<open>Witnesses\<close>

definition demo_request :: "string \<Rightarrow> client_request" where
  "demo_request op = \<lparr>rq_uid = Some ''aa'', rq_token = None, rq_kind = Some ''serial'', rq_label = None,
     rq_name = None, rq_channel = None, rq_group = None, rq_hex_path = None, rq_dry_run = False,
     cr_op = Some op, cr_data = Some ''OkZG'', cr_fields = []\<rparr>"

definition demo_world :: world where
  "demo_world = \<lparr>wd_wall = 1, wd_tick = 2, wd_flash = (\<lambda>_. demo_flash_env), wd_readable = (\<lambda>_. True),
     wd_ep_flash = (\<lambda>_. EpBroken), wd_ep_open = (\<lambda>_ _. None),
     wd_mkstemp = (\<lambda>fs. if dget fs ''/tmp/h'' = None then Some ''/tmp/h'' else None),
     wd_disk_ok = True, wd_log_lost = False, wd_written = True, wd_others = id, wd_during = id\<rparr>"

definition demo_stream :: stream_env where
  "demo_stream = \<lparr>se_opens = True, se_port_ok = (\<lambda>_ _. True), se_bytes = [], se_tick = 3, se_others = id\<rparr>"

definition demo_host :: host where
  "demo_host = \<lparr>ho_registry = bench, ho_files = [], ho_sessions = []\<rparr>"

lemma demo_fair: "private_world holder demo_world" "private_files demo_world"
  "leaves_holder holder (se_others demo_stream)" "leaves_files (se_others demo_stream)"
  by (auto simp: private_world_def private_files_def leaves_holder_def leaves_files_def demo_world_def demo_stream_def
      split: if_splits)

lemma demo_find: "find_device (rg_store bench) ''aa'' = Inr (Some (demo_device ''aa'' None))"
  by (rule find_device_uid) (simp_all add: bench_def demo_get)

lemma demo_device_here: "remote_visible (demo_device ''aa'' None)" "\<not> is_detached (demo_device ''aa'' None)"
  "dv_uid (demo_device ''aa'' None) = ''aa''"
  by (simp_all add: remote_visible_def is_detached_def demo_device_def fresh_device_def is_virtual_def VIRTUAL_VID_PID_def)

text \<open>A client that locks a board, uploads a file and disappears.\<close>

theorem remote_connection_leaves_nothing_witness:
  "case remote_handle_connection None (remote_holder ''u1'' ''10.0.0.2'')
      [(demo_world, Request (demo_request ''lock'')), (demo_world, Request (demo_request ''send_hex''))] demo_stream demo_host
   of (ops, c, m) \<Rightarrow> cn_sent c = [Ok, OkHexPath ''/tmp/h''] \<and> m = Closed
     \<and> \<not> held_by (remote_holder ''u1'' ''10.0.0.2'') (registry_of c) ''aa'' \<and> dget (ho_files (cn_host c)) ''/tmp/h'' = None"
proof -
  let ?h = "remote_holder ''u1'' ''10.0.0.2''"
  let ?ls = "[(demo_world, Request (demo_request ''lock'')), (demo_world, Request (demo_request ''send_hex''))]"
  let ?c0 = "new_conn (demo_host\<lparr>ho_sessions := List.insert (h_ref ?h) (ho_sessions demo_host)\<rparr>)"
  have free: "\<forall>u. \<not> held_by ?h (ho_registry demo_host) u" by (simp add: held_by_def demo_host_def bench_def)
  have b64: "b64decode ''OkZG'' = Some '':FF''" by code_simp
  have lock: "\<exists>rg evs. op_lock remote_visible 1 (request.truncate (demo_request ''lock'')) ?h [] bench = (Ok, rg, [''aa''], evs)"
    using demo_find demo_device_here
    by (simp add: op_lock_def resolve_visible_def truthy_def demo_request_def request.truncate_def LOCK_KINDS_def kind_defs
        acquire_lock_eq bench_def)
  have "\<exists>c. serve_lines (\<lambda>w q. remote_dispatch_op w ?h q) None True ?ls ?c0 = (c, Closed) \<and> cn_sent c = [Ok, OkHexPath ''/tmp/h'']"
    using lock
    by (auto simp: serve_line_def remote_dispatch_op_def demo_request_def request.truncate_def new_conn_def demo_host_def
        demo_world_def interleave_def registry_of_def stay_def handled_def set_registry_def answer_def raises_def
        op_send_hex_def truthy_def b64 MAX_HEX_B64_CHARS_def MAX_HEX_PAYLOAD_BYTES_def Let_def)
  then obtain c where c: "serve_lines (\<lambda>w q. remote_dispatch_op w ?h q) None True ?ls ?c0 = (c, Closed)"
    "cn_sent c = [Ok, OkHexPath ''/tmp/h'']" by blast
  obtain rg evs where r: "release_all 3 ?h (cn_acquired c) (registry_of c) [] = (rg, evs)" by fastforce
  have "cn_sent (remote_close 3 ?h c) = cn_sent c" by (simp add: remote_close_def r unlink_all Let_def)
  then have "remote_handle_connection None ?h ?ls demo_stream demo_host = ([], remote_close 3 ?h c, Closed)
      \<and> cn_sent (remote_close 3 ?h c) = [Ok, OkHexPath ''/tmp/h'']"
    using c by (simp add: remote_handle_connection_def Let_def demo_stream_def)
  then show ?thesis
    using remote_connection_leaves_nothing [OF free, of ?ls demo_stream None] demo_fair
    by (simp add: demo_host_def dget_def)
qed

theorem remote_needs_the_token_witness:
  "case remote_handle_connection (Some ''secret'') (remote_holder ''u1'' ''10.0.0.2'')
      [(demo_world, Blank), (demo_world, Request (demo_request ''lock'')), (demo_world, Request (demo_request ''lock''))]
      demo_stream demo_host
   of (ops, c, m) \<Rightarrow> ops = [] \<and> cn_sent c = [Failed Unauthorized] \<and> registry_of c = bench"
proof -
  have "\<not> authenticates (Some ''secret'') (Request (demo_request ''lock''))" by (simp add: authenticates_def demo_request_def)
  then show ?thesis
    using remote_needs_the_token [where auth_token = "Some ''secret''" and t = "''secret''" and blanks = "[(demo_world, Blank)]"
        and line = "Request (demo_request ''lock'')" and holder = "remote_holder ''u1'' ''10.0.0.2''" and w = demo_world
        and rest = "[(demo_world, Request (demo_request ''lock''))]" and se = demo_stream and h = demo_host]
    by (auto simp: demo_world_def demo_host_def registry_of_def Let_def)
qed


subsection \<open>Where the code does not do what it means to\<close>

text \<open>A registration whose answer cannot be written, because the client has gone, is never undone: the
  connection ends without reaching \<open>_hold_registration\<close>, and the board stays in the table.\<close>

lemma unacknowledged_registration_stays:
  assumes "op_register_board (wd_wall w) (cr_fields q) me (ho_registry h) = (OkRegistered uid view, rg, Some reg, evs)"
    and "cr_op q = Some ''register_board''" and "wd_others w = id" and "\<not> wd_written w"
  shows "case local_handle_connection pid me [(w, Request q)] se h of (ops, c, m) \<Rightarrow> registry_of c = rg \<and> m = Closed"
  using assms
  by (simp add: local_handle_connection_def serve_line_def local_dispatch_op_def new_conn_def interleave_def registry_of_def
      set_registry_def handled_def answer_def raises_def Let_def)

end
