(* ===== verification/MB_Client.thy ===== *)
theory MB_Client
  imports MB_Server
begin

text \<open>
  Model of the clients of the registry: \<open>src/mbtools/registry/client.py\<close> (the local socket) and
  \<open>remote_client.py\<close> (another host's TCP port, with its \<open>RemoteStream\<close>), and their composition with the
  servers of \<open>MB_Server\<close>. A client is written over \<open>exchange\<close>: what the other end of a connection answers
  to one request, \<open>None\<close> when it closes the connection instead (a reply that is not JSON and a failing
  socket count as that). \<open>'s\<close> is the state of the other end, \<open>dial\<close> a new connection if one is accepted.
\<close>

subsection \<open>Errors\<close>

datatype client_exn =
    RegistryUnavailable
  | RegistryClientError api_error
  | InvalidRequestError
  | DeviceNotFoundError
  | DeviceLockedError wire_holder
  | UnexpectedReply
  | NotEncodable py_error

definition raise_for_error :: "api_error \<Rightarrow> client_exn" where
  "raise_for_error e =
     (case e of
        Locked holder \<Rightarrow> DeviceLockedError holder
      | NotFound \<Rightarrow> DeviceNotFoundError
      | InvalidRequest \<Rightarrow> InvalidRequestError
      | _ \<Rightarrow> RegistryClientError e)"

text \<open>The \<open>exit_code\<close> of the exception classes; \<open>RegistryUnavailable\<close> has none.\<close>

definition EXIT_ERROR :: int where "EXIT_ERROR = 1"
definition EXIT_USAGE :: int where "EXIT_USAGE = 2"
definition EXIT_NO_DEVICE :: int where "EXIT_NO_DEVICE = 4"
definition EXIT_LOCKED :: int where "EXIT_LOCKED = 5"

definition exit_code :: "client_exn \<Rightarrow> int option" where
  "exit_code e =
     (case e of
        RegistryClientError _ \<Rightarrow> Some EXIT_ERROR
      | InvalidRequestError \<Rightarrow> Some EXIT_USAGE
      | DeviceNotFoundError \<Rightarrow> Some EXIT_NO_DEVICE
      | DeviceLockedError _ \<Rightarrow> Some EXIT_LOCKED
      | _ \<Rightarrow> None)"

definition reply_ok :: "response \<Rightarrow> bool" where
  "reply_ok resp = (case resp of Failed _ \<Rightarrow> False | FlashDone ok _ \<Rightarrow> ok | _ \<Rightarrow> True)"

subsection \<open>Requests\<close>

definition no_fields :: client_request where
  "no_fields = \<lparr>rq_uid = None, rq_token = None, rq_kind = None, rq_label = None, rq_name = None, rq_channel = None,
     rq_group = None, rq_hex_path = None, rq_dry_run = False, cr_op = None, cr_data = None, cr_fields = []\<rparr>"

definition token_request :: "string \<Rightarrow> client_request" where
  "token_request tok = no_fields\<lparr>rq_token := Some tok\<rparr>"

definition op_request :: "string \<Rightarrow> client_request" where
  "op_request op = no_fields\<lparr>cr_op := Some op\<rparr>"

definition uid_request :: "string \<Rightarrow> string \<Rightarrow> client_request" where
  "uid_request op uid = (op_request op)\<lparr>rq_uid := Some uid\<rparr>"

definition lock_request :: "string \<Rightarrow> string \<Rightarrow> client_request" where
  "lock_request uid kind = (uid_request ''lock'' uid)\<lparr>rq_kind := Some kind\<rparr>"

definition send_hex_request :: "string \<Rightarrow> client_request" where
  "send_hex_request data = (op_request ''send_hex'')\<lparr>cr_data := Some data\<rparr>"

definition flash_request :: "string \<Rightarrow> string \<Rightarrow> client_request" where
  "flash_request uid path = (uid_request ''flash'' uid)\<lparr>rq_hex_path := Some path\<rparr>"

subsection \<open>Connecting and asking\<close>

type_synonym 's exchange = "client_request \<Rightarrow> 's \<Rightarrow> response option \<times> 's"

text \<open>A client's connection: \<open>None\<close> until \<open>connect\<close>, and again after \<open>close\<close>.\<close>

type_synonym ('s, 'a) client = "'s option \<Rightarrow> (client_exn + 'a) \<times> 's option"

definition raw_request :: "'s exchange \<Rightarrow> client_request \<Rightarrow> 's \<Rightarrow> (client_exn + response) \<times> 's" where
  "raw_request exchange q s =
     (case exchange q s of
        (None, s') \<Rightarrow> (Inl RegistryUnavailable, s')
      | (Some resp, s') \<Rightarrow> (Inr resp, s'))"

definition connect_local :: "'s option \<Rightarrow> ('s, unit) client" where
  "connect_local dial link =
     (case link of
        Some s \<Rightarrow> (Inr (), Some s)
      | None \<Rightarrow> (case dial of None \<Rightarrow> (Inl RegistryUnavailable, None) | Some s \<Rightarrow> (Inr (), Some s)))"

definition connect_remote :: "'s exchange \<Rightarrow> 's option \<Rightarrow> string option \<Rightarrow> ('s, unit) client" where
  "connect_remote exchange dial auth_token link =
     (case link of
        Some s \<Rightarrow> (Inr (), Some s)
      | None \<Rightarrow>
          (case dial of
             None \<Rightarrow> (Inl RegistryUnavailable, None)
           | Some s \<Rightarrow>
               (case auth_token of
                  None \<Rightarrow> (Inr (), Some s)
                | Some tok \<Rightarrow>
                    (case raw_request exchange (token_request tok) s of
                       (Inl e, s') \<Rightarrow> (Inl e, None)
                     | (Inr resp, s') \<Rightarrow>
                         if reply_ok resp then (Inr (), Some s')
                         else (Inl (case resp of Failed e \<Rightarrow> raise_for_error e | _ \<Rightarrow> UnexpectedReply), None)))))"

text \<open>\<open>_request\<close> of both clients, over the \<open>connect\<close> it starts with.\<close>

definition ask :: "('s, unit) client \<Rightarrow> 's exchange \<Rightarrow> client_request \<Rightarrow> ('s, response) client" where
  "ask connect exchange q link =
     (case connect link of
        (Inl e, link') \<Rightarrow> (Inl e, link')
      | (Inr _, None) \<Rightarrow> (Inl UnexpectedReply, None)
      | (Inr _, Some s) \<Rightarrow>
          (case raw_request exchange q s of
             (Inl e, s') \<Rightarrow> (Inl e, Some s')
           | (Inr resp, s') \<Rightarrow>
               (if reply_ok resp then Inr resp
                else Inl (case resp of Failed e \<Rightarrow> raise_for_error e | _ \<Rightarrow> RegistryClientError InternalError), Some s')))"

text \<open>\<open>_stream_request\<close>: the terminal answer after the progress lines, whether it is \<open>ok\<close> or not.\<close>

definition stream_request :: "('s, unit) client \<Rightarrow> 's exchange \<Rightarrow> client_request \<Rightarrow> ('s, response) client" where
  "stream_request connect exchange q link =
     (case connect link of
        (Inl e, link') \<Rightarrow> (Inl e, link')
      | (Inr _, None) \<Rightarrow> (Inl UnexpectedReply, None)
      | (Inr _, Some s) \<Rightarrow>
          (case raw_request exchange q s of
             (Inl e, s') \<Rightarrow> (Inl e, Some s')
           | (Inr resp, s') \<Rightarrow> (Inr resp, Some s')))"

definition returning :: "(response \<Rightarrow> 'a option) \<Rightarrow> ('s, response) client \<Rightarrow> ('s, 'a) client" where
  "returning f reply link =
     (case reply link of
        (Inl e, link') \<Rightarrow> (Inl e, link')
      | (Inr resp, link') \<Rightarrow> (case f resp of None \<Rightarrow> Inl UnexpectedReply | Some x \<Rightarrow> Inr x, link'))"

subsection \<open>The operations\<close>

text \<open>\<open>rq\<close> is the client's \<open>_request\<close>: \<open>local_request\<close> or \<open>remote_request\<close>.\<close>

definition local_request :: "'s exchange \<Rightarrow> 's option \<Rightarrow> client_request \<Rightarrow> ('s, response) client" where
  "local_request exchange dial q = ask (connect_local dial) exchange q"

definition remote_request :: "'s exchange \<Rightarrow> 's option \<Rightarrow> string option \<Rightarrow> client_request \<Rightarrow> ('s, response) client" where
  "remote_request exchange dial auth_token q = ask (connect_remote exchange dial auth_token) exchange q"

type_synonym 's requester = "client_request \<Rightarrow> ('s, response) client"

definition client_list :: "'s requester \<Rightarrow> ('s, device_view list) client" where
  "client_list rq = returning (\<lambda>r. case r of OkDevices views \<Rightarrow> Some views | _ \<Rightarrow> Some []) (rq (op_request ''list''))"

definition client_find :: "'s requester \<Rightarrow> string \<Rightarrow> ('s, device_view) client" where
  "client_find rq uid = returning (\<lambda>r. case r of OkDevice view \<Rightarrow> Some view | _ \<Rightarrow> None) (rq (uid_request ''find'' uid))"

definition client_lock :: "'s requester \<Rightarrow> string \<Rightarrow> string \<Rightarrow> ('s, unit) client" where
  "client_lock rq uid kind = returning (\<lambda>_. Some ()) (rq (lock_request uid kind))"

definition client_unlock :: "'s requester \<Rightarrow> string \<Rightarrow> ('s, bool) client" where
  "client_unlock rq uid =
     returning (\<lambda>r. case r of OkReleased b \<Rightarrow> Some b | _ \<Rightarrow> Some False) (rq (uid_request ''unlock'' uid))"

definition client_force_unlock :: "'s requester \<Rightarrow> string \<Rightarrow> ('s, wire_holder option) client" where
  "client_force_unlock rq uid =
     returning (\<lambda>r. case r of OkForced u holder \<Rightarrow> Some holder | _ \<Rightarrow> Some None) (rq (uid_request ''force_unlock'' uid))"

definition client_rescan :: "'s requester \<Rightarrow> bool \<Rightarrow> ('s, (string list \<times> string list) \<times> string list \<times> bool) client" where
  "client_rescan rq dry_run =
     returning (\<lambda>r. case r of OkRescan uids hosts locked dry \<Rightarrow> Some ((uids, hosts), locked, dry) | _ \<Rightarrow> None)
       (rq ((op_request ''rescan'')\<lparr>rq_dry_run := dry_run\<rparr>))"

definition client_names_get :: "'s requester \<Rightarrow> string \<Rightarrow> ('s, name_entry option) client" where
  "client_names_get rq name =
     returning (\<lambda>r. case r of OkEntry e \<Rightarrow> Some e | _ \<Rightarrow> Some None) (rq ((op_request ''names_get'')\<lparr>rq_name := Some name\<rparr>))"

definition client_names_set :: "'s requester \<Rightarrow> string \<Rightarrow> int \<Rightarrow> int \<Rightarrow> ('s, name_entry) client" where
  "client_names_set rq name channel grp =
     returning (\<lambda>r. case r of OkEntry e \<Rightarrow> e | _ \<Rightarrow> None)
       (rq ((op_request ''names_set'')\<lparr>rq_name := Some name, rq_channel := Some channel, rq_group := Some grp\<rparr>))"

definition client_names_clear :: "'s requester \<Rightarrow> string \<Rightarrow> ('s, unit) client" where
  "client_names_clear rq name = returning (\<lambda>_. Some ()) (rq ((op_request ''names_clear'')\<lparr>rq_name := Some name\<rparr>))"

definition client_names_list :: "'s requester \<Rightarrow> ('s, name_entry list) client" where
  "client_names_list rq = returning (\<lambda>r. case r of OkEntries es \<Rightarrow> Some es | _ \<Rightarrow> Some []) (rq (op_request ''names_list''))"

definition client_mark_flashed :: "'s requester \<Rightarrow> string \<Rightarrow> ('s, unit) client" where
  "client_mark_flashed rq uid = returning (\<lambda>_. Some ()) (rq (uid_request ''mark_flashed'' uid))"

text \<open>\<open>RemoteRegistryClient.flash\<close>, \<open>data\<close> being the bytes of the local file: the success flag and the exit code of
  its \<open>FlashResult\<close>.\<close>

definition client_flash ::
    "'s exchange \<Rightarrow> 's option \<Rightarrow> string option \<Rightarrow> string \<Rightarrow> string \<Rightarrow> ('s, bool \<times> int option) client" where
  "client_flash exchange dial auth_token uid data link =
     (case remote_request exchange dial auth_token (send_hex_request (b64encode data)) link of
        (Inl e, link') \<Rightarrow> (Inl e, link')
      | (Inr (OkHexPath path), link') \<Rightarrow>
          (case stream_request (connect_remote exchange dial auth_token) exchange (flash_request uid path) link' of
             (Inl e, link2) \<Rightarrow> (Inl e, link2)
           | (Inr (Failed e), link2) \<Rightarrow> (Inl (raise_for_error e), link2)
           | (Inr (FlashDone ok rc), link2) \<Rightarrow> (Inr (ok, rc), link2)
           | (Inr _, link2) \<Rightarrow> (Inr (False, None), link2))
      | (Inr _, link') \<Rightarrow> (Inl UnexpectedReply, link'))"

text \<open>\<open>open_stream\<close> hands the connection over: the client has none afterwards.\<close>

definition client_open_stream ::
    "'s exchange \<Rightarrow> 's option \<Rightarrow> string option \<Rightarrow> string \<Rightarrow> ('s, 's) client" where
  "client_open_stream exchange dial auth_token uid link =
     (case remote_request exchange dial auth_token (uid_request ''stream'' uid) link of
        (Inl e, link') \<Rightarrow> (Inl e, link')
      | (Inr _, Some s) \<Rightarrow> (Inr s, None)
      | (Inr _, None) \<Rightarrow> (Inl UnexpectedReply, None))"

subsection \<open>\<open>RemoteStream\<close>\<close>

record remote_stream =
  rs_sent :: "byte list list"
  rs_closed :: bool

definition open_remote_stream :: remote_stream where
  "open_remote_stream = \<lparr>rs_sent = [], rs_closed = False\<rparr>"

text \<open>\<open>alive\<close>: the socket accepts the bytes; a closed one never does.\<close>

definition send_frame :: "bool \<Rightarrow> int \<Rightarrow> byte list \<Rightarrow> remote_stream \<Rightarrow> (client_exn + unit) \<times> remote_stream" where
  "send_frame alive frame_type payload rs =
     (case encode_frame frame_type payload of
        Inl e \<Rightarrow> (Inl (NotEncodable e), rs)
      | Inr bytes \<Rightarrow>
          if \<not> alive \<or> rs_closed rs then (Inl RegistryUnavailable, rs)
          else (Inr (), rs\<lparr>rs_sent := rs_sent rs @ [bytes]\<rparr>))"

definition stream_write :: "bool \<Rightarrow> byte list \<Rightarrow> remote_stream \<Rightarrow> (client_exn + unit) \<times> remote_stream" where
  "stream_write alive data rs = send_frame alive FRAME_DATA data rs"

definition stream_send_break :: "bool \<Rightarrow> remote_stream \<Rightarrow> (client_exn + unit) \<times> remote_stream" where
  "stream_send_break alive rs = send_frame alive FRAME_BREAK [] rs"

definition stream_set_dtr :: "bool \<Rightarrow> bool \<Rightarrow> remote_stream \<Rightarrow> (client_exn + unit) \<times> remote_stream" where
  "stream_set_dtr alive value rs = send_frame alive FRAME_SET_DTR [if value then 1 else 0] rs"

definition stream_set_rts :: "bool \<Rightarrow> bool \<Rightarrow> remote_stream \<Rightarrow> (client_exn + unit) \<times> remote_stream" where
  "stream_set_rts alive value rs = send_frame alive FRAME_SET_RTS [if value then 1 else 0] rs"

text \<open>\<open>close\<close>: once, and a socket that refuses the last frame is ignored.\<close>

definition stream_close :: "bool \<Rightarrow> remote_stream \<Rightarrow> remote_stream" where
  "stream_close alive rs = (if rs_closed rs then rs else (snd (send_frame alive FRAME_CLOSE [] rs))\<lparr>rs_closed := True\<rparr>)"

text \<open>\<open>read\<close>: the next payload, \<open>None\<close> at the end.\<close>

definition stream_read :: "socket \<Rightarrow> (client_exn + byte list option) \<times> socket" where
  "stream_read conn =
     (case read_frame socket_read_exact conn of
        (Inl e, conn') \<Rightarrow> (Inl RegistryUnavailable, conn')
      | (Inr None, conn') \<Rightarrow> (Inr None, conn')
      | (Inr (Some (frame_type, payload)), conn') \<Rightarrow>
          (Inr (if frame_type = FRAME_CLOSE then None else Some payload), conn'))"

text \<open>A session of a remote stream: the operations the user calls, each on a working socket.\<close>

fun stream_do :: "port_op \<Rightarrow> remote_stream \<Rightarrow> (client_exn + unit) \<times> remote_stream" where
  "stream_do (PortWrite data) rs = stream_write True data rs"
| "stream_do PortBreak rs = stream_send_break True rs"
| "stream_do (PortDtr v) rs = stream_set_dtr True v rs"
| "stream_do (PortRts v) rs = stream_set_rts True v rs"

definition stream_run :: "port_op list \<Rightarrow> remote_stream" where
  "stream_run ops = stream_close True (fold (\<lambda>op rs. snd (stream_do op rs)) ops open_remote_stream)"

subsection \<open>The remote server as the other end\<close>

text \<open>The server's side of one connection: what it has served so far, and what the world will do during each of
  the next requests; when that runs out, the connection breaks.\<close>

record remote_end =
  re_conn :: conn
  re_authenticated :: bool
  re_mode :: mode
  re_worlds :: "world list"

definition remote_exchange :: "string option \<Rightarrow> holder_ref \<Rightarrow> remote_end exchange" where
  "remote_exchange auth_token holder q r =
     (case re_worlds r of
        [] \<Rightarrow> (None, r\<lparr>re_mode := Closed\<rparr>)
      | w # ws \<Rightarrow>
          if re_mode r \<noteq> Continue then (None, r)
          else let c = interleave w (re_conn r);
                   (c', m) = (if re_authenticated r then serve_line (\<lambda>w q. remote_dispatch_op w holder q) w (Request q) c
                              else check_auth auth_token w (Request q) c)
               in (if length (cn_sent c') = length (cn_sent c) then None else Some (last (cn_sent c')),
                   \<lparr>re_conn = c', re_authenticated = re_authenticated r \<or> authenticates auth_token (Request q),
                     re_mode = m, re_worlds = ws\<rparr>))"

definition remote_accept :: "string option \<Rightarrow> world list \<Rightarrow> host \<Rightarrow> remote_end" where
  "remote_accept auth_token ws h =
     \<lparr>re_conn = new_conn h, re_authenticated = (auth_token = None), re_mode = Continue, re_worlds = ws\<rparr>"

subsection \<open>One exchange\<close>

text \<open>A world in which nothing interferes: no other thread acts, the disk takes the file and answers arrive.\<close>

definition calm :: "world \<Rightarrow> bool" where
  "calm w \<longleftrightarrow> wd_others w = id \<and> wd_during w = id \<and> wd_disk_ok w \<and> wd_written w \<and> \<not> wd_log_lost w"

lemma remote_exchange_step:
  assumes "re_authenticated r" and "re_mode r = Continue" and "re_worlds r = w # ws" and "calm w"
    and "remote_dispatch_op w holder q (re_conn r) = (resp, c', m)" and "\<not> raises resp" and "m \<noteq> Died" and "m \<noteq> Closed"
    and "cn_sent c' = cn_sent (re_conn r)"
  shows "remote_exchange auth_token holder q r
    = (Some resp, \<lparr>re_conn = c'\<lparr>cn_sent := cn_sent c' @ [resp]\<rparr>, re_authenticated = True, re_mode = m, re_worlds = ws\<rparr>)"
  using assms by (simp add: remote_exchange_def interleave_def calm_def serve_line_def answer_def)

lemma lock_granted:
  assumes "resolve_visible remote_visible (registry_of c) uid = Inr d" and "\<not> is_detached d" and "uid \<noteq> []"
    and "dget (rg_locks (registry_of c)) (dv_uid d) = None" and "kind \<in> set LOCK_KINDS" and "kind \<noteq> []"
  shows "\<exists>evs. remote_dispatch_op w holder (lock_request uid kind) c
    = (Ok, (set_registry ((registry_of c)\<lparr>rg_locks := dset (dv_uid d)
              \<lparr>ls_kind = kind, ls_holder = holder, ls_label = None, ls_since = wd_wall w\<rparr> (rg_locks (registry_of c))\<rparr>) c)
              \<lparr>cn_acquired := List.insert (dv_uid d) (cn_acquired c), cn_events := cn_events c @ evs\<rparr>, Continue)"
  using assms
  by (auto simp: remote_dispatch_op_def lock_request_def uid_request_def op_request_def no_fields_def request.truncate_def
      op_lock_def truthy_def acquire_lock_eq stay_def handled_def Let_def)

lemma length_b64encode: "length (b64encode s) = 4 * ((length s + 2) div 3)"
proof (induction s rule: b64encode.induct)
  case (1 x y z rest)
  have "(5 + n) div 3 = Suc ((2 + n) div 3)" for n :: nat by presburger
  with 1 show ?case by (simp add: Let_def)
qed (simp_all add: Let_def)

lemma hex_staged:
  assumes "data \<noteq> []" and "length data \<le> MAX_HEX_PAYLOAD_BYTES" and "wd_disk_ok w"
    and "wd_mkstemp w (ho_files (cn_host c)) = Some path"
  shows "remote_dispatch_op w holder (send_hex_request (b64encode data)) c
    = (OkHexPath path, c\<lparr>cn_host := (cn_host c)\<lparr>ho_files := dset path data (ho_files (cn_host c))\<rparr>,
                         cn_uploaded := List.insert path (cn_uploaded c)\<rparr>, Continue)"
proof -
  have "length (b64encode data) \<le> MAX_HEX_B64_CHARS"
    using assms(2) by (simp add: length_b64encode MAX_HEX_B64_CHARS_def div_le_mono)
  moreover have "b64encode data \<noteq> []" using length_b64encode [of data] assms(1) by (cases data) auto
  ultimately show ?thesis
    using assms
    by (simp add: remote_dispatch_op_def send_hex_request_def op_request_def no_fields_def op_send_hex_def truthy_def
        b64decode_encode Let_def)
qed

lemma board_flashed:
  assumes "resolve_visible remote_visible (registry_of c) uid = Inr d" and "\<not> is_detached d" and "uid \<noteq> []"
    and "dget (rg_locks (registry_of c)) (dv_uid d) = Some st" and "ls_kind st = KIND_FLASH" and "ls_holder st = holder"
    and "path \<in> set (cn_uploaded c)" and "path \<noteq> []" and "dget (ho_files (cn_host c)) path = Some data" and "calm w"
    and "get (rg_store (registry_of c)) (dv_uid d) = Some d"
    and "rc = fst (flash_hex_policy (fe_pyocd (wd_flash w data)) (fe_hex_ok (wd_flash w data))
                (fe_port_denied (wd_flash w data) (dv_port d)) TARGET_MCU (dv_uid d) path)"
  shows "\<exists>c'. remote_dispatch_op w holder (flash_request uid path) c = (FlashDone (rc = 0) (Some rc), c', Continue)
    \<and> cn_sent c' = cn_sent c \<and> dget (rg_locks (registry_of c')) (dv_uid d) = None
    \<and> get (rg_store (registry_of c')) (dv_uid d) = Some (if rc = 0 then d\<lparr>dv_flash_count := dv_flash_count d + 1\<rparr> else d)
    \<and> ho_files (cn_host c') = ddel path (ho_files (cn_host c))"
proof -
  let ?rg = "(registry_of c)\<lparr>rg_locks := ddel (dv_uid d) (rg_locks (registry_of c)),
    rg_pending := on_flash_release (wd_tick w) (dv_uid d) (rg_pending (registry_of c))\<rparr>"
  have rel: "release_lock (wd_tick w) (dv_uid d) holder (registry_of c) = (True, ?rg, [EvLock (dv_uid d) None None None None])"
    using assms(4-6) by (simp add: release_lock_eq)
  have inc: "increment_flash_count (dv_uid d) (rg_store (registry_of c))
      = Inr (update_device (dv_uid d) (\<lambda>d. d\<lparr>dv_flash_count := dv_flash_count d + 1\<rparr>) (rg_store (registry_of c)),
             d\<lparr>dv_flash_count := dv_flash_count d + 1\<rparr>)"
    using guarded_update_eq [of "\<lambda>d. d\<lparr>dv_flash_count := dv_flash_count d + 1\<rparr>" "dv_uid d"] assms(11)
    by (simp add: increment_flash_count_def)
  define c' where "c' = (set_registry (if rc = 0
      then ?rg\<lparr>rg_store := update_device (dv_uid d) (\<lambda>d. d\<lparr>dv_flash_count := dv_flash_count d + 1\<rparr>) (rg_store (registry_of c))\<rparr>
      else ?rg) (unlink path c))\<lparr>cn_uploaded := removeAll path (cn_uploaded c), cn_acquired := removeAll (dv_uid d) (cn_acquired c),
        cn_events := cn_events c @ [EvLock (dv_uid d) None None None None]\<rparr>"
  have "remote_op_flash w (request.truncate (flash_request uid path)) holder c = (FlashDone (rc = 0) (Some rc), c', Continue)"
    unfolding c'_def using assms rel inc
    by (simp add: remote_op_flash_def flash_request_def uid_request_def op_request_def no_fields_def request.truncate_def
        truthy_def status_def remote_flash_hex_def calm_def case_prod_beta Let_def)
      (simp add: set_registry_def)
  moreover have "remote_dispatch_op w holder (flash_request uid path) c = remote_op_flash w (request.truncate (flash_request uid path)) holder c"
    by (simp add: remote_dispatch_op_def flash_request_def uid_request_def op_request_def no_fields_def Let_def)
  moreover have "cn_sent c' = cn_sent c" "dget (rg_locks (registry_of c')) (dv_uid d) = None"
    "ho_files (cn_host c') = ddel path (ho_files (cn_host c))"
    by (simp_all add: c'_def)
  moreover have "get (rg_store (registry_of c')) (dv_uid d) = Some (if rc = 0 then d\<lparr>dv_flash_count := dv_flash_count d + 1\<rparr> else d)"
    using assms(11) get_update [of "\<lambda>d. d\<lparr>dv_flash_count := dv_flash_count d + 1\<rparr>"] by (simp add: c'_def)
  ultimately show ?thesis by simp
qed

lemma connected:
  assumes "\<forall>w\<in>set ws. calm w" and "ws \<noteq> []"
  shows "\<exists>r. connect_remote (remote_exchange auth_token holder) (Some (remote_accept auth_token ws h)) auth_token None = (Inr (), Some r)
    \<and> re_authenticated r \<and> re_mode r = Continue \<and> cn_host (re_conn r) = h \<and> (re_worlds r = ws \<or> re_worlds r = tl ws)"
proof (cases auth_token)
  case None
  then show ?thesis by (simp add: connect_remote_def remote_accept_def new_conn_def)
next
  case (Some tok)
  obtain w ws' where ws: "ws = w # ws'" using assms(2) by (cases ws) auto
  have calm_w: "calm w" using assms(1) ws by simp
  have tok: "rq_token (token_request tok) = Some tok" by (simp add: token_request_def no_fields_def)
  show ?thesis
    using calm_w Some
    by (simp add: connect_remote_def raw_request_def remote_exchange_def remote_accept_def ws check_auth_def tok answer_def
        raises_def calm_def interleave_def new_conn_def reply_ok_def authenticates_def)
qed

lemma ask_connected:
  "remote_request exchange dial tok q (Some r)
     = (case exchange q r of (None, r') \<Rightarrow> (Inl RegistryUnavailable, Some r')
        | (Some resp, r') \<Rightarrow> (if reply_ok resp then Inr resp
            else Inl (case resp of Failed e \<Rightarrow> raise_for_error e | _ \<Rightarrow> RegistryClientError InternalError), Some r'))"
  "stream_request (connect_remote exchange dial tok) exchange q (Some r)
     = (case exchange q r of (None, r') \<Rightarrow> (Inl RegistryUnavailable, Some r') | (Some resp, r') \<Rightarrow> (Inr resp, Some r'))"
  by (simp_all add: remote_request_def stream_request_def ask_def connect_remote_def raw_request_def split: prod.split option.split)

lemma ask_first:
  assumes "connect_remote exchange dial tok None = (Inr (), Some r)"
  shows "remote_request exchange dial tok q None = remote_request exchange dial tok q (Some r)"
  using assms by (simp add: remote_request_def ask_def connect_remote_def [of _ _ _ "Some r"])

subsection \<open>Properties\<close>

text \<open>C38: flashing a board of another host works end to end. A client that shows the server's token, locks a
  free board for flashing and flashes the bytes of a file gets the outcome of flashing exactly these bytes
  onto that board; afterwards the board is unlocked, its flash count has gone up by one if and only if the
  flash succeeded, and the server keeps no copy of the file.\<close>

theorem remote_client_flashes_board:
  assumes "\<forall>w\<in>set ws. calm w \<and> wd_flash w = fl \<and> wd_mkstemp w (ho_files h) = Some path" and "4 \<le> length ws"
    and "devices_unique (rg_store (ho_registry h))"
    and "resolve_visible remote_visible (ho_registry h) uid = Inr d" and "\<not> is_detached d"
    and "dget (rg_locks (ho_registry h)) (dv_uid d) = None"
    and "uid \<noteq> []" and "path \<noteq> []" and "data \<noteq> []" and "length data \<le> MAX_HEX_PAYLOAD_BYTES"
  shows "let exchange = remote_exchange auth_token holder; dial = Some (remote_accept auth_token ws h);
             rc = fst (flash_hex_policy (fe_pyocd (fl data)) (fe_hex_ok (fl data)) (fe_port_denied (fl data) (dv_port d))
                         TARGET_MCU (dv_uid d) path)
         in case client_lock (remote_request exchange dial auth_token) uid KIND_FLASH None of (locked, link) \<Rightarrow>
            case client_flash exchange dial auth_token uid data link of (result, link') \<Rightarrow>
              locked = Inr () \<and> result = Inr (rc = 0, Some rc)
              \<and> (\<exists>r. link' = Some r
                   \<and> status (rg_locks (registry_of (re_conn r))) (dv_uid d) = None
                   \<and> get (rg_store (registry_of (re_conn r))) (dv_uid d)
                       = Some (if rc = 0 then d\<lparr>dv_flash_count := dv_flash_count d + 1\<rparr> else d)
                   \<and> dget (ho_files (cn_host (re_conn r))) path = None)"
proof -
  let ?x = "remote_exchange auth_token holder" and ?dial = "Some (remote_accept auth_token ws h)"
  have "\<forall>w\<in>set ws. calm w" and "ws \<noteq> []" using assms(1,2) by auto
  then obtain r where r: "connect_remote ?x ?dial auth_token None = (Inr (), Some r)" "re_authenticated r"
    "re_mode r = Continue" "cn_host (re_conn r) = h" "re_worlds r = ws \<or> re_worlds r = tl ws"
    using connected [of ws auth_token holder h] by blast
  have "3 \<le> length (re_worlds r)" "set (re_worlds r) \<subseteq> set ws"
    using r(5) assms(2) by (auto, metis list.sel(2) list.set_sel(2))
  then obtain w1 w2 w3 rest where ws: "re_worlds r = w1 # w2 # w3 # rest" "w1 \<in> set ws" "w2 \<in> set ws" "w3 \<in> set ws"
    by (auto simp: numeral_3_eq_3 Suc_le_length_iff)
  have calm: "calm w1" "calm w2" "calm w3" "wd_flash w3 = fl" "wd_mkstemp w2 (ho_files h) = Some path"
    using ws assms(1) by auto
  have d: "d \<in> set (st_devices (rg_store (ho_registry h)))"
    using assms(4) find_device_in by (auto simp: resolve_visible_def split: sum.splits option.splits py_error.splits if_splits)
  then have row: "get (rg_store (ho_registry h)) (dv_uid d) = Some d" using assms(3) by (rule devices_get [rotated])
  have reg: "registry_of (re_conn r) = ho_registry h" by (simp add: registry_of_def r(4))
  let ?st = "\<lparr>ls_kind = KIND_FLASH, ls_holder = holder, ls_label = None, ls_since = wd_wall w1\<rparr>"
  let ?rg1 = "(ho_registry h)\<lparr>rg_locks := dset (dv_uid d) ?st (rg_locks (ho_registry h))\<rparr>"
  obtain evs where lock: "remote_dispatch_op w1 holder (lock_request uid KIND_FLASH) (re_conn r)
      = (Ok, (set_registry ?rg1 (re_conn r))\<lparr>cn_acquired := List.insert (dv_uid d) (cn_acquired (re_conn r)),
                                               cn_events := cn_events (re_conn r) @ evs\<rparr>, Continue)"
    using lock_granted [of "re_conn r" uid d KIND_FLASH w1 holder] assms(4-7) reg by (auto simp: LOCK_KINDS_def kind_defs)
  define c1 where "c1 = (set_registry ?rg1 (re_conn r))\<lparr>cn_acquired := List.insert (dv_uid d) (cn_acquired (re_conn r)),
      cn_events := cn_events (re_conn r) @ evs, cn_sent := cn_sent (re_conn r) @ [Ok]\<rparr>"
  define r1 where "r1 = \<lparr>re_conn = c1, re_authenticated = True, re_mode = Continue, re_worlds = w2 # w3 # rest\<rparr>"
  have x1: "?x (lock_request uid KIND_FLASH) r = (Some Ok, r1)"
    using remote_exchange_step [OF r(2,3) ws(1) calm(1) lock]
    by (simp add: raises_def r1_def c1_def)
  have f1: "ho_files (cn_host c1) = ho_files h" "registry_of c1 = ?rg1" by (simp_all add: c1_def r(4))
  define c2 where "c2 = c1\<lparr>cn_host := (cn_host c1)\<lparr>ho_files := dset path data (ho_files h)\<rparr>,
      cn_uploaded := List.insert path (cn_uploaded c1), cn_sent := cn_sent c1 @ [OkHexPath path]\<rparr>"
  define r2 where "r2 = \<lparr>re_conn = c2, re_authenticated = True, re_mode = Continue, re_worlds = w3 # rest\<rparr>"
  have staged: "remote_dispatch_op w2 holder (send_hex_request (b64encode data)) c1
      = (OkHexPath path, c1\<lparr>cn_host := (cn_host c1)\<lparr>ho_files := dset path data (ho_files h)\<rparr>,
                            cn_uploaded := List.insert path (cn_uploaded c1)\<rparr>, Continue)"
    using hex_staged [OF assms(9,10), of w2 c1] calm by (simp add: f1 calm_def)
  have x2: "?x (send_hex_request (b64encode data)) r1 = (Some (OkHexPath path), r2)"
    using remote_exchange_step [of r1 w2 "w3 # rest" holder "send_hex_request (b64encode data)"] staged calm(2)
    by (simp add: raises_def r1_def r2_def c2_def)
  have f2: "registry_of c2 = ?rg1" "dget (ho_files (cn_host c2)) path = Some data" "path \<in> set (cn_uploaded c2)"
    using f1 by (simp_all add: c2_def registry_of_def)
  let ?rc = "fst (flash_hex_policy (fe_pyocd (fl data)) (fe_hex_ok (fl data)) (fe_port_denied (fl data) (dv_port d))
    TARGET_MCU (dv_uid d) path)"
  have res: "resolve_visible remote_visible ?rg1 uid = Inr d" using assms(4) by (simp add: resolve_visible_def)
  obtain c3 where c3: "remote_dispatch_op w3 holder (flash_request uid path) c2 = (FlashDone (?rc = 0) (Some ?rc), c3, Continue)"
    "cn_sent c3 = cn_sent c2" "dget (rg_locks (registry_of c3)) (dv_uid d) = None"
    "get (rg_store (registry_of c3)) (dv_uid d) = Some (if ?rc = 0 then d\<lparr>dv_flash_count := dv_flash_count d + 1\<rparr> else d)"
    "ho_files (cn_host c3) = ddel path (ho_files (cn_host c2))"
    using board_flashed [of c2 uid d ?st holder path data w3 ?rc] res assms(5,7,8) f2 calm(3,4) row by auto
  have x3: "?x (flash_request uid path) r2 = (Some (FlashDone (?rc = 0) (Some ?rc)),
      \<lparr>re_conn = c3\<lparr>cn_sent := cn_sent c3 @ [FlashDone (?rc = 0) (Some ?rc)]\<rparr>, re_authenticated = True, re_mode = Continue, re_worlds = rest\<rparr>)"
    using remote_exchange_step [of r2 w3 rest holder "flash_request uid path"] c3(1,2) calm(3)
    by (simp add: raises_def r2_def)
  have "client_lock (remote_request ?x ?dial auth_token) uid KIND_FLASH None = (Inr (), Some r1)"
    by (simp add: client_lock_def returning_def ask_first [OF r(1)] ask_connected x1 reply_ok_def)
  moreover have "client_flash ?x ?dial auth_token uid data (Some r1) = (Inr (?rc = 0, Some ?rc),
      Some \<lparr>re_conn = c3\<lparr>cn_sent := cn_sent c3 @ [FlashDone (?rc = 0) (Some ?rc)]\<rparr>, re_authenticated = True, re_mode = Continue, re_worlds = rest\<rparr>)"
    by (simp add: client_flash_def ask_connected x2 x3 reply_ok_def)
  ultimately show ?thesis using c3 by (simp add: status_def)
qed

subsection \<open>The stream, end to end\<close>

fun frame_of :: "port_op \<Rightarrow> int \<times> byte list" where
  "frame_of (PortWrite data) = (FRAME_DATA, data)"
| "frame_of PortBreak = (FRAME_BREAK, [])"
| "frame_of (PortDtr v) = (FRAME_SET_DTR, [if v then 1 else 0])"
| "frame_of (PortRts v) = (FRAME_SET_RTS, [if v then 1 else 0])"

definition small_frame :: "port_op \<Rightarrow> bool" where
  "small_frame op \<longleftrightarrow> (case op of PortWrite data \<Rightarrow> length data \<le> MAX_FRAME_PAYLOAD | _ \<Rightarrow> True)"

lemmas frame_numbers = FRAME_DATA_def FRAME_BREAK_def FRAME_SET_DTR_def FRAME_SET_RTS_def FRAME_CLOSE_def

lemma stream_do_frame: "stream_do op rs = send_frame True (fst (frame_of op)) (snd (frame_of op)) rs"
  by (cases op) (simp_all add: stream_write_def stream_send_break_def stream_set_dtr_def stream_set_rts_def)

lemma frame_encodes:
  assumes "small_frame op"
  shows "\<exists>bs. encode_frame (fst (frame_of op)) (snd (frame_of op)) = Inr bs" and "length (snd (frame_of op)) \<le> MAX_FRAME_PAYLOAD"
  using assms by (cases op; auto simp: encode_frame_def to_bytes4_def small_frame_def frame_numbers MAX_FRAME_PAYLOAD_def)+

lemma frame_ops_of: "frame_ops (map frame_of ops) = ops"
proof (induction ops)
  case (Cons op ops)
  then show ?case
    by (cases op) (simp_all add: frame_ops_def frame_action_def frame_numbers)
qed (simp add: frame_ops_def)

lemma frame_never_stops: "frame_action (fst (frame_of op)) (snd (frame_of op)) \<noteq> Stop"
  by (cases op) (simp_all add: frame_action_def frame_numbers)

lemma stream_sends:
  assumes "\<forall>op\<in>set ops. small_frame op" and "\<not> rs_closed rs"
  shows "\<exists>bss. list_all2 (\<lambda>(ft, p) bs. encode_frame ft p = Inr bs \<and> length p \<le> MAX_FRAME_PAYLOAD) (map frame_of ops) bss
    \<and> fold (\<lambda>op rs. snd (stream_do op rs)) ops rs = rs\<lparr>rs_sent := rs_sent rs @ bss\<rparr>"
  using assms
proof (induction ops arbitrary: rs)
  case (Cons op ops)
  obtain bs where bs: "encode_frame (fst (frame_of op)) (snd (frame_of op)) = Inr bs" "length (snd (frame_of op)) \<le> MAX_FRAME_PAYLOAD"
    using frame_encodes Cons.prems(1) by fastforce
  let ?rs = "rs\<lparr>rs_sent := rs_sent rs @ [bs]\<rparr>"
  have step: "snd (stream_do op rs) = ?rs" using bs Cons.prems(2) by (simp add: stream_do_frame send_frame_def)
  obtain bss where "list_all2 (\<lambda>(ft, p) bs. encode_frame ft p = Inr bs \<and> length p \<le> MAX_FRAME_PAYLOAD) (map frame_of ops) bss"
    "fold (\<lambda>op rs. snd (stream_do op rs)) ops ?rs = ?rs\<lparr>rs_sent := rs_sent ?rs @ bss\<rparr>"
    using Cons.IH [of ?rs] Cons.prems by auto
  then show ?case using step bs by (intro exI [of _ "bs # bss"]) (auto simp: case_prod_unfold)
qed simp


subsection \<open>Witnesses\<close>

theorem remote_client_flashes_board_witness:
  "let exchange = remote_exchange (Some ''secret'') (remote_holder ''u1'' ''10.0.0.2'');
       dial = Some (remote_accept (Some ''secret'') (replicate 4 demo_world) demo_host)
   in case client_lock (remote_request exchange dial (Some ''secret'')) ''aa'' KIND_FLASH None of (locked, link) \<Rightarrow>
      case client_flash exchange dial (Some ''secret'') ''aa'' '':00000001FF'' link of (result, link') \<Rightarrow>
        locked = Inr () \<and> result = Inr (True, Some 0)"
proof -
  have policy: "fst (flash_hex_policy demo_pyocd True False TARGET_MCU ''aa'' ''/tmp/h'') = 0" by code_simp
  have "\<forall>w\<in>set (replicate 4 demo_world). calm w \<and> wd_flash w = (\<lambda>_. demo_flash_env)
      \<and> wd_mkstemp w (ho_files demo_host) = Some ''/tmp/h''"
    by (simp add: calm_def demo_world_def demo_host_def)
  moreover have "devices_unique (rg_store (ho_registry demo_host))" by (simp add: demo_host_def bench_def demo_unique)
  moreover have "resolve_visible remote_visible (ho_registry demo_host) ''aa'' = Inr (demo_device ''aa'' None)"
    using demo_find demo_device_here by (simp add: resolve_visible_def demo_host_def)
  moreover have "dget (rg_locks (ho_registry demo_host)) (dv_uid (demo_device ''aa'' None)) = None"
    by (simp add: demo_host_def bench_def)
  ultimately show ?thesis
    using remote_client_flashes_board [where ws = "replicate 4 demo_world" and fl = "\<lambda>_. demo_flash_env" and h = demo_host
        and path = "''/tmp/h''" and uid = "''aa''" and d = "demo_device ''aa'' None" and data = "'':00000001FF''"
        and auth_token = "Some ''secret''" and holder = "remote_holder ''u1'' ''10.0.0.2''"]
    by (auto simp: demo_device_here MAX_HEX_PAYLOAD_BYTES_def demo_flash_env_def policy Let_def split: prod.splits)
qed


subsection \<open>Where the code does not do what it means to\<close>

text \<open>\<open>RemoteStream.write\<close> sends any amount of data as one frame, but the server refuses frames beyond
  \<open>MAX_FRAME_PAYLOAD\<close>: a longer write returns normally, nothing of it is written and the stream ends.\<close>

lemma oversized_write_ends_stream:
  assumes "MAX_FRAME_PAYLOAD < length data" and "length data < 2 ^ 32" and "\<not> rs_closed rs"
  shows "\<exists>frame. stream_write True data rs = (Inr (), rs\<lparr>rs_sent := rs_sent rs @ [frame]\<rparr>)
    \<and> (\<forall>conn rest port_ok ops. socket_ok conn \<and> concat conn = frame @ rest \<longrightarrow> fst (stream_loop port_ok ops conn) = ops)"
proof -
  obtain len where len: "to_bytes4 (length data) = Inr len" using assms(2) by (simp add: to_bytes4_def)
  let ?frame = "of_int FRAME_DATA # len @ data"
  have len4: "length len = 4" "from_bytes len = length data" using bytes4_roundtrip [OF len] by simp_all
  have refused: "fst (stream_loop port_ok ops conn) = ops" if "socket_ok conn" "concat conn = ?frame @ rest" for conn rest port_ok ops
  proof -
    have h: "take HEADER_SIZE (concat conn) = of_int FRAME_DATA # len" and big: "from_bytes (take 4 (drop 1 (of_int FRAME_DATA # len))) = length data"
      using len4 by (simp_all add: that(2) HEADER_SIZE_def)
    have "\<not> length (of_int FRAME_DATA # len) < HEADER_SIZE" using len4(1) by (simp add: HEADER_SIZE_def)
    then have "fst (read_frame list_read (concat conn)) = Inl OversizedLength"
      unfolding read_frame_def prod.case Let_def h big by (simp only: assms(1) list.distinct if_False if_True fst_conv simp_thms)
    then obtain r where "read_frame list_read (concat conn) = (Inl OversizedLength, r)" by (simp add: prod_eq_iff)
    with read_frame_socket [OF that(1)] obtain conn' where "read_frame socket_read_exact conn = (Inl OversizedLength, conn')" by blast
    then show ?thesis by (subst stream_loop.simps) simp
  qed
  have "stream_write True data rs = (Inr (), rs\<lparr>rs_sent := rs_sent rs @ [?frame]\<rparr>)"
    using assms(3) len by (simp add: stream_write_def send_frame_def encode_frame_def frame_numbers)
  with refused show ?thesis by blast
qed

end
