(* ===== verification/MB_Relay.thy ===== *)
theory MB_Relay
  imports MB_Prelude
begin

text \<open>
  Model of \<open>src/mbtools/relay/protocol.py\<close>: the patterns it searches for, the \<open>Reader\<close> that collects
  what a board says, and the sequences of \<open>RelayControl\<close> (\<open>hello\<close>, \<open>normalize\<close>, \<open>reset_and_normalize\<close>,
  \<open>probe\<close>).

  \<^item> The board behind the channel is an argument \<open>dev\<close>: for an operation on the channel it says whether
    the operation raises, what arrives at the host while it runs, and its next state. Nothing is assumed
    of it except in the lemmas that say so.
  \<^item> An action is a function from the channel's state to a result and the next state; it may end in
    \<open>RelayError\<close> or in \<open>DeviceError\<close>, any other exception, which only the channel raises.
  \<^item> Bytes are characters; times are in milliseconds. \<open>ch_log\<close> is a history variable: every operation
    on the channel and the match every wait ended with, in order.
\<close>

subsection \<open>Regular expressions\<close>

text \<open>What the module uses of Python's \<open>re\<close> on bytes. An expression is a list of alternatives, each a
  sequence of literals, greedy repetitions of a character class (captured or not), a captured choice
  of literals, and the two anchors. \<open>left\<close> is the text to the left of the current position.\<close>

datatype item =
    Lit string
  | Rep nat "char \<Rightarrow> bool"
  | Cap nat "char \<Rightarrow> bool"
  | CapOne "string list"
  | LineStart
  | WordStart

type_synonym pattern = "item list list"

definition re_space :: "char \<Rightarrow> bool" where
  "re_space c \<longleftrightarrow> (of_char c :: nat) \<in> {9, 10, 11, 12, 13, 32}"

definition re_word :: "char \<Rightarrow> bool" where
  "re_word c \<longleftrightarrow> is_alpha_char c \<or> is_digit_char c \<or> c = CHR ''_''"

definition re_hex :: "char \<Rightarrow> bool" where
  "re_hex c \<longleftrightarrow> is_digit_char c \<or> 65 \<le> (of_char c :: nat) \<and> (of_char c :: nat) \<le> 70
     \<or> 97 \<le> (of_char c :: nat) \<and> (of_char c :: nat) \<le> 102"

text \<open>The longest repetition that lets the rest match.\<close>

fun longest :: "nat \<Rightarrow> nat \<Rightarrow> (nat \<Rightarrow> 'a option) \<Rightarrow> 'a option" where
  "longest lo 0 f = (if lo = 0 then f 0 else None)"
| "longest lo (Suc n) f =
     (if Suc n < lo then None else case f (Suc n) of Some r \<Rightarrow> Some r | None \<Rightarrow> longest lo n f)"

fun first_some :: "('a \<Rightarrow> 'b option) \<Rightarrow> 'a list \<Rightarrow> 'b option" where
  "first_some f [] = None"
| "first_some f (x # xs) = (case f x of Some r \<Rightarrow> Some r | None \<Rightarrow> first_some f xs)"

primrec match_items :: "item list \<Rightarrow> string \<Rightarrow> string \<Rightarrow> string list \<Rightarrow> (string \<times> string list) option" where
  "match_items [] left rest caps = Some (left, caps)"
| "match_items (i # is) left rest caps =
     (case i of
        Lit w \<Rightarrow> if starts_with w rest then match_items is (left @ w) (drop (length w) rest) caps else None
      | Rep lo cls \<Rightarrow> longest lo (length (takeWhile cls rest))
                       (\<lambda>n. match_items is (left @ take n rest) (drop n rest) caps)
      | Cap lo cls \<Rightarrow> longest lo (length (takeWhile cls rest))
                       (\<lambda>n. match_items is (left @ take n rest) (drop n rest) (caps @ [take n rest]))
      | CapOne ws \<Rightarrow> first_some (\<lambda>w. if starts_with w rest
                       then match_items is (left @ w) (drop (length w) rest) (caps @ [w]) else None) ws
      | LineStart \<Rightarrow> if left = [] \<or> last left = newline then match_items is left rest caps else None
      | WordStart \<Rightarrow> if (left \<noteq> [] \<and> re_word (last left)) \<noteq> (rest \<noteq> [] \<and> re_word (hd rest))
                      then match_items is left rest caps else None)"

text \<open>\<open>pattern.search\<close>: the leftmost match, as the text of the whole match and its groups.\<close>

definition match_at :: "pattern \<Rightarrow> string \<Rightarrow> nat \<Rightarrow> (string \<times> string list) option" where
  "match_at pat s k =
     (case first_some (\<lambda>is. match_items is (take k s) (drop k s) []) pat of
        None \<Rightarrow> None | Some (consumed, caps) \<Rightarrow> Some (drop k consumed, caps))"

definition search :: "pattern \<Rightarrow> string \<Rightarrow> (string \<times> string list) option" where
  "search pat s = first_some (match_at pat s) [0..<Suc (length s)]"

subsection \<open>The patterns\<close>

definition BANNER_RE :: pattern where
  "BANNER_RE = [[Lit ''DEVICE:'', CapOne [''RADIOBRIDGE'', ''RADIORELAY''], Lit '':relay:'',
                 Cap 1 (\<lambda>c. c \<noteq> CHR '':''), Lit '':'', Cap 1 re_hex]]"

definition IDENTITY_RE :: pattern where
  "IDENTITY_RE =
     [[Lit ''DEVICE:'', Cap 1 re_word, Lit '':'', Cap 1 (\<lambda>c. c \<noteq> CHR '':'' \<and> \<not> re_space c), Lit '':'',
       Cap 1 (\<lambda>c. c \<noteq> CHR '':'' \<and> \<not> re_space c), Lit '':'', Cap 1 re_hex],
      [WordStart, Lit ''device '', Cap 1 re_word, Lit '' '', Cap 1 (\<lambda>c. \<not> re_space c), Lit '' '',
       Cap 1 (\<lambda>c. \<not> re_space c), Lit '' '', Cap 1 re_hex]]"

definition CONFIG_RE :: pattern where
  "CONFIG_RE =
     [[Lit ''#'', Rep 0 re_space, Lit ''channel:'', Rep 0 re_space, Cap 1 is_digit_char,
       Rep 1 re_space, Lit ''group:'', Rep 0 re_space, Cap 1 is_digit_char,
       Rep 1 re_space, Lit ''mode:'', Rep 0 re_space, Cap 1 (\<lambda>c. \<not> re_space c),
       Rep 1 re_space, Lit ''power:'', Rep 0 re_space, Cap 1 is_digit_char]]"

text \<open>The alternatives of \<open>VERSION_RE\<close> share the prefix \<open>#\s*\<close>; neither goes on with white space.\<close>

definition VERSION_RE :: pattern where
  "VERSION_RE = [[Lit ''#'', Rep 0 re_space, Lit ''version:'', Rep 0 re_space, Cap 1 (\<lambda>c. \<not> re_space c)],
                 [Lit ''#'', Rep 0 re_space, Lit ''error: unknown command'']]"

definition ROBOT_VERSION_RE :: pattern where
  "ROBOT_VERSION_RE = [[LineStart, Lit ''ver '', Cap 1 (\<lambda>c. \<not> re_space c)]]"

definition NORMALIZE_STEPS :: "(string \<times> pattern) list" where
  "NORMALIZE_STEPS =
     [(''!MODE RAW250'' @ [newline], [[Lit ''#'', Rep 0 re_space, Lit ''mode:'', Rep 0 re_space, Lit ''RAW250'']]),
      (''!FRAG OFF'' @ [newline], [[Lit ''#'', Rep 0 re_space, Lit ''frag:'', Rep 0 re_space, Lit ''OFF'']]),
      (''!ECHO OFF'' @ [newline], [[Lit ''#'', Rep 0 re_space, Lit ''echo:'', Rep 0 re_space, Lit ''OFF'']]),
      (''!P 7'' @ [newline], [[Lit ''#'', Rep 0 re_space, Lit ''channel:'']]),
      (''!C 0'' @ [newline], [[Lit ''#'', Rep 0 re_space, Lit ''channel:'', Rep 0 re_space, Lit ''0'',
                               Rep 1 re_space, Lit ''group:'', Rep 0 re_space, Lit ''10'']])]"

definition DEFAULT_CFG :: "nat \<times> nat \<times> string \<times> nat" where
  "DEFAULT_CFG = (0, 10, ''RAW250'', 7)"

definition RELAY_ROLES :: "string list" where
  "RELAY_ROLES = [''RADIOBRIDGE'', ''RADIORELAY'']"

record banner_info =
  bi_role :: string
  bi_device_name :: string
  bi_serial :: string
  bi_raw :: string
  bi_firmware :: string

text \<open>\<open>BannerInfo.parse\<close>.\<close>

definition parse_banner :: "string \<Rightarrow> banner_info option" where
  "parse_banner data =
     (case search IDENTITY_RE data of
        Some (raw, [role, common, name, serial]) \<Rightarrow>
          Some \<lparr>bi_role = role, bi_device_name = name, bi_serial = serial, bi_raw = raw, bi_firmware = ''''\<rparr>
      | _ \<Rightarrow> None)"

subsection \<open>The channel and its reader\<close>

datatype arrival = Data string | ReadFails

datatype chan_op = Open | Close | Write string | Break nat | Sleep nat | Wait nat

datatype relay_exn = RelayError | DeviceError

datatype log_entry = Did chan_op | Saw "(string \<times> string list) option"

type_synonym 'b dev = "chan_op \<Rightarrow> 'b \<Rightarrow> bool \<times> arrival list \<times> 'b"

record 'b chan =
  ch_board :: 'b
  ch_is_open :: bool
  ch_reading :: bool
  ch_pending :: "arrival list"
  ch_buf :: string
  ch_failed :: bool
  ch_log :: "log_entry list"

type_synonym ('b, 'a) act = "'b chan \<Rightarrow> (relay_exn + 'a) \<times> 'b chan"

definition give :: "'a \<Rightarrow> ('b, 'a) act" where
  "give x c = (Inr x, c)"

definition fail :: "relay_exn \<Rightarrow> ('b, 'a) act" where
  "fail e c = (Inl e, c)"

definition and_then :: "('b, 'a) act \<Rightarrow> ('a \<Rightarrow> ('b, 'd) act) \<Rightarrow> ('b, 'd) act" where
  "and_then m k c = (case m c of (Inl e, c') \<Rightarrow> (Inl e, c') | (Inr x, c') \<Rightarrow> k x c')"

text \<open>While a reader is attached, what arrived is in its buffer; until then it waits in the port.\<close>

definition deliver :: "'b chan \<Rightarrow> 'b chan" where
  "deliver c =
     (if ch_reading c
      then c\<lparr>ch_buf := ch_buf c @ concat (map (\<lambda>a. case a of Data d \<Rightarrow> d | ReadFails \<Rightarrow> []) (ch_pending c)),
             ch_failed := (ch_failed c \<or> ReadFails \<in> set (ch_pending c)), ch_pending := []\<rparr>
      else c)"

definition perform :: "'b dev \<Rightarrow> chan_op \<Rightarrow> 'b chan \<Rightarrow> bool \<times> 'b chan" where
  "perform dev op c =
     (let (raises, arrivals, b) = dev op (ch_board c)
      in (raises, deliver (c\<lparr>ch_board := b, ch_pending := ch_pending c @ arrivals, ch_log := ch_log c @ [Did op]\<rparr>)))"

definition write_nowait :: "'b dev \<Rightarrow> string \<Rightarrow> ('b, unit) act" where
  "write_nowait dev data c =
     (let (raises, c') = perform dev (Write data) c in (if raises then Inl DeviceError else Inr (), c'))"

definition sleep :: "'b dev \<Rightarrow> nat \<Rightarrow> ('b, unit) act" where
  "sleep dev t c = (Inr (), snd (perform dev (Sleep t) c))"

text \<open>\<open>Reader(channel)\<close>, \<open>Reader.clear\<close> and \<open>Reader.complete_lines\<close>.\<close>

definition attach_reader :: "('b, unit) act" where
  "attach_reader c = (Inr (), deliver (c\<lparr>ch_reading := True, ch_buf := [], ch_failed := False\<rparr>))"

definition clear :: "('b, unit) act" where
  "clear c = (Inr (), c\<lparr>ch_buf := []\<rparr>)"

definition complete_lines :: "string \<Rightarrow> string" where
  "complete_lines buf = rev (dropWhile (\<lambda>c. c \<noteq> newline) (rev buf))"

text \<open>The loop of \<open>wait_for\<close> over what arrives until its deadline; what arrives after it has returned
  is left for later.\<close>

fun wait_loop :: "pattern \<Rightarrow> string \<Rightarrow> bool \<Rightarrow> arrival list
    \<Rightarrow> (relay_exn + (string \<times> string list) option) \<times> string \<times> bool \<times> arrival list" where
  "wait_loop pat buf failed [] =
     (case search pat (complete_lines buf) of
        Some m \<Rightarrow> (Inr (Some m), buf, failed, [])
      | None \<Rightarrow> (if failed then Inl RelayError else Inr None, buf, failed, []))"
| "wait_loop pat buf failed (a # as) =
     (case search pat (complete_lines buf) of
        Some m \<Rightarrow> (Inr (Some m), buf, failed, a # as)
      | None \<Rightarrow> if failed then (Inl RelayError, buf, failed, a # as)
                else case a of Data d \<Rightarrow> wait_loop pat (buf @ d) failed as
                             | ReadFails \<Rightarrow> wait_loop pat buf True as)"

definition wait_for :: "'b dev \<Rightarrow> pattern \<Rightarrow> nat \<Rightarrow> ('b, (string \<times> string list) option) act" where
  "wait_for dev pat t c =
     (let (_, arrivals, b) = dev (Wait t) (ch_board c);
          (r, buf, failed, rest) = wait_loop pat (ch_buf c) (ch_failed c) (ch_pending c @ arrivals)
      in (r, c\<lparr>ch_board := b, ch_buf := buf, ch_failed := failed, ch_pending := rest,
               ch_log := ch_log c @ [Did (Wait t), Saw (case r of Inl _ \<Rightarrow> None | Inr m \<Rightarrow> m)]\<rparr>))"

subsection \<open>The sequences of \<open>RelayControl\<close>\<close>

record relay_control =
  rc_open_settle :: nat
  rc_hello_timeout :: nat
  rc_hello_attempts :: nat
  rc_break_duration :: nat
  rc_break_settle :: nat

text \<open>\<open>RelayControl()\<close> with its defaults; the constructor keeps at least one attempt.\<close>

definition relay_control_defaults :: relay_control where
  "relay_control_defaults = \<lparr>rc_open_settle = 300, rc_hello_timeout = 2000, rc_hello_attempts = max 1 4,
     rc_break_duration = 400, rc_break_settle = 1200\<rparr>"

fun ask_hello :: "'b dev \<Rightarrow> nat \<Rightarrow> pattern \<Rightarrow> nat \<Rightarrow> ('b, banner_info option) act" where
  "ask_hello dev timeout pat 0 = give None"
| "ask_hello dev timeout pat (Suc attempts) =
     and_then (write_nowait dev (''HELLO'' @ [newline])) (\<lambda>_.
     and_then (wait_for dev pat timeout) (\<lambda>m.
       case m of
         None \<Rightarrow> ask_hello dev timeout pat attempts
       | Some (g0, _) \<Rightarrow> (case parse_banner g0 of
             Some info \<Rightarrow> give (Some info)
           | None \<Rightarrow> ask_hello dev timeout pat attempts)))"

definition send_break :: "'b dev \<Rightarrow> nat \<Rightarrow> ('b, unit) act" where
  "send_break dev t c =
     (let (raises, c') = perform dev (Break t) c in (if raises then Inl DeviceError else Inr (), c'))"

definition hello :: "'b dev \<Rightarrow> relay_control \<Rightarrow> bool \<Rightarrow> pattern \<Rightarrow> ('b, banner_info) act" where
  "hello dev ctl allow_break pat =
     and_then (ask_hello dev (rc_hello_timeout ctl) pat (rc_hello_attempts ctl)) (\<lambda>r.
       case r of
         Some info \<Rightarrow> give info
       | None \<Rightarrow>
           if \<not> allow_break then fail RelayError
           else (\<lambda>c. case send_break dev (rc_break_duration ctl) c of
                       (Inl _, c') \<Rightarrow> fail RelayError c'
                     | (Inr _, c') \<Rightarrow>
                         and_then (sleep dev (rc_break_settle ctl)) (\<lambda>_.
                         and_then clear (\<lambda>_.
                         and_then (ask_hello dev (rc_hello_timeout ctl) pat (rc_hello_attempts ctl)) (\<lambda>r.
                           case r of Some info \<Rightarrow> give info | None \<Rightarrow> fail RelayError))) c'))"

definition query :: "'b dev \<Rightarrow> nat \<Rightarrow> ('b, (string \<times> string list) option) act" where
  "query dev timeout =
     and_then clear (\<lambda>_. and_then (write_nowait dev (''?'' @ [newline])) (\<lambda>_. wait_for dev CONFIG_RE timeout))"

definition is_default :: "string \<times> string list \<Rightarrow> bool" where
  "is_default m =
     (case snd m of
        [channel, grp, mode, pow] \<Rightarrow> (read_nat channel, read_nat grp, mode, read_nat pow) = DEFAULT_CFG
      | _ \<Rightarrow> False)"

fun run_steps :: "'b dev \<Rightarrow> nat \<Rightarrow> (string \<times> pattern) list \<Rightarrow> ('b, unit) act" where
  "run_steps dev t [] = give ()"
| "run_steps dev t ((command, ack) # steps) =
     and_then clear (\<lambda>_.
     and_then (write_nowait dev command) (\<lambda>_.
     and_then (wait_for dev ack t) (\<lambda>_. run_steps dev t steps)))"

text \<open>\<open>attempts\<close> is \<open>retries + 1\<close>.\<close>

fun normalize_loop :: "'b dev \<Rightarrow> nat \<Rightarrow> nat \<Rightarrow> ('b, unit) act" where
  "normalize_loop dev t 0 = fail RelayError"
| "normalize_loop dev t (Suc attempts) =
     and_then (run_steps dev t NORMALIZE_STEPS) (\<lambda>_.
     and_then (query dev (t * 2)) (\<lambda>config.
       if (case config of None \<Rightarrow> False | Some m \<Rightarrow> is_default m) then give ()
       else and_then (sleep dev 400) (\<lambda>_. normalize_loop dev t attempts)))"

definition normalize :: "'b dev \<Rightarrow> nat \<Rightarrow> nat \<Rightarrow> ('b, unit) act" where
  "normalize dev step_timeout retries = normalize_loop dev step_timeout (retries + 1)"

definition firmware_version :: "'b dev \<Rightarrow> nat \<Rightarrow> ('b, string) act" where
  "firmware_version dev timeout =
     and_then clear (\<lambda>_.
     and_then (write_nowait dev (''!VER?'' @ [newline])) (\<lambda>_.
     and_then (wait_for dev VERSION_RE timeout) (\<lambda>m.
       give (case m of Some (_, [v]) \<Rightarrow> v | _ \<Rightarrow> ''''))))"

definition robot_version :: "'b dev \<Rightarrow> nat \<Rightarrow> ('b, string) act" where
  "robot_version dev timeout =
     and_then clear (\<lambda>_.
     and_then (write_nowait dev (''VER'' @ [newline])) (\<lambda>_.
     and_then (wait_for dev ROBOT_VERSION_RE timeout) (\<lambda>m.
       give (case m of Some (_, [v]) \<Rightarrow> v | _ \<Rightarrow> ''''))))"

definition clear_stored_config :: "'b dev \<Rightarrow> nat \<Rightarrow> ('b, unit) act" where
  "clear_stored_config dev timeout =
     and_then clear (\<lambda>_.
     and_then (write_nowait dev (''!DEFAULTS'' @ [newline])) (\<lambda>_.
     and_then (wait_for dev [[Lit ''#'', Rep 0 re_space, Lit ''stored config cleared'']] timeout) (\<lambda>_. give ())))"

text \<open>\<open>channel.close()\<close> never raises and ends the reader.\<close>

definition close_channel :: "'b dev \<Rightarrow> 'b chan \<Rightarrow> 'b chan" where
  "close_channel dev c =
     (snd (perform dev Close c))\<lparr>ch_is_open := False, ch_reading := False, ch_pending := []\<rparr>"

text \<open>\<open>channel.open()\<close>, then a body whose \<open>finally\<close> closes the channel.\<close>

definition with_channel :: "'b dev \<Rightarrow> ('b, 'a) act \<Rightarrow> ('b, 'a) act" where
  "with_channel dev body c =
     (let (raises, c1) = perform dev Open c in
      if raises then (Inl DeviceError, c1)
      else let (r, c2) = body (c1\<lparr>ch_is_open := True\<rparr>) in (r, close_channel dev c2))"

definition reset_body :: "'b dev \<Rightarrow> relay_control \<Rightarrow> bool \<Rightarrow> ('b, banner_info) act" where
  "reset_body dev ctl clear_stored =
     and_then (sleep dev (rc_open_settle ctl)) (\<lambda>_.
     and_then attach_reader (\<lambda>_.
     and_then (hello dev ctl True BANNER_RE) (\<lambda>info.
     and_then (firmware_version dev 1000) (\<lambda>version.
     and_then (normalize dev 1500 1) (\<lambda>_.
     and_then (if clear_stored then clear_stored_config dev 1000 else give ()) (\<lambda>_.
     give (info\<lparr>bi_firmware := version\<rparr>)))))))"

definition reset_and_normalize :: "'b dev \<Rightarrow> relay_control \<Rightarrow> bool \<Rightarrow> ('b, banner_info) act" where
  "reset_and_normalize dev ctl clear_stored = with_channel dev (reset_body dev ctl clear_stored)"

definition probe :: "'b dev \<Rightarrow> relay_control \<Rightarrow> ('b, banner_info option) act" where
  "probe dev ctl =
     with_channel dev
       (and_then (sleep dev (rc_open_settle ctl)) (\<lambda>_.
        and_then attach_reader (\<lambda>_ c.
          case hello dev ctl True IDENTITY_RE c of
            (Inl RelayError, c') \<Rightarrow> give None c'
          | (Inl e, c') \<Rightarrow> fail e c'
          | (Inr info, c') \<Rightarrow>
              (if bi_role info = ''RADIOBRIDGE''
               then and_then (firmware_version dev 1000) (\<lambda>v. give (Some (info\<lparr>bi_firmware := v\<rparr>))) c'
               else if bi_role info \<in> set RELAY_ROLES then give (Some info) c'
               else and_then (robot_version dev 1000) (\<lambda>v. give (Some (info\<lparr>bi_firmware := v\<rparr>))) c'))))"

subsection \<open>What the sequences do on the channel\<close>

text \<open>\<open>does act P\<close>: whatever the state, \<open>act\<close> appends to the log a part related to its result by \<open>P\<close>.\<close>

definition does :: "('b, 'a) act \<Rightarrow> (relay_exn + 'a \<Rightarrow> log_entry list \<Rightarrow> bool) \<Rightarrow> bool" where
  "does act P \<longleftrightarrow> (\<forall>c. \<exists>l. ch_log (snd (act c)) = ch_log c @ l \<and> P (fst (act c)) l)"

definition writes :: "log_entry list \<Rightarrow> string list" where
  "writes l = concat (map (\<lambda>e. case e of Did (Write d) \<Rightarrow> [d] | _ \<Rightarrow> []) l)"

lemma writes_simps [simp]:
  "writes [] = []" "writes (Did (Write d) # l) = d # writes l" "writes (Did (Wait t) # l) = writes l"
  "writes (Did (Sleep t) # l) = writes l" "writes (Did (Break t) # l) = writes l" "writes (Did Open # l) = writes l"
  "writes (Did Close # l) = writes l" "writes (Saw m # l) = writes l" "writes (l @ l') = writes l @ writes l'"
  by (simp_all add: writes_def)

lemma deliver_log [simp]: "ch_log (deliver c) = ch_log c" "ch_is_open (deliver c) = ch_is_open c"
  by (simp_all add: deliver_def)

lemma perform_log [simp]:
  "ch_log (snd (perform dev op c)) = ch_log c @ [Did op]" "ch_is_open (snd (perform dev op c)) = ch_is_open c"
  by (simp_all add: perform_def case_prod_beta Let_def)

lemma doesI: "(\<And>c. \<exists>l. ch_log (snd (act c)) = ch_log c @ l \<and> P (fst (act c)) l) \<Longrightarrow> does act P"
  by (simp add: does_def)

lemma does_mono: "does act P \<Longrightarrow> (\<And>r l. P r l \<Longrightarrow> Q r l) \<Longrightarrow> does act Q"
  unfolding does_def by blast

lemma does_give: "P (Inr x) [] \<Longrightarrow> does (give x) P" and does_fail: "P (Inl e) [] \<Longrightarrow> does (fail e) P"
  by (auto simp: does_def give_def fail_def)

lemma does_and_then:
  assumes "does m P" and "\<And>x. does (k x) (Q x)"
    and "\<And>e l. P (Inl e) l \<Longrightarrow> R (Inl e) l"
    and "\<And>x l1 r l2. P (Inr x) l1 \<Longrightarrow> Q x r l2 \<Longrightarrow> R r (l1 @ l2)"
  shows "does (and_then m k) R"
proof (rule doesI)
  fix c
  obtain r c' where m: "m c = (r, c')" by force
  obtain l1 where l1: "ch_log c' = ch_log c @ l1" "P r l1" using assms(1) m unfolding does_def by (metis fst_conv snd_conv)
  show "\<exists>l. ch_log (snd (and_then m k c)) = ch_log c @ l \<and> R (fst (and_then m k c)) l"
  proof (cases r)
    case (Inl e)
    then show ?thesis using m l1 assms(3) by (auto simp: and_then_def)
  next
    case (Inr x)
    obtain l2 where "ch_log (snd (k x c')) = ch_log c' @ l2" "Q x (fst (k x c')) l2"
      using assms(2) [of x] unfolding does_def by blast
    then show ?thesis using m l1 Inr assms(4) by (auto simp: and_then_def)
  qed
qed

lemma does_clear: "does clear (\<lambda>r l. r = Inr () \<and> l = [])"
  and does_sleep: "does (sleep dev t) (\<lambda>r l. r = Inr () \<and> l = [Did (Sleep t)])"
  and does_attach: "does attach_reader (\<lambda>r l. r = Inr () \<and> l = [])"
  by (auto simp: does_def clear_def sleep_def attach_reader_def)

lemma does_write: "does (write_nowait dev d) (\<lambda>r l. l = [Did (Write d)])"
  by (auto simp: does_def write_nowait_def case_prod_beta Let_def)

lemma does_wait: "does (wait_for dev pat t) (\<lambda>r l. l = [Did (Wait t), Saw (case r of Inl _ \<Rightarrow> None | Inr m \<Rightarrow> m)])"
  by (auto simp: does_def wait_for_def case_prod_beta Let_def)

lemma does_ask:
  "does (and_then clear (\<lambda>_. and_then (write_nowait dev d) (\<lambda>_. and_then (wait_for dev pat t) (\<lambda>m. give (f m)))))
     (\<lambda>r l. set (writes l) \<subseteq> {d} \<and> (\<forall>v. r = Inr v \<longrightarrow> writes l = [d]))"
  by (rule does_and_then [OF does_clear does_and_then [OF does_write does_and_then [OF does_wait does_give, where R = "\<lambda>r l. writes l = []"],
        where R = "\<lambda>r l. set (writes l) \<subseteq> {d} \<and> (\<forall>v. r = Inr v \<longrightarrow> writes l = [d])"]]) auto

lemma does_query:
  "does (query dev t) (\<lambda>r l. case r of
      Inr m \<Rightarrow> l = [Did (Write (''?'' @ [newline])), Did (Wait t), Saw m]
    | Inl e \<Rightarrow> set (writes l) \<subseteq> {''?'' @ [newline]})"
  unfolding query_def
  by (rule does_and_then [OF does_clear does_and_then [OF does_write does_wait,
        where R = "\<lambda>r l. case r of Inr m \<Rightarrow> l = [Did (Write (''?'' @ [newline])), Did (Wait t), Saw m]
                     | Inl e \<Rightarrow> set (writes l) \<subseteq> {''?'' @ [newline]}"]])
     (auto split: sum.splits)

lemma does_run_steps: "does (run_steps dev t steps) (\<lambda>r l. \<forall>v. r = Inr v \<longrightarrow> writes l = map fst steps)"
proof (induction dev t steps rule: run_steps.induct)
  case (1 dev t)
  then show ?case by (auto intro: does_give)
next
  case (2 dev t command ack steps)
  show ?case
    unfolding run_steps.simps
    by (rule does_and_then [OF does_clear does_and_then [OF does_write does_and_then [OF does_wait 2]],
          where R = "\<lambda>r l. \<forall>v. r = Inr v \<longrightarrow> writes l = map fst ((command, ack) # steps)"]) auto
qed

definition verified :: "nat \<Rightarrow> log_entry list \<Rightarrow> bool" where
  "verified t l \<longleftrightarrow> (\<exists>l0 w m. l = l0 @ [Did (Write (''?'' @ [newline])), Did (Wait t), Saw (Some m)] \<and> is_default m
      \<and> writes l0 = w @ map fst NORMALIZE_STEPS)"

lemma verified_append: "verified t l \<Longrightarrow> verified t (l' @ l)"
  unfolding verified_def by (metis append.assoc writes_simps(9))

lemma does_normalize_loop: "does (normalize_loop dev t n) (\<lambda>r l. \<forall>v. r = Inr v \<longrightarrow> verified (t * 2) l)"
proof (induction n)
  case 0
  then show ?case by (auto intro: does_fail)
next
  case (Suc n)
  let ?q = "[Did (Write (''?'' @ [newline])), Did (Wait (t * 2))]"
  have tail: "does (if (case config of None \<Rightarrow> False | Some m \<Rightarrow> is_default m) then give ()
       else and_then (sleep dev 400) (\<lambda>_. normalize_loop dev t n))
     (\<lambda>r l. \<forall>v. r = Inr v \<longrightarrow> (\<exists>m. config = Some m \<and> is_default m \<and> l = []) \<or> verified (t * 2) l)" for config
  proof (cases "case config of None \<Rightarrow> False | Some m \<Rightarrow> is_default m")
    case True
    then show ?thesis by (auto intro!: does_give split: option.splits)
  next
    case False
    have "does (and_then (sleep dev 400) (\<lambda>_. normalize_loop dev t n)) (\<lambda>r l. \<forall>v. r = Inr v \<longrightarrow> verified (t * 2) l)"
      by (rule does_and_then [OF does_sleep Suc]) (auto dest: verified_append [of _ _ "[Did (Sleep 400)]"])
    then show ?thesis using False by (auto elim: does_mono)
  qed
  have rest: "does (and_then (query dev (t * 2)) (\<lambda>config. if (case config of None \<Rightarrow> False | Some m \<Rightarrow> is_default m) then give ()
       else and_then (sleep dev 400) (\<lambda>_. normalize_loop dev t n)))
     (\<lambda>r l. \<forall>v. r = Inr v \<longrightarrow> (\<exists>m. l = ?q @ [Saw (Some m)] \<and> is_default m) \<or> verified (t * 2) l)"
    by (rule does_and_then [OF does_query tail])
       (auto dest: verified_append [of _ _ "[Did _, Did _, Saw _]"])
  show ?case
    unfolding normalize_loop.simps
    by (rule does_and_then [OF does_run_steps rest])
       (auto simp: verified_append, (auto simp: verified_def)?)
qed

lemma does_ask_hello:
  "does (ask_hello dev t pat n) (\<lambda>r l. \<forall>info. r = Inr (Some info) \<longrightarrow>
     (\<exists>g caps. Saw (Some (g, caps)) \<in> set l \<and> parse_banner g = Some info))"
proof (induction n)
  case 0
  then show ?case by (auto intro: does_give)
next
  case (Suc n)
  have tail: "does (case m of None \<Rightarrow> ask_hello dev t pat n
       | Some (g0, _) \<Rightarrow> (case parse_banner g0 of Some info \<Rightarrow> give (Some info) | None \<Rightarrow> ask_hello dev t pat n))
     (\<lambda>r l. \<forall>info. r = Inr (Some info) \<longrightarrow> (\<exists>g caps. m = Some (g, caps) \<and> parse_banner g = Some info)
        \<or> (\<exists>g caps. Saw (Some (g, caps)) \<in> set l \<and> parse_banner g = Some info))" for m
    using Suc by (auto intro!: does_give elim: does_mono split: option.split)
  have inner: "does (and_then (wait_for dev pat t) (\<lambda>m. case m of None \<Rightarrow> ask_hello dev t pat n
       | Some (g0, _) \<Rightarrow> (case parse_banner g0 of Some info \<Rightarrow> give (Some info) | None \<Rightarrow> ask_hello dev t pat n)))
     (\<lambda>r l. \<forall>info. r = Inr (Some info) \<longrightarrow> (\<exists>g caps. Saw (Some (g, caps)) \<in> set l \<and> parse_banner g = Some info))"
    by (rule does_and_then [OF does_wait tail]) (auto, blast+)
  show ?case
    unfolding ask_hello.simps by (rule does_and_then [OF does_write inner]) auto
qed

definition answered :: "banner_info \<Rightarrow> log_entry list \<Rightarrow> bool" where
  "answered info l \<longleftrightarrow> (\<exists>g caps. Saw (Some (g, caps)) \<in> set l \<and> parse_banner g = Some info)"

lemma answered_append [simp]: "answered info (l @ l') \<longleftrightarrow> answered info l \<or> answered info l'"
  and answered_Cons: "answered info l \<Longrightarrow> answered info (e # l)"
  by (auto simp: answered_def)

lemma does_break: "does (send_break dev t) (\<lambda>r l. l = [Did (Break t)])"
  by (auto simp: does_def send_break_def case_prod_beta Let_def)

text \<open>A failing \<open>send_break\<close> is caught: the sequence then ends in a \<open>RelayError\<close>.\<close>

lemma does_caught:
  assumes "does m P" and "does k Q" and "\<And>e l. P (Inl e) l \<Longrightarrow> R (Inl RelayError) l"
    and "\<And>x l1 r l2. P (Inr x) l1 \<Longrightarrow> Q r l2 \<Longrightarrow> R r (l1 @ l2)"
  shows "does (\<lambda>c. case m c of (Inl _, c') \<Rightarrow> fail RelayError c' | (Inr _, c') \<Rightarrow> k c') R"
proof (rule doesI)
  fix c
  obtain r c' where m: "m c = (r, c')" by force
  obtain l1 where l1: "ch_log c' = ch_log c @ l1" "P r l1" using assms(1) m unfolding does_def by (metis fst_conv snd_conv)
  obtain l2 where l2: "ch_log (snd (k c')) = ch_log c' @ l2" "Q (fst (k c')) l2"
    using assms(2) unfolding does_def by blast
  show "\<exists>l. ch_log (snd (case m c of (Inl _, c') \<Rightarrow> fail RelayError c' | (Inr _, c') \<Rightarrow> k c')) = ch_log c @ l
      \<and> R (fst (case m c of (Inl _, c') \<Rightarrow> fail RelayError c' | (Inr _, c') \<Rightarrow> k c')) l"
    using m l1 l2 assms(3,4) by (cases r) (auto simp: fail_def)
qed

lemma does_hello: "does (hello dev ctl brk pat) (\<lambda>r l. \<forall>info. r = Inr info \<longrightarrow> answered info l)"
proof -
  let ?ask = "ask_hello dev (rc_hello_timeout ctl) pat (rc_hello_attempts ctl)"
  have ask: "does ?ask (\<lambda>r l. \<forall>info. r = Inr (Some info) \<longrightarrow> answered info l)"
    using does_ask_hello by (auto simp: answered_def elim: does_mono)
  have last: "does (case r of Some info \<Rightarrow> give info | None \<Rightarrow> fail RelayError)
      (\<lambda>r' l. l = [] \<and> r' = (case r of Some i \<Rightarrow> Inr i | None \<Rightarrow> Inl RelayError))" for r :: "banner_info option"
    by (auto intro!: does_give does_fail split: option.split)
  have again1: "does (and_then ?ask (\<lambda>r. case r of Some info \<Rightarrow> give info | None \<Rightarrow> fail RelayError))
      (\<lambda>r l. \<forall>info. r = Inr info \<longrightarrow> answered info l)"
    by (rule does_and_then [OF ask last]) (auto split: option.splits)
  have again: "does (and_then (sleep dev (rc_break_settle ctl)) (\<lambda>_. and_then clear (\<lambda>_. and_then ?ask (\<lambda>r.
      case r of Some info \<Rightarrow> give info | None \<Rightarrow> fail RelayError)))) (\<lambda>r l. \<forall>info. r = Inr info \<longrightarrow> answered info l)"
    by (rule does_and_then [OF does_sleep does_and_then [OF does_clear again1,
          where R = "\<lambda>r l. \<forall>info. r = Inr info \<longrightarrow> answered info l"]])
       (auto simp: answered_Cons)
  have brk: "does (\<lambda>c. case send_break dev (rc_break_duration ctl) c of (Inl _, c') \<Rightarrow> fail RelayError c'
      | (Inr _, c') \<Rightarrow> and_then (sleep dev (rc_break_settle ctl)) (\<lambda>_. and_then clear (\<lambda>_. and_then ?ask (\<lambda>r.
          case r of Some info \<Rightarrow> give info | None \<Rightarrow> fail RelayError))) c') (\<lambda>r l. \<forall>info. r = Inr info \<longrightarrow> answered info l)"
    by (rule does_caught [OF does_break again]) (auto simp: answered_Cons)
  show ?thesis
    unfolding hello_def
    by (rule does_and_then [OF ask, where Q = "\<lambda>x r l. \<forall>info. r = Inr info \<longrightarrow> x = Some info \<or> answered info l"])
       (auto simp: brk does_fail intro!: does_give elim!: does_mono [OF brk] split: option.split)
qed

lemma does_firmware_version: "does (firmware_version dev t) (\<lambda>r l. set (writes l) \<subseteq> {''!VER?'' @ [newline]}
     \<and> (\<forall>v. r = Inr v \<longrightarrow> writes l = [''!VER?'' @ [newline]]))"
  unfolding firmware_version_def by (rule does_ask)

lemma does_clear_stored: "does (clear_stored_config dev t) (\<lambda>r l. set (writes l) \<subseteq> {''!DEFAULTS'' @ [newline]}
     \<and> (\<forall>v. r = Inr v \<longrightarrow> writes l = [''!DEFAULTS'' @ [newline]]))"
  unfolding clear_stored_config_def by (rule does_ask)

text \<open>What a successful reset leaves in the log.\<close>

definition verified_then :: "string list \<Rightarrow> log_entry list \<Rightarrow> bool" where
  "verified_then ws l \<longleftrightarrow> (\<exists>l0 l1. l = l0 @ l1 \<and> verified 3000 l0 \<and> writes l1 = ws)"

lemma verified_thenI: "verified 3000 l0 \<Longrightarrow> writes l1 = ws \<Longrightarrow> verified_then ws (l0 @ l1)"
  by (auto simp: verified_then_def)

lemma verified_then_append: "verified_then ws l \<Longrightarrow> verified_then ws (l' @ l)"
  unfolding verified_then_def by (metis append.assoc verified_append)

lemma verified_then_Cons: "verified_then ws l \<Longrightarrow> verified_then ws (e # l)"
  using verified_then_append [of ws l "[e]"] by simp

definition reset_log :: "bool \<Rightarrow> banner_info \<Rightarrow> log_entry list \<Rightarrow> bool" where
  "reset_log clear_stored info l \<longleftrightarrow> verified_then (if clear_stored then [''!DEFAULTS'' @ [newline]] else []) l
     \<and> answered (info\<lparr>bi_firmware := []\<rparr>) l"

lemma reset_log_seen: "reset_log clear_stored info l \<Longrightarrow> \<exists>m. Saw (Some m) \<in> set l \<and> is_default m"
  by (auto simp: reset_log_def verified_then_def verified_def simp del: split_paired_Ex)

lemma parse_banner_firmware: "parse_banner g = Some info \<Longrightarrow> info\<lparr>bi_firmware := []\<rparr> = info"
  by (auto simp: parse_banner_def split: option.splits prod.splits list.splits)

lemma answered_firmware: "answered info l \<Longrightarrow> answered (info\<lparr>bi_firmware := []\<rparr>) l"
  unfolding answered_def using parse_banner_firmware by metis

lemma does_reset_body:
  "does (reset_body dev ctl clear_stored) (\<lambda>r l. \<forall>info. r = Inr info \<longrightarrow> reset_log clear_stored info l)"
proof -
  define cleared where "cleared = (if clear_stored then [''!DEFAULTS'' @ [newline]] else [])"
  have norm: "does (normalize dev 1500 1) (\<lambda>r l. \<forall>v. r = Inr v \<longrightarrow> verified 3000 l)"
    using does_normalize_loop [of dev 1500 "1 + 1"] by (simp add: normalize_def del: normalize_loop.simps)
  have stored: "does (if clear_stored then clear_stored_config dev 1000 else give ())
     (\<lambda>r l. \<forall>v. r = Inr v \<longrightarrow> writes l = cleared)"
    by (cases clear_stored) (auto simp: cleared_def intro!: does_give does_mono [OF does_clear_stored])
  have s4: "does (and_then (if clear_stored then clear_stored_config dev 1000 else give ()) (\<lambda>_. give (info\<lparr>bi_firmware := version\<rparr>)))
     (\<lambda>r l. \<forall>i. r = Inr i \<longrightarrow> i = info\<lparr>bi_firmware := version\<rparr> \<and> writes l = cleared)" for info version
    by (rule does_and_then [OF stored, where Q = "\<lambda>x r l. r = Inr (info\<lparr>bi_firmware := version\<rparr>) \<and> l = []"])
       (auto intro!: does_give)
  have s3: "does (and_then (normalize dev 1500 1) (\<lambda>_. and_then (if clear_stored then clear_stored_config dev 1000 else give ())
        (\<lambda>_. give (info\<lparr>bi_firmware := version\<rparr>))))
     (\<lambda>r l. \<forall>i. r = Inr i \<longrightarrow> i = info\<lparr>bi_firmware := version\<rparr> \<and> verified_then cleared l)" for info version
    by (rule does_and_then [OF norm s4]) (auto intro: verified_thenI)
  have s2: "does (and_then (firmware_version dev 1000) (\<lambda>version. and_then (normalize dev 1500 1)
        (\<lambda>_. and_then (if clear_stored then clear_stored_config dev 1000 else give ()) (\<lambda>_. give (info\<lparr>bi_firmware := version\<rparr>)))))
     (\<lambda>r l. \<forall>i. r = Inr i \<longrightarrow> i\<lparr>bi_firmware := []\<rparr> = info\<lparr>bi_firmware := []\<rparr> \<and> verified_then cleared l)" for info
    by (rule does_and_then [OF does_firmware_version s3]) (auto intro: verified_then_append)
  have s1: "does (and_then (hello dev ctl True BANNER_RE) (\<lambda>info. and_then (firmware_version dev 1000) (\<lambda>version.
        and_then (normalize dev 1500 1) (\<lambda>_. and_then (if clear_stored then clear_stored_config dev 1000 else give ())
        (\<lambda>_. give (info\<lparr>bi_firmware := version\<rparr>))))))
     (\<lambda>r l. \<forall>i. r = Inr i \<longrightarrow> answered (i\<lparr>bi_firmware := []\<rparr>) l \<and> verified_then cleared l)"
    by (rule does_and_then [OF does_hello s2], blast)
       (metis answered_append answered_firmware verified_then_append)
  have s0: "does (and_then attach_reader (\<lambda>_. and_then (hello dev ctl True BANNER_RE) (\<lambda>info.
        and_then (firmware_version dev 1000) (\<lambda>version. and_then (normalize dev 1500 1) (\<lambda>_.
        and_then (if clear_stored then clear_stored_config dev 1000 else give ())
        (\<lambda>_. give (info\<lparr>bi_firmware := version\<rparr>)))))))
     (\<lambda>r l. \<forall>i. r = Inr i \<longrightarrow> answered (i\<lparr>bi_firmware := []\<rparr>) l \<and> verified_then cleared l)"
    by (rule does_and_then [OF does_attach s1]) auto
  show ?thesis
    unfolding reset_body_def reset_log_def cleared_def [symmetric]
    by (rule does_and_then [OF does_sleep s0]) (auto intro: answered_Cons verified_then_Cons)
qed

lemma with_channel_cases:
  obtains (raised) c1 where "with_channel dev body c = (Inl DeviceError, c1)" "ch_is_open c1 = ch_is_open c"
      "ch_log c1 = ch_log c @ [Did Open]"
  | (ran) c1 where "ch_log c1 = ch_log c @ [Did Open]" "fst (with_channel dev body c) = fst (body c1)"
      "ch_log (snd (with_channel dev body c)) = ch_log (snd (body c1)) @ [Did Close]"
      "\<not> ch_is_open (snd (with_channel dev body c))"
proof -
  obtain raises c1 where p: "perform dev Open c = (raises, c1)" by force
  then have "c1 = snd (perform dev Open c)" by simp
  then have l: "ch_log c1 = ch_log c @ [Did Open]" "ch_is_open c1 = ch_is_open c" by simp_all
  show thesis
  proof (cases raises)
    case True
    then show thesis using raised [of c1] p l by (simp add: with_channel_def)
  next
    case False
    then show thesis using ran [of "c1\<lparr>ch_is_open := True\<rparr>"] p l
      by (simp add: with_channel_def close_channel_def case_prod_beta)
  qed
qed

subsection \<open>Properties\<close>

text \<open>C19: a board is only handed out after it was seen at its factory defaults. Whatever the board does,
  \<open>reset_and_normalize\<close> leaves the channel closed; and when it returns an identity, that identity is what
  the board itself answered to a \<open>HELLO\<close>, all five normalize commands were then sent in order, the reply
  to the stand-alone query after them was one complete line with channel 0, group 10, mode \<open>RAW250\<close> and
  power 7, and nothing was written after that query except, on request, \<open>!DEFAULTS\<close>, which only clears
  the stored record.\<close>

theorem reset_leaves_factory_defaults:
  assumes "\<not> ch_is_open c"
  shows "\<not> ch_is_open (snd (reset_and_normalize dev ctl clear_stored c))
     \<and> (case fst (reset_and_normalize dev ctl clear_stored c) of
          Inl e \<Rightarrow> True
        | Inr info \<Rightarrow>
            \<exists>l0 w m l1. ch_log (snd (reset_and_normalize dev ctl clear_stored c))
                = ch_log c @ [Did Open] @ l0 @ [Did (Write (''?'' @ [newline])), Did (Wait 3000), Saw (Some m)] @ l1
              \<and> is_default m
              \<and> writes l0 = w @ map fst NORMALIZE_STEPS
              \<and> (\<exists>g caps. Saw (Some (g, caps)) \<in> set (l0 @ [Saw (Some m)] @ l1)
                   \<and> parse_banner g = Some (info\<lparr>bi_firmware := []\<rparr>))
              \<and> writes l1 = (if clear_stored then [''!DEFAULTS'' @ [newline]] else []))"
proof (cases rule: with_channel_cases [of dev "reset_body dev ctl clear_stored" c])
  case (raised c1)
  then show ?thesis using assms by (simp add: reset_and_normalize_def)
next
  case (ran c1)
  let ?run = "reset_and_normalize dev ctl clear_stored c"
  obtain l where l: "ch_log (snd ?run) = ch_log c @ [Did Open] @ l @ [Did Close]"
    "\<And>info. fst ?run = Inr info \<Longrightarrow> reset_log clear_stored info l"
    using does_reset_body [of dev ctl clear_stored] ran unfolding does_def reset_and_normalize_def
    by (metis append.assoc)
  have "\<exists>l0 w m l1. ch_log (snd ?run) = ch_log c @ [Did Open] @ l0
        @ [Did (Write (''?'' @ [newline])), Did (Wait 3000), Saw (Some m)] @ l1
      \<and> is_default m \<and> writes l0 = w @ map fst NORMALIZE_STEPS
      \<and> (\<exists>g caps. Saw (Some (g, caps)) \<in> set (l0 @ [Saw (Some m)] @ l1) \<and> parse_banner g = Some (info\<lparr>bi_firmware := []\<rparr>))
      \<and> writes l1 = (if clear_stored then [''!DEFAULTS'' @ [newline]] else [])" if ok: "fst ?run = Inr info" for info
  proof -
    obtain la lb where a: "l = la @ lb" "verified 3000 la" "answered (info\<lparr>bi_firmware := []\<rparr>) (la @ lb)"
      "writes lb = (if clear_stored then [''!DEFAULTS'' @ [newline]] else [])"
      using l(2) [OF ok] unfolding reset_log_def verified_then_def by blast
    obtain l0 w m where b: "la = l0 @ [Did (Write (''?'' @ [newline])), Did (Wait 3000), Saw (Some m)]" "is_default m"
      "writes l0 = w @ map fst NORMALIZE_STEPS"
      using a(2) unfolding verified_def by blast
    show ?thesis
      using l(1) a b
      by (intro exI [of _ l0] exI [of _ w] exI [of _ m] exI [of _ "lb @ [Did Close]"]) (auto simp: answered_def)
  qed
  then show ?thesis using ran(4) by (auto simp: reset_and_normalize_def split: sum.split)
qed

subsection \<open>Reading a banner\<close>

definition banner_text :: "string \<Rightarrow> string \<Rightarrow> string \<Rightarrow> string" where
  "banner_text role name serial = ''DEVICE:'' @ role @ '':relay:'' @ name @ '':'' @ serial"

definition banner_parts :: "string \<Rightarrow> string \<Rightarrow> string \<Rightarrow> bool" where
  "banner_parts role name serial \<longleftrightarrow> role \<in> set RELAY_ROLES
     \<and> name \<noteq> [] \<and> (\<forall>c\<in>set name. c \<noteq> CHR '':'' \<and> \<not> re_space c) \<and> serial \<noteq> [] \<and> (\<forall>c\<in>set serial. re_hex c)"

text \<open>What a board may have said before the banner: whole lines without a banner in them.\<close>

definition quiet_lines :: "string \<Rightarrow> bool" where
  "quiet_lines noise \<longleftrightarrow> (noise = [] \<or> last noise = newline) \<and> \<not> contains_str ''DEVICE:'' noise"

lemma longest_max: "lo \<le> n \<Longrightarrow> f n = Some r \<Longrightarrow> longest lo n f = Some r"
  by (cases n) auto

lemma match_Lit: "match_items (Lit w # is) left (w @ s) caps = match_items is (left @ w) s caps"
  by (simp add: starts_with_def)

lemma match_Cap:
  assumes "\<forall>c\<in>set u. cls c" and "s = [] \<or> \<not> cls (hd s)" and "lo \<le> length u"
    and "match_items is (left @ u) s (caps @ [u]) = Some r"
  shows "match_items (Cap lo cls # is) left (u @ s) caps = Some r"
proof -
  have "takeWhile cls (u @ s) = u" using assms(1,2) by (cases s) (auto simp: takeWhile_append2)
  then show ?thesis using assms(3,4) by (simp add: longest_max)
qed

lemma match_Cap_Lit:
  assumes "\<forall>c\<in>set u. cls c" and "w \<noteq> []" and "\<not> cls (hd w)" and "lo \<le> length u"
    and "match_items is (left @ u @ w) s (caps @ [u]) = Some r"
  shows "match_items (Cap lo cls # Lit w # is) left (u @ w @ s) caps = Some r"
  using assms by (intro match_Cap) (simp_all add: match_Lit del: match_items.simps(2))

lemma match_CapOne_hit:
  "match_items is (left @ w) s (caps @ [w]) = Some r \<Longrightarrow> match_items (CapOne (w # ws) # is) left (w @ s) caps = Some r"
  by (simp add: starts_with_def)

lemma match_CapOne_miss:
  "\<not> starts_with w s \<Longrightarrow> match_items (CapOne (w # ws) # is) left s caps = match_items (CapOne ws # is) left s caps"
  by simp

lemma first_some_append: "first_some f (xs @ ys) = (case first_some f xs of None \<Rightarrow> first_some f ys | r \<Rightarrow> r)"
  by (induction xs) (auto split: option.split)

lemma first_some_None: "first_some f xs = None \<longleftrightarrow> (\<forall>x\<in>set xs. f x = None)"
  by (induction xs) (auto split: option.split)

lemma search_None: "(\<And>k. k \<le> length s \<Longrightarrow> match_at pat s k = None) \<Longrightarrow> search pat s = None"
  by (simp add: search_def first_some_None del: upt_Suc)

lemma search_Some:
  assumes "\<And>j. j < k \<Longrightarrow> match_at pat s j = None" and "match_at pat s k = Some m" and "k \<le> length s"
  shows "search pat s = Some m"
proof -
  have "[0..<Suc (length s)] = [0..<k] @ k # [Suc k..<Suc (length s)]"
    using assms(3) upt_add_eq_append [of 0 k "Suc (length s) - k"] by (simp add: upt_conv_Cons Suc_diff_le del: upt_Suc)
  moreover have "first_some (match_at pat s) [0..<k] = None" using assms(1) by (simp add: first_some_None)
  ultimately show ?thesis using assms(2) by (simp add: search_def first_some_append del: upt_Suc)
qed

lemma no_banner_at: "\<not> starts_with ''DEVICE:'' (drop k s) \<Longrightarrow> match_at BANNER_RE s k = None"
  by (simp add: match_at_def BANNER_RE_def)

lemma search_quiet: "\<not> contains_str ''DEVICE:'' s \<Longrightarrow> search BANNER_RE s = None"
  by (rule search_None, rule no_banner_at) (metis append_take_drop_id contains_str_iff starts_with_iff)

lemma match_banner:
  assumes "banner_parts role name serial" and "s = [] \<or> \<not> re_hex (hd s)"
  shows "match_at BANNER_RE (noise @ banner_text role name serial @ s) (length noise)
    = Some (banner_text role name serial, [role, name, serial])"
proof -
  have parts: "\<forall>c\<in>set name. c \<noteq> CHR '':''" "name \<noteq> []" "serial \<noteq> []" "\<forall>c\<in>set serial. re_hex c"
    using assms(1) by (auto simp: banner_parts_def)
  have rest: "match_items [Lit '':relay:'', Cap 1 (\<lambda>c. c \<noteq> CHR '':''), Lit '':'', Cap 1 re_hex] left
      ('':relay:'' @ name @ '':'' @ serial @ s) caps
    = Some (left @ '':relay:'' @ name @ '':'' @ serial, caps @ [name, serial])" for left caps
  proof -
    have "match_items [Cap 1 re_hex] ((left @ '':relay:'') @ name @ '':'') (serial @ s) (caps @ [name])
      = Some (((left @ '':relay:'') @ name @ '':'') @ serial, (caps @ [name]) @ [serial])"
      by (rule match_Cap) (use parts assms(2) in \<open>auto simp: Suc_le_eq\<close>)
    then have "match_items [Cap 1 (\<lambda>c. c \<noteq> CHR '':''), Lit '':'', Cap 1 re_hex] (left @ '':relay:'')
        (name @ '':'' @ serial @ s) caps = Some (((left @ '':relay:'') @ name @ '':'') @ serial, (caps @ [name]) @ [serial])"
      by (intro match_Cap_Lit) (use parts in \<open>simp_all add: Suc_le_eq\<close>)
    then show ?thesis unfolding match_Lit by simp
  qed
  let ?tail = "[Lit '':relay:'', Cap 1 (\<lambda>c. c \<noteq> CHR '':''), Lit '':'', Cap 1 re_hex]"
  have "match_items (CapOne [''RADIOBRIDGE'', ''RADIORELAY''] # ?tail) left
      (role @ '':relay:'' @ name @ '':'' @ serial @ s) caps
    = Some ((left @ role) @ '':relay:'' @ name @ '':'' @ serial, (caps @ [role]) @ [name, serial])" for left caps
  proof (cases "role = ''RADIOBRIDGE''")
    case True
    then show ?thesis using match_CapOne_hit [OF rest [of "left @ role" "caps @ [role]"]] by simp
  next
    case False
    then have "role = ''RADIORELAY''" using assms(1) by (simp add: banner_parts_def RELAY_ROLES_def)
    then show ?thesis
      using match_CapOne_hit [OF rest [of "left @ role" "caps @ [role]"], of "[]"]
      by (subst match_CapOne_miss) (simp_all add: starts_with_def)
  qed
  then have "match_items (hd BANNER_RE) noise (''DEVICE:'' @ role @ '':relay:'' @ name @ '':'' @ serial @ s) []
    = Some (noise @ banner_text role name serial, [role, name, serial])"
    unfolding BANNER_RE_def list.sel match_Lit by (simp add: banner_text_def)
  then show ?thesis
    by (simp add: match_at_def BANNER_RE_def banner_text_def)
qed

lemma no_early_banner:
  assumes "quiet_lines noise" and "j < length noise"
  shows "\<not> starts_with ''DEVICE:'' (drop j (noise @ s))"
proof
  assume "starts_with ''DEVICE:'' (drop j (noise @ s))"
  then have d: "take 7 (drop j noise @ s) = ''DEVICE:''" using assms(2) by (simp add: starts_with_def eval_nat_numeral)
  have "\<not> contains_str ''DEVICE:'' noise" "noise \<noteq> []" "last noise = newline"
    using assms by (auto simp: quiet_lines_def)
  show False
  proof (cases "length noise - j < 7")
    case True
    then have "set (drop j noise) \<subseteq> set ''DEVICE:''"
      using d by (metis length_drop nat_less_le set_append set_take_subset sup.bounded_iff sup_ge1 take_all take_append)
    moreover have "newline \<in> set (drop j noise)"
      using assms(2) \<open>noise \<noteq> []\<close> \<open>last noise = newline\<close> by (metis drop_eq_Nil last_drop last_in_set not_less)
    ultimately show False by (auto simp: newline_def)
  next
    case False
    then have "noise = take j noise @ ''DEVICE:'' @ drop 7 (drop j noise)"
      using d by (metis append_take_drop_id length_drop not_less take_append take_all_iff append_Nil2 diff_is_0_eq take_0)
    then show False using \<open>\<not> contains_str ''DEVICE:'' noise\<close> unfolding contains_str_iff by blast
  qed
qed

lemma search_banner:
  assumes "banner_parts role name serial" and "s = [] \<or> \<not> re_hex (hd s)" and "quiet_lines noise"
  shows "search BANNER_RE (noise @ banner_text role name serial @ s)
    = Some (banner_text role name serial, [role, name, serial])"
  by (rule search_Some [where k = "length noise"], rule no_banner_at, erule no_early_banner [OF assms(3)])
     (simp_all add: match_banner [OF assms(1,2)])

lemma role_words: "role \<in> set RELAY_ROLES \<Longrightarrow> role \<noteq> [] \<and> (\<forall>c\<in>set role. re_word c)"
proof -
  have "list_all (\<lambda>role. role \<noteq> [] \<and> list_all re_word role) RELAY_ROLES" by code_simp
  then show "role \<in> set RELAY_ROLES \<Longrightarrow> role \<noteq> [] \<and> (\<forall>c\<in>set role. re_word c)" by (auto simp: list_all_iff)
qed

lemma parse_banner_text:
  assumes "banner_parts role name serial"
  shows "parse_banner (banner_text role name serial)
    = Some \<lparr>bi_role = role, bi_device_name = name, bi_serial = serial,
            bi_raw = banner_text role name serial, bi_firmware = []\<rparr>"
proof -
  let ?plain = "\<lambda>c. c \<noteq> CHR '':'' \<and> \<not> re_space c"
  have parts: "\<forall>c\<in>set name. ?plain c" "name \<noteq> []" "serial \<noteq> []" "\<forall>c\<in>set serial. re_hex c"
    and word: "role \<noteq> []" "\<forall>c\<in>set role. re_word c"
    using assms role_words unfolding banner_parts_def by blast+
  have relay: "\<forall>c\<in>set ''relay''. ?plain c" by (simp add: re_space_def)
  have a1: "match_items [Cap 1 re_hex] (((''DEVICE:'' @ role @ '':'') @ ''relay'' @ '':'') @ name @ '':'') (serial @ []) ((([] @ [role]) @ [''relay'']) @ [name])
    = Some ((((''DEVICE:'' @ role @ '':'') @ ''relay'' @ '':'') @ name @ '':'') @ serial, ((([] @ [role]) @ [''relay'']) @ [name]) @ [serial])"
    by (rule match_Cap) (use parts in \<open>auto simp: Suc_le_eq\<close>)
  have a2: "match_items [Cap 1 ?plain, Lit '':'', Cap 1 re_hex] ((''DEVICE:'' @ role @ '':'') @ ''relay'' @ '':'')
      (name @ '':'' @ serial @ []) (([] @ [role]) @ [''relay''])
    = Some ((((''DEVICE:'' @ role @ '':'') @ ''relay'' @ '':'') @ name @ '':'') @ serial, ((([] @ [role]) @ [''relay'']) @ [name]) @ [serial])"
    by (rule match_Cap_Lit [OF _ _ _ _ a1]) (use parts in \<open>simp_all add: Suc_le_eq del: match_items.simps(2)\<close>)
  have a3: "match_items [Cap 1 ?plain, Lit '':'', Cap 1 ?plain, Lit '':'', Cap 1 re_hex] (''DEVICE:'' @ role @ '':'')
      (''relay'' @ '':'' @ name @ '':'' @ serial @ []) ([] @ [role])
    = Some ((((''DEVICE:'' @ role @ '':'') @ ''relay'' @ '':'') @ name @ '':'') @ serial, ((([] @ [role]) @ [''relay'']) @ [name]) @ [serial])"
    by (rule match_Cap_Lit [OF _ _ _ _ a2]) (use relay in \<open>simp_all del: match_items.simps(2)\<close>)
  have a4: "match_items [Cap 1 re_word, Lit '':'', Cap 1 ?plain, Lit '':'', Cap 1 ?plain, Lit '':'', Cap 1 re_hex] ''DEVICE:''
      (role @ '':'' @ ''relay'' @ '':'' @ name @ '':'' @ serial @ []) []
    = Some ((((''DEVICE:'' @ role @ '':'') @ ''relay'' @ '':'') @ name @ '':'') @ serial, ((([] @ [role]) @ [''relay'']) @ [name]) @ [serial])"
    by (rule match_Cap_Lit [OF _ _ _ _ a3])
       (use word in \<open>simp_all add: Suc_le_eq re_word_def is_alpha_char_def is_digit_char_def del: match_items.simps(2)\<close>)
  from a4 have "match_items (hd IDENTITY_RE) [] (banner_text role name serial) []
    = Some (banner_text role name serial, [role, ''relay'', name, serial])"
    unfolding IDENTITY_RE_def list.sel banner_text_def match_Lit by simp
  then have "match_at IDENTITY_RE (banner_text role name serial) 0
    = Some (banner_text role name serial, [role, ''relay'', name, serial])"
    by (simp add: match_at_def IDENTITY_RE_def banner_text_def del: match_items.simps(2))
  then have "search IDENTITY_RE (banner_text role name serial)
    = Some (banner_text role name serial, [role, ''relay'', name, serial])"
    by (intro search_Some [where k = 0]) simp_all
  then show ?thesis by (simp add: parse_banner_def)
qed

subsection \<open>However its bytes are cut\<close>

lemma complete_lines_break [simp]: "newline \<notin> set b \<Longrightarrow> complete_lines (a @ newline # b) = a @ [newline]"
proof -
  assume "newline \<notin> set b"
  then have "\<forall>c\<in>set (rev b). c \<noteq> newline" by auto
  then have "dropWhile (\<lambda>c. c \<noteq> newline) (rev b @ newline # rev a) = newline # rev a"
    by (subst dropWhile_append2) (blast, simp)
  then show ?thesis by (simp add: complete_lines_def)
qed

lemma complete_lines_none: "newline \<notin> set b \<Longrightarrow> complete_lines b = []"
  unfolding complete_lines_def by (metis (mono_tags, lifting) dropWhile_eq_Nil_conv rev.simps(1) set_rev)

lemma complete_lines_split: "\<exists>tail. s = complete_lines s @ tail \<and> newline \<notin> set tail"
  and complete_lines_last: "complete_lines s \<noteq> [] \<Longrightarrow> last (complete_lines s) = newline"
proof -
  have "s = rev (dropWhile (\<lambda>c. c \<noteq> newline) (rev s)) @ rev (takeWhile (\<lambda>c. c \<noteq> newline) (rev s))"
    by (metis rev_append rev_rev_ident takeWhile_dropWhile_id)
  moreover have "newline \<notin> set (rev (takeWhile (\<lambda>c. c \<noteq> newline) (rev s)))"
    by (auto dest: set_takeWhileD)
  ultimately show "\<exists>tail. s = complete_lines s @ tail \<and> newline \<notin> set tail"
    unfolding complete_lines_def by blast
  show "last (complete_lines s) = newline" if "complete_lines s \<noteq> []"
    using that hd_dropWhile [of "\<lambda>c. c \<noteq> newline" "rev s"] by (auto simp: complete_lines_def last_rev)
qed

lemma wait_loop_finds:
  assumes "\<And>p q. buf @ concat chunks = p @ q \<Longrightarrow> length buf \<le> length p
      \<Longrightarrow> search pat (complete_lines p) = (if n \<le> length p then Some m else None)"
    and "n \<le> length (buf @ concat chunks)"
  shows "\<exists>buf' rest. wait_loop pat buf False (map Data chunks) = (Inr (Some m), buf', False, map Data rest)
     \<and> buf' @ concat rest = buf @ concat chunks \<and> n \<le> length buf'"
  using assms
proof (induction chunks arbitrary: buf)
  case Nil
  then show ?case by (auto split: option.split)
next
  case (Cons d ds)
  have now: "search pat (complete_lines buf) = (if n \<le> length buf then Some m else None)"
    using Cons.prems(1) [of buf "d @ concat ds"] by simp
  show ?case
  proof (cases "n \<le> length buf")
    case True
    then have "wait_loop pat buf False (map Data (d # ds)) = (Inr (Some m), buf, False, map Data (d # ds))"
      using now by simp
    then show ?thesis using True by blast
  next
    case False
    have "\<exists>buf' rest. wait_loop pat (buf @ d) False (map Data ds) = (Inr (Some m), buf', False, map Data rest)
       \<and> buf' @ concat rest = (buf @ d) @ concat ds \<and> n \<le> length buf'"
      by (rule Cons.IH) (use Cons.prems in auto)
    then show ?thesis using now False by auto
  qed
qed

definition line_end :: "string \<Rightarrow> bool" where
  "line_end eol \<longleftrightarrow> eol = [newline] \<or> eol = [CHR 0x0D, newline]"

lemma banner_no_newline: "banner_parts role name serial \<Longrightarrow> newline \<notin> set (banner_text role name serial)"
proof -
  assume b: "banner_parts role name serial"
  have nl: "\<not> re_word newline" "re_space newline" "\<not> re_hex newline" by code_simp+
  have "newline \<notin> set role" "newline \<notin> set name" "newline \<notin> set serial"
    using b role_words [of role] nl unfolding banner_parts_def by blast+
  then show ?thesis by (simp add: banner_text_def, simp add: newline_def)
qed

lemma search_before_banner:
  assumes "banner_parts role name serial" and "quiet_lines noise" and "line_end eol"
    and "noise @ banner_text role name serial @ eol = p @ r" and "r \<noteq> []"
  shows "search BANNER_RE (complete_lines p) = None"
proof (rule search_quiet)
  let ?b = "banner_text role name serial @ butlast eol"
  obtain tail where tail: "p = complete_lines p @ tail" "newline \<notin> set tail" using complete_lines_split by blast
  have eol: "eol = butlast eol @ [newline]" "newline \<notin> set ?b"
    using assms(3) banner_no_newline [OF assms(1)] by (auto simp: line_end_def newline_def)
  have "noise @ ?b @ [newline] = complete_lines p @ tail @ r"
    using assms(4) tail(1) eol(1) by (metis append.assoc)
  then have pre: "noise @ ?b = complete_lines p @ tail @ butlast r"
    using assms(5) by (metis append.assoc butlast_append butlast_snoc append_is_Nil_conv)
  obtain us where us: "noise = complete_lines p @ us \<or> noise @ us = complete_lines p \<and> ?b = us @ tail @ butlast r"
    using pre unfolding append_eq_append_conv2 by blast
  have "us = []" if far: "noise @ us = complete_lines p" "?b = us @ tail @ butlast r"
  proof (rule ccontr)
    assume "us \<noteq> []"
    then have "newline \<in> set us"
      using complete_lines_last [of p] far(1) by (metis append_is_Nil_conv last_appendR last_in_set)
    then show False using far(2) eol(2) by (metis Un_iff set_append)
  qed
  then obtain v where "noise = complete_lines p @ v" using us by auto
  then show "\<not> contains_str ''DEVICE:'' (complete_lines p)"
    using assms(2) unfolding quiet_lines_def contains_str_iff by (metis append.assoc)
qed

lemma search_after_banner:
  assumes "banner_parts role name serial" and "quiet_lines noise" and "line_end eol"
  shows "search BANNER_RE (complete_lines (noise @ banner_text role name serial @ eol @ r))
    = Some (banner_text role name serial, [role, name, serial])"
proof -
  obtain tail where tail: "r = complete_lines r @ tail" "newline \<notin> set tail" using complete_lines_split by blast
  obtain e where e: "eol = e @ [newline]" using assms(3) by (auto simp: line_end_def)
  have hd: "\<not> re_hex (hd (eol @ x))" "eol @ x \<noteq> []" for x
    using assms(3) by (auto simp: line_end_def newline_def re_hex_def is_digit_char_def)
  have "complete_lines (noise @ banner_text role name serial @ eol @ r)
      = noise @ banner_text role name serial @ eol @ complete_lines r"
  proof (cases "complete_lines r = []")
    case True
    then show ?thesis
      using tail e complete_lines_break [of tail "noise @ banner_text role name serial @ e"] by simp
  next
    case False
    then obtain s where s: "complete_lines r = s @ [newline]" using complete_lines_last by (metis append_butlast_last_id)
    then have "noise @ banner_text role name serial @ eol @ r
        = (noise @ banner_text role name serial @ eol @ s) @ newline # tail" using tail(1) by simp
    then show ?thesis using complete_lines_break [OF tail(2), of "noise @ banner_text role name serial @ eol @ s"] s by simp
  qed
  then show ?thesis using search_banner [OF assms(1) _ assms(2)] hd by simp
qed

lemma banner_found:
  assumes "banner_parts role name serial" and "quiet_lines noise" and "line_end eol"
    and "concat chunks = noise @ banner_text role name serial @ eol @ further"
  shows "\<exists>buf' rest. wait_loop BANNER_RE [] False (map Data chunks)
      = (Inr (Some (banner_text role name serial, [role, name, serial])), buf', False, map Data rest)
    \<and> buf' @ concat rest = [] @ concat chunks \<and> length (noise @ banner_text role name serial @ eol) \<le> length buf'"
proof (rule wait_loop_finds)
  let ?t = "noise @ banner_text role name serial @ eol"
  fix p q assume pq: "[] @ concat chunks = p @ q"
  show "search BANNER_RE (complete_lines p)
      = (if length ?t \<le> length p then Some (banner_text role name serial, [role, name, serial]) else None)"
  proof (cases "length ?t \<le> length p")
    case True
    then obtain r where "p = ?t @ r" using pq assms(4) by (auto simp: append_eq_append_conv2)
    then show ?thesis using True search_after_banner [OF assms(1-3), of r] by simp
  next
    case False
    have "?t @ further = p @ q" using pq assms(4) by simp
    then obtain r where "?t = p @ r \<or> ?t @ r = p" unfolding append_eq_append_conv2 by blast
    then have "?t = p @ r" "r \<noteq> []" using False by auto
    then show ?thesis using False search_before_banner [OF assms(1-3)] by simp
  qed
qed (simp add: assms(4))

abbreviation (input) HELLO :: string where
  "HELLO \<equiv> ''HELLO'' @ [newline]"

text \<open>A reader with nothing unread.\<close>

definition idle :: "'b chan \<Rightarrow> bool" where
  "idle c \<longleftrightarrow> ch_reading c \<and> ch_pending c = [] \<and> ch_buf c = [] \<and> \<not> ch_failed c"

definition banner_of :: "string \<Rightarrow> string \<Rightarrow> string \<Rightarrow> banner_info" where
  "banner_of role name serial = \<lparr>bi_role = role, bi_device_name = name, bi_serial = serial,
     bi_raw = banner_text role name serial, bi_firmware = []\<rparr>"

lemma write_silent:
  assumes "idle c" and "dev (Write d) (ch_board c) = (False, [], b)"
  shows "\<exists>c'. write_nowait dev d c = (Inr (), c') \<and> idle c' \<and> ch_board c' = b \<and> ch_log c' = ch_log c @ [Did (Write d)]"
  using assms by (auto simp: write_nowait_def perform_def deliver_def idle_def)

text \<open>A reader that nothing is on its way to but empty reads.\<close>

definition live :: "'b chan \<Rightarrow> bool" where
  "live c \<longleftrightarrow> ch_reading c \<and> \<not> ch_failed c \<and> (\<exists>ds. ch_pending c = map Data ds \<and> concat ds = [])"

lemma ask_hello_answered:
  assumes "banner_parts role name serial" and "quiet_lines noise" and "line_end eol"
    and "concat chunks = noise @ banner_text role name serial @ eol @ further"
    and "idle c" and "dev (Write HELLO) (ch_board c) = (False, [], b1)" and "dev (Wait t) b1 = (x, map Data chunks, b2)"
    and "0 < n"
  shows "\<exists>c'. ask_hello dev t BANNER_RE n c = (Inr (Some (banner_of role name serial)), c')
     \<and> ch_board c' = b2 \<and> (further = [] \<longrightarrow> live c')
     \<and> ch_log c' = ch_log c @ [Did (Write HELLO), Did (Wait t),
                               Saw (Some (banner_text role name serial, [role, name, serial]))]"
proof -
  obtain m where n: "n = Suc m" using assms(8) gr0_implies_Suc by blast
  obtain c1 where c1: "write_nowait dev HELLO c = (Inr (), c1)" "idle c1" "ch_board c1 = b1"
    "ch_log c1 = ch_log c @ [Did (Write HELLO)]"
    using write_silent [where dev = dev, OF assms(5,6)] by blast
  obtain buf' rest where loop: "wait_loop BANNER_RE [] False (map Data chunks)
      = (Inr (Some (banner_text role name serial, [role, name, serial])), buf', False, map Data rest)"
    "buf' @ concat rest = [] @ concat chunks" "length (noise @ banner_text role name serial @ eol) \<le> length buf'"
    using banner_found [OF assms(1-4)] by blast
  have "concat rest = []" if "further = []"
  proof -
    have "length (concat rest) + length buf' = length (noise @ banner_text role name serial @ eol)"
      using loop(2) assms(4) that by (metis add.commute append_Nil append_Nil2 length_append)
    then have "length (concat rest) = 0" using loop(3) by linarith
    then show ?thesis by (simp only: length_0_conv)
  qed
  then obtain c2 where c2: "wait_for dev BANNER_RE t c1 = (Inr (Some (banner_text role name serial, [role, name, serial])), c2)"
    "ch_board c2 = b2" "further = [] \<longrightarrow> live c2" "ch_log c2 = ch_log c @ [Did (Write HELLO), Did (Wait t),
        Saw (Some (banner_text role name serial, [role, name, serial]))]"
    using c1(2-4) assms(7) loop(1) by (auto simp: wait_for_def idle_def live_def)
  then show ?thesis
    using c1(1) parse_banner_text [OF assms(1)] by (simp add: n and_then_def give_def banner_of_def)
qed

lemma search_empty: "search BANNER_RE (complete_lines []) = None"
  by (simp add: complete_lines_def search_quiet)

lemma ask_hello_silent:
  assumes "\<And>b. deaf b \<Longrightarrow> \<exists>b'. dev (Write HELLO) b = (False, [], b') \<and> deaf b'"
    and "\<And>b. deaf b \<Longrightarrow> \<exists>b'. dev (Wait t) b = (False, [], b') \<and> deaf b'"
    and "idle c" and "deaf (ch_board c)"
  shows "\<exists>c' l. ask_hello dev t BANNER_RE n c = (Inr None, c') \<and> idle c' \<and> deaf (ch_board c')
     \<and> ch_log c' = ch_log c @ l \<and> writes l = replicate n HELLO"
  using assms(3,4)
proof (induction n arbitrary: c)
  case 0
  then show ?case by (auto simp: give_def)
next
  case (Suc n)
  obtain b1 b2 where b: "dev (Write HELLO) (ch_board c) = (False, [], b1)" "dev (Wait t) b1 = (False, [], b2)" "deaf b2"
    using assms(1,2) Suc.prems(2) by metis
  obtain c1 where c1: "write_nowait dev HELLO c = (Inr (), c1)" "idle c1" "ch_board c1 = b1"
    "ch_log c1 = ch_log c @ [Did (Write HELLO)]"
    using write_silent [where dev = dev, OF Suc.prems(1) b(1)] by blast
  obtain c2 where c2: "wait_for dev BANNER_RE t c1 = (Inr None, c2)" "idle c2" "ch_board c2 = b2"
    "ch_log c2 = ch_log c @ [Did (Write HELLO), Did (Wait t), Saw None]"
    using c1(2-4) b(2) by (auto simp: wait_for_def idle_def search_empty)
  obtain c3 l where c3: "ask_hello dev t BANNER_RE n c2 = (Inr None, c3)" "idle c3" "deaf (ch_board c3)"
    "ch_log c3 = ch_log c2 @ l" "writes l = replicate n HELLO"
    using Suc.IH [OF c2(2)] b(3) c2(3) by auto
  then show ?case
    using c1(1) c2(1,4) by (auto simp: and_then_def)
qed

text \<open>The identity of a board is never read short. Whatever whole lines the board sends before its
  banner, and however the serial port cuts the bytes (a read may end in the middle of the name or of the
  serial number), \<open>hello\<close> reports exactly the role, name and serial number the board printed, after one
  \<open>HELLO\<close> and without a break.\<close>

theorem hello_reads_whole_banner:
  assumes "banner_parts role name serial" and "quiet_lines noise" and "line_end eol"
    and "concat chunks = noise @ banner_text role name serial @ eol @ further"
    and "idle c" and "dev (Write (''HELLO'' @ [newline])) (ch_board c) = (False, [], b1)"
    and "dev (Wait (rc_hello_timeout ctl)) b1 = (x, map Data chunks, b2)" and "0 < rc_hello_attempts ctl"
  shows "\<exists>c'. hello dev ctl allow_break BANNER_RE c
        = (Inr \<lparr>bi_role = role, bi_device_name = name, bi_serial = serial,
                bi_raw = banner_text role name serial, bi_firmware = []\<rparr>, c')
     \<and> ch_log c' = ch_log c @ [Did (Write (''HELLO'' @ [newline])), Did (Wait (rc_hello_timeout ctl)),
                               Saw (Some (banner_text role name serial, [role, name, serial]))]"
  using ask_hello_answered [where dev = dev, OF assms(1-8)]
  by (auto simp: hello_def and_then_def give_def banner_of_def)

subsection \<open>A board that keeps to the protocol\<close>

text \<open>The interface of the board behind the channel: while it is deaf only a break reaches it, after which
  it is starting and may print; awake it takes every command and answers \<open>HELLO\<close> with its banner (after
  whole lines of its own, in any pieces), the query with its factory configuration, and any other
  command with one piece or not at all.\<close>

definition good_reply :: "string \<Rightarrow> string \<Rightarrow> string \<Rightarrow> string \<Rightarrow> string list \<Rightarrow> bool" where
  "good_reply role name serial d chunks \<longleftrightarrow>
     (if d = ''HELLO'' @ [newline]
      then \<exists>noise. quiet_lines noise \<and> concat chunks = noise @ banner_text role name serial @ [newline]
      else if d = ''?'' @ [newline] then chunks = [''# channel: 0 group: 10 mode: RAW250 power: 7'' @ [newline]]
      else length chunks \<le> 1)"

lemma and_then_assoc: "and_then (and_then m f) g = and_then m (\<lambda>x. and_then (f x) g)"
  by (rule ext) (auto simp: and_then_def split: prod.split sum.split)

lemma and_then_Inr: "m c = (Inr x, c') \<Longrightarrow> and_then m k c = k x c'"
  by (simp add: and_then_def)

text \<open>One command with its answer, and what follows it.\<close>

lemma ask_then:
  "and_then clear (\<lambda>_. and_then (write_nowait dev d) (\<lambda>_. and_then (wait_for dev pat t) k))
     = and_then (and_then clear (\<lambda>_. and_then (write_nowait dev d) (\<lambda>_. wait_for dev pat t))) k"
  by (simp add: and_then_assoc)

locale responsive_relay =
  fixes dev :: "'b dev" and deaf starting awake :: "'b \<Rightarrow> bool" and asked :: "string \<Rightarrow> 'b \<Rightarrow> bool"
    and role name serial :: string
  assumes deaf_silent: "deaf b \<Longrightarrow> (\<And>t. op \<noteq> Break t) \<Longrightarrow> \<exists>b'. dev op b = (False, [], b') \<and> deaf b'"
    and break_wakes: "deaf b \<Longrightarrow> \<exists>b' boot. dev (Break t) b = (False, map Data boot, b') \<and> starting b'"
    and starting_ends: "starting b \<Longrightarrow> \<exists>b' boot. dev (Sleep t) b = (False, map Data boot, b') \<and> awake b'"
    and awake_sleeps: "awake b \<Longrightarrow> \<exists>b'. dev (Sleep t) b = (False, [], b') \<and> awake b'"
    and awake_takes: "awake b \<Longrightarrow> \<exists>b'. dev (Write d) b = (False, [], b') \<and> asked d b'"
    and awake_answers: "asked d b \<Longrightarrow> \<exists>b' chunks. dev (Wait t) b = (False, map Data chunks, b') \<and> awake b'
        \<and> good_reply role name serial d chunks"
    and parts: "banner_parts role name serial"
begin

lemma ask_hello_awake:
  assumes "idle c" and "awake (ch_board c)" and "0 < n"
  shows "\<exists>c'. ask_hello dev t BANNER_RE n c = (Inr (Some (banner_of role name serial)), c') \<and> live c' \<and> awake (ch_board c')"
proof -
  obtain b1 where b1: "dev (Write HELLO) (ch_board c) = (False, [], b1)" "asked HELLO b1"
    using awake_takes [OF assms(2)] by blast
  obtain b2 chunks where b2: "dev (Wait t) b1 = (False, map Data chunks, b2)" "awake b2"
    "good_reply role name serial HELLO chunks"
    using awake_answers [OF b1(2)] by blast
  then obtain noise where noise: "quiet_lines noise" "concat chunks = noise @ banner_text role name serial @ [newline] @ []"
    by (auto simp: good_reply_def)
  have eol: "line_end [newline]" by (simp add: line_end_def)
  show ?thesis
    using ask_hello_answered [where dev = dev, OF parts noise(1) eol noise(2) assms(1) b1(1) b2(1) assms(3)] b2(2) by auto
qed

lemma hello_awake:
  assumes "idle c" and "awake (ch_board c)" and "0 < rc_hello_attempts ctl"
  shows "\<exists>c'. hello dev ctl True BANNER_RE c = (Inr (banner_of role name serial), c') \<and> live c' \<and> awake (ch_board c')"
  using ask_hello_awake [OF assms, of "rc_hello_timeout ctl"] by (auto simp: hello_def and_then_def give_def)

lemma hello_deaf:
  assumes "idle c" and "deaf (ch_board c)" and "0 < rc_hello_attempts ctl"
  shows "\<exists>c'. hello dev ctl True BANNER_RE c = (Inr (banner_of role name serial), c') \<and> live c' \<and> awake (ch_board c')"
proof -
  let ?ask = "ask_hello dev (rc_hello_timeout ctl) BANNER_RE (rc_hello_attempts ctl)"
  obtain c1 where c1: "?ask c = (Inr None, c1)" "idle c1" "deaf (ch_board c1)"
    using ask_hello_silent [where dev = dev and deaf = deaf, OF _ _ assms(1,2)] deaf_silent by blast
  obtain b2 boot where b2: "dev (Break (rc_break_duration ctl)) (ch_board c1) = (False, map Data boot, b2)" "starting b2"
    using break_wakes [OF c1(3)] by blast
  obtain c2 where c2: "send_break dev (rc_break_duration ctl) c1 = (Inr (), c2)" "ch_board c2 = b2" "ch_reading c2"
    "ch_pending c2 = []" "\<not> ch_failed c2"
    using c1(2) b2(1) by (auto simp: send_break_def perform_def deliver_def idle_def)
  obtain b3 boot2 where b3: "dev (Sleep (rc_break_settle ctl)) b2 = (False, map Data boot2, b3)" "awake b3"
    using starting_ends [OF b2(2)] by blast
  obtain c3 where c3: "sleep dev (rc_break_settle ctl) c2 = (Inr (), c3)" "ch_board c3 = b3" "ch_reading c3"
    "ch_pending c3 = []" "\<not> ch_failed c3"
    using c2 b3(1) by (auto simp: sleep_def perform_def deliver_def)
  have c4: "clear c3 = (Inr (), c3\<lparr>ch_buf := []\<rparr>)" "idle (c3\<lparr>ch_buf := []\<rparr>)" "awake (ch_board (c3\<lparr>ch_buf := []\<rparr>))"
    using c3 b3(2) by (auto simp: clear_def idle_def)
  obtain c5 where "?ask (c3\<lparr>ch_buf := []\<rparr>) = (Inr (Some (banner_of role name serial)), c5)" "live c5" "awake (ch_board c5)"
    using ask_hello_awake [OF c4(2,3) assms(3)] by blast
  then show ?thesis
    using c1(1) c2(1) c3(1) c4(1) by (simp add: hello_def and_then_def give_def)
qed

lemma ask_live:
  assumes "live c" and "awake (ch_board c)" and "search pat [] = None" and "d \<noteq> HELLO"
  shows "\<exists>m c'. live c' \<and> awake (ch_board c')
     \<and> and_then clear (\<lambda>_. and_then (write_nowait dev d) (\<lambda>_. wait_for dev pat t)) c = (Inr m, c')
     \<and> (d = ''?'' @ [newline] \<longrightarrow> m = search pat (''# channel: 0 group: 10 mode: RAW250 power: 7'' @ [newline]))"
proof -
  obtain b1 where b1: "dev (Write d) (ch_board c) = (False, [], b1)" "asked d b1"
    using awake_takes [OF assms(2)] by blast
  obtain b2 chunks where b2: "dev (Wait t) b1 = (False, map Data chunks, b2)" "awake b2" "good_reply role name serial d chunks"
    using awake_answers [OF b1(2)] by blast
  have empty: "concat (map (\<lambda>a. case a of Data d \<Rightarrow> d | ReadFails \<Rightarrow> []) (map Data ds)) = concat ds"
    "ReadFails \<notin> set (map Data ds)" for ds by (auto simp: comp_def)
  obtain ds where ds: "ch_pending c = map Data ds" "concat ds = []" using assms(1) unfolding live_def by blast
  obtain c1 where c1: "and_then clear (\<lambda>_. write_nowait dev d) c = (Inr (), c1)" "ch_board c1 = b1" "ch_reading c1"
    "ch_pending c1 = []" "\<not> ch_failed c1" "ch_buf c1 = []"
    using assms(1) b1(1) ds empty [of ds]
    by (auto simp: and_then_def clear_def write_nowait_def perform_def deliver_def live_def)
  have few: "length chunks \<le> 1" using b2(3) assms(4) by (auto simp: good_reply_def split: if_splits)
  have none: "search pat (complete_lines []) = None" using assms(3) by (simp add: complete_lines_def)
  define m where "m = search pat (complete_lines (concat chunks))"
  have loop: "wait_loop pat [] False (map Data chunks) = (Inr m, concat chunks, False, [])"
    using few none by (cases chunks) (auto simp: m_def split: option.split)
  obtain c2 where c2: "wait_for dev pat t c1 = (Inr m, c2)" "live c2" "ch_board c2 = b2"
    using c1(2-) b2(1) loop by (auto simp: wait_for_def live_def)
  have seq: "and_then clear (\<lambda>_. and_then (write_nowait dev d) (\<lambda>_. wait_for dev pat t)) c = (Inr m, c2)"
    using c1(1) c2(1) by (auto simp: and_then_def clear_def)
  have line: "complete_lines (''# channel: 0 group: 10 mode: RAW250 power: 7'' @ [newline])
      = ''# channel: 0 group: 10 mode: RAW250 power: 7'' @ [newline]"
    by (rule complete_lines_break) simp
  have "m = search pat (''# channel: 0 group: 10 mode: RAW250 power: 7'' @ [newline])" if "d = ''?'' @ [newline]"
    using b2(3) that line by (simp add: good_reply_def m_def)
  then show ?thesis using seq c2(2,3) b2(2) by blast
qed

lemma run_steps_live:
  assumes "live c" and "awake (ch_board c)" and "\<forall>(d, pat)\<in>set steps. search pat [] = None \<and> d \<noteq> HELLO"
  shows "\<exists>c'. run_steps dev t steps c = (Inr (), c') \<and> live c' \<and> awake (ch_board c')"
  using assms
proof (induction steps arbitrary: c)
  case Nil
  then show ?case by (simp add: give_def)
next
  case (Cons p steps)
  obtain d pat where p: "p = (d, pat)" by force
  have "search pat [] = None" "d \<noteq> HELLO" using Cons.prems(3) p by auto
  from ask_live [OF Cons.prems(1,2) this, of t] obtain c' where
    "live c'" "awake (ch_board c')" "run_steps dev t (p # steps) c = run_steps dev t steps c'"
    unfolding p run_steps.simps ask_then by (auto simp: and_then_Inr)
  then show ?case using Cons.IH Cons.prems(3) by auto
qed

lemma normalize_live:
  assumes "live c" and "awake (ch_board c)"
  shows "\<exists>c'. normalize dev t r c = (Inr (), c') \<and> live c' \<and> awake (ch_board c')"
proof -
  have steps: "\<forall>(d, pat)\<in>set NORMALIZE_STEPS. search pat [] = None \<and> d \<noteq> HELLO"
    unfolding list_all_iff [symmetric] by code_simp
  obtain c1 where c1: "run_steps dev t NORMALIZE_STEPS c = (Inr (), c1)" "live c1" "awake (ch_board c1)"
    using run_steps_live [OF assms steps] by blast
  have cfg: "search CONFIG_RE [] = None" "''?'' @ [newline] \<noteq> HELLO"
    and ok: "search CONFIG_RE (''# channel: 0 group: 10 mode: RAW250 power: 7'' @ [newline])
      = Some (''# channel: 0 group: 10 mode: RAW250 power: 7'', [''0'', ''10'', ''RAW250'', ''7''])"
    "is_default (''# channel: 0 group: 10 mode: RAW250 power: 7'', [''0'', ''10'', ''RAW250'', ''7''])"
    by code_simp+
  obtain m c2 where c2: "live c2" "awake (ch_board c2)" "query dev (t * 2) c1 = (Inr m, c2)"
    "m = search CONFIG_RE (''# channel: 0 group: 10 mode: RAW250 power: 7'' @ [newline])"
    using ask_live [OF c1(2,3) cfg, of "t * 2"] unfolding query_def by blast
  have "normalize dev t r c = (Inr (), c2)"
    using c1(1) c2(3,4) ok by (simp add: normalize_def and_then_def give_def)
  then show ?thesis using c2 by blast
qed

lemma version_live:
  assumes "live c" and "awake (ch_board c)"
  shows "\<exists>v c'. firmware_version dev t c = (Inr v, c') \<and> live c' \<and> awake (ch_board c')"
proof -
  have pat: "search VERSION_RE [] = None" "''!VER?'' @ [newline] \<noteq> HELLO" by code_simp+
  obtain m c' where c': "live c'" "awake (ch_board c')"
    "and_then clear (\<lambda>_. and_then (write_nowait dev (''!VER?'' @ [newline])) (\<lambda>_. wait_for dev VERSION_RE t)) c = (Inr m, c')"
    using ask_live [OF assms pat, of t] by blast
  have "firmware_version dev t c = give (case m of Some (_, [v]) \<Rightarrow> v | _ \<Rightarrow> []) c'"
    unfolding firmware_version_def ask_then by (rule trans [OF and_then_Inr], rule c'(3)) simp
  then show ?thesis using c'(1,2) unfolding give_def by blast
qed

lemma clear_stored_live:
  assumes "live c" and "awake (ch_board c)"
  shows "\<exists>c'. clear_stored_config dev t c = (Inr (), c')"
proof -
  have pat: "search [[Lit ''#'', Rep 0 re_space, Lit ''stored config cleared'']] [] = None"
    "''!DEFAULTS'' @ [newline] \<noteq> HELLO" by code_simp+
  obtain m c' where c': "live c'" "awake (ch_board c')"
    "and_then clear (\<lambda>_. and_then (write_nowait dev (''!DEFAULTS'' @ [newline])) (\<lambda>_. wait_for dev [[Lit ''#'', Rep 0 re_space, Lit ''stored config cleared'']] t)) c = (Inr m, c')"
    using ask_live [OF assms pat, of t] by blast
  have "clear_stored_config dev t c = give () c'"
    unfolding clear_stored_config_def ask_then by (rule trans [OF and_then_Inr], rule c'(3)) simp
  then show ?thesis using c'(1,2) unfolding give_def by blast
qed

lemma reset_succeeds:
  assumes "dev Open (ch_board c) = (False, [], b)" and "deaf b \<or> awake b"
    and "ch_pending c = []" and "\<not> ch_reading c" and "0 < rc_hello_attempts ctl"
  shows "\<exists>v. fst (reset_and_normalize dev ctl clear_stored c) = Inr ((banner_of role name serial)\<lparr>bi_firmware := v\<rparr>)"
proof -
  obtain c1 where c1: "perform dev Open c = (False, c1)" "ch_board c1 = b" "ch_pending c1 = []" "\<not> ch_reading c1"
    using assms(1,3,4) by (auto simp: perform_def deliver_def)
  let ?c2 = "c1\<lparr>ch_is_open := True\<rparr>"
  obtain b3 where b3: "dev (Sleep (rc_open_settle ctl)) b = (False, [], b3)" "deaf b3 \<or> awake b3"
    using assms(2) deaf_silent [of b "Sleep (rc_open_settle ctl)"] awake_sleeps by blast
  obtain c3 where c3: "sleep dev (rc_open_settle ctl) ?c2 = (Inr (), c3)" "ch_board c3 = b3" "ch_pending c3 = []"
    using c1 b3(1) by (auto simp: sleep_def perform_def deliver_def)
  obtain c4 where c4: "attach_reader c3 = (Inr (), c4)" "idle c4" "ch_board c4 = b3"
    using c3(2,3) by (auto simp: attach_reader_def deliver_def idle_def)
  obtain c5 where c5: "hello dev ctl True BANNER_RE c4 = (Inr (banner_of role name serial), c5)" "live c5" "awake (ch_board c5)"
    using hello_deaf [OF c4(2) _ assms(5)] hello_awake [OF c4(2) _ assms(5)] b3(2) c4(3) by auto
  obtain v c6 where c6: "firmware_version dev 1000 c5 = (Inr v, c6)" "live c6" "awake (ch_board c6)"
    using version_live [OF c5(2,3)] by blast
  obtain c7 where c7: "normalize dev 1500 1 c6 = (Inr (), c7)" "live c7" "awake (ch_board c7)"
    using normalize_live [OF c6(2,3)] by blast
  obtain c8 where c8: "(if clear_stored then clear_stored_config dev 1000 else give ()) c7 = (Inr (), c8)"
    using clear_stored_live [OF c7(2,3)] by (cases clear_stored) (auto simp: give_def)
  have "fst (reset_and_normalize dev ctl clear_stored c) = Inr ((banner_of role name serial)\<lparr>bi_firmware := v\<rparr>)"
    using c1(1) c3(1) c4(1) c5(1) c6(1) c7(1) c8
    by (simp add: reset_and_normalize_def reset_body_def with_channel_def and_then_def give_def)
  then show ?thesis by blast
qed

end

subsection \<open>A scripted board\<close>

text \<open>A relay as the tests script it: it answers every command of a reset, in pieces; deaf in phase 0
  until a break, starting in phase 1, awake in phase 2. The second component is the last line written.\<close>

definition scripted_reply :: "string \<Rightarrow> string list" where
  "scripted_reply d =
     (if d = ''HELLO'' @ [newline] then [''DEVICE:RADIOBRIDGE:relay:to'', ''gov:12'', ''34'' @ [newline]]
      else if d = ''!VER?'' @ [newline] then [''# version: 1.2.3'' @ [newline]]
      else if d = ''!MODE RAW250'' @ [newline] then [''# mode: RAW250'' @ [newline]]
      else if d = ''!FRAG OFF'' @ [newline] then [''# frag: OFF'' @ [newline]]
      else if d = ''!ECHO OFF'' @ [newline] then [''# echo: OFF'' @ [newline]]
      else if d = ''!P 7'' @ [newline] then [''# channel: 9 group: 10 mode: RAW250 power: 7'' @ [newline]]
      else if d = ''!C 0'' @ [newline] then [''# channel: 0 group: 10'' @ [newline]]
      else if d = ''?'' @ [newline] then [''# channel: 0 group: 10 mode: RAW250 power: 7'' @ [newline]]
      else [])"

definition scripted_board :: "(nat \<times> string) dev" where
  "scripted_board op b =
     (case op of
        Write d \<Rightarrow> (False, [], (fst b, d))
      | Break _ \<Rightarrow> (False, [Data ''boot''], (1, []))
      | Sleep _ \<Rightarrow> (False, [], (if fst b = 1 then 2 else fst b, snd b))
      | Wait _ \<Rightarrow> (False, if fst b = 2 then map Data (scripted_reply (snd b)) else [], (fst b, []))
      | _ \<Rightarrow> (False, [], b))"

lemma togov_parts: "banner_parts ''RADIOBRIDGE'' ''togov'' ''1234''"
  by (simp add: banner_parts_def RELAY_ROLES_def re_space_def re_hex_def is_digit_char_def)

interpretation scripted: responsive_relay scripted_board "\<lambda>b. fst b = 0" "\<lambda>b. fst b = 1" "\<lambda>b. fst b = 2"
    "\<lambda>d b. fst b = 2 \<and> snd b = d" "''RADIOBRIDGE''" "''togov''" "''1234''"
proof (unfold_locales, goal_cases)
  case (1 b op)
  then show ?case by (cases op) (auto simp: scripted_board_def)
next
  case (2 b t)
  then show ?case by (intro exI [of _ "(1, [])"] exI [of _ "[''boot'']"]) (simp add: scripted_board_def)
next
  case (3 b t)
  then show ?case by (intro exI [of _ "(2, snd b)"] exI [of _ "[]"]) (simp add: scripted_board_def)
next
  case (4 b t)
  then show ?case by (auto simp: scripted_board_def)
next
  case (5 b d)
  then show ?case by (auto simp: scripted_board_def)
next
  case (6 d b t)
  have "good_reply ''RADIOBRIDGE'' ''togov'' ''1234'' d (scripted_reply d)"
    by (auto simp: good_reply_def scripted_reply_def quiet_lines_def banner_text_def intro!: exI [of _ "[]"])
  then show ?case using 6 by (intro exI [of _ "(2, [])"] exI [of _ "scripted_reply d"]) (simp add: scripted_board_def)
next
  case 7
  then show ?case by (rule togov_parts)
qed

definition scripted_chan :: "nat \<Rightarrow> bool \<Rightarrow> (nat \<times> string) chan" where
  "scripted_chan phase reading = \<lparr>ch_board = (phase, []), ch_is_open = reading, ch_reading = reading, ch_pending = [],
     ch_buf = [], ch_failed = False, ch_log = []\<rparr>"

lemma scripted_reset:
  "\<exists>info. fst (reset_and_normalize scripted_board relay_control_defaults clear_stored (scripted_chan 0 False)) = Inr info
     \<and> bi_device_name info = ''togov''"
  using scripted.reset_succeeds [of "scripted_chan 0 False" "(0, [])" relay_control_defaults clear_stored]
  by (auto simp: scripted_chan_def scripted_board_def relay_control_defaults_def banner_of_def)



theorem reset_leaves_factory_defaults_witness:
  "\<not> ch_is_open (snd (reset_and_normalize scripted_board relay_control_defaults True (scripted_chan 0 False)))
     \<and> (\<exists>m. Saw (Some m) \<in> set (ch_log (snd (reset_and_normalize scripted_board relay_control_defaults True
            (scripted_chan 0 False)))) \<and> is_default m)"
proof -
  have "\<not> ch_is_open (scripted_chan 0 False)" by (simp add: scripted_chan_def)
  note reset = reset_leaves_factory_defaults [OF this, of scripted_board relay_control_defaults True]
  obtain info where "fst (reset_and_normalize scripted_board relay_control_defaults True (scripted_chan 0 False)) = Inr info"
    using scripted_reset by blast
  with reset obtain m l0 l1 where m: "is_default m"
    "ch_log (snd (reset_and_normalize scripted_board relay_control_defaults True (scripted_chan 0 False)))
       = ch_log (scripted_chan 0 False) @ [Did Open] @ l0
         @ [Did (Write (''?'' @ [newline])), Did (Wait 3000), Saw (Some m)] @ l1"
    by (simp only: sum.case) blast
  then show ?thesis using reset by (intro conjI exI [of _ m]) simp_all
qed

theorem hello_reads_whole_banner_witness:
  "\<exists>c'. hello scripted_board relay_control_defaults True BANNER_RE (scripted_chan 2 True)
    = (Inr (banner_of ''RADIOBRIDGE'' ''togov'' ''1234''), c')"
proof -
  have parts: "quiet_lines []" "line_end [newline]" by (simp_all add: quiet_lines_def line_end_def)
  have cut: "concat [''DEVICE:RADIOBRIDGE:relay:to'', ''gov:12'', ''34'' @ [newline]]
      = [] @ banner_text ''RADIOBRIDGE'' ''togov'' ''1234'' @ [newline] @ []"
    by (simp add: banner_text_def)
  have board: "idle (scripted_chan 2 True)"
    "scripted_board (Write (''HELLO'' @ [newline])) (ch_board (scripted_chan 2 True)) = (False, [], (2, ''HELLO'' @ [newline]))"
    "scripted_board (Wait (rc_hello_timeout relay_control_defaults)) (2, ''HELLO'' @ [newline])
      = (False, map Data [''DEVICE:RADIOBRIDGE:relay:to'', ''gov:12'', ''34'' @ [newline]], (2, []))"
    "0 < rc_hello_attempts relay_control_defaults"
    by (simp_all add: idle_def scripted_chan_def scripted_board_def scripted_reply_def relay_control_defaults_def)
  show ?thesis
    using hello_reads_whole_banner [where dev = scripted_board, OF togov_parts parts cut board, of True]
    by (auto simp: banner_of_def)
qed

end
