(* ===== verification/MB_Pool.thy ===== *)
theory MB_Pool
  imports MB_Registry MB_Relay
begin

text \<open>
  Model of \<open>src/mbtools/registry/console_compat/relay_pool.py\<close>: the pool port that hands every TCP
  client a freshly reset local relay. \<open>accept_session\<close> is the critical section of
  \<open>_handle_connection\<close>, \<open>finish_session\<close> its \<open>finally\<close> block, \<open>pump\<close> the byte pipe in between.
  \<open>RelayControl\<close> is the one of \<open>MB_Relay\<close>, on the channel of the picked board; \<open>others\<close> is whatever the
  registry's other threads do to the shared state while the session runs. The listening socket and the
  mDNS advertisement are not modelled.
\<close>

definition is_relay_role :: "string option \<Rightarrow> bool" where
  "is_relay_role role =
     (case role of
        None \<Rightarrow> False
      | Some r \<Rightarrow> if r = [] then False
                  else contains_str ''RELAY'' (str_upper r) \<or> contains_str ''BRIDGE'' (str_upper r))"

text \<open>\<open>HolderRef(origin="local", ref=..., pid=os.getpid())\<close>, with a fresh UUID per connection.\<close>

definition make_holder :: "int \<Rightarrow> string \<Rightarrow> holder_ref" where
  "make_holder pid uuid = \<lparr>h_origin = ''local'', h_ref = ''console-compat-pool:'' @ uuid, h_pid = Some pid, h_host = None\<rparr>"

definition offered :: "registry \<Rightarrow> device \<Rightarrow> bool" where
  "offered rg record \<longleftrightarrow> dv_state record = STATE_CONNECTED
     \<and> (case dv_port record of None \<Rightarrow> False | Some p \<Rightarrow> p \<noteq> [])
     \<and> is_relay_role (dv_role record) \<and> status (rg_locks rg) (dv_uid record) = None"

definition pick_free_local_relay :: "registry \<Rightarrow> device option" where
  "pick_free_local_relay rg = find (offered rg) (snapshot_local_devices (rg_store rg))"

definition local_relay_counts :: "registry \<Rightarrow> nat \<times> nat" where
  "local_relay_counts rg =
     (let relays = filter (\<lambda>r. is_relay_role (dv_role r)) (snapshot_local_devices (rg_store rg))
      in (length relays, length (filter (\<lambda>r. status (rg_locks rg) (dv_uid r) \<noteq> None) relays)))"

definition reject_message :: "nat \<Rightarrow> nat \<Rightarrow> string" where
  "reject_message number busy =
     ''# ERROR: no relay available ('' @ show_nat number @ '' devices, '' @ show_nat busy @ '' in use)''"

definition CRLF :: string where
  "CRLF = [CHR 0x0D, newline]"

text \<open>The critical section on accept; an \<open>acquire\<close> that is refused would raise (\<open>Inl\<close>).\<close>

definition accept_session ::
    "real \<Rightarrow> holder_ref \<Rightarrow> registry \<Rightarrow> lock_status + (registry \<times> device option \<times> (nat \<times> nat) \<times> reg_event list)" where
  "accept_session wall holder rg =
     (case pick_free_local_relay rg of
        None \<Rightarrow> Inr (rg, None, local_relay_counts rg, [])
      | Some record \<Rightarrow>
          (case acquire_lock wall (dv_uid record) KIND_RELAY holder None rg of
             Inl st \<Rightarrow> Inl st
           | Inr (rg', evs) \<Rightarrow> Inr (rg', Some record, local_relay_counts rg', evs)))"

text \<open>One \<open>recv\<close> of the client's socket: how long it blocked and what it returned, \<open>None\<close> for the end of
  the stream or an error (also the shutdown after a read error of the board).\<close>

type_synonym recv = "nat \<times> string option"

fun pump_loop :: "'b dev \<Rightarrow> recv list \<Rightarrow> ('b, unit) act" where
  "pump_loop dev [] = give ()"
| "pump_loop dev ((t, data) # rs) =
     and_then (sleep dev t) (\<lambda>_.
       case data of
         None \<Rightarrow> give ()
       | Some d \<Rightarrow> and_then (write_nowait dev d) (\<lambda>_. pump_loop dev rs))"

text \<open>\<open>_pump\<close>: the buffer of the attached reader is what is sent back to the client.\<close>

definition pump :: "'b dev \<Rightarrow> recv list \<Rightarrow> 'b chan \<Rightarrow> (relay_exn + unit) \<times> string \<times> 'b chan" where
  "pump dev rs c =
     (let (raises, c1) = perform dev Open c in
      if raises then (Inl DeviceError, [], c1)
      else let (_, c2) = attach_reader (c1\<lparr>ch_is_open := True\<rparr>);
               (r, c3) = pump_loop dev rs c2
           in (r, ch_buf c3, close_channel dev (c3\<lparr>ch_reading := False\<rparr>)))"

record 'b session =
  ss_registry :: registry
  ss_chan :: "'b chan"
  ss_uid :: "uid option"
  ss_sent :: string
  ss_closed :: bool
  ss_raised :: "relay_exn option"

text \<open>The \<open>finally\<close> block: only a \<open>RelayError\<close> of the second reset is caught.\<close>

definition finish_session ::
    "'b dev \<Rightarrow> relay_control \<Rightarrow> real \<Rightarrow> holder_ref \<Rightarrow> uid \<Rightarrow> registry \<Rightarrow> 'b chan \<Rightarrow> string \<Rightarrow> relay_exn option \<Rightarrow> 'b session" where
  "finish_session dev ctl tick holder uid rg c sent raised =
     (case reset_and_normalize dev ctl True c of
        (Inl DeviceError, c') \<Rightarrow>
          \<lparr>ss_registry = rg, ss_chan = c', ss_uid = Some uid, ss_sent = sent, ss_closed = False, ss_raised = Some DeviceError\<rparr>
      | (_, c') \<Rightarrow>
          (let (_, rg', _) = release_lock tick uid holder rg in
           \<lparr>ss_registry = rg', ss_chan = c', ss_uid = Some uid, ss_sent = sent, ss_closed = True, ss_raised = raised\<rparr>))"

text \<open>\<open>_handle_connection\<close>; \<open>banner_sent\<close> says whether sending the banner succeeds.\<close>

definition handle_connection ::
    "'b dev \<Rightarrow> relay_control \<Rightarrow> real \<Rightarrow> real \<Rightarrow> holder_ref \<Rightarrow> (registry \<Rightarrow> registry) \<Rightarrow> bool \<Rightarrow> recv list
       \<Rightarrow> registry \<Rightarrow> 'b chan \<Rightarrow> lock_status + 'b session" where
  "handle_connection dev ctl wall tick holder others banner_sent rs rg c =
     (case accept_session wall holder rg of
        Inl st \<Rightarrow> Inl st
      | Inr (rg1, None, (number, busy), _) \<Rightarrow>
          Inr \<lparr>ss_registry = rg1, ss_chan = c, ss_uid = None, ss_sent = reject_message number busy @ CRLF,
               ss_closed = True, ss_raised = None\<rparr>
      | Inr (rg1, Some record, _, _) \<Rightarrow>
          (let finish = finish_session dev ctl tick holder (dv_uid record) (others rg1) in
           Inr (case reset_and_normalize dev ctl False c of
                  (Inl RelayError, c1) \<Rightarrow> finish c1 [] None
                | (Inl DeviceError, c1) \<Rightarrow> finish c1 [] (Some DeviceError)
                | (Inr banner, c1) \<Rightarrow>
                    if \<not> banner_sent then finish c1 [] None
                    else (case pump dev rs c1 of
                            (r, out, c2) \<Rightarrow> finish c2 (bi_raw banner @ CRLF @ out)
                                              (case r of Inl e \<Rightarrow> Some e | Inr _ \<Rightarrow> None)))))"

subsection \<open>The two critical sections\<close>

lemma pick_None: "pick_free_local_relay rg = None \<longleftrightarrow> (\<forall>d\<in>set (snapshot_local_devices (rg_store rg)). \<not> offered rg d)"
  by (auto simp: pick_free_local_relay_def find_None_iff)

lemma pick_Some:
  "pick_free_local_relay rg = Some d \<Longrightarrow> d \<in> set (snapshot_local_devices (rg_store rg)) \<and> offered rg d"
  by (auto simp: pick_free_local_relay_def find_Some_iff)

lemma snapshot_local: "d \<in> set (snapshot_local_devices s) \<Longrightarrow> d \<in> set (st_devices s) \<and> dv_host d = None"
  by (auto simp: snapshot_local_devices_def)

lemma accept_total: "\<exists>x. accept_session wall holder rg = Inr x"
  by (auto simp: accept_session_def acquire_lock_eq offered_def status_def split: option.split
        dest!: pick_Some)

lemma accept_picks:
  assumes "pick_free_local_relay rg = Some d"
  shows "\<exists>rg' n evs. accept_session wall holder rg = Inr (rg', Some d, n, evs)
     \<and> rg' = rg\<lparr>rg_locks := dset (dv_uid d) \<lparr>ls_kind = KIND_RELAY, ls_holder = holder, ls_label = None, ls_since = wall\<rparr>
                  (rg_locks rg)\<rparr>"
  using pick_Some [OF assms] assms
  by (auto simp: accept_session_def acquire_lock_eq offered_def status_def)

lemma finish_cases:
  obtains (returned) "ss_closed (finish_session dev ctl tick holder uid rg c sent raised)"
      "ss_registry (finish_session dev ctl tick holder uid rg c sent raised) = fst (snd (release_lock tick uid holder rg))"
      "ss_raised (finish_session dev ctl tick holder uid rg c sent raised) = raised"
      "fst (reset_and_normalize dev ctl True c) \<noteq> Inl DeviceError"
  | (stuck) "fst (reset_and_normalize dev ctl True c) = Inl DeviceError"
      "finish_session dev ctl tick holder uid rg c sent raised
        = \<lparr>ss_registry = rg, ss_chan = snd (reset_and_normalize dev ctl True c), ss_uid = Some uid, ss_sent = sent,
           ss_closed = False, ss_raised = Some DeviceError\<rparr>"
proof (cases "reset_and_normalize dev ctl True c")
  case (Pair r c')
  show thesis
  proof (cases "r = Inl DeviceError")
    case True
    then show thesis using stuck Pair by (simp add: finish_session_def)
  next
    case False
    then have "finish_session dev ctl tick holder uid rg c sent raised
      = (let (_, rg', _) = release_lock tick uid holder rg in
         \<lparr>ss_registry = rg', ss_chan = c', ss_uid = Some uid, ss_sent = sent, ss_closed = True, ss_raised = raised\<rparr>)"
      using Pair by (auto simp: finish_session_def split: sum.splits relay_exn.splits)
    then show thesis using returned False Pair by (simp add: case_prod_beta)
  qed
qed

fun client_data :: "recv list \<Rightarrow> string list" where
  "client_data [] = []"
| "client_data ((t, data) # rs) = (case data of None \<Rightarrow> [] | Some d \<Rightarrow> d # client_data rs)"

lemma does_pump_loop: "does (pump_loop dev rs) (\<lambda>r l. \<exists>ws. writes l @ ws = client_data rs \<and> (\<forall>v. r = Inr v \<longrightarrow> ws = []))"
proof (induction rs rule: client_data.induct)
  case 1
  then show ?case by (auto intro: does_give)
next
  case (2 t data rs)
  have step: "does (case data of None \<Rightarrow> give () | Some d \<Rightarrow> and_then (write_nowait dev d) (\<lambda>_. pump_loop dev rs))
     (\<lambda>r l. \<exists>ws. writes l @ ws = client_data ((t, data) # rs) \<and> (\<forall>v. r = Inr v \<longrightarrow> ws = []))"
  proof (cases data)
    case None
    then show ?thesis by (auto intro: does_give)
  next
    case (Some d)
    show ?thesis
      unfolding Some option.case
      by (rule does_and_then [OF does_write 2 [OF Some]]) auto
  qed
  show ?case
    unfolding pump_loop.simps by (rule does_and_then [OF does_sleep step]) auto
qed

lemma pump_closed: "\<not> ch_is_open c \<Longrightarrow> \<not> ch_is_open (snd (snd (pump dev rs c)))"
  by (auto simp: pump_def Let_def case_prod_beta close_channel_def)

lemma reset_closed: "\<not> ch_is_open c \<Longrightarrow> \<not> ch_is_open (snd (reset_and_normalize dev ctl cs c))"
  by (cases rule: with_channel_cases [of dev "reset_body dev ctl cs" c]) (auto simp: reset_and_normalize_def)

subsection \<open>Properties\<close>

text \<open>How a session ends after a board was picked: by the \<open>finally\<close> block, with or without a pipe before.\<close>

lemma handle_connection_cases:
  assumes "accept_session wall holder rg = Inr (rg1, Some d, n, evs)"
  obtains (early) raised where "handle_connection dev ctl wall tick holder others ok rs rg c
      = Inr (finish_session dev ctl tick holder (dv_uid d) (others rg1) (snd (reset_and_normalize dev ctl False c)) [] raised)"
  | (piped) banner c1 r out c2 where "reset_and_normalize dev ctl False c = (Inr banner, c1)" "pump dev rs c1 = (r, out, c2)"
      "handle_connection dev ctl wall tick holder others ok rs rg c
        = Inr (finish_session dev ctl tick holder (dv_uid d) (others rg1) c2 (bi_raw banner @ CRLF @ out)
                 (case r of Inl e \<Rightarrow> Some e | Inr _ \<Rightarrow> None))"
proof (cases "reset_and_normalize dev ctl False c")
  case (Pair r c1)
  show thesis
  proof (cases r)
    case (Inl e)
    then show thesis using early [of "if e = RelayError then None else Some e"] Pair assms
      by (cases e) (simp_all add: handle_connection_def)
  next
    case (Inr banner)
    obtain r2 out c2 where p: "pump dev rs c1 = (r2, out, c2)" by (metis prod_cases3)
    show thesis
    proof (cases ok)
      case True
      then show thesis using piped [of banner c1 r2 out c2] Pair Inr p assms by (simp add: handle_connection_def)
    next
      case False
      then show thesis using early [of None] Pair Inr assms by (simp add: handle_connection_def)
    qed
  qed
qed

lemma session_chan_closed:
  assumes "\<not> ch_is_open c"
  shows "\<not> ch_is_open (ss_chan (finish_session dev ctl tick holder uid rg c sent raised))"
  using reset_closed [OF assms, of dev ctl True]
  by (auto simp: finish_session_def case_prod_beta split: sum.split relay_exn.split)

lemma handle_connection_ends:
  assumes "accept_session wall holder rg = Inr (rg1, Some d, n, evs)" and "\<not> ch_is_open c"
  obtains c' sent raised where "handle_connection dev ctl wall tick holder others ok rs rg c
      = Inr (finish_session dev ctl tick holder (dv_uid d) (others rg1) c' sent raised)" "\<not> ch_is_open c'"
  using assms(1)
proof (cases rule: handle_connection_cases [where dev = dev and ctl = ctl and tick = tick and others = others and ok = ok
      and rs = rs and c = c])
  case (early raised)
  then show thesis using that [of "snd (reset_and_normalize dev ctl False c)"] reset_closed [OF assms(2)] by blast
next
  case (piped banner c1 r out c2)
  then have "\<not> ch_is_open c2" using reset_closed [OF assms(2), of dev ctl False] pump_closed [of c1 dev rs] by simp
  then show thesis using that piped(3) by blast
qed

lemma pump_log:
  "\<exists>l ws. ch_log (snd (snd (pump dev rs c))) = ch_log c @ l \<and> writes l @ ws = client_data rs
     \<and> (\<forall>v. fst (pump dev rs c) = Inr v \<longrightarrow> ws = [])"
proof -
  obtain raises c1 where p: "perform dev Open c = (raises, c1)" "ch_log c1 = ch_log c @ [Did Open]"
    using perform_log(1) [of dev Open c] by (metis prod.collapse)
  show ?thesis
  proof (cases raises)
    case True
    then show ?thesis using p by (auto simp: pump_def)
  next
    case False
    define c2 where "c2 = snd (attach_reader (c1\<lparr>ch_is_open := True\<rparr>))"
    have c2: "ch_log c2 = ch_log c @ [Did Open]" by (simp add: c2_def attach_reader_def p(2))
    obtain l ws where l: "ch_log (snd (pump_loop dev rs c2)) = ch_log c2 @ l" "writes l @ ws = client_data rs"
      "\<forall>v. fst (pump_loop dev rs c2) = Inr v \<longrightarrow> ws = []"
      using does_pump_loop [of dev rs] unfolding does_def by blast
    have "ch_log (snd (snd (pump dev rs c))) = ch_log c @ [Did Open] @ l @ [Did Close]"
      "fst (pump dev rs c) = fst (pump_loop dev rs c2)"
      using False p(1) l(1) c2 by (simp_all add: pump_def case_prod_beta Let_def c2_def close_channel_def)
    then show ?thesis using l(2,3) by (intro exI [of _ "[Did Open] @ l @ [Did Close]"] exI [of _ ws]) simp
  qed
qed

lemma does_reset:
  "does (reset_and_normalize dev ctl cs) (\<lambda>r l. \<exists>l0. l = [Did Open] @ l0
     \<and> (\<forall>info. r = Inr info \<longrightarrow> (\<exists>m. Saw (Some m) \<in> set l0 \<and> is_default m)))"
proof (rule doesI)
  fix c
  show "\<exists>l. ch_log (snd (reset_and_normalize dev ctl cs c)) = ch_log c @ l \<and> (\<exists>l0. l = [Did Open] @ l0
     \<and> (\<forall>info. fst (reset_and_normalize dev ctl cs c) = Inr info \<longrightarrow> (\<exists>m. Saw (Some m) \<in> set l0 \<and> is_default m)))"
  proof (cases rule: with_channel_cases [of dev "reset_body dev ctl cs" c])
    case (raised c1)
    then show ?thesis by (simp add: reset_and_normalize_def)
  next
    case (ran c1)
    obtain l where l: "ch_log (snd (reset_body dev ctl cs c1)) = ch_log c1 @ l"
      "\<forall>info. fst (reset_body dev ctl cs c1) = Inr info \<longrightarrow> reset_log cs info l"
      using does_reset_body [of dev ctl cs] unfolding does_def by blast
    have "\<exists>m. Saw (Some m) \<in> set (l @ [Did Close]) \<and> is_default m" if "fst (reset_body dev ctl cs c1) = Inr info" for info
      using reset_log_seen l(2) that by (auto simp del: split_paired_Ex)
    then show ?thesis
      using ran l(1)
      by (intro exI [of _ "[Did Open] @ l @ [Did Close]"]) (auto simp: reset_and_normalize_def simp del: split_paired_Ex)
  qed
qed

text \<open>C20: a pool session gives its relay back, however it ends: by the client, by a board that does not
  answer, or by an exception. Whatever the board, the client and the other threads do (short of locking
  in this session's name), either the connection is closed and the session holds no lock any more,
  or the reset on release ended in an exception
  that is not a \<open>RelayError\<close>, which is then the session's outcome: the one board it picked, and no
  other, was locked for it and stays as the other threads left it. The channel is closed in any case.\<close>

theorem pool_session_gives_relay_back:
  assumes "\<forall>u st. dget (rg_locks rg) u = Some st \<longrightarrow> ls_holder st \<noteq> holder"
    and "\<forall>r u st. dget (rg_locks (others r)) u = Some st \<and> ls_holder st = holder \<longrightarrow> dget (rg_locks r) u = Some st"
    and "\<not> ch_is_open c"
  shows "\<exists>ss. handle_connection dev ctl wall tick holder others ok rs rg c = Inr ss
     \<and> \<not> ch_is_open (ss_chan ss)
     \<and> (if ss_closed ss
        then \<forall>u. case status (rg_locks (ss_registry ss)) u of None \<Rightarrow> True | Some st \<Rightarrow> ls_holder st \<noteq> holder
        else ss_raised ss = Some DeviceError
           \<and> (\<exists>rg1. ss_registry ss = others rg1 \<and> rg_store rg1 = rg_store rg
               \<and> (\<exists>uid. ss_uid ss = Some uid \<and> status (rg_locks rg) uid = None
                    \<and> status (rg_locks rg1) uid = Some \<lparr>ls_kind = KIND_RELAY, ls_holder = holder, ls_label = None, ls_since = wall\<rparr>
                    \<and> (\<forall>u. u \<noteq> uid \<longrightarrow> status (rg_locks rg1) u = status (rg_locks rg) u))))"
proof (cases "pick_free_local_relay rg")
  case None
  obtain number busy where n: "local_relay_counts rg = (number, busy)" by force
  let ?ss = "\<lparr>ss_registry = rg, ss_chan = c, ss_uid = None, ss_sent = reject_message number busy @ CRLF,
    ss_closed = True, ss_raised = None\<rparr>"
  have "handle_connection dev ctl wall tick holder others ok rs rg c = Inr ?ss"
    using None n by (simp add: handle_connection_def accept_session_def)
  then show ?thesis using assms(1,3) by (intro exI [of _ ?ss]) (auto simp: status_def split: option.split)
next
  case (Some d)
  let ?st = "\<lparr>ls_kind = KIND_RELAY, ls_holder = holder, ls_label = None, ls_since = wall\<rparr>"
  let ?rg1 = "rg\<lparr>rg_locks := dset (dv_uid d) ?st (rg_locks rg)\<rparr>"
  obtain n evs where acc: "accept_session wall holder rg = Inr (?rg1, Some d, n, evs)" using accept_picks [OF Some] by blast
  obtain c' sent raised where run: "handle_connection dev ctl wall tick holder others ok rs rg c
      = Inr (finish_session dev ctl tick holder (dv_uid d) (others ?rg1) c' sent raised)" "\<not> ch_is_open c'"
    by (rule handle_connection_ends [OF acc assms(3)])
  have own: "u = dv_uid d" if "dget (rg_locks (others ?rg1)) u = Some st" "ls_holder st = holder" for u st
  proof (rule ccontr)
    assume "u \<noteq> dv_uid d"
    moreover have "dget (rg_locks ?rg1) u = Some st" using assms(2) that by blast
    ultimately show False using assms(1) that(2) by simp
  qed
  note chan = session_chan_closed [OF run(2), of dev ctl tick holder "dv_uid d" "others ?rg1" sent raised]
  show ?thesis
  proof (cases rule: finish_cases [of dev ctl tick holder "dv_uid d" "others ?rg1" c' sent raised])
    case returned
    have "case status (rg_locks (fst (snd (release_lock tick (dv_uid d) holder (others ?rg1))))) u of
        None \<Rightarrow> True | Some st \<Rightarrow> ls_holder st \<noteq> holder" for u
      using own [of u] own [of "dv_uid d"] by (auto simp: release_lock_eq status_def split: option.splits)
    then show ?thesis using run(1) returned(1,2) chan by simp
  next
    case stuck
    have "status (rg_locks rg) (dv_uid d) = None" using pick_Some [OF Some] by (simp add: offered_def)
    then show ?thesis using run(1) stuck(2) chan by (auto simp: status_def intro!: exI [of _ ?rg1])
  qed
qed

text \<open>What a client of the pool gets. A connection is refused, with the counts and nothing changed,
  exactly when no connected, ported, unlocked relay is attached to this host; otherwise one of those is
  locked for this session alone. The client receives nothing before that board was reset and seen at
  its factory defaults, then first of all the board's banner; and what it sends reaches the board
  unaltered and in order, all of it unless the channel raises.\<close>

theorem pool_client_gets_fresh_relay:
  assumes "\<not> ch_is_open c"
  shows "case pick_free_local_relay rg of
      None \<Rightarrow> (\<forall>d\<in>set (st_devices (rg_store rg)). \<not> (dv_host d = None \<and> \<not> is_virtual d \<and> offered rg d))
        \<and> handle_connection dev ctl wall tick holder others ok rs rg c
          = Inr \<lparr>ss_registry = rg, ss_chan = c, ss_uid = None,
                 ss_sent = reject_message (fst (local_relay_counts rg)) (snd (local_relay_counts rg)) @ CRLF,
                 ss_closed = True, ss_raised = None\<rparr>
    | Some d \<Rightarrow> d \<in> set (st_devices (rg_store rg)) \<and> dv_host d = None \<and> offered rg d
        \<and> (\<exists>ss. handle_connection dev ctl wall tick holder others ok rs rg c = Inr ss
             \<and> ss_uid ss = Some (dv_uid d)
             \<and> (ss_sent ss \<noteq> [] \<longrightarrow>
                  (\<exists>banner out l0 l1. fst (reset_and_normalize dev ctl False c) = Inr banner
                     \<and> ss_sent ss = bi_raw banner @ CRLF @ out
                     \<and> ch_log (snd (reset_and_normalize dev ctl False c)) = ch_log c @ [Did Open] @ l0
                     \<and> (\<exists>m. Saw (Some m) \<in> set l0 \<and> is_default m)
                     \<and> (\<exists>more ws. ch_log (ss_chan ss) = ch_log c @ [Did Open] @ l0 @ l1 @ more
                          \<and> writes l1 @ ws = client_data rs \<and> (ss_raised ss = None \<longrightarrow> ws = [])))))"
proof (cases "pick_free_local_relay rg")
  case None
  then have "\<forall>d\<in>set (st_devices (rg_store rg)). \<not> (dv_host d = None \<and> \<not> is_virtual d \<and> offered rg d)"
    by (auto simp: pick_None snapshot_local_devices_def offered_def states_distinct)
  then show ?thesis using None by (auto simp: handle_connection_def accept_session_def split: prod.split)
next
  case (Some d)
  obtain rg1 n evs where acc: "accept_session wall holder rg = Inr (rg1, Some d, n, evs)" using accept_picks [OF Some] by blast
  have d: "d \<in> set (st_devices (rg_store rg))" "dv_host d = None" "offered rg d"
    using pick_Some [OF Some] snapshot_local by auto
  have uid: "ss_uid (finish_session dev ctl tick holder (dv_uid d) r c' sent raised) = Some (dv_uid d)"
    and sent: "ss_sent (finish_session dev ctl tick holder (dv_uid d) r c' sent raised) = sent"
    and more: "\<exists>more. ch_log (ss_chan (finish_session dev ctl tick holder (dv_uid d) r c' sent raised)) = ch_log c' @ more"
    for r c' sent raised
    using does_reset [of dev ctl True] unfolding does_def
    by (auto simp: finish_session_def case_prod_beta split: sum.split relay_exn.split)
  have quiet: "raised = None"
    if "ss_raised (finish_session dev ctl tick holder (dv_uid d) r c' sent raised) = None" for r c' sent raised
    using that by (cases rule: finish_cases [of dev ctl tick holder "dv_uid d" r c' sent raised]) simp_all
  show ?thesis
    using acc
  proof (cases rule: handle_connection_cases [where dev = dev and ctl = ctl and tick = tick and others = others and ok = ok
        and rs = rs and c = c])
    case (early raised)
    then show ?thesis using Some d by (simp add: uid sent)
  next
    case (piped banner c1 r out c2)
    obtain l0 m where l0: "ch_log c1 = ch_log c @ [Did Open] @ l0" "Saw (Some m) \<in> set l0" "is_default m"
      using does_reset [of dev ctl False] piped(1) unfolding does_def by (metis append.assoc fst_conv snd_conv)
    obtain l1 ws where l1: "ch_log c2 = ch_log c1 @ l1" "writes l1 @ ws = client_data rs" "\<forall>v. r = Inr v \<longrightarrow> ws = []"
      using pump_log [of dev rs c1] piped(2) by auto
    let ?ss = "finish_session dev ctl tick holder (dv_uid d) (others rg1) c2 (bi_raw banner @ CRLF @ out)
      (case r of Inl e \<Rightarrow> Some e | Inr _ \<Rightarrow> None)"
    obtain further where further: "ch_log (ss_chan ?ss) = ch_log c2 @ further" using more by blast
    have "ws = []" if "ss_raised ?ss = None" using quiet [OF that] l1(3) by (auto split: sum.splits)
    then have tail: "ch_log (ss_chan ?ss) = ch_log c @ [Did Open] @ l0 @ l1 @ further"
      "writes l1 @ ws = client_data rs \<and> (ss_raised ?ss = None \<longrightarrow> ws = [])"
      using l0(1) l1(1,2) further by simp_all
    have "\<exists>banner out l0 l1. fst (reset_and_normalize dev ctl False c) = Inr banner
       \<and> ss_sent ?ss = bi_raw banner @ CRLF @ out
       \<and> ch_log (snd (reset_and_normalize dev ctl False c)) = ch_log c @ [Did Open] @ l0
       \<and> (\<exists>m. Saw (Some m) \<in> set l0 \<and> is_default m)
       \<and> (\<exists>more ws. ch_log (ss_chan ?ss) = ch_log c @ [Did Open] @ l0 @ l1 @ more
            \<and> writes l1 @ ws = client_data rs \<and> (ss_raised ?ss = None \<longrightarrow> ws = []))"
      by (intro exI [of _ banner] exI [of _ out] exI [of _ l0] exI [of _ l1] conjI exI [of _ m] exI [of _ further] exI [of _ ws])
         (use piped(1) sent l0 tail in simp_all)
    then show ?thesis
      unfolding Some option.case using d piped(3) by (intro conjI exI [of _ ?ss] impI) (assumption | rule uid)+
  qed
qed

subsection \<open>A session\<close>

definition pool_relay :: device where
  "pool_relay = (demo_device ''relay-1'' None)\<lparr>dv_role := Some ''RADIOBRIDGE'', dv_port := Some ''/dev/ttyACM0''\<rparr>"

definition pool_registry :: registry where
  "pool_registry = \<lparr>rg_store = \<lparr>st_devices = [pool_relay], st_peers = [], st_names = []\<rparr>, rg_locks = [], rg_pending = [],
     rg_claims = [], rg_virtual = [], rg_conns = []\<rparr>"

lemma pool_pick: "pick_free_local_relay pool_registry = Some pool_relay"
  by code_simp

theorem pool_session_gives_relay_back_witness:
  "\<exists>ss. handle_connection scripted_board relay_control_defaults 0 1 (make_holder 42 ''u'') id True [(5, Some ''hi''), (9, None)]
      pool_registry (scripted_chan 0 False) = Inr ss \<and> \<not> ch_is_open (ss_chan ss)"
proof -
  have closed: "\<not> ch_is_open (scripted_chan 0 False)" and free: "rg_locks pool_registry = []"
    by (simp_all add: scripted_chan_def pool_registry_def)
  have fresh: "\<forall>u st. dget (rg_locks pool_registry) u = Some st \<longrightarrow> ls_holder st \<noteq> make_holder 42 ''u''"
    by (simp add: free)
  have others: "\<forall>r u st. dget (rg_locks (id r)) u = Some st \<and> ls_holder st = make_holder 42 ''u''
      \<longrightarrow> dget (rg_locks (r :: registry)) u = Some st" by simp
  show ?thesis
    using pool_session_gives_relay_back [where rg = pool_registry and others = id and dev = scripted_board and ctl = relay_control_defaults and wall = 0 and tick = 1
        and ok = True and rs = "[(5, Some ''hi''), (9, None)]", OF fresh others closed] by blast
qed

theorem pool_client_gets_fresh_relay_witness:
  "\<exists>ss. handle_connection scripted_board relay_control_defaults 0 1 (make_holder 42 ''u'') id True [(5, Some ''hi''), (9, None)]
      pool_registry (scripted_chan 0 False) = Inr ss \<and> ss_uid ss = Some ''relay-1''"
proof -
  have "\<not> ch_is_open (scripted_chan 0 False)" by (simp add: scripted_chan_def)
  moreover have "dv_uid pool_relay = ''relay-1''" by (simp add: pool_relay_def demo_device_def)
  ultimately show ?thesis
    using pool_client_gets_fresh_relay [where rg = pool_registry and c = "scripted_chan 0 False" and dev = scripted_board]
    unfolding pool_pick option.case by metis
qed

subsection \<open>Where a relay is lost\<close>

text \<open>Opening the serial port raises \<open>ConnectError\<close>, which is not a \<open>RelayError\<close>: the \<open>finally\<close> block is
  left before the release, the relay stays locked by the registry's own process and the client's
  connection is not closed.\<close>

lemma unopenable_relay_stays_locked:
  assumes "pick_free_local_relay rg = Some d" and "\<And>b. fst (dev Open b)"
  shows "\<exists>ss. handle_connection dev ctl wall tick holder id ok rs rg c = Inr ss \<and> \<not> ss_closed ss
     \<and> status (rg_locks (ss_registry ss)) (dv_uid d)
        = Some \<lparr>ls_kind = KIND_RELAY, ls_holder = holder, ls_label = None, ls_since = wall\<rparr>"
proof -
  obtain n evs where acc: "accept_session wall holder rg = Inr (rg\<lparr>rg_locks := dset (dv_uid d)
      \<lparr>ls_kind = KIND_RELAY, ls_holder = holder, ls_label = None, ls_since = wall\<rparr> (rg_locks rg)\<rparr>, Some d, n, evs)"
    using accept_picks [OF assms(1)] by blast
  have "fst (reset_and_normalize dev ctl cs x) = Inl DeviceError" for cs x
    using assms(2) by (auto simp: reset_and_normalize_def with_channel_def perform_def case_prod_beta Let_def)
  then have fail: "\<exists>y. reset_and_normalize dev ctl cs x = (Inl DeviceError, y)" for cs x
    by (metis prod.collapse)
  obtain y where y: "reset_and_normalize dev ctl False c = (Inl DeviceError, y)" using fail by blast
  obtain z where z: "reset_and_normalize dev ctl True y = (Inl DeviceError, z)" using fail by blast
  show ?thesis
    using acc y z by (simp add: handle_connection_def finish_session_def status_def)
qed

text \<open>And the sweep of dead holders never frees it while the registry runs.\<close>

lemma pool_lock_outlives_sweeps:
  assumes "dict_ok m" and "is_alive (make_holder pid uuid)"
    and "status m uid = Some \<lparr>ls_kind = KIND_RELAY, ls_holder = make_holder pid uuid, ls_label = None, ls_since = t\<rparr>"
  shows "status (fst (snd (sweep m is_alive))) uid = status m uid"
  using sweep_status [OF assms(1)] assms(2,3) by simp

end
