(* ===== verification/MB_Deploy.thy ===== *)
theory MB_Deploy
  imports MB_Client MB_Pool
begin

text \<open>
  Model of \<open>mbdeploy\<close>: \<open>src/mbtools/deploy/release.py\<close>, which finds the hex file of a GitHub release and
  caches it, and the \<open>deploy\<close> and \<open>debug\<close> commands of \<open>src/mbtools/deploy/cli.py\<close>. GitHub is two arguments:
  what fetching a URL answers, and (\<open>release_of\<close>) the tag and assets a release document describes. The
  registry is the client handed to the flow, a record of the four calls it makes, which is how the code uses
  its two client classes; printing is not modelled, the calls made are recorded in order.
\<close>

subsection \<open>Finding a release\<close>

datatype release_exn =
    BadReference
  | ReleaseNotFoundError
  | GithubRateLimitedError
  | AmbiguousAssetError
  | GithubReleaseError
  | BadDocument
  | MissingField

definition partition :: "'a \<Rightarrow> 'a list \<Rightarrow> 'a list \<times> 'a list" where
  "partition sep s = (takeWhile (\<lambda>c. c \<noteq> sep) s, drop 1 (dropWhile (\<lambda>c. c \<noteq> sep) s))"

definition parse_repo_ref :: "string \<Rightarrow> release_exn + string \<times> string \<times> string option" where
  "parse_repo_ref repo_ref =
     (let (ref, tag) = partition (CHR ''@'') repo_ref;
          (owner, repo) = partition (CHR ''/'') ref
      in if owner = [] \<or> repo = [] then Inl BadReference
         else Inr (owner, repo, if tag = [] then None else Some tag))"

text \<open>\<open>_default_fetch\<close> over what the HTTP library answers: a body, a status, or no connection.\<close>

datatype http_answer = HttpBody string | HttpStatus nat | NoConnection

definition default_fetch :: "(string \<Rightarrow> http_answer) \<Rightarrow> string \<Rightarrow> release_exn + string" where
  "default_fetch http url =
     (case http url of
        HttpBody body \<Rightarrow> Inr body
      | HttpStatus code \<Rightarrow>
          if code = 404 then Inl ReleaseNotFoundError
          else if code \<in> {403, 429} then Inl GithubRateLimitedError
          else Inl GithubReleaseError
      | NoConnection \<Rightarrow> Inl GithubReleaseError)"

record asset =
  as_name :: string
  as_url :: string

definition PREFERRED_ASSET_NAME :: string where "PREFERRED_ASSET_NAME = ''MICROBIT.hex''"

text \<open>\<open>by_name\<close> is built by a dict comprehension: of two assets with one name the later counts.\<close>

definition by_name :: "asset list \<Rightarrow> string \<Rightarrow> asset option" where
  "by_name assets name = map_of (rev (map (\<lambda>a. (as_name a, a)) assets)) name"

definition select_asset :: "asset list \<Rightarrow> string option \<Rightarrow> release_exn + asset" where
  "select_asset assets asset_override =
     (case asset_override of
        Some name \<Rightarrow> (case by_name assets name of None \<Rightarrow> Inl GithubReleaseError | Some chosen \<Rightarrow> Inr chosen)
      | None \<Rightarrow>
          (case by_name assets PREFERRED_ASSET_NAME of
             Some chosen \<Rightarrow> Inr chosen
           | None \<Rightarrow>
               (case filter (\<lambda>a. ends_with ''.hex'' (as_name a)) assets of
                  [chosen] \<Rightarrow> Inr chosen
                | [] \<Rightarrow> Inl GithubReleaseError
                | _ \<Rightarrow> Inl AmbiguousAssetError)))"

text \<open>The cache: the files of each tag's directory. A tag without a directory has none.\<close>

type_synonym cache = "(string \<times> string \<times> string, (string, string) dict) dict"

definition cached_files :: "cache \<Rightarrow> string \<Rightarrow> string \<Rightarrow> string \<Rightarrow> (string, string) dict" where
  "cached_files cache owner repo tag = (case dget cache (owner, repo, tag) of None \<Rightarrow> [] | Some files \<Rightarrow> files)"

definition cache_lookup :: "cache \<Rightarrow> string \<Rightarrow> string \<Rightarrow> string \<Rightarrow> string option \<Rightarrow> (string \<times> string) option" where
  "cache_lookup cache owner repo tag asset_override =
     (let files = cached_files cache owner repo tag in
      case asset_override of
        Some name \<Rightarrow> (case dget files name of None \<Rightarrow> None | Some data \<Rightarrow> Some (name, data))
      | None \<Rightarrow> (case files of [(name, data)] \<Rightarrow> Some (name, data) | _ \<Rightarrow> None))"

definition write_cache :: "cache \<Rightarrow> string \<Rightarrow> string \<Rightarrow> string \<Rightarrow> string \<Rightarrow> string \<Rightarrow> cache" where
  "write_cache cache owner repo tag name data =
     dset (owner, repo, tag) (dset name data (cached_files cache owner repo tag)) cache"

record release_result =
  rr_owner :: string
  rr_repo :: string
  rr_tag :: string
  rr_asset :: string
  rr_bytes :: string
  rr_from_cache :: bool

definition GITHUB_API :: string where "GITHUB_API = ''https://api.github.com''"

definition release_url :: "string \<Rightarrow> string \<Rightarrow> string option \<Rightarrow> string" where
  "release_url owner repo tag =
     (case tag of
        None \<Rightarrow> GITHUB_API @ ''/repos/'' @ owner @ ''/'' @ repo @ ''/releases/latest''
      | Some t \<Rightarrow> GITHUB_API @ ''/repos/'' @ owner @ ''/'' @ repo @ ''/releases/tags/'' @ t)"

text \<open>\<open>resolve_hex\<close>: the result, the URLs fetched and the cache afterwards.\<close>

definition resolve_hex ::
    "(string \<Rightarrow> release_exn + string) \<Rightarrow> (string \<Rightarrow> release_exn + string \<times> asset list) \<Rightarrow> string \<Rightarrow> string option \<Rightarrow> cache
       \<Rightarrow> (release_exn + release_result) \<times> string list \<times> cache" where
  "resolve_hex fetch release_of repo_ref asset_override cache =
     (case parse_repo_ref repo_ref of
        Inl e \<Rightarrow> (Inl e, [], cache)
      | Inr (owner, repo, tag) \<Rightarrow>
          (case (case tag of None \<Rightarrow> None | Some t \<Rightarrow> cache_lookup cache owner repo t asset_override) of
             Some (name, data) \<Rightarrow>
               (Inr \<lparr>rr_owner = owner, rr_repo = repo, rr_tag = the tag, rr_asset = name, rr_bytes = data, rr_from_cache = True\<rparr>,
                [], cache)
           | None \<Rightarrow>
               (let url = release_url owner repo tag in
                case fetch url of
                  Inl e \<Rightarrow> (Inl e, [url], cache)
                | Inr document \<Rightarrow>
                    (case release_of document of
                       Inl e \<Rightarrow> (Inl e, [url], cache)
                     | Inr (resolved_tag, assets) \<Rightarrow>
                         (case select_asset assets asset_override of
                            Inl e \<Rightarrow> (Inl e, [url], cache)
                          | Inr chosen \<Rightarrow>
                              (case cache_lookup cache owner repo resolved_tag (Some (as_name chosen)) of
                                 Some (name, data) \<Rightarrow>
                                   (Inr \<lparr>rr_owner = owner, rr_repo = repo, rr_tag = resolved_tag, rr_asset = name, rr_bytes = data,
                                         rr_from_cache = True\<rparr>, [url], cache)
                               | None \<Rightarrow>
                                   (case fetch (as_url chosen) of
                                      Inl e \<Rightarrow> (Inl e, [url, as_url chosen], cache)
                                    | Inr data \<Rightarrow>
                                        (Inr \<lparr>rr_owner = owner, rr_repo = repo, rr_tag = resolved_tag, rr_asset = as_name chosen,
                                              rr_bytes = data, rr_from_cache = False\<rparr>,
                                         [url, as_url chosen],
                                         write_cache cache owner repo resolved_tag (as_name chosen) data))))))))"

subsection \<open>The registry as the flow uses it\<close>

datatype deploy_exn = ClientRaised client_exn | ReleaseRaised release_exn

text \<open>Whether \<open>except RegistryClientError\<close> catches it.\<close>

definition is_client_error :: "client_exn \<Rightarrow> bool" where
  "is_client_error e \<longleftrightarrow> exit_code e \<noteq> None"

record 's deploy_client =
  dc_find :: "string \<Rightarrow> 's \<Rightarrow> (client_exn + device_view) \<times> 's"
  dc_lock :: "string \<Rightarrow> string \<Rightarrow> 's \<Rightarrow> (client_exn + unit) \<times> 's"
  dc_unlock :: "string \<Rightarrow> 's \<Rightarrow> (client_exn + bool) \<times> 's"
  dc_flash :: "string \<Rightarrow> string \<Rightarrow> string option \<Rightarrow> 's \<Rightarrow> (client_exn + bool \<times> int option) \<times> 's"

text \<open>\<open>_flash\<close> with a local client: this process runs pyOCD and has the registry count a success; a registry too
  old to know \<open>mark_flashed\<close> is forgiven.\<close>

definition flash_locally ::
    "(string \<Rightarrow> flash_env) \<Rightarrow> 's requester \<Rightarrow> string \<Rightarrow> string \<Rightarrow> string option \<Rightarrow> ('s, bool \<times> int option) client" where
  "flash_locally env rq uid hex port link =
     (let (rc, tr) = flash_hex_policy (fe_pyocd (env hex)) (fe_hex_ok (env hex)) (fe_port_denied (env hex) port) TARGET_MCU uid hex in
      if rc = 0
      then (case client_mark_flashed rq uid link of
              (Inl e, link') \<Rightarrow> if e = InvalidRequestError then (Inr (True, Some rc), link') else (Inl e, link')
            | (Inr _, link') \<Rightarrow> (Inr (True, Some rc), link'))
      else (Inr (False, Some rc), link))"

definition local_deploy_client :: "(string \<Rightarrow> flash_env) \<Rightarrow> 's requester \<Rightarrow> ('s option) deploy_client" where
  "local_deploy_client env rq =
     \<lparr>dc_find = client_find rq, dc_lock = client_lock rq, dc_unlock = client_unlock rq, dc_flash = flash_locally env rq\<rparr>"

text \<open>With a client of the owning host, that host flashes and counts; \<open>read_bytes\<close> is the content of a local file.
  The command gives the remote client no token.\<close>

definition remote_deploy_client :: "(string \<Rightarrow> string) \<Rightarrow> 's exchange \<Rightarrow> 's option \<Rightarrow> ('s option) deploy_client" where
  "remote_deploy_client read_bytes exchange dial =
     (let rq = remote_request exchange dial None in
      \<lparr>dc_find = client_find rq, dc_lock = client_lock rq, dc_unlock = client_unlock rq,
       dc_flash = (\<lambda>uid hex port. client_flash exchange dial None uid (read_bytes hex))\<rparr>)"

subsection \<open>Waiting for the board\<close>

definition STATE_IS_CONNECTED :: string where "STATE_IS_CONNECTED = ''connected''"

text \<open>One look: the board back with a newer announcement, not yet, or an exception.\<close>

definition look :: "real \<Rightarrow> client_exn + device_view \<Rightarrow> client_exn + device_view option" where
  "look previous_last_probe found =
     (case found of
        Inl e \<Rightarrow> if e = DeviceNotFoundError then Inr None else Inl e
      | Inr view \<Rightarrow>
          if dv_state (dw_device view) = STATE_IS_CONNECTED \<and> dv_last_probe (dw_device view) > previous_last_probe
          then Inr (Some view) else Inr None)"

text \<open>\<open>_wait_for_reprobe\<close>, on a clock at \<open>now\<close>: the \<open>n\<close>-th look takes \<open>cost n\<close>, a sleep lasts at least as long as
  asked and \<open>lag n\<close> longer. Also returned is the number of looks. \<open>None\<close> is a wait that never ends.\<close>

partial_function (option) reprobe_loop ::
    "('s \<Rightarrow> (client_exn + device_view) \<times> 's) \<Rightarrow> (nat \<Rightarrow> real) \<Rightarrow> (nat \<Rightarrow> real) \<Rightarrow> real \<Rightarrow> real \<Rightarrow> real \<Rightarrow> nat \<Rightarrow> real \<Rightarrow> 's
       \<Rightarrow> ((client_exn + device_view option) \<times> nat \<times> 's) option" where
  "reprobe_loop seek cost lag deadline poll previous_last_probe n now s =
     (let (found, s') = seek s;
          seen = look previous_last_probe found;
          remaining = deadline - (now + cost n)
      in if seen \<noteq> Inr None \<or> remaining \<le> 0 then Some (seen, Suc n, s')
         else reprobe_loop seek cost lag deadline poll previous_last_probe (Suc n)
                (now + cost n + min poll remaining + lag n) s')"

definition REPROBE_POLL_INTERVAL :: real where "REPROBE_POLL_INTERVAL = 1 / 10"

definition wait_for_reprobe ::
    "(nat \<Rightarrow> real) \<Rightarrow> (nat \<Rightarrow> real) \<Rightarrow> ('s \<Rightarrow> (client_exn + device_view) \<times> 's) \<Rightarrow> real \<Rightarrow> real \<Rightarrow> 's
       \<Rightarrow> ((client_exn + device_view option) \<times> nat \<times> 's) option" where
  "wait_for_reprobe cost lag seek previous_last_probe timeout s =
     reprobe_loop seek cost lag timeout REPROBE_POLL_INTERVAL previous_last_probe 0 0 s"

subsection \<open>The flow\<close>

record deploy_args =
  da_target :: string
  da_hex :: "string option"
  da_repo :: "string option"
  da_asset :: "string option"
  da_force_relay :: bool
  da_reprobe_timeout :: real

datatype call = CFind string | CLock string string | CUnlock string | CFlash string string

definition EXIT_OK :: int where "EXIT_OK = 0"
definition EXIT_NO_DAEMON :: int where "EXIT_NO_DAEMON = 3"
definition EXIT_HARDWARE :: int where "EXIT_HARDWARE = 6"
definition EXIT_SIGINT :: int where "EXIT_SIGINT = 130"

text \<open>The hex file: the one named, or that of a release (\<open>release_hex\<close>), whose errors are exit codes.\<close>

definition hex_file :: "(string \<Rightarrow> string option \<Rightarrow> release_exn + string) \<Rightarrow> deploy_args \<Rightarrow> (deploy_exn + int) + string" where
  "hex_file release_hex args =
     (if truthy (da_hex args) then Inr (the (da_hex args))
      else case release_hex (case da_repo args of None \<Rightarrow> [] | Some r \<Rightarrow> r) (da_asset args) of
             Inr path \<Rightarrow> Inr path
           | Inl e \<Rightarrow>
               if e = MissingField then Inl (Inl (ReleaseRaised e))
               else if e \<in> {BadReference, BadDocument} then Inl (Inr EXIT_USAGE)
               else Inl (Inr EXIT_ERROR))"

text \<open>What leaves the \<open>try\<close> around the flash: an exception of the flash, unless one of the \<open>unlock\<close> in the \<open>finally\<close>
  that is no client error takes over.\<close>

definition escapes :: "client_exn + bool \<times> int option \<Rightarrow> client_exn + bool \<Rightarrow> client_exn option" where
  "escapes flashed unlocked =
     (let of_flash = (case flashed of Inl e \<Rightarrow> Some e | Inr _ \<Rightarrow> None) in
      case unlocked of
        Inr _ \<Rightarrow> of_flash
      | Inl e \<Rightarrow> if is_client_error e then of_flash else Some e)"

definition succeeded :: "client_exn + bool \<times> int option \<Rightarrow> bool" where
  "succeeded flashed = (case flashed of Inl _ \<Rightarrow> False | Inr (success, code) \<Rightarrow> success)"

text \<open>\<open>_run_deploy_flow\<close>: the exit code, or the exception that escapes, with the calls made; \<open>None\<close> if it never ends.\<close>

definition run_deploy_flow ::
    "(nat \<Rightarrow> real) \<Rightarrow> (nat \<Rightarrow> real) \<Rightarrow> 's deploy_client \<Rightarrow> (string \<Rightarrow> string option \<Rightarrow> release_exn + string) \<Rightarrow> device \<Rightarrow> deploy_args \<Rightarrow> 's
       \<Rightarrow> ((deploy_exn + int) \<times> call list \<times> 's) option" where
  "run_deploy_flow cost lag dc release_hex d args s =
     (let uid = dv_uid d in
      if is_relay_role (dv_role d) \<and> \<not> da_force_relay args then Some (Inr EXIT_ERROR, [], s)
      else case hex_file release_hex args of
        Inl early \<Rightarrow> Some (early, [], s)
      | Inr path \<Rightarrow>
          (case dc_lock dc uid KIND_FLASH s of
             (Inl e, s1) \<Rightarrow>
               Some (case exit_code e of None \<Rightarrow> Inl (ClientRaised e) | Some code \<Rightarrow> Inr code, [CLock uid KIND_FLASH], s1)
           | (Inr _, s1) \<Rightarrow>
               (let (flashed, s2) = dc_flash dc uid path (dv_port d) s1;
                    (unlocked, s3) = dc_unlock dc uid s2;
                    calls = [CLock uid KIND_FLASH, CFlash uid path, CUnlock uid]
                in case escapes flashed unlocked of
                     Some e \<Rightarrow> Some (Inl (ClientRaised e), calls, s3)
                   | None \<Rightarrow>
                       if \<not> succeeded flashed then Some (Inr EXIT_HARDWARE, calls, s3)
                       else (case wait_for_reprobe cost lag (dc_find dc uid) (dv_last_probe d) (da_reprobe_timeout args) s3 of
                               None \<Rightarrow> None
                             | Some (seen, looks, s4) \<Rightarrow>
                                 Some (case seen of
                                         Inl e \<Rightarrow> Inl (ClientRaised e)
                                       | Inr None \<Rightarrow> Inr EXIT_ERROR
                                       | Inr (Some view) \<Rightarrow> Inr EXIT_OK,
                                       calls @ replicate looks (CFind uid), s4)))))"

text \<open>\<open>_run_deploy\<close>: the board is looked up here and, if another host owns it, deployed through that host's server;
  \<open>visit host port\<close> is the client there and what entering it answers.\<close>

definition parse_port :: "string \<Rightarrow> (string \<times> int) option" where
  "parse_port endpoint =
     (case rpartition (CHR '':'') endpoint of
        None \<Rightarrow> None
      | Some (host, port) \<Rightarrow> (case py_int port of None \<Rightarrow> None | Some p \<Rightarrow> if p < 0 then None else Some (host, p)))"

definition run_deploy ::
    "(nat \<Rightarrow> real) \<Rightarrow> (nat \<Rightarrow> real) \<Rightarrow> 's deploy_client \<Rightarrow> (string \<Rightarrow> int \<Rightarrow> 'r deploy_client \<times> (client_exn + 'r))
       \<Rightarrow> (string \<Rightarrow> string option \<Rightarrow> release_exn + string) \<Rightarrow> deploy_args \<Rightarrow> 's
       \<Rightarrow> ((deploy_exn + int) \<times> call list \<times> 's \<times> 'r option) option" where
  "run_deploy cost lag dc visit release_hex args s =
     (if truthy (da_asset args) \<and> \<not> truthy (da_repo args) then Some (Inr EXIT_USAGE, [], s, None)
      else case dc_find dc (da_target args) s of
        (Inl e, s1) \<Rightarrow>
          Some (case exit_code e of None \<Rightarrow> Inl (ClientRaised e) | Some code \<Rightarrow> Inr code, [CFind (da_target args)], s1, None)
      | (Inr view, s1) \<Rightarrow>
          (case dv_host (dw_device view) of
             None \<Rightarrow>
               (case run_deploy_flow cost lag dc release_hex (dw_device view) args s1 of
                  None \<Rightarrow> None
                | Some (r, calls, s2) \<Rightarrow> Some (r, CFind (da_target args) # calls, s2, None))
           | Some host \<Rightarrow>
               (case parse_port (case dw_endpoint view of None \<Rightarrow> [] | Some e \<Rightarrow> e) of
                  None \<Rightarrow> Some (Inr EXIT_ERROR, [CFind (da_target args)], s1, None)
                | Some (addr, port) \<Rightarrow>
                    (case visit addr port of
                       (rc, Inl e) \<Rightarrow>
                         Some (if e = RegistryUnavailable then Inr EXIT_NO_DAEMON else Inl (ClientRaised e), [CFind (da_target args)], s1, None)
                     | (rc, Inr r0) \<Rightarrow>
                         (case run_deploy_flow cost lag rc release_hex (dw_device view) args r0 of
                            None \<Rightarrow> None
                          | Some (res, calls, r1) \<Rightarrow>
                              Some (if res = Inl (ClientRaised RegistryUnavailable) then Inr EXIT_NO_DAEMON else res,
                                    CFind (da_target args) # calls, s1, Some r1))))))"

text \<open>\<open>cmd_deploy\<close> and \<open>cmd_debug\<close> turn an unreachable registry into an exit code.\<close>

definition cmd_result :: "deploy_exn + int \<Rightarrow> deploy_exn + int" where
  "cmd_result r = (if r = Inl (ClientRaised RegistryUnavailable) then Inr EXIT_NO_DAEMON else r)"

text \<open>\<open>_run_debug\<close>; \<open>pyocd_run\<close> gives the exit code of the pyOCD session, \<open>None\<close> when it was interrupted.\<close>

definition run_debug :: "'s deploy_client \<Rightarrow> ('s \<Rightarrow> int option \<times> 's) \<Rightarrow> string \<Rightarrow> 's \<Rightarrow> (deploy_exn + int) \<times> call list \<times> 's" where
  "run_debug dc pyocd_run target s =
     (case dc_find dc target s of
        (Inl e, s1) \<Rightarrow> (case exit_code e of None \<Rightarrow> Inl (ClientRaised e) | Some code \<Rightarrow> Inr code, [CFind target], s1)
      | (Inr view, s1) \<Rightarrow>
          (let uid = dv_uid (dw_device view) in
           case dc_lock dc uid KIND_DEBUG s1 of
             (Inl e, s2) \<Rightarrow>
               (case exit_code e of None \<Rightarrow> Inl (ClientRaised e) | Some code \<Rightarrow> Inr code, [CFind target, CLock uid KIND_DEBUG], s2)
           | (Inr _, s2) \<Rightarrow>
               (let (rc, s3) = pyocd_run s2; (unlocked, s4) = dc_unlock dc uid s3 in
                (case unlocked of
                   Inl e \<Rightarrow> if is_client_error e then Inr (case rc of None \<Rightarrow> EXIT_SIGINT | Some c \<Rightarrow> c) else Inl (ClientRaised e)
                 | Inr _ \<Rightarrow> Inr (case rc of None \<Rightarrow> EXIT_SIGINT | Some c \<Rightarrow> c),
                 [CFind target, CLock uid KIND_DEBUG, CUnlock uid], s4))))"

subsection \<open>How long a wait lasts\<close>

text \<open>\<open>k\<close> poll intervals before the deadline at most \<open>k + 1\<close> looks are left.\<close>

lemma reprobe_loop_ends:
  assumes "0 < poll" and "\<forall>n. 0 \<le> cost n" and "\<forall>n. 0 \<le> lag n" and "deadline - now \<le> real k * poll"
  shows "\<exists>seen looks s'. reprobe_loop seek cost lag deadline poll prev n now s = Some (seen, looks, s') \<and> n < looks \<and> looks \<le> n + k + 1"
  using assms(4)
proof (induction k arbitrary: n now s)
  case 0
  obtain found s' where f: "seek s = (found, s')" by fastforce
  have "deadline - (now + cost n) \<le> 0" using 0 assms(2) [rule_format, of n] by simp
  then show ?case by (subst reprobe_loop.simps) (simp add: f Let_def)
next
  case (Suc k)
  obtain found s' where f: "seek s = (found, s')" by fastforce
  let ?remaining = "deadline - (now + cost n)"
  show ?case
  proof (cases "look prev found \<noteq> Inr None \<or> ?remaining \<le> 0")
    case True
    then show ?thesis by (subst reprobe_loop.simps) (auto simp: f Let_def)
  next
    case False
    let ?now = "now + cost n + min poll ?remaining + lag n"
    have "deadline - ?now \<le> real k * poll"
    proof -
      have "0 \<le> real k * poll" "0 \<le> cost n" "0 \<le> lag n" using assms(1-3) by simp_all
      then show ?thesis using Suc.prems by (cases "poll \<le> ?remaining") (simp_all add: algebra_simps)
    qed
    from Suc.IH [OF this, of "Suc n" s'] obtain seen looks s2 where
      "reprobe_loop seek cost lag deadline poll prev (Suc n) ?now s' = Some (seen, looks, s2)" "Suc n < looks" "looks \<le> Suc n + k + 1"
      by blast
    then show ?thesis using False by (subst reprobe_loop.simps) (simp add: f Let_def)
  qed
qed

text \<open>A wait that ends without an exception and without the board has used up its time; one that finds it saw it
  in its last look.\<close>

definition seen_by ::
    "('s \<Rightarrow> (client_exn + device_view) \<times> 's) \<Rightarrow> real \<Rightarrow> (client_exn + device_view option) \<times> nat \<times> 's \<Rightarrow> bool" where
  "seen_by seek prev r \<longleftrightarrow>
     (case r of (Inr (Some view), looks, s') \<Rightarrow>
        (\<exists>s0. seek s0 = (Inr view, s') \<and> dv_state (dw_device view) = STATE_IS_CONNECTED \<and> prev < dv_last_probe (dw_device view))
      | _ \<Rightarrow> True)"

lemma reprobe_loop_seen:
  assumes "reprobe_loop seek cost lag deadline poll prev n now s = Some r"
  shows "seen_by seek prev r"
  using assms
proof (induct seek cost lag deadline poll prev n now s r rule: reprobe_loop.raw_induct [rotated, consumes 1, case_names step])
  case (step rec seek cost lag deadline poll prev n now s r)
  obtain found s2 where f: "seek s = (found, s2)" by fastforce
  let ?remaining = "deadline - (now + cost n)"
  show ?case
  proof (cases "look prev found \<noteq> Inr None \<or> ?remaining \<le> 0")
    case True
    then have "r = (look prev found, Suc n, s2)" using step(2) by (auto simp: f Let_def)
    then show ?thesis using f by (auto simp: seen_by_def look_def split: sum.split)
  next
    case False
    then show ?thesis using step(2) by (intro step(1)) (simp add: f Let_def)
  qed
qed

lemma reprobe_ends:
  assumes "\<forall>n. 0 \<le> cost n" and "\<forall>n. 0 \<le> lag n"
  shows "\<exists>seen looks s'. wait_for_reprobe cost lag seek prev timeout s = Some (seen, looks, s')
    \<and> 1 \<le> looks \<and> looks \<le> nat \<lceil>timeout / REPROBE_POLL_INTERVAL\<rceil> + 1"
proof -
  have "timeout - 0 \<le> real (nat \<lceil>timeout / REPROBE_POLL_INTERVAL\<rceil>) * REPROBE_POLL_INTERVAL"
    using real_nat_ceiling_ge [of "timeout / REPROBE_POLL_INTERVAL"] by (simp add: REPROBE_POLL_INTERVAL_def)
  from reprobe_loop_ends [OF _ assms this, of seek prev 0 s] show ?thesis
    by (fastforce simp: wait_for_reprobe_def REPROBE_POLL_INTERVAL_def)
qed

subsection \<open>Properties\<close>

text \<open>Waiting for a flashed board ends. Whatever the registry answers and however slowly, and however long the
  sleeps overrun, \<open>_wait_for_reprobe\<close> returns after at least one look and at most one more than the timeout
  holds poll intervals.\<close>

theorem wait_for_reprobe_ends:
  assumes "\<forall>n. 0 \<le> cost n" and "\<forall>n. 0 \<le> lag n"
  shows "\<exists>seen looks s'. wait_for_reprobe cost lag seek prev timeout s = Some (seen, looks, s')
    \<and> 1 \<le> looks \<and> looks \<le> nat \<lceil>timeout / REPROBE_POLL_INTERVAL\<rceil> + 1"
  by (rule reprobe_ends [OF assms])

text \<open>C40: a deploy brackets its flash. Whatever the registry answers, the flow ends, and the calls it made are: none
  (a relay without \<open>--force-relay\<close>, always refused with the error code, or no hex file); a refused lock
  alone; or lock, one flash, unlock, and then only looks at the board, the unlock also when the flash raised. It
  reports success only after a flash that succeeded and an announcement newer than the last one known before.\<close>

theorem deploy_brackets_its_flash:
  assumes "\<forall>n. 0 \<le> cost n" and "\<forall>n. 0 \<le> lag n"
  shows "\<exists>r calls s'. run_deploy_flow cost lag dc release_hex d args s = Some (r, calls, s')
     \<and> (if is_relay_role (dv_role d) \<and> \<not> da_force_relay args then r = Inr EXIT_ERROR \<and> calls = [] \<and> s' = s
        else if calls = [] then s' = s \<and> (\<exists>early. hex_file release_hex args = Inl early \<and> r = early)
        else if calls = [CLock (dv_uid d) KIND_FLASH] then (\<exists>e. dc_lock dc (dv_uid d) KIND_FLASH s = (Inl e, s'))
        else \<exists>path n s1 flashed s2 unlocked s3.
            calls = [CLock (dv_uid d) KIND_FLASH, CFlash (dv_uid d) path, CUnlock (dv_uid d)] @ replicate n (CFind (dv_uid d))
          \<and> hex_file release_hex args = Inr path
          \<and> dc_lock dc (dv_uid d) KIND_FLASH s = (Inr (), s1)
          \<and> dc_flash dc (dv_uid d) path (dv_port d) s1 = (flashed, s2)
          \<and> dc_unlock dc (dv_uid d) s2 = (unlocked, s3)
          \<and> (n = 0 \<longrightarrow> s' = s3) \<and> (n \<noteq> 0 \<longrightarrow> succeeded flashed)
          \<and> (r = Inr EXIT_OK \<longrightarrow> succeeded flashed
               \<and> (\<exists>s0 view. dc_find dc (dv_uid d) s0 = (Inr view, s') \<and> dv_state (dw_device view) = STATE_IS_CONNECTED
                    \<and> dv_last_probe d < dv_last_probe (dw_device view))))"
proof (cases "is_relay_role (dv_role d) \<and> \<not> da_force_relay args")
  case True
  then show ?thesis by (simp add: run_deploy_flow_def Let_def)
next
  case False
  note go = False
  show ?thesis
  proof (cases "hex_file release_hex args")
    case (Inl early)
    then show ?thesis using go by (auto simp: run_deploy_flow_def Let_def)
  next
    case (Inr path)
    note hex = Inr
    obtain locked s1 where lock: "dc_lock dc (dv_uid d) KIND_FLASH s = (locked, s1)" by fastforce
    show ?thesis
    proof (cases locked)
      case (Inl e)
      then show ?thesis using go hex lock by (auto simp: run_deploy_flow_def Let_def)
    next
      case (Inr u)
      obtain flashed s2 where flash: "dc_flash dc (dv_uid d) path (dv_port d) s1 = (flashed, s2)" by fastforce
      obtain unlocked s3 where unlock: "dc_unlock dc (dv_uid d) s2 = (unlocked, s3)" by fastforce
      note steps = go hex lock Inr flash unlock
      let ?calls = "[CLock (dv_uid d) KIND_FLASH, CFlash (dv_uid d) path, CUnlock (dv_uid d)]"
      show ?thesis
      proof (cases "escapes flashed unlocked = None \<and> succeeded flashed")
        case False
        then have "\<exists>r. run_deploy_flow cost lag dc release_hex d args s = Some (r, ?calls, s3) \<and> r \<noteq> Inr EXIT_OK"
          using steps by (cases "escapes flashed unlocked") (auto simp: run_deploy_flow_def Let_def EXIT_HARDWARE_def EXIT_OK_def)
        then obtain r where "run_deploy_flow cost lag dc release_hex d args s = Some (r, ?calls, s3)" "r \<noteq> Inr EXIT_OK"
          by blast
        then show ?thesis
          using steps by (intro exI [of _ r] exI [of _ ?calls] exI [of _ s3]) (auto intro!: exI [of _ "0::nat"])
      next
        case True
        obtain seen looks s4 where wait: "wait_for_reprobe cost lag (dc_find dc (dv_uid d)) (dv_last_probe d) (da_reprobe_timeout args) s3
            = Some (seen, looks, s4)" "1 \<le> looks"
          using reprobe_ends [OF assms, of "dc_find dc (dv_uid d)" "dv_last_probe d" "da_reprobe_timeout args" s3] by blast
        let ?r = "case seen of Inl e \<Rightarrow> Inl (ClientRaised e) | Inr None \<Rightarrow> Inr EXIT_ERROR | Inr (Some view) \<Rightarrow> Inr EXIT_OK"
        have "run_deploy_flow cost lag dc release_hex d args s = Some (?r, ?calls @ replicate looks (CFind (dv_uid d)), s4)"
          using True steps wait(1) by (simp add: run_deploy_flow_def Let_def)
        moreover have "\<exists>s0 view. dc_find dc (dv_uid d) s0 = (Inr view, s4) \<and> dv_state (dw_device view) = STATE_IS_CONNECTED
            \<and> dv_last_probe d < dv_last_probe (dw_device view)" if "?r = Inr EXIT_OK"
          using that reprobe_loop_seen wait(1)
          by (fastforce simp: wait_for_reprobe_def seen_by_def EXIT_ERROR_def EXIT_OK_def split: sum.splits option.splits)
        ultimately show ?thesis
          using steps True wait(2) by (intro exI [of _ ?r] exI [of _ "?calls @ replicate looks (CFind (dv_uid d))"] exI [of _ s4]) auto
      qed
    qed
  qed
qed

lemma by_name_Some: "by_name assets name = Some a \<Longrightarrow> a \<in> set assets \<and> as_name a = name"
  using map_of_SomeD [of "rev (map (\<lambda>a. (as_name a, a)) assets)" name a] by (auto simp: by_name_def)

lemma select_asset_name:
  assumes "select_asset assets asset_override = Inr a"
  shows "a \<in> set assets" and "asset_override = Some name \<Longrightarrow> as_name a = name"
proof -
  have only: "a \<in> set xs" if "(case xs of [chosen] \<Rightarrow> Inr chosen | [] \<Rightarrow> Inl GithubReleaseError | _ \<Rightarrow> Inl AmbiguousAssetError) = Inr a"
    for xs using that by (auto split: list.splits)
  show "a \<in> set assets"
    using assms by_name_Some only by (fastforce simp: select_asset_def split: option.splits)
  show "as_name a = name" if "asset_override = Some name"
    using assms that by_name_Some by (auto simp: select_asset_def split: option.splits)
qed

lemma cached_write:
  "cache_lookup (write_cache cache owner repo tag name data) owner repo tag (Some name) = Some (name, data)"
  by (simp add: cache_lookup_def cached_files_def write_cache_def)

lemma lookup_by_name: "cache_lookup cache owner repo tag asset_override = Some (name, data) \<Longrightarrow>
    cache_lookup cache owner repo tag (Some name) = Some (name, data) \<and> (\<forall>n. asset_override = Some n \<longrightarrow> name = n)"
  by (auto simp: cache_lookup_def dget_def Let_def split: option.splits list.splits)

text \<open>A pinned release is downloaded once. When \<open>resolve_hex\<close> has found the file of a pinned release, asking again
  for that file by name gives the same bytes from the cache without a single fetch, whatever GitHub would say by then; the
  asset asked for by name is the one found, a file that was not cached is an asset of the release document
  downloaded from its own URL, and no other release's cache is touched. (GitHub answers a request for the
  release of a tag with the release of that tag.)\<close>

theorem pinned_release_is_stable:
  assumes "parse_repo_ref repo_ref = Inr (owner, repo, Some tag)"
    and "resolve_hex fetch release_of repo_ref asset_override cache = (Inr res, urls, cache')"
    and "\<forall>document t assets. fetch (release_url owner repo (Some tag)) = Inr document \<and> release_of document = Inr (t, assets) \<longrightarrow> t = tag"
  shows "rr_tag res = tag
    \<and> (\<forall>name. asset_override = Some name \<longrightarrow> rr_asset res = name)
    \<and> (\<forall>fetch' release_of'. resolve_hex fetch' release_of' repo_ref (Some (rr_asset res)) cache'
          = (Inr (res\<lparr>rr_from_cache := True\<rparr>), [], cache'))
    \<and> (if rr_from_cache res then cache' = cache \<and> dget (cached_files cache owner repo tag) (rr_asset res) = Some (rr_bytes res)
       else \<exists>document assets a. fetch (release_url owner repo (Some tag)) = Inr document \<and> release_of document = Inr (tag, assets)
          \<and> a \<in> set assets \<and> as_name a = rr_asset res \<and> fetch (as_url a) = Inr (rr_bytes res))
    \<and> (\<forall>key. key \<noteq> (owner, repo, tag) \<longrightarrow> dget cache' key = dget cache key)"
proof -
  have again: "resolve_hex fetch' release_of' repo_ref (Some name) cache1
      = (Inr \<lparr>rr_owner = owner, rr_repo = repo, rr_tag = tag, rr_asset = name, rr_bytes = data, rr_from_cache = True\<rparr>, [], cache1)"
    if "cache_lookup cache1 owner repo tag (Some name) = Some (name, data)" for fetch' release_of' name data cache1
    using that assms(1) by (simp add: resolve_hex_def)
  have by_name_dget: "dget (cached_files cache owner repo tag) name = Some data"
    if "cache_lookup cache owner repo tag (Some name) = Some (name, data)" for name data
    using that by (auto simp: cache_lookup_def Let_def split: option.splits)
  show ?thesis
  proof (cases "cache_lookup cache owner repo tag asset_override")
    case (Some p)
    obtain name data where p: "p = (name, data)" by fastforce
    have res: "res = \<lparr>rr_owner = owner, rr_repo = repo, rr_tag = tag, rr_asset = name, rr_bytes = data, rr_from_cache = True\<rparr>"
      "cache' = cache"
      using assms(1,2) Some p by (auto simp: resolve_hex_def)
    note found = lookup_by_name [OF Some [unfolded p]]
    then show ?thesis using res again [of cache name data] by_name_dget by simp
  next
    case None
    obtain document t assets chosen where d: "fetch (release_url owner repo (Some tag)) = Inr document"
      "release_of document = Inr (t, assets)" "select_asset assets asset_override = Inr chosen"
      using assms(1,2) None by (auto simp: resolve_hex_def Let_def split: sum.splits prod.splits)
    have t: "t = tag" using assms(3) d by blast
    show ?thesis
    proof (cases "cache_lookup cache owner repo tag (Some (as_name chosen))")
      case (Some p)
      obtain name data where p: "p = (name, data)" by fastforce
      have res: "res = \<lparr>rr_owner = owner, rr_repo = repo, rr_tag = tag, rr_asset = name, rr_bytes = data, rr_from_cache = True\<rparr>"
        "cache' = cache"
        using assms(1,2) None d t Some p by (auto simp: resolve_hex_def Let_def)
      note found = lookup_by_name [OF Some [unfolded p]]
      then show ?thesis using res again [of cache name data] by_name_dget select_asset_name(2) [OF d(3)] by auto
    next
      case None2: None
      obtain data where data: "fetch (as_url chosen) = Inr data"
        using assms(1,2) None None2 d t by (auto simp: resolve_hex_def Let_def split: sum.splits)
      have res: "res = \<lparr>rr_owner = owner, rr_repo = repo, rr_tag = tag, rr_asset = as_name chosen, rr_bytes = data, rr_from_cache = False\<rparr>"
        "cache' = write_cache cache owner repo tag (as_name chosen) data"
        using assms(1,2) None None2 d t data by (auto simp: resolve_hex_def Let_def)
      then show ?thesis
        using again [OF cached_write] d t data select_asset_name [OF d(3)] by (auto simp: write_cache_def)
    qed
  qed
qed

subsection \<open>Witnesses\<close>

definition demo_fetch :: "string \<Rightarrow> release_exn + string" where
  "demo_fetch url =
     (if url = release_url ''o'' ''r'' (Some ''v1'') then Inr ''doc''
      else if url = ''u1'' then Inr ''one'' else if url = ''u2'' then Inr ''two'' else Inl ReleaseNotFoundError)"

definition demo_release :: "string \<Rightarrow> release_exn + string \<times> asset list" where
  "demo_release document =
     (if document = ''doc'' then Inr (''v1'', [\<lparr>as_name = ''MICROBIT.hex'', as_url = ''u1''\<rparr>, \<lparr>as_name = ''alt.hex'', as_url = ''u2''\<rparr>])
      else Inl BadDocument)"

theorem wait_for_reprobe_ends_witness:
  "\<exists>seen looks s'. wait_for_reprobe (\<lambda>_. 0) (\<lambda>_. 1) (\<lambda>s. (Inl DeviceNotFoundError, s)) 0 1 () = Some (seen, looks, s')
    \<and> 1 \<le> looks \<and> looks \<le> 11"
proof -
  have "nat \<lceil>1 / REPROBE_POLL_INTERVAL\<rceil> + 1 = 11" by (simp add: REPROBE_POLL_INTERVAL_def)
  then show ?thesis using wait_for_reprobe_ends [of "\<lambda>_. 0" "\<lambda>_. 1" "\<lambda>s. (Inl DeviceNotFoundError, s)" 0 1 "()"] by simp
qed

text \<open>A board that is locked, flashed and never seen again.\<close>

theorem deploy_brackets_its_flash_witness:
  "let dc = \<lparr>dc_find = (\<lambda>uid s. (Inl DeviceNotFoundError, s)), dc_lock = (\<lambda>uid kind s. (Inr (), s)),
             dc_unlock = (\<lambda>uid s. (Inr True, s)), dc_flash = (\<lambda>uid hex port s. (Inr (True, Some 0), s))\<rparr> :: unit deploy_client;
       args = \<lparr>da_target = ''aa'', da_hex = Some ''f.hex'', da_repo = None, da_asset = None, da_force_relay = False, da_reprobe_timeout = 0\<rparr>
   in \<exists>r calls s'. run_deploy_flow (\<lambda>_. 0) (\<lambda>_. 0) dc (\<lambda>_ _. Inl BadReference) (demo_device ''aa'' None) args () = Some (r, calls, s')
      \<and> r \<noteq> Inr EXIT_OK"
proof -
  let ?dc = "\<lparr>dc_find = (\<lambda>uid s. (Inl DeviceNotFoundError, s)), dc_lock = (\<lambda>uid kind s. (Inr (), s)),
      dc_unlock = (\<lambda>uid s. (Inr True, s)), dc_flash = (\<lambda>uid hex port s. (Inr (True, Some 0), s))\<rparr> :: unit deploy_client"
  let ?args = "\<lparr>da_target = ''aa'', da_hex = Some ''f.hex'', da_repo = None, da_asset = None, da_force_relay = False, da_reprobe_timeout = 0\<rparr>"
  have hex: "hex_file (\<lambda>_ _. Inl BadReference) ?args = Inr ''f.hex''" by (simp add: hex_file_def truthy_def)
  have "EXIT_ERROR \<noteq> EXIT_OK" by (simp add: EXIT_ERROR_def EXIT_OK_def)
  then show ?thesis
    using deploy_brackets_its_flash [of "\<lambda>_. 0" "\<lambda>_. 0" ?dc "\<lambda>_ _. Inl BadReference" "demo_device ''aa'' None" ?args "()"] hex
    by (fastforce simp: Let_def split: if_splits)
qed

theorem pinned_release_is_stable_witness:
  "\<exists>res cache'. resolve_hex demo_fetch demo_release ''o/r@v1'' None []
      = (Inr res, [release_url ''o'' ''r'' (Some ''v1''), ''u1''], cache') \<and> rr_bytes res = ''one'' \<and> rr_asset res = ''MICROBIT.hex''
    \<and> resolve_hex (\<lambda>_. Inl GithubReleaseError) (\<lambda>_. Inl BadDocument) ''o/r@v1'' (Some ''MICROBIT.hex'') cache'
        = (Inr (res\<lparr>rr_from_cache := True\<rparr>), [], cache')"
proof -
  let ?res = "\<lparr>rr_owner = ''o'', rr_repo = ''r'', rr_tag = ''v1'', rr_asset = ''MICROBIT.hex'', rr_bytes = ''one'', rr_from_cache = False\<rparr>"
  let ?cache = "[((''o'', ''r'', ''v1''), [(''MICROBIT.hex'', ''one'')])]"
  have p: "parse_repo_ref ''o/r@v1'' = Inr (''o'', ''r'', Some ''v1'')" by code_simp
  have r: "resolve_hex demo_fetch demo_release ''o/r@v1'' None [] = (Inr ?res, [release_url ''o'' ''r'' (Some ''v1''), ''u1''], ?cache)"
    by code_simp
  show ?thesis
    using pinned_release_is_stable [OF p r] r by (auto simp: demo_fetch_def demo_release_def split: if_splits)
qed

subsection \<open>Where the code does not do what it means to\<close>

text \<open>The cache remembers an asset that was asked for by name as if it were the release's own choice: after one deploy
  with \<open>--asset alt.hex\<close>, a deploy of the same pinned release without \<open>--asset\<close> silently flashes \<open>alt.hex\<close>, not \<open>MICROBIT.hex\<close>.\<close>

lemma override_poisons_the_cache:
  "case resolve_hex demo_fetch demo_release ''o/r@v1'' (Some ''alt.hex'') [] of (first, urls, cache) \<Rightarrow>
     (\<exists>res. fst (resolve_hex demo_fetch demo_release ''o/r@v1'' None cache) = Inr res
        \<and> rr_asset res = ''alt.hex'' \<and> rr_bytes res = ''two'')"
  "\<exists>res. fst (resolve_hex demo_fetch demo_release ''o/r@v1'' None []) = Inr res \<and> rr_asset res = ''MICROBIT.hex''"
proof -
  have first_: "resolve_hex demo_fetch demo_release ''o/r@v1'' (Some ''alt.hex'') []
      = (Inr \<lparr>rr_owner = ''o'', rr_repo = ''r'', rr_tag = ''v1'', rr_asset = ''alt.hex'', rr_bytes = ''two'', rr_from_cache = False\<rparr>,
         [release_url ''o'' ''r'' (Some ''v1''), ''u2''], [((''o'', ''r'', ''v1''), [(''alt.hex'', ''two'')])])"
    by code_simp
  have then_: "fst (resolve_hex demo_fetch demo_release ''o/r@v1'' None [((''o'', ''r'', ''v1''), [(''alt.hex'', ''two'')])])
      = Inr \<lparr>rr_owner = ''o'', rr_repo = ''r'', rr_tag = ''v1'', rr_asset = ''alt.hex'', rr_bytes = ''two'', rr_from_cache = True\<rparr>"
    by code_simp
  show "case resolve_hex demo_fetch demo_release ''o/r@v1'' (Some ''alt.hex'') [] of (first, urls, cache) \<Rightarrow>
     (\<exists>res. fst (resolve_hex demo_fetch demo_release ''o/r@v1'' None cache) = Inr res
        \<and> rr_asset res = ''alt.hex'' \<and> rr_bytes res = ''two'')"
    using first_ then_ by simp
  have "fst (resolve_hex demo_fetch demo_release ''o/r@v1'' None [])
      = Inr \<lparr>rr_owner = ''o'', rr_repo = ''r'', rr_tag = ''v1'', rr_asset = ''MICROBIT.hex'', rr_bytes = ''one'', rr_from_cache = False\<rparr>"
    by code_simp
  then show "\<exists>res. fst (resolve_hex demo_fetch demo_release ''o/r@v1'' None []) = Inr res \<and> rr_asset res = ''MICROBIT.hex''"
    by simp
qed

end
