(* ===== verification/MB_RelayCli.thy ===== *)
theory MB_RelayCli
  imports MB_Deploy
begin

text \<open>
  Model of \<open>src/mbtools/relay/cli.py\<close> (\<open>mbrelay connect\<close> and \<open>mbrelay names\<close>) and of the channel hand-over of
  \<open>relay/channel.py\<close> it relies on. A session is an action on the channel of \<open>MB_Relay\<close>; while the terminal or a
  script has the channel, what the relay says queues up in \<open>ch_pending\<close>, which is then the command's
  \<open>data_queue\<close>: \<open>ReadFails\<close> is its \<open>None\<close>. Times are in milliseconds. The registry is reached through the
  requesters of \<open>MB_Client\<close>. The argument parser and the text on standard error are not modelled.
\<close>

subsection \<open>Tuning\<close>

definition not_line_end :: "char \<Rightarrow> bool" where
  "not_line_end c \<longleftrightarrow> c \<noteq> CHR 0x0D \<and> c \<noteq> newline"

text \<open>\<open>\r?\n\<close> is two alternatives.\<close>

definition REPLY_RE :: pattern where
  "REPLY_RE = concat (map (\<lambda>w. map (\<lambda>e. [Lit ''#'', Rep 0 re_space, Lit w, Rep 0 not_line_end, Lit e]) [CRLF, [newline]])
                [''channel:'', ''error:''])"

definition TUNED_RE :: pattern where
  "TUNED_RE = [[Lit ''#'', Rep 0 re_space, Lit ''channel:'', Rep 0 re_space, Cap 1 is_digit_char, Rep 1 re_space,
                Lit ''group:'', Rep 0 re_space, Cap 1 is_digit_char]]"

definition GO_RE :: pattern where
  "GO_RE = map (\<lambda>e. [Lit ''#'', Rep 0 re_space, Lit ''entering data plane'', Rep 0 not_line_end, Lit e]) [CRLF, [newline]]"

definition PONG_RE :: pattern where
  "PONG_RE = [[WordStart, Lit ''pong'', WordStart]]"

definition TUNE_SETTLE :: nat where "TUNE_SETTLE = 500"
definition SCRIPT_IDLE_GAP :: nat where "SCRIPT_IDLE_GAP = 400"

record tuned =
  tu_channel :: nat
  tu_group :: nat
  tu_answered :: "bool option"

definition cg_command :: "name_entry \<Rightarrow> string" where
  "cg_command entry = ''!CG '' @ show_int (en_channel entry) @ '' '' @ show_int (en_group entry) @ [newline]"

definition GO_COMMAND :: string where "GO_COMMAND = ''!GO'' @ [newline]"
definition PING_COMMAND :: string where "PING_COMMAND = ''PING'' @ [newline]"

text \<open>The liveness probe at the end of \<open>_tune\<close>.\<close>

definition ping :: "'b dev \<Rightarrow> bool \<Rightarrow> ('b, bool option) act" where
  "ping dev on =
     (if \<not> on then give None
      else and_then (sleep dev TUNE_SETTLE) (\<lambda>_.
           and_then clear (\<lambda>_.
           and_then (write_nowait dev PING_COMMAND) (\<lambda>_.
           and_then (wait_for dev PONG_RE 2000) (\<lambda>m. give (Some (m \<noteq> None)))))))"

text \<open>\<open>!GO\<close> and what follows it.\<close>

definition enter_data_plane :: "'b dev \<Rightarrow> nat \<Rightarrow> bool \<Rightarrow> ('b, bool option) act" where
  "enter_data_plane dev timeout probing =
     and_then (sleep dev TUNE_SETTLE) (\<lambda>_.
     and_then clear (\<lambda>_.
     and_then (write_nowait dev GO_COMMAND) (\<lambda>_.
     and_then (wait_for dev GO_RE timeout) (\<lambda>g.
       if g = None then fail RelayError else ping dev probing))))"

definition tune :: "'b dev \<Rightarrow> name_entry \<Rightarrow> nat \<Rightarrow> bool \<Rightarrow> ('b, tuned) act" where
  "tune dev entry timeout probing =
     and_then clear (\<lambda>_.
     and_then (write_nowait dev (cg_command entry)) (\<lambda>_.
     and_then (wait_for dev REPLY_RE timeout) (\<lambda>m.
       case m of
         None \<Rightarrow> fail RelayError
       | Some (line, _) \<Rightarrow>
           (case search TUNED_RE line of
              Some (_, [channel, grp]) \<Rightarrow>
                and_then (enter_data_plane dev timeout probing) (\<lambda>answer.
                  give \<lparr>tu_channel = read_nat channel, tu_group = read_nat grp, tu_answered = answer\<rparr>)
            | _ \<Rightarrow> fail RelayError))))"

subsection \<open>The data plane\<close>

text \<open>\<open>channel.start_reading(on_data=data_queue.put, ...)\<close>, and back to the reader: \<open>start_reading\<close> replaces the
  callbacks, so what the queue still holds is dropped.\<close>

definition start_queue :: "'b chan \<Rightarrow> 'b chan" where
  "start_queue c = c\<lparr>ch_reading := False, ch_buf := []\<rparr>"

definition restore_reader :: "'b chan \<Rightarrow> 'b chan" where
  "restore_reader c = (if ch_reading c then c else c\<lparr>ch_reading := True, ch_pending := []\<rparr>)\<lparr>ch_buf := []\<rparr>"

text \<open>\<open>data_queue.get(timeout)\<close>: what came, if anything, and how long it took.\<close>

fun queue_get :: "'b dev \<Rightarrow> nat \<Rightarrow> 'b chan \<Rightarrow> arrival option \<times> nat \<times> 'b chan" where
  "queue_get dev 0 c =
     (case ch_pending c of [] \<Rightarrow> (None, 0, c) | a # as \<Rightarrow> (Some a, 0, c\<lparr>ch_pending := as\<rparr>))"
| "queue_get dev (Suc t) c =
     (case ch_pending c of
        [] \<Rightarrow> (let (a, n, c') = queue_get dev t (snd (perform dev (Sleep 1) c)) in (a, Suc n, c'))
      | a # as \<Rightarrow> (Some a, 0, c\<lparr>ch_pending := as\<rparr>))"

lemma queue_get_None: "queue_get dev t c = (None, n, c') \<Longrightarrow> n = t"
  by (induction dev t c arbitrary: n c' rule: queue_get.induct)
     (auto split: list.splits prod.splits)

lemma queue_get_le: "queue_get dev t c = (a, n, c') \<Longrightarrow> n \<le> t"
  by (induction dev t c arbitrary: a n c' rule: queue_get.induct)
     (fastforce split: list.splits prod.splits)+

lemma queue_get_now: "queue_get dev t c = (Some a, 0, c') \<Longrightarrow> ch_pending c = a # ch_pending c'"
  by (cases t) (auto split: list.splits prod.splits)

lemma queue_get_step:
  assumes "queue_get dev (min 200 (deadline - now)) c = (Some a, n, c')" and "\<not> deadline \<le> now"
  shows "deadline - (now + n) < deadline - now \<or> n = 0 \<and> length (ch_pending c') < length (ch_pending c)"
  using assms queue_get_now [of dev _ c a c'] queue_get_le [OF assms(1)] by (cases "n = 0") auto

lemma queue_get_empty:
  "queue_get dev (min 200 (deadline - now)) c = (None, n, c') \<Longrightarrow> n = min 200 (deadline - now)"
  by (rule queue_get_None)

text \<open>The loop of \<open>_run_script\<close>. The result: whether the expected text was seen, everything heard, when it ended.\<close>

definition hit :: "(string \<Rightarrow> bool) option \<Rightarrow> string \<Rightarrow> bool" where
  "hit pat buf = (case pat of None \<Rightarrow> False | Some f \<Rightarrow> f buf)"

function script_loop ::
    "'b dev \<Rightarrow> (string \<Rightarrow> bool) option \<Rightarrow> nat \<Rightarrow> nat \<Rightarrow> nat \<Rightarrow> string \<Rightarrow> 'b chan \<Rightarrow> (bool \<times> string \<times> nat) \<times> 'b chan" where
  "script_loop dev pat deadline now quiet_after buf c =
     (if deadline \<le> now then ((False, buf, now), c)
      else case queue_get dev (min 200 (deadline - now)) c of
             (None, n, c') \<Rightarrow>
               if (case pat of None \<Rightarrow> True | Some _ \<Rightarrow> False) \<and> buf \<noteq> [] \<and> quiet_after \<le> now + n then ((False, buf, now + n), c')
               else script_loop dev pat deadline (now + n) quiet_after buf c'
           | (Some ReadFails, n, c') \<Rightarrow> ((False, buf, now + n), c')
           | (Some (Data d), n, c') \<Rightarrow>
               if hit pat (buf @ d) then ((True, buf @ d, now + n), c')
               else script_loop dev pat deadline (now + n) (now + n + SCRIPT_IDLE_GAP) (buf @ d) c')"
  by pat_completeness auto
termination
  by (relation "measures [\<lambda>(dev, pat, deadline, now, quiet_after, buf, c). deadline - now,
                          \<lambda>(dev, pat, deadline, now, quiet_after, buf, c). length (ch_pending c)]")
     (auto dest!: queue_get_step [OF sym] queue_get_empty [OF sym])

declare script_loop.simps [simp del]

text \<open>\<open>line.encode().decode("unicode_escape").encode("latin-1")\<close>, ending in a newline. \<open>uniname\<close> is the Unicode
  character database behind \<open>\N{...}\<close>; an error of either codec is \<open>None\<close>.\<close>

definition hex_code :: "nat \<Rightarrow> string \<Rightarrow> (nat \<times> string) option" where
  "hex_code k s =
     (if length (take k s) = k \<and> (\<forall>c\<in>set (take k s). re_hex c)
      then Some (fold (\<lambda>c n. 16 * n + (let v = of_char c in if v < 58 then v - 48 else if v < 91 then v - 55 else v - 87)) (take k s) 0, drop k s)
      else None)"

definition is_octal_char :: "char \<Rightarrow> bool" where
  "is_octal_char c \<longleftrightarrow> 48 \<le> (of_char c :: nat) \<and> (of_char c :: nat) \<le> 55"

definition octal_run :: "string \<Rightarrow> string" where
  "octal_run s = takeWhile is_octal_char (take 3 s)"

definition simple_escapes :: "(char \<times> string) list" where
  "simple_escapes =
     [(newline, []), (CHR 0x5C, [CHR 0x5C]), (CHR 0x27, [CHR 0x27]), (CHR 0x22, [CHR 0x22]),
      (CHR ''a'', [CHR 0x07]), (CHR ''b'', [CHR 0x08]), (CHR ''f'', [CHR 0x0C]), (CHR ''n'', [CHR 0x0A]),
      (CHR ''r'', [CHR 0x0D]), (CHR ''t'', [CHR 0x09]), (CHR ''v'', [CHR 0x0B])]"

text \<open>One escape: the characters after the backslash to the code it stands for and the rest.\<close>

definition escape_code :: "(string \<Rightarrow> nat option) \<Rightarrow> string \<Rightarrow> (nat list \<times> string) option" where
  "escape_code uniname s =
     (case s of
        [] \<Rightarrow> None
      | c # rest \<Rightarrow>
          (case map_of simple_escapes c of
             Some out \<Rightarrow> Some (map of_char out, rest)
           | None \<Rightarrow>
               if is_octal_char c
               then Some ([fold (\<lambda>c n. 8 * n + (of_char c - 48)) (octal_run s) 0], drop (length (octal_run s)) s)
               else if c = CHR ''x'' then map_option (\<lambda>(n, r). ([n], r)) (hex_code 2 rest)
               else if c = CHR ''u'' then map_option (\<lambda>(n, r). ([n], r)) (hex_code 4 rest)
               else if c = CHR ''U'' then map_option (\<lambda>(n, r). ([n], r)) (hex_code 8 rest)
               else if c = CHR ''N'' then
                 (if starts_with ''{'' rest \<and> CHR ''}'' \<in> set rest
                  then map_option (\<lambda>n. ([n], drop 1 (dropWhile (\<lambda>c. c \<noteq> CHR ''}'') rest)))
                         (uniname (takeWhile (\<lambda>c. c \<noteq> CHR ''}'') (tl rest)))
                  else None)
               else Some ([92, of_char c], rest)))"

lemma octal_run_Cons: "is_octal_char c \<Longrightarrow> octal_run (c # s) = c # takeWhile is_octal_char (take 2 s)"
  by (simp add: octal_run_def numeral_3_eq_3 numeral_2_eq_2)

lemma escape_code_shorter: "escape_code uniname s = Some (codes, rest) \<Longrightarrow> length rest < length s"
  by (auto simp: escape_code_def hex_code_def octal_run_Cons le_imp_less_Suc length_dropWhile_le
        split: list.splits option.splits if_splits
        intro: le_less_trans [OF diff_le_self] le_less_trans [OF diff_le_self le_imp_less_Suc [OF length_dropWhile_le]])

fun unicode_escape :: "(string \<Rightarrow> nat option) \<Rightarrow> string \<Rightarrow> nat list option" where
  "unicode_escape uniname [] = Some []"
| "unicode_escape uniname (c # s) =
     (if c \<noteq> CHR 0x5C then map_option (Cons (of_char c)) (unicode_escape uniname s)
      else case escape_code uniname s of
             None \<Rightarrow> None
           | Some (codes, rest) \<Rightarrow> if length rest < length s then map_option (append codes) (unicode_escape uniname rest) else None)"

definition script_payload :: "(string \<Rightarrow> nat option) \<Rightarrow> string \<Rightarrow> string option" where
  "script_payload uniname line =
     (case unicode_escape uniname line of
        None \<Rightarrow> None
      | Some codes \<Rightarrow>
          if \<forall>n\<in>set codes. n < 256
          then let payload = map char_of codes in Some (if ends_with [newline] payload then payload else payload @ [newline])
          else None)"

text \<open>How a session ends: with an exit code and what was printed, or with an exception about an argument
  (\<open>--send\<close>, \<open>--expect\<close> or \<open>--escape\<close>).\<close>

datatype session_end = Exit int string | BadArgument

record session_args =
  sa_send :: "string list"
  sa_expect :: string
  sa_timeout :: nat
  sa_probe :: bool
  sa_escape :: string

fun send_lines :: "'b dev \<Rightarrow> (string \<Rightarrow> nat option) \<Rightarrow> string list \<Rightarrow> ('b, bool) act" where
  "send_lines dev uniname [] = give True"
| "send_lines dev uniname (line # lines) =
     (case script_payload uniname line of
        None \<Rightarrow> give False
      | Some payload \<Rightarrow> and_then (write_nowait dev payload) (\<lambda>_. send_lines dev uniname lines))"

text \<open>\<open>re.compile(expect)\<close> is \<open>compile\<close>: the predicate \<open>pattern.search(buf) is not None\<close>, or \<open>re.error\<close>.\<close>

definition script_pattern :: "(string \<Rightarrow> (string \<Rightarrow> bool) option) \<Rightarrow> string \<Rightarrow> (string \<Rightarrow> bool) option option" where
  "script_pattern compile expect = (if expect = [] then Some None else map_option Some (compile expect))"

definition script_exit :: "(string \<Rightarrow> bool) option \<Rightarrow> bool \<times> string \<times> nat \<Rightarrow> session_end" where
  "script_exit pat result =
     (case result of (seen, buf, _) \<Rightarrow>
        Exit (case pat of
                Some _ \<Rightarrow> if seen then EXIT_OK else EXIT_ERROR
              | None \<Rightarrow> if buf = [] then EXIT_ERROR else EXIT_OK) buf)"

definition run_script ::
    "'b dev \<Rightarrow> (string \<Rightarrow> nat option) \<Rightarrow> (string \<Rightarrow> (string \<Rightarrow> bool) option) \<Rightarrow> session_args \<Rightarrow> ('b, session_end) act" where
  "run_script dev uniname compile args =
     (case script_pattern compile (sa_expect args) of
        None \<Rightarrow> give BadArgument
      | Some pat \<Rightarrow>
          and_then (send_lines dev uniname (sa_send args)) (\<lambda>ok.
            if \<not> ok then give BadArgument
            else (\<lambda>c. let (result, c') = script_loop dev pat (sa_timeout args) 0 (sa_timeout args) [] c
                      in give (script_exit pat result) c')))"

text \<open>What the user does at the terminal: nothing for a poll interval, some bytes after a while, or Ctrl-C. At the
  end of the list the input ends.\<close>

datatype user_event = NoKey | Typed nat string | Interrupt

text \<open>The inner loop of \<open>_interactive\<close>: what is printed, and whether the relay closed the connection.\<close>

fun drain :: "arrival list \<Rightarrow> string \<times> bool" where
  "drain [] = ([], False)"
| "drain (Data d # as) = (let (shown, closed) = drain as in (d @ shown, closed))"
| "drain (ReadFails # as) = ([], True)"

fun interactive :: "'b dev \<Rightarrow> char \<Rightarrow> user_event list \<Rightarrow> string \<Rightarrow> ('b, session_end) act" where
  "interactive dev escape_byte [] out c =
     give (Exit EXIT_OK (out @ fst (drain (ch_pending c)))) (c\<lparr>ch_pending := []\<rparr>)"
| "interactive dev escape_byte (e # es) out c =
     (let (shown, closed) = drain (ch_pending c);
          out' = out @ shown;
          c1 = c\<lparr>ch_pending := []\<rparr>
      in if closed then give (Exit EXIT_OK out') c1
         else (case e of
                 Interrupt \<Rightarrow> give (Exit EXIT_OK out') c1
               | NoKey \<Rightarrow> interactive dev escape_byte es out' (snd (perform dev (Sleep 50) c1))
               | Typed t d \<Rightarrow>
                   (let c2 = snd (perform dev (Sleep t) c1) in
                    if d = [] then give (Exit EXIT_OK out') c2
                    else if escape_byte \<in> set d
                    then (let before = takeWhile (\<lambda>b. b \<noteq> escape_byte) d in
                          if before = [] then give (Exit EXIT_OK out') c2
                          else and_then (write_nowait dev before) (\<lambda>_. give (Exit EXIT_OK out')) c2)
                    else and_then (write_nowait dev d) (\<lambda>_. interactive dev escape_byte es out') c2)))"

text \<open>\<open>bytes([ord(escape.upper()) - 64])\<close>: one character, at least \<open>@\<close>.\<close>

definition escape_char :: "string \<Rightarrow> char option" where
  "escape_char escape =
     (case str_upper escape of
        [c] \<Rightarrow> if 64 \<le> (of_char c :: nat) then Some (char_of (of_char c - 64 :: nat)) else None
      | _ \<Rightarrow> None)"

definition run_interactive :: "'b dev \<Rightarrow> user_event list \<Rightarrow> string \<Rightarrow> ('b, session_end) act" where
  "run_interactive dev user escape =
     (case escape_char escape of None \<Rightarrow> give BadArgument | Some e \<Rightarrow> interactive dev e user [])"

subsection \<open>A session\<close>

text \<open>\<open>except RelayError: return EXIT_HARDWARE\<close> around \<open>m\<close>.\<close>

definition or_hardware :: "('b, 'a) act \<Rightarrow> ('a \<Rightarrow> ('b, session_end) act) \<Rightarrow> ('b, session_end) act" where
  "or_hardware m k c =
     (case m c of
        (Inl RelayError, c') \<Rightarrow> give (Exit EXIT_HARDWARE []) c'
      | (Inl DeviceError, c') \<Rightarrow> fail DeviceError c'
      | (Inr x, c') \<Rightarrow> k x c')"

text \<open>The command phase: \<open>hello\<close>, \<open>firmware_version\<close> and \<open>normalize\<close>.\<close>

definition take_over :: "'b dev \<Rightarrow> relay_control \<Rightarrow> ('b, banner_info) act" where
  "take_over dev ctl =
     and_then (hello dev ctl True BANNER_RE) (\<lambda>banner.
     and_then (firmware_version dev 1000) (\<lambda>v.
     and_then (normalize dev 1500 1) (\<lambda>_. give (banner\<lparr>bi_firmware := v\<rparr>))))"

text \<open>What the data plane is used for.\<close>

type_synonym 'b user_phase = "'b dev \<Rightarrow> ('b, session_end) act"

definition user_phase ::
    "(string \<Rightarrow> nat option) \<Rightarrow> (string \<Rightarrow> (string \<Rightarrow> bool) option) \<Rightarrow> user_event list \<Rightarrow> session_args \<Rightarrow> 'b user_phase" where
  "user_phase uniname compile user args dev =
     (if sa_send args \<noteq> [] \<or> sa_expect args \<noteq> [] then run_script dev uniname compile args
      else run_interactive dev user (sa_escape args))"

definition session_body ::
    "'b dev \<Rightarrow> relay_control \<Rightarrow> name_entry \<Rightarrow> bool \<Rightarrow> 'b user_phase \<Rightarrow> ('b, session_end) act" where
  "session_body dev ctl entry probing phase =
     or_hardware (take_over dev ctl) (\<lambda>_.
     or_hardware (tune dev entry 8000 probing) (\<lambda>_ c. phase dev (start_queue c)))"

text \<open>The \<open>finally\<close> block: only a \<open>RelayError\<close> of \<open>clear_stored_config\<close> is caught, and the channel is closed after it.\<close>

definition end_session :: "'b dev \<Rightarrow> (relay_exn + session_end) \<times> 'b chan \<Rightarrow> (relay_exn + session_end) \<times> 'b chan" where
  "end_session dev ended =
     (case ended of (r, c) \<Rightarrow>
        (case clear_stored_config dev 1000 (restore_reader c) of
           (Inl DeviceError, c') \<Rightarrow> (Inl DeviceError, c')
         | (_, c') \<Rightarrow> (r, close_channel dev c')))"

definition run_session ::
    "'b dev \<Rightarrow> relay_control \<Rightarrow> name_entry \<Rightarrow> bool \<Rightarrow> 'b user_phase \<Rightarrow> ('b, session_end) act" where
  "run_session dev ctl entry probing phase c =
     (let (raises, c1) = perform dev Open c in
      if raises then (Inl DeviceError, c1)
      else let (_, c2) = sleep dev (rc_open_settle ctl) (c1\<lparr>ch_is_open := True\<rparr>);
               (_, c3) = attach_reader c2
           in end_session dev (session_body dev ctl entry probing phase c3))"

subsection \<open>\<open>mbrelay connect\<close>\<close>

text \<open>The robot and the host of \<open>robot[@host]\<close>.\<close>

definition parse_target :: "string \<Rightarrow> (string \<times> string option) result" where
  "parse_target target =
     (let text = py_strip target;
          (robot_part, host_part) = partition (CHR ''@'') text;
          has_at = CHR ''@'' \<in> set text
      in case validate robot_part of
           Inl e \<Rightarrow> Inl e
         | Inr robot \<Rightarrow>
             if has_at \<and> py_strip host_part = [] then Inl ValueError
             else Inr (robot, if has_at then Some (py_strip host_part) else None))"

definition free_relay :: "string option \<Rightarrow> device_view \<Rightarrow> bool" where
  "free_relay host d \<longleftrightarrow> is_relay_role (dv_role (dw_device d)) \<and> dw_lock_kind d = None
     \<and> (host = None \<or> dv_host (dw_device d) = host)"

definition find_free_relay :: "device_view list \<Rightarrow> string option \<Rightarrow> device_view option" where
  "find_free_relay devices host =
     (case sort_key (\<lambda>d. dv_host (dw_device d) \<noteq> None) (filter (free_relay host) devices) of
        [] \<Rightarrow> None
      | d # _ \<Rightarrow> Some d)"

text \<open>What leaves a command besides an exit code.\<close>

datatype connect_exn = ClientEscaped client_exn | ChannelEscaped | ValueEscaped py_error

definition resolve_entry :: "'s requester \<Rightarrow> string \<Rightarrow> 's option \<Rightarrow> (connect_exn + name_entry) \<times> 's option" where
  "resolve_entry rq robot link =
     (case client_names_get rq robot link of
        (Inl e, link') \<Rightarrow> (Inl (ClientEscaped e), link')
      | (Inr (Some entry), link') \<Rightarrow> (Inr entry, link')
      | (Inr None, link') \<Rightarrow>
          (case name_to_radio robot of
             Inl e \<Rightarrow> Inl (ValueEscaped e)
           | Inr (channel, grp) \<Rightarrow> Inr (row_to_entry robot channel grp SOURCE_DERIVED 0), link'))"

text \<open>\<open>except RegistryClientError as exc: return exc.exit_code\<close>.\<close>

definition client_failed :: "client_exn \<Rightarrow> connect_exn + session_end" where
  "client_failed e = (case exit_code e of None \<Rightarrow> Inl (ClientEscaped e) | Some code \<Rightarrow> Inr (Exit code []))"

text \<open>\<open>except RegistryUnavailable: return EXIT_NO_DAEMON\<close>.\<close>

definition or_no_daemon :: "connect_exn + session_end \<Rightarrow> connect_exn + session_end" where
  "or_no_daemon r = (if r = Inl (ClientEscaped RegistryUnavailable) then Inr (Exit EXIT_NO_DAEMON []) else r)"

text \<open>What a session on one channel comes to; \<open>e\<close> is the exception of that kind of channel.\<close>

definition session_result :: "connect_exn \<Rightarrow> relay_exn + session_end \<Rightarrow> connect_exn + session_end" where
  "session_result e r = (case r of Inl _ \<Rightarrow> Inl e | Inr x \<Rightarrow> Inr x)"

record 'b relay_command =
  rcm_control :: relay_control
  rcm_probe :: bool
  rcm_phase :: "'b user_phase"

definition run_connect_local ::
    "'s requester \<Rightarrow> (string option \<Rightarrow> 'b dev) \<Rightarrow> 'b relay_command \<Rightarrow> device \<Rightarrow> name_entry \<Rightarrow> 's option \<Rightarrow> 'b chan
       \<Rightarrow> (connect_exn + session_end) \<times> 's option \<times> 'b chan" where
  "run_connect_local rq local_channel cmd d entry link c =
     (case client_lock rq (dv_uid d) KIND_RELAY link of
        (Inl e, link1) \<Rightarrow> (client_failed e, link1, c)
      | (Inr _, link1) \<Rightarrow>
          (let (r, c') = run_session (local_channel (dv_port d)) (rcm_control cmd) entry (rcm_probe cmd) (rcm_phase cmd) c;
               (unlocked, link2) = client_unlock rq (dv_uid d) link1
           in (case unlocked of
                 Inl e \<Rightarrow> if is_client_error e then session_result ChannelEscaped r else Inl (ClientEscaped e)
               | Inr _ \<Rightarrow> session_result ChannelEscaped r, link2, c')))"

text \<open>\<open>visit host port\<close>: what the registry there answers, and whether it can be dialled. What a remote channel raises
  is \<open>RegistryUnavailable\<close>. Leaving the \<open>with\<close> block closes the connection.\<close>

definition run_connect_remote ::
    "(string \<Rightarrow> int \<Rightarrow> 'r exchange \<times> 'r option) \<Rightarrow> ('r \<Rightarrow> 'b dev) \<Rightarrow> 'b relay_command \<Rightarrow> device_view \<Rightarrow> name_entry \<Rightarrow> 'b chan
       \<Rightarrow> (connect_exn + session_end) \<times> 'b chan" where
  "run_connect_remote visit remote_channel cmd view entry c =
     (case parse_port (case dw_endpoint view of None \<Rightarrow> [] | Some e \<Rightarrow> e) of
        None \<Rightarrow> (Inr (Exit EXIT_ERROR []), c)
      | Some (host, port) \<Rightarrow>
          (let (exchange, dial) = visit host port; uid = dv_uid (dw_device view) in
           case connect_remote exchange dial None None of
             (Inl e, _) \<Rightarrow> (or_no_daemon (Inl (ClientEscaped e)), c)
           | (Inr _, link) \<Rightarrow>
               (case client_lock (remote_request exchange dial None) uid KIND_RELAY link of
                  (Inl e, _) \<Rightarrow> (or_no_daemon (client_failed e), c)
                | (Inr _, link1) \<Rightarrow>
                    (case client_open_stream exchange dial None uid link1 of
                       (Inl e, _) \<Rightarrow> (or_no_daemon (Inl (ClientEscaped e)), c)
                     | (Inr s, _) \<Rightarrow>
                         (let (r, c') = run_session (remote_channel s) (rcm_control cmd) entry (rcm_probe cmd) (rcm_phase cmd) c
                          in (or_no_daemon (session_result (ClientEscaped RegistryUnavailable) r), c'))))))"

definition run_connect ::
    "'s requester \<Rightarrow> (string option \<Rightarrow> 'b dev) \<Rightarrow> (string \<Rightarrow> int \<Rightarrow> 'r exchange \<times> 'r option) \<Rightarrow> ('r \<Rightarrow> 'b dev) \<Rightarrow> 'b relay_command
       \<Rightarrow> string \<times> string option \<Rightarrow> 's option \<Rightarrow> 'b chan \<Rightarrow> (connect_exn + session_end) \<times> 's option \<times> 'b chan" where
  "run_connect rq local_channel visit remote_channel cmd target link c =
     (case client_list rq link of
        (Inl e, link1) \<Rightarrow> (Inl (ClientEscaped e), link1, c)
      | (Inr devices, link1) \<Rightarrow>
          (case find_free_relay devices (snd target) of
             None \<Rightarrow> (Inr (Exit EXIT_NO_DEVICE []), link1, c)
           | Some view \<Rightarrow>
               (case resolve_entry rq (fst target) link1 of
                  (Inl (ClientEscaped e), link2) \<Rightarrow> (client_failed e, link2, c)
                | (Inl e, link2) \<Rightarrow> (Inl e, link2, c)
                | (Inr entry, link2) \<Rightarrow>
                    (case dv_host (dw_device view) of
                       None \<Rightarrow> run_connect_local rq local_channel cmd (dw_device view) entry link2 c
                     | Some _ \<Rightarrow>
                         (let (r, c') = run_connect_remote visit remote_channel cmd view entry c in (r, link2, c'))))))"

text \<open>\<open>cmd_connect\<close>; \<open>connect\<close> opens the local client (\<open>with RegistryClient(...)\<close>).\<close>

definition cmd_connect ::
    "('s, unit) client \<Rightarrow> 's requester \<Rightarrow> (string option \<Rightarrow> 'b dev) \<Rightarrow> (string \<Rightarrow> int \<Rightarrow> 'r exchange \<times> 'r option) \<Rightarrow> ('r \<Rightarrow> 'b dev)
       \<Rightarrow> 'b relay_command \<Rightarrow> string \<Rightarrow> 'b chan \<Rightarrow> (connect_exn + session_end) \<times> 's option \<times> 'b chan" where
  "cmd_connect connect rq local_channel visit remote_channel cmd text c =
     (case parse_target text of
        Inl e \<Rightarrow> (Inr (Exit EXIT_USAGE []), None, c)
      | Inr target \<Rightarrow>
          (case connect None of
             (Inl e, link) \<Rightarrow> (or_no_daemon (Inl (ClientEscaped e)), link, c)
           | (Inr _, link) \<Rightarrow>
               (let (r, link', c') = run_connect rq local_channel visit remote_channel cmd target link c
                in (or_no_daemon r, link', c'))))"

subsection \<open>\<open>mbrelay names\<close>\<close>

text \<open>\<open>_with_client\<close>.\<close>

definition with_client :: "('s, unit) client \<Rightarrow> ('s option \<Rightarrow> (client_exn + session_end) \<times> 's option) \<Rightarrow> connect_exn + session_end" where
  "with_client connect body =
     (case connect None of
        (Inl e, _) \<Rightarrow> or_no_daemon (client_failed e)
      | (Inr _, link) \<Rightarrow>
          (case fst (body link) of Inl e \<Rightarrow> or_no_daemon (client_failed e) | Inr x \<Rightarrow> Inr x))"

definition entry_line :: "name_entry \<Rightarrow> string" where
  "entry_line e = en_name e @ '': channel '' @ show_int (en_channel e) @ '' group '' @ show_int (en_group e)
     @ '' ('' @ en_source e @ '')''"

definition finish_with :: "('a \<Rightarrow> session_end) \<Rightarrow> (client_exn + 'a) \<times> 's option \<Rightarrow> (client_exn + session_end) \<times> 's option" where
  "finish_with f reply = (case reply of (Inl e, link) \<Rightarrow> (Inl e, link) | (Inr x, link) \<Rightarrow> (Inr (f x), link))"

definition cmd_names_get :: "('s, unit) client \<Rightarrow> 's requester \<Rightarrow> string \<Rightarrow> connect_exn + session_end" where
  "cmd_names_get connect rq name =
     with_client connect (\<lambda>link. finish_with
       (\<lambda>r. case r of None \<Rightarrow> Exit EXIT_ERROR [] | Some e \<Rightarrow> Exit EXIT_OK (entry_line e)) (client_names_get rq name link))"

definition cmd_names_set :: "('s, unit) client \<Rightarrow> 's requester \<Rightarrow> string \<Rightarrow> int \<Rightarrow> int \<Rightarrow> connect_exn + session_end" where
  "cmd_names_set connect rq name channel grp =
     with_client connect (\<lambda>link. finish_with (\<lambda>e. Exit EXIT_OK (entry_line e)) (client_names_set rq name channel grp link))"

definition cmd_names_clear :: "('s, unit) client \<Rightarrow> 's requester \<Rightarrow> string \<Rightarrow> connect_exn + session_end" where
  "cmd_names_clear connect rq name =
     with_client connect (\<lambda>link. finish_with (\<lambda>_. Exit EXIT_OK (''mbrelay: cleared '' @ name)) (client_names_clear rq name link))"

text \<open>One row of \<open>names list\<close>; the columns are separated by tabs.\<close>

definition comma_join :: "string list \<Rightarrow> string" where
  "comma_join ws = join_with (CHR '','') ws"

definition name_row :: "name_entry \<Rightarrow> string" where
  "name_row e =
     join_with (CHR 0x09)
       [en_name e, ''channel '' @ show_int (en_channel e), ''group '' @ show_int (en_group e),
        en_source e
        @ (if en_conflict e \<noteq> [] then ''  CONFLICT with '' @ comma_join (en_conflict e)
           else if en_channel_conflict e \<noteq> [] then ''  channel shared with '' @ comma_join (en_channel_conflict e)
           else [])]"

definition cmd_names_list :: "('s, unit) client \<Rightarrow> 's requester \<Rightarrow> connect_exn + session_end" where
  "cmd_names_list connect rq =
     with_client connect (\<lambda>link. finish_with
       (\<lambda>es. Exit EXIT_OK (concat (map (\<lambda>e. name_row e @ [newline]) (sort_key en_name es)))) (client_names_list rq link))"

subsection \<open>What a session writes\<close>

text \<open>No break was sent, so the board was not reset.\<close>

definition unbroken :: "log_entry list \<Rightarrow> bool" where
  "unbroken l \<longleftrightarrow> (\<forall>e\<in>set l. \<forall>t. e \<noteq> Did (Break t))"

lemma unbroken_simps [simp]:
  "unbroken []" "unbroken (l @ l') \<longleftrightarrow> unbroken l \<and> unbroken l'" "unbroken (Did (Write d) # l) \<longleftrightarrow> unbroken l"
  "unbroken (Did (Wait t) # l) \<longleftrightarrow> unbroken l" "unbroken (Did (Sleep t) # l) \<longleftrightarrow> unbroken l" "unbroken (Saw m # l) \<longleftrightarrow> unbroken l"
  "unbroken (Did Close # l) \<longleftrightarrow> unbroken l" "\<not> unbroken (Did (Break t) # l)"
  by (auto simp: unbroken_def)

lemma queue_get_log: "\<exists>l. ch_log (snd (snd (queue_get dev t c))) = ch_log c @ l \<and> writes l = [] \<and> unbroken l"
proof (induction dev t c rule: queue_get.induct)
  case (1 dev c)
  then show ?case by (auto split: list.split)
next
  case (2 dev t c)
  show ?case
  proof (cases "ch_pending c")
    case Nil
    obtain l where "ch_log (snd (snd (queue_get dev t (snd (perform dev (Sleep 1) c))))) = ch_log c @ [Did (Sleep 1)] @ l" "writes l = []" "unbroken l"
      using 2 [OF Nil] by auto
    then show ?thesis using Nil by (auto simp: case_prod_beta)
  qed simp
qed

lemma script_loop_log: "\<exists>l. ch_log (snd (script_loop dev pat deadline now q buf c)) = ch_log c @ l \<and> writes l = [] \<and> unbroken l"
proof (induction dev pat deadline now q buf c rule: script_loop.induct)
  case (1 dev pat deadline now q buf c)
  obtain a n c' where g: "queue_get dev (min 200 (deadline - now)) c = (a, n, c')" by (metis prod_cases3)
  obtain l where l: "ch_log c' = ch_log c @ l" "writes l = []" "unbroken l"
    using queue_get_log [of dev "min 200 (deadline - now)" c] by (auto simp: g)
  show ?case
  proof (cases "deadline \<le> now")
    case True
    then show ?thesis by (subst script_loop.simps) simp
  next
    case False
    have trans: "\<exists>l. ch_log (snd x) = ch_log c @ l \<and> writes l = [] \<and> unbroken l"
      if "\<exists>l. ch_log (snd x) = ch_log c' @ l \<and> writes l = [] \<and> unbroken l" for x :: "(bool \<times> string \<times> nat) \<times> 'a chan"
      using that l by (metis append.assoc append_Nil2 writes_simps(9) unbroken_simps(2))
    show ?thesis
      by (subst script_loop.simps, rule trans)
         (use False l 1(1) [OF False g [symmetric] _ refl] 1(2) [OF False g [symmetric] _ refl] in
           \<open>auto simp: g split: option.split arrival.split\<close>)
  qed
qed

text \<open>What the user of a session has written to the board if nothing fails.\<close>

fun typed_writes :: "char \<Rightarrow> user_event list \<Rightarrow> string list" where
  "typed_writes escape_byte [] = []"
| "typed_writes escape_byte (Interrupt # es) = []"
| "typed_writes escape_byte (NoKey # es) = typed_writes escape_byte es"
| "typed_writes escape_byte (Typed t d # es) =
     (if d = [] then []
      else if escape_byte \<in> set d
      then (let before = takeWhile (\<lambda>b. b \<noteq> escape_byte) d in if before = [] then [] else [before])
      else d # typed_writes escape_byte es)"

fun payloads :: "(string \<Rightarrow> nat option) \<Rightarrow> string list \<Rightarrow> string list" where
  "payloads uniname [] = []"
| "payloads uniname (line # lines) =
     (case script_payload uniname line of None \<Rightarrow> [] | Some p \<Rightarrow> p # payloads uniname lines)"

definition user_writes ::
    "(string \<Rightarrow> nat option) \<Rightarrow> (string \<Rightarrow> (string \<Rightarrow> bool) option) \<Rightarrow> user_event list \<Rightarrow> session_args \<Rightarrow> string list" where
  "user_writes uniname compile user args =
     (if sa_send args \<noteq> [] \<or> sa_expect args \<noteq> []
      then (if script_pattern compile (sa_expect args) = None then [] else payloads uniname (sa_send args))
      else case escape_char (sa_escape args) of None \<Rightarrow> [] | Some e \<Rightarrow> typed_writes e user)"

lemma does_send_lines:
  "does (send_lines dev uniname lines) (\<lambda>r l. \<exists>rest. writes l @ rest = payloads uniname lines \<and> (\<forall>v. r = Inr v \<longrightarrow> rest = []) \<and> unbroken l)"
proof (induction lines)
  case Nil
  then show ?case by (auto intro: does_give)
next
  case (Cons line lines)
  show ?case
  proof (cases "script_payload uniname line")
    case None
    then show ?thesis by (auto intro: does_give)
  next
    case (Some p)
    show ?thesis
      unfolding send_lines.simps Some option.case
      by (rule does_and_then [OF does_write Cons]) (auto simp: Some)
  qed
qed

lemma does_script_loop:
  "does (\<lambda>c. let (result, c') = script_loop dev pat deadline now q buf c in give (script_exit pat result) c') (\<lambda>r l. writes l = [] \<and> unbroken l)"
  using script_loop_log [of dev pat deadline now q buf] by (auto simp: does_def give_def case_prod_beta Let_def)

lemma does_run_script:
  assumes "sa_send args \<noteq> [] \<or> sa_expect args \<noteq> []"
  shows "does (run_script dev uniname compile args) (\<lambda>r l. \<exists>rest. writes l @ rest = user_writes uniname compile user args
     \<and> (\<forall>v. r = Inr v \<longrightarrow> rest = []) \<and> unbroken l)"
proof (cases "script_pattern compile (sa_expect args)")
  case None
  then show ?thesis using assms by (auto simp: run_script_def user_writes_def intro: does_give)
next
  case (Some pat)
  have tail: "does (if \<not> ok then give BadArgument
      else (\<lambda>c. let (result, c') = script_loop dev pat (sa_timeout args) 0 (sa_timeout args) [] c in give (script_exit pat result) c'))
    (\<lambda>r l. writes l = [] \<and> unbroken l)" for ok
    using does_script_loop by (cases ok) (auto intro: does_give)
  show ?thesis
    unfolding run_script_def Some option.case
    by (rule does_and_then [OF does_send_lines tail]) (use assms Some in \<open>auto simp: user_writes_def\<close>)
qed

lemma does_interactive:
  "\<exists>l rest. ch_log (snd (interactive dev e user out c)) = ch_log c @ l \<and> writes l @ rest = typed_writes e user \<and> unbroken l"
proof (induction dev e user out c rule: interactive.induct)
  case (1 dev e out c)
  then show ?case by (simp add: give_def)
next
  case (2 dev e ev es out c)
  obtain shown closed where d: "drain (ch_pending c) = (shown, closed)" by force
  show ?case
  proof (cases closed)
    case True
    then show ?thesis using d by (simp add: give_def)
  next
    case False
    show ?thesis
    proof (cases ev)
      case NoKey
      obtain l rest where "ch_log (snd (interactive dev e es (out @ shown) (snd (perform dev (Sleep 50) (c\<lparr>ch_pending := []\<rparr>)))))
          = ch_log c @ [Did (Sleep 50)] @ l" "writes l @ rest = typed_writes e es" "unbroken l"
        using 2(1) [OF refl d [symmetric] refl refl False NoKey] by auto
      then show ?thesis using d False NoKey by (intro exI [of _ "Did (Sleep 50) # l"] exI [of _ rest]) simp
    next
      case (Typed t data)
      define c2 where "c2 = snd (perform dev (Sleep t) (c\<lparr>ch_pending := []\<rparr>))"
      have c2: "ch_log c2 = ch_log c @ [Did (Sleep t)]" by (simp add: c2_def)
      consider (empty) "data = []" | (esc) "data \<noteq> []" "e \<in> set data" | (more) "data \<noteq> []" "e \<notin> set data" by blast
      then show ?thesis
      proof cases
        case empty
        then show ?thesis using d False Typed by (simp add: give_def)
      next
        case esc
        let ?b = "takeWhile (\<lambda>b. b \<noteq> e) data"
        have "ch_log (snd (and_then (write_nowait dev ?b) (\<lambda>_. give (Exit EXIT_OK (out @ shown))) c2)) = ch_log c2 @ [Did (Write ?b)]"
          by (simp add: and_then_def give_def write_nowait_def case_prod_beta Let_def)
        then show ?thesis
          using d False Typed esc c2
          by (intro exI [of _ "if ?b = [] then [Did (Sleep t)] else [Did (Sleep t), Did (Write ?b)]"] exI [of _ "[]"])
             (simp add: give_def c2_def [symmetric])
      next
        case more
        obtain r c3 where w: "write_nowait dev data c2 = (r, c3)" by force
        then have c3: "ch_log c3 = ch_log c @ [Did (Sleep t), Did (Write data)]"
          using c2 by (auto simp: write_nowait_def case_prod_beta Let_def)
        have run: "interactive dev e (ev # es) out c = and_then (write_nowait dev data) (\<lambda>_. interactive dev e es (out @ shown)) c2"
          using d False Typed more by (simp add: c2_def)
        show ?thesis
        proof (cases r)
          case (Inl x)
          then show ?thesis
            using run w c3 Typed more by (intro exI [of _ "[Did (Sleep t), Did (Write data)]"] exI [of _ "typed_writes e es"]) (simp add: and_then_def)
        next
          case (Inr x)
          obtain l rest where "ch_log (snd (interactive dev e es (out @ shown) c3)) = ch_log c3 @ l" "writes l @ rest = typed_writes e es" "unbroken l"
            using 2(2) [OF refl d [symmetric] refl refl False Typed c2_def more, of c3] by auto
          then show ?thesis
            using run w c3 Typed more Inr by (intro exI [of _ "[Did (Sleep t), Did (Write data)] @ l"] exI [of _ rest]) (simp add: and_then_def)
        qed
      qed
    next
      case Interrupt
      then show ?thesis using d False by (simp add: give_def)
    qed
  qed
qed

lemma does_phase:
  "\<exists>l rest. ch_log (snd (user_phase uniname compile user args dev c)) = ch_log c @ l
     \<and> writes l @ rest = user_writes uniname compile user args \<and> unbroken l"
proof (cases "sa_send args \<noteq> [] \<or> sa_expect args \<noteq> []")
  case True
  then show ?thesis
    using does_run_script [OF True, of dev uniname compile user] by (fastforce simp: user_phase_def does_def)
next
  case False
  then show ?thesis
    using does_interactive by (auto simp: user_phase_def run_interactive_def user_writes_def give_def split: option.split)
qed

text \<open>The board was tuned: it acknowledged \<open>!CG\<close> with a pair, and \<open>!GO\<close>.\<close>

definition tuned_log :: "name_entry \<Rightarrow> nat \<Rightarrow> tuned \<Rightarrow> log_entry list \<Rightarrow> bool" where
  "tuned_log entry timeout t l \<longleftrightarrow>
     (\<exists>line caps g ch gr go lb. l = [Did (Write (cg_command entry)), Did (Wait timeout), Saw (Some (line, caps)),
         Did (Sleep TUNE_SETTLE), Did (Write GO_COMMAND), Did (Wait timeout), Saw (Some go)] @ lb
       \<and> search TUNED_RE line = Some (g, [ch, gr]) \<and> tu_channel t = read_nat ch \<and> tu_group t = read_nat gr
       \<and> set (writes lb) \<subseteq> {PING_COMMAND})"

lemma does_given: "does (give x) (\<lambda>r l. r = Inr x \<and> l = [])"
  by (rule does_give) simp

lemma does_ping: "does (ping dev on) (\<lambda>r l. set (writes l) \<subseteq> {PING_COMMAND})"
proof (cases on)
  case True
  show ?thesis
    unfolding ping_def using True
    by (auto intro!: does_and_then [OF does_sleep does_and_then [OF does_clear does_and_then [OF does_write
          does_and_then [OF does_wait does_given, where R = "\<lambda>r l. writes l = []"],
          where R = "\<lambda>r l. set (writes l) \<subseteq> {PING_COMMAND}"], where R = "\<lambda>r l. set (writes l) \<subseteq> {PING_COMMAND}"]])
qed (auto simp: ping_def intro: does_give)

lemma does_enter:
  "does (enter_data_plane dev timeout probing) (\<lambda>r l. \<forall>a. r = Inr a \<longrightarrow>
     (\<exists>go lb. l = [Did (Sleep TUNE_SETTLE), Did (Write GO_COMMAND), Did (Wait timeout), Saw (Some go)] @ lb
        \<and> set (writes lb) \<subseteq> {PING_COMMAND}))"
proof -
  have last: "does (if g = None then fail RelayError else ping dev probing)
     (\<lambda>r l. \<forall>a. r = Inr a \<longrightarrow> g \<noteq> None \<and> set (writes l) \<subseteq> {PING_COMMAND})" for g :: "(string \<times> string list) option"
    using does_ping [of dev probing] by (auto intro!: does_fail elim: does_mono)
  have wait: "does (and_then (wait_for dev GO_RE timeout) (\<lambda>g. if g = None then fail RelayError else ping dev probing))
     (\<lambda>r l. \<forall>a. r = Inr a \<longrightarrow> (\<exists>go lb. l = [Did (Wait timeout), Saw (Some go)] @ lb \<and> set (writes lb) \<subseteq> {PING_COMMAND}))"
    by (rule does_and_then [OF does_wait last]) auto
  show ?thesis
    unfolding enter_data_plane_def
    by (rule does_and_then [OF does_sleep does_and_then [OF does_clear does_and_then [OF does_write wait,
          where R = "\<lambda>r l. \<forall>a. r = Inr a \<longrightarrow> (\<exists>go lb. l = [Did (Write GO_COMMAND), Did (Wait timeout), Saw (Some go)] @ lb
             \<and> set (writes lb) \<subseteq> {PING_COMMAND})"],
          where R = "\<lambda>r l. \<forall>a. r = Inr a \<longrightarrow> (\<exists>go lb. l = [Did (Write GO_COMMAND), Did (Wait timeout), Saw (Some go)] @ lb
             \<and> set (writes lb) \<subseteq> {PING_COMMAND})"]]) auto
qed

lemma does_tune: "does (tune dev entry timeout probing) (\<lambda>r l. \<forall>t. r = Inr t \<longrightarrow> tuned_log entry timeout t l)"
proof -
  let ?enter = "enter_data_plane dev timeout probing"
  let ?P = "\<lambda>l. \<exists>go lb. l = [Did (Sleep TUNE_SETTLE), Did (Write GO_COMMAND), Did (Wait timeout), Saw (Some go)] @ lb
        \<and> set (writes lb) \<subseteq> {PING_COMMAND}"
  define k where "k = (\<lambda>line. case search TUNED_RE line of
              Some (_, [channel, grp]) \<Rightarrow>
                and_then ?enter (\<lambda>answer. give \<lparr>tu_channel = read_nat channel, tu_group = read_nat grp, tu_answered = answer\<rparr>)
            | _ \<Rightarrow> fail RelayError)"
  have k: "does (k line) (\<lambda>r l. \<forall>t. r = Inr t \<longrightarrow> ?P l
      \<and> (\<exists>g ch gr. search TUNED_RE line = Some (g, [ch, gr]) \<and> tu_channel t = read_nat ch \<and> tu_group t = read_nat gr))" for line
  proof (cases "\<exists>g ch gr. search TUNED_RE line = Some (g, [ch, gr])")
    case True
    then obtain g ch gr where s: "search TUNED_RE line = Some (g, [ch, gr])" by blast
    then have run: "k line = and_then ?enter (\<lambda>answer. give \<lparr>tu_channel = read_nat ch, tu_group = read_nat gr, tu_answered = answer\<rparr>)"
      by (simp add: k_def)
    show ?thesis
      unfolding run by (rule does_and_then [OF does_enter does_given]) (use s in auto)
  next
    case False
    then have "k line = fail RelayError"
      by (auto simp: k_def split: option.split list.split)
    then show ?thesis by (auto intro: does_fail)
  qed
  have wait: "does (and_then (wait_for dev REPLY_RE timeout) (\<lambda>m. case m of None \<Rightarrow> fail RelayError | Some (line, _) \<Rightarrow> k line))
     (\<lambda>r l. \<forall>t. r = Inr t \<longrightarrow> (\<exists>line caps g ch gr l'. l = [Did (Wait timeout), Saw (Some (line, caps))] @ l' \<and> ?P l'
        \<and> search TUNED_RE line = Some (g, [ch, gr]) \<and> tu_channel t = read_nat ch \<and> tu_group t = read_nat gr))"
    by (rule does_and_then [OF does_wait, where Q = "\<lambda>m r l. \<forall>t. r = Inr t \<longrightarrow> (\<exists>line caps. m = Some (line, caps) \<and> ?P l
          \<and> (\<exists>g ch gr. search TUNED_RE line = Some (g, [ch, gr]) \<and> tu_channel t = read_nat ch \<and> tu_group t = read_nat gr))"])
       (auto intro!: does_fail does_mono [OF k] split: option.split)
  have run: "tune dev entry timeout probing = and_then clear (\<lambda>_. and_then (write_nowait dev (cg_command entry)) (\<lambda>_.
     and_then (wait_for dev REPLY_RE timeout) (\<lambda>m. case m of None \<Rightarrow> fail RelayError | Some (line, _) \<Rightarrow> k line)))"
    unfolding tune_def k_def by (rule refl)
  show ?thesis
    unfolding run
    by (rule does_and_then [OF does_clear does_and_then [OF does_write wait,
          where R = "\<lambda>r l. \<forall>t. r = Inr t \<longrightarrow> tuned_log entry timeout t l"]])
       (auto simp: tuned_log_def)
qed

lemma does_take_over: "does (take_over dev ctl) (\<lambda>r l. \<forall>b. r = Inr b \<longrightarrow> verified_then [] l)"
proof -
  have norm: "does (normalize dev 1500 1) (\<lambda>r l. \<forall>v. r = Inr v \<longrightarrow> verified 3000 l)"
    using does_normalize_loop [of dev 1500 "1 + 1"] by (simp add: normalize_def del: normalize_loop.simps)
  have s3: "does (and_then (normalize dev 1500 1) (\<lambda>_. give (info\<lparr>bi_firmware := v\<rparr>)))
     (\<lambda>r l. \<forall>b. r = Inr b \<longrightarrow> verified_then [] l)" for info v
    by (rule does_and_then [OF norm does_given]) (auto intro: verified_thenI [of _ "[]" "[]", simplified])
  have s2: "does (and_then (firmware_version dev 1000) (\<lambda>v. and_then (normalize dev 1500 1) (\<lambda>_. give (info\<lparr>bi_firmware := v\<rparr>))))
     (\<lambda>r l. \<forall>b. r = Inr b \<longrightarrow> verified_then [] l)" for info
    by (rule does_and_then [OF does_firmware_version s3]) (auto intro: verified_then_append)
  show ?thesis
    unfolding take_over_def by (rule does_and_then [OF does_hello s2]) (auto intro: verified_then_append)
qed

text \<open>The board is ready for the user: it was seen at its defaults, and then tuned.\<close>

definition ready_log :: "name_entry \<Rightarrow> log_entry list \<Rightarrow> bool" where
  "ready_log entry l \<longleftrightarrow> (\<exists>la lb t. l = la @ lb \<and> verified_then [] la \<and> tuned_log entry 8000 t lb)"

lemma or_hardware_cases:
  obtains (relay) c' where "m c = (Inl RelayError, c')" "or_hardware m k c = (Inr (Exit EXIT_HARDWARE []), c')"
  | (device) c' where "m c = (Inl DeviceError, c')" "or_hardware m k c = (Inl DeviceError, c')"
  | (fine) x c' where "m c = (Inr x, c')" "or_hardware m k c = k x c'"
proof (cases "m c")
  case (Pair r c')
  show thesis
  proof (cases r)
    case (Inl e)
    then show thesis using relay device Pair by (cases e) (auto simp: or_hardware_def give_def fail_def)
  qed (use fine Pair in \<open>auto simp: or_hardware_def\<close>)
qed

lemma does_log: "does act P \<Longrightarrow> act c = (r, c') \<Longrightarrow> \<exists>l. ch_log c' = ch_log c @ l \<and> P r l"
  unfolding does_def by (metis fst_conv snd_conv)

lemma session_body_log:
  "\<exists>l1 l2 rest. ch_log (snd (session_body dev ctl entry probing (user_phase uniname compile user args) c)) = ch_log c @ l1 @ l2
     \<and> writes l2 @ rest = user_writes uniname compile user args \<and> unbroken l2
     \<and> (ready_log entry l1 \<or> l2 = [] \<and> fst (session_body dev ctl entry probing (user_phase uniname compile user args) c)
          \<in> {Inr (Exit EXIT_HARDWARE []), Inl DeviceError})"
proof -
  let ?phase = "user_phase uniname compile user args"
  let ?rest = "or_hardware (tune dev entry 8000 probing) (\<lambda>_ c. ?phase dev (start_queue c))"
  have early: ?thesis if "session_body dev ctl entry probing ?phase c = (r, c')" "ch_log c' = ch_log c @ l"
      "r \<in> {Inr (Exit EXIT_HARDWARE []), Inl DeviceError}" for r c' l
    by (rule exI [of _ l], rule exI [of _ "[]"]) (use that in auto)
  show ?thesis
  proof (cases rule: or_hardware_cases [of "take_over dev ctl" c "\<lambda>_. ?rest"])
    case (relay c')
    then show ?thesis using early [of _ c'] does_log [OF does_take_over relay(1)] by (auto simp: session_body_def)
  next
    case (device c')
    then show ?thesis using early [of _ c'] does_log [OF does_take_over device(1)] by (auto simp: session_body_def)
  next
    case (fine b c1)
    obtain la where la: "ch_log c1 = ch_log c @ la" "verified_then [] la" using does_log [OF does_take_over fine(1)] by auto
    show ?thesis
    proof (cases rule: or_hardware_cases [of "tune dev entry 8000 probing" c1 "\<lambda>_ c. ?phase dev (start_queue c)"])
      case (relay c')
      then show ?thesis using early [of _ c'] fine(2) la does_log [OF does_tune relay(1)] by (auto simp: session_body_def)
    next
      case (device c')
      then show ?thesis using early [of _ c'] fine(2) la does_log [OF does_tune device(1)] by (auto simp: session_body_def)
    next
      case tuned: (fine t c2)
      obtain lb where lb: "ch_log c2 = ch_log c1 @ lb" "tuned_log entry 8000 t lb" using does_log [OF does_tune tuned(1)] by auto
      obtain l rest where l: "ch_log (snd (?phase dev (start_queue c2))) = ch_log (start_queue c2) @ l"
        "writes l @ rest = user_writes uniname compile user args" "unbroken l"
        using does_phase by blast
      have "ready_log entry (la @ lb)" using la(2) lb(2) by (auto simp: ready_log_def)
      then show ?thesis
        using fine(2) tuned(2) la(1) lb(1) l
        by (intro exI [of _ "la @ lb"] exI [of _ l] exI [of _ rest]) (simp add: session_body_def start_queue_def)
    qed
  qed
qed

lemma clear_stored_ends:
  "does (clear_stored_config dev t) (\<lambda>r l. unbroken l \<and> set (writes l) \<subseteq> {''!DEFAULTS'' @ [newline]}
     \<and> (r \<noteq> Inl DeviceError \<longrightarrow> writes l = [''!DEFAULTS'' @ [newline]]))"
  by (rule doesI)
     (auto simp: clear_stored_config_def and_then_def clear_def write_nowait_def wait_for_def give_def case_prod_beta Let_def
        split: sum.split)

lemma end_session_log:
  "\<exists>l. ch_log (snd (end_session dev (r, c))) = ch_log c @ l \<and> unbroken l
     \<and> (if fst (end_session dev (r, c)) = Inl DeviceError then set (writes l) \<subseteq> {''!DEFAULTS'' @ [newline]}
        else fst (end_session dev (r, c)) = r \<and> \<not> ch_is_open (snd (end_session dev (r, c)))
           \<and> (\<exists>l0. l = l0 @ [Did Close] \<and> writes l0 = [''!DEFAULTS'' @ [newline]]))"
proof -
  have restored: "ch_log (restore_reader c) = ch_log c" by (simp add: restore_reader_def)
  obtain q c' where q: "clear_stored_config dev 1000 (restore_reader c) = (q, c')" by force
  obtain l where l: "ch_log c' = ch_log c @ l" "unbroken l" "set (writes l) \<subseteq> {''!DEFAULTS'' @ [newline]}"
    "q \<noteq> Inl DeviceError \<longrightarrow> writes l = [''!DEFAULTS'' @ [newline]]"
    using does_log [OF clear_stored_ends q] restored by auto
  show ?thesis
  proof (cases "q = Inl DeviceError")
    case True
    then show ?thesis using q l by (intro exI [of _ l]) (simp add: end_session_def)
  next
    case False
    then have "end_session dev (r, c) = (r, close_channel dev c')"
      using q by (auto simp: end_session_def split: sum.split relay_exn.split)
    then show ?thesis using l False by (intro exI [of _ "l @ [Did Close]"]) (auto simp: close_channel_def)
  qed
qed

subsection \<open>Properties\<close>


subsection \<open>A relay that tunes\<close>

text \<open>A responsive relay that also acknowledges \<open>!CG\<close> and \<open>!GO\<close>, each with one piece.\<close>

lemma ask_then_Inr:
  assumes "and_then clear (\<lambda>_. and_then (write_nowait dev d) (\<lambda>_. wait_for dev pat t)) c = (Inr m, c')"
  shows "and_then clear (\<lambda>_. and_then (write_nowait dev d) (\<lambda>_. and_then (wait_for dev pat t) k)) c = k m c'"
  unfolding ask_then by (rule and_then_Inr [where m = "and_then clear (\<lambda>_. and_then (write_nowait dev d) (\<lambda>_. wait_for dev pat t))", OF assms])

locale tuning_relay = responsive_relay +
  fixes entry :: name_entry
  assumes tunes: "asked (cg_command entry) b \<Longrightarrow> \<exists>b' piece. dev (Wait t) b = (False, [Data piece], b') \<and> awake b'
        \<and> (\<exists>line caps g ch gr. search REPLY_RE (complete_lines piece) = Some (line, caps) \<and> search TUNED_RE line = Some (g, [ch, gr]))"
    and enters: "asked GO_COMMAND b \<Longrightarrow> \<exists>b' piece. dev (Wait t) b = (False, [Data piece], b') \<and> awake b'
        \<and> search GO_RE (complete_lines piece) \<noteq> None"
begin

lemma ask_piece:
  assumes "live c" and "awake (ch_board c)" and "search pat [] = None"
    and "\<And>b. asked d b \<Longrightarrow> \<exists>b' piece. dev (Wait t) b = (False, [Data piece], b') \<and> awake b' \<and> Q piece"
  shows "\<exists>c' piece. live c' \<and> awake (ch_board c') \<and> Q piece
     \<and> and_then clear (\<lambda>_. and_then (write_nowait dev d) (\<lambda>_. wait_for dev pat t)) c = (Inr (search pat (complete_lines piece)), c')"
proof -
  obtain b1 where b1: "dev (Write d) (ch_board c) = (False, [], b1)" "asked d b1"
    using awake_takes [OF assms(2)] by blast
  obtain b2 piece where b2: "dev (Wait t) b1 = (False, [Data piece], b2)" "awake b2" "Q piece"
    using assms(4) [OF b1(2)] by blast
  obtain ds where ds: "ch_pending c = map Data ds" "concat ds = []" using assms(1) unfolding live_def by blast
  have empty: "concat (map (\<lambda>a. case a of Data d \<Rightarrow> d | ReadFails \<Rightarrow> []) (map Data ds)) = []" "ReadFails \<notin> set (map Data ds)"
    using ds(2) by (auto simp: comp_def)
  obtain c1 where c1: "and_then clear (\<lambda>_. write_nowait dev d) c = (Inr (), c1)" "ch_board c1 = b1" "ch_reading c1"
    "ch_pending c1 = []" "\<not> ch_failed c1" "ch_buf c1 = []"
    using assms(1) b1(1) ds empty by (auto simp: and_then_def clear_def write_nowait_def perform_def deliver_def live_def)
  have none: "search pat (complete_lines []) = None" using assms(3) by (simp add: complete_lines_def)
  obtain c2 where c2: "wait_for dev pat t c1 = (Inr (search pat (complete_lines piece)), c2)" "live c2" "ch_board c2 = b2"
    using c1(2-) b2(1) none by (cases "search pat (complete_lines piece)") (auto simp: wait_for_def live_def)
  then show ?thesis
    using c1(1) b2(2,3) by (intro exI [of _ c2] exI [of _ piece]) (auto simp: and_then_def clear_def)
qed

lemma settled:
  assumes "live c" and "awake (ch_board c)"
  shows "\<exists>c'. sleep dev t c = (Inr (), c') \<and> live c' \<and> awake (ch_board c')"
proof -
  obtain b where b: "dev (Sleep t) (ch_board c) = (False, [], b)" "awake b" using awake_sleeps [OF assms(2)] by blast
  obtain ds where ds: "ch_pending c = map Data ds" "concat ds = []" using assms(1) unfolding live_def by blast
  have empty: "concat (map (\<lambda>a. case a of Data d \<Rightarrow> d | ReadFails \<Rightarrow> []) (map Data ds)) = []" "ReadFails \<notin> set (map Data ds)"
    using ds(2) by (auto simp: comp_def)
  show ?thesis using assms(1) b ds empty by (auto simp: sleep_def perform_def deliver_def live_def)
qed

lemma no_reply: "search REPLY_RE [] = None" "search GO_RE [] = None"
  by code_simp+

lemma enter_live:
  assumes "live c" and "awake (ch_board c)"
  shows "\<exists>c'. enter_data_plane dev t False c = (Inr None, c') \<and> live c' \<and> awake (ch_board c')"
proof -
  obtain c1 where c1: "sleep dev TUNE_SETTLE c = (Inr (), c1)" "live c1" "awake (ch_board c1)"
    using settled [OF assms] by blast
  obtain c2 piece where c2: "live c2" "awake (ch_board c2)" "search GO_RE (complete_lines piece) \<noteq> None"
    "and_then clear (\<lambda>_. and_then (write_nowait dev GO_COMMAND) (\<lambda>_. wait_for dev GO_RE t)) c1
      = (Inr (search GO_RE (complete_lines piece)), c2)"
    using ask_piece [OF c1(2,3) no_reply(2) enters] by blast
  have "enter_data_plane dev t False c = (Inr None, c2)"
    unfolding enter_data_plane_def and_then_Inr [where m = "sleep dev TUNE_SETTLE", OF c1(1)] ask_then_Inr [OF c2(4)]
    using c2(3) by (auto simp: ping_def give_def)
  then show ?thesis using c2(1,2) by blast
qed

lemma tune_live:
  assumes "live c" and "awake (ch_board c)"
  shows "\<exists>tu c'. tune dev entry t False c = (Inr tu, c') \<and> live c' \<and> awake (ch_board c')"
proof -
  obtain c1 piece where c1: "live c1" "awake (ch_board c1)"
    "\<exists>line caps g ch gr. search REPLY_RE (complete_lines piece) = Some (line, caps) \<and> search TUNED_RE line = Some (g, [ch, gr])"
    "and_then clear (\<lambda>_. and_then (write_nowait dev (cg_command entry)) (\<lambda>_. wait_for dev REPLY_RE t)) c
      = (Inr (search REPLY_RE (complete_lines piece)), c1)"
    using ask_piece [OF assms no_reply(1) tunes] by blast
  obtain line caps g ch gr where m: "search REPLY_RE (complete_lines piece) = Some (line, caps)" "search TUNED_RE line = Some (g, [ch, gr])"
    using c1(3) by blast
  obtain c2 where c2: "enter_data_plane dev t False c1 = (Inr None, c2)" "live c2" "awake (ch_board c2)"
    using enter_live [OF c1(1,2)] by blast
  have "\<exists>tu. tune dev entry t False c = (Inr tu, c2)"
    unfolding tune_def ask_then_Inr [OF c1(4)] m option.case prod.case list.case and_then_Inr [where m = "enter_data_plane dev t False", OF c2(1)]
    by (simp add: give_def)
  then show ?thesis using c2(2,3) by blast
qed

text \<open>Such a relay gets through the command phase, awake or deaf, and the user's phase runs on it.\<close>

lemma session_reaches_user:
  assumes "dev Open (ch_board c) = (False, [], b)" and "deaf b \<or> awake b"
    and "ch_pending c = []" and "\<not> ch_reading c" and "0 < rc_hello_attempts ctl"
  shows "\<exists>c'. live c' \<and> awake (ch_board c')
     \<and> run_session dev ctl entry False phase c = end_session dev (phase dev (start_queue c'))"
proof -
  obtain c1 where c1: "perform dev Open c = (False, c1)" "ch_board c1 = b" "ch_pending c1 = []" "\<not> ch_reading c1"
    using assms(1,3,4) by (auto simp: perform_def deliver_def)
  let ?c2 = "c1\<lparr>ch_is_open := True\<rparr>"
  obtain b3 where b3: "dev (Sleep (rc_open_settle ctl)) b = (False, [], b3)" "deaf b3 \<or> awake b3"
    using assms(2) deaf_silent [of b "Sleep (rc_open_settle ctl)"] awake_sleeps by blast
  obtain c3 where c3: "sleep dev (rc_open_settle ctl) ?c2 = (Inr (), c3)" "ch_board c3 = b3" "ch_pending c3 = []"
    using c1 b3(1) by (auto simp: sleep_def perform_def deliver_def)
  obtain c4 where c4: "attach_reader c3 = (Inr (), c4)" "idle c4" "ch_board c4 = b3"
    using c3(2,3) by (auto simp: attach_reader_def deliver_def idle_def)
  obtain c5 where c5: "hello dev ctl True BANNER_RE c4 = (Inr (banner_of role name serial), c5)" "live c5" "awake (ch_board c5)"
    using hello_deaf [OF c4(2) _ assms(5)] hello_awake [OF c4(2) _ assms(5)] b3(2) c4(3) by auto
  obtain v c6 where c6: "firmware_version dev 1000 c5 = (Inr v, c6)" "live c6" "awake (ch_board c6)"
    using version_live [OF c5(2,3)] by blast
  obtain c7 where c7: "normalize dev 1500 1 c6 = (Inr (), c7)" "live c7" "awake (ch_board c7)"
    using normalize_live [OF c6(2,3)] by blast
  obtain tu c8 where c8: "tune dev entry 8000 False c7 = (Inr tu, c8)" "live c8" "awake (ch_board c8)"
    using tune_live [OF c7(2,3)] by blast
  have "run_session dev ctl entry False phase c = end_session dev (phase dev (start_queue c8))"
    using c1(1) c3(1) c4(1) c5(1) c6(1) c7(1) c8(1)
    by (simp add: run_session_def session_body_def or_hardware_def take_over_def and_then_def give_def)
  then show ?thesis using c8(2,3) by blast
qed

end

text \<open>The scripted relay of \<open>MB_Relay\<close>, which also tunes to channel 3, group 4.\<close>

definition tuning_reply :: "string \<Rightarrow> string list" where
  "tuning_reply d =
     (if d = ''!CG 3 4'' @ [newline] then [''# channel: 3 group: 4'' @ [newline]]
      else if d = GO_COMMAND then [''# entering data plane'' @ [newline]]
      else scripted_reply d)"

definition tuning_board :: "(nat \<times> string) dev" where
  "tuning_board op b =
     (case op of
        Wait _ \<Rightarrow> (False, if fst b = 2 then map Data (tuning_reply (snd b)) else [], (fst b, []))
      | _ \<Rightarrow> scripted_board op b)"

definition demo_entry :: name_entry where
  "demo_entry = row_to_entry ''togov'' 3 4 SOURCE_REGISTRY 0"

lemma demo_command: "cg_command demo_entry = ''!CG 3 4'' @ [newline]"
  by code_simp

lemma tuning_replies: "good_reply ''RADIOBRIDGE'' ''togov'' ''1234'' d (tuning_reply d)"
  by (auto simp: tuning_reply_def GO_COMMAND_def good_reply_def scripted_reply_def quiet_lines_def banner_text_def intro!: exI [of _ "[]"])

interpretation tuning: tuning_relay tuning_board "\<lambda>b. fst b = 0" "\<lambda>b. fst b = 1" "\<lambda>b. fst b = 2"
    "\<lambda>d b. fst b = 2 \<and> snd b = d" "''RADIOBRIDGE''" "''togov''" "''1234''" demo_entry
proof (unfold_locales, goal_cases)
  case (1 b op)
  then show ?case by (cases op) (auto simp: tuning_board_def scripted_board_def)
next
  case (2 b t)
  then show ?case by (intro exI [of _ "(1, [])"] exI [of _ "[''boot'']"]) (simp add: tuning_board_def scripted_board_def)
next
  case (3 b t)
  then show ?case by (intro exI [of _ "(2, snd b)"] exI [of _ "[]"]) (simp add: tuning_board_def scripted_board_def)
next
  case (4 b t)
  then show ?case by (auto simp: tuning_board_def scripted_board_def)
next
  case (5 b d)
  then show ?case by (auto simp: tuning_board_def scripted_board_def)
next
  case (6 d b t)
  then show ?case
    using tuning_replies [of d] by (intro exI [of _ "(2, [])"] exI [of _ "tuning_reply d"]) (simp add: tuning_board_def)
next
  case 7
  then show ?case by (rule togov_parts)
next
  case (8 b t)
  have m: "search REPLY_RE (complete_lines (''# channel: 3 group: 4'' @ [newline])) = Some (''# channel: 3 group: 4'' @ [newline], [])"
    "search TUNED_RE (''# channel: 3 group: 4'' @ [newline]) = Some (''# channel: 3 group: 4'', [''3'', ''4''])"
    by code_simp+
  show ?case
    using 8 m
    by (intro exI [of _ "(2, [])"] exI [of _ "''# channel: 3 group: 4'' @ [newline]"])
       (simp add: tuning_board_def tuning_reply_def demo_command)
next
  case (9 b t)
  have "search GO_RE (complete_lines (''# entering data plane'' @ [newline])) = Some (''# entering data plane'' @ [newline], [])"
    by code_simp
  then show ?case
    using 9
    by (intro exI [of _ "(2, [])"] exI [of _ "''# entering data plane'' @ [newline]"])
       (simp add: tuning_board_def tuning_reply_def GO_COMMAND_def)
qed

definition demo_session :: session_args where
  "demo_session = \<lparr>sa_send = [], sa_expect = [], sa_timeout = 8000, sa_probe = False, sa_escape = '']''\<rparr>"

definition demo_phase :: "(nat \<times> string) user_phase" where
  "demo_phase = user_phase (\<lambda>_. None) (\<lambda>_. None) [Typed 5 ''hi''] demo_session"

lemma demo_phase_runs:
  assumes "live c" and "fst (ch_board c) = 2"
  shows "\<exists>heard c'. demo_phase tuning_board (start_queue c) = (Inr (Exit EXIT_OK heard), c')"
proof -
  obtain ds where ds: "ch_pending c = map Data ds" using assms(1) by (auto simp: live_def)
  have drained: "\<not> snd (drain (map Data ds))" by (induction ds) (simp_all add: case_prod_beta)
  have esc: "escape_char '']'' = Some (CHR 0x1D)" by code_simp
  have quiet: "CHR 0x1D \<notin> set ''hi''" by simp
  show ?thesis
    using ds drained quiet
    by (simp add: demo_phase_def user_phase_def demo_session_def run_interactive_def esc case_prod_beta start_queue_def
        perform_def deliver_def write_nowait_def and_then_def give_def tuning_board_def scripted_board_def)
qed

lemma demo_session_runs:
  "\<exists>heard. fst (run_session tuning_board relay_control_defaults demo_entry False demo_phase (scripted_chan 0 False))
    = Inr (Exit EXIT_OK heard)"
proof -
  obtain c' where c': "live c'" "fst (ch_board c') = 2"
    "run_session tuning_board relay_control_defaults demo_entry False demo_phase (scripted_chan 0 False)
      = end_session tuning_board (demo_phase tuning_board (start_queue c'))"
    using tuning.session_reaches_user [of "scripted_chan 0 False" "(0, [])" relay_control_defaults demo_phase]
    by (auto simp: scripted_chan_def tuning_board_def scripted_board_def relay_control_defaults_def)
  obtain heard c2 where c2: "demo_phase tuning_board (start_queue c') = (Inr (Exit EXIT_OK heard), c2)"
    using demo_phase_runs [OF c'(1,2)] by blast
  have quiet: "fst (clear_stored_config tuning_board 1000 c) \<noteq> Inl DeviceError" for c
  proof -
    have "fst (wait_loop pat buf f as) \<noteq> Inl DeviceError" for pat buf f as
      by (induction pat buf f as rule: wait_loop.induct) (auto split: option.split arrival.split)
    then show ?thesis
      by (auto simp: clear_stored_config_def and_then_def clear_def write_nowait_def wait_for_def perform_def give_def
          tuning_board_def scripted_board_def case_prod_beta Let_def split: sum.split)
  qed
  have "fst (end_session tuning_board (Inr (Exit EXIT_OK heard), c2)) = Inr (Exit EXIT_OK heard)"
    using quiet [of "restore_reader c2"]
    by (auto simp: end_session_def split: prod.split sum.split relay_exn.split)
  then show ?thesis using c'(3) c2 by auto
qed


subsection \<open>Connecting through the local registry\<close>

text \<open>The local server as the other end of the command's connection, as \<open>remote_exchange\<close> is for the remote one.\<close>

definition local_exchange :: "int \<Rightarrow> nat \<Rightarrow> remote_end exchange" where
  "local_exchange pid me q r =
     (case re_worlds r of
        [] \<Rightarrow> (None, r\<lparr>re_mode := Closed\<rparr>)
      | w # ws \<Rightarrow>
          if re_mode r \<noteq> Continue then (None, r)
          else let c = interleave w (re_conn r);
                   (c', m) = serve_line (\<lambda>w q. local_dispatch_op w pid me q) w (Request q) c
               in (if length (cn_sent c') = length (cn_sent c) then None else Some (last (cn_sent c')),
                   r\<lparr>re_conn := c', re_mode := m, re_worlds := ws\<rparr>))"

lemma local_exchange_step:
  assumes "re_mode r = Continue" and "re_worlds r = w # ws" and "calm w"
    and "local_dispatch_op w pid me q (re_conn r) = (resp, c', m)" and "\<not> raises resp" and "m \<noteq> Died" and "m \<noteq> Closed"
    and "cn_sent c' = cn_sent (re_conn r)"
  shows "local_exchange pid me q r
    = (Some resp, r\<lparr>re_conn := c'\<lparr>cn_sent := cn_sent c' @ [resp]\<rparr>, re_mode := m, re_worlds := ws\<rparr>)"
  using assms by (simp add: local_exchange_def interleave_def calm_def serve_line_def answer_def)

lemma local_ask:
  assumes "local_exchange pid me q r = (Some resp, r')"
  shows "local_request (local_exchange pid me) dial q (Some r)
    = (if reply_ok resp then Inr resp
       else Inl (case resp of Failed e \<Rightarrow> raise_for_error e | _ \<Rightarrow> RegistryClientError InternalError), Some r')"
  using assms by (simp add: local_request_def ask_def connect_local_def raw_request_def)

text \<open>What the four requests of the command do.\<close>

lemma local_list:
  "local_dispatch_op w pid me (op_request ''list'') c = (op_list (registry_of c), c, Continue)"
  by (simp add: local_dispatch_op_def op_request_def no_fields_def stay_def Let_def)

lemma local_names_get:
  assumes "validate robot = Inr robot" and "robot \<noteq> []"
  shows "local_dispatch_op w pid me ((op_request ''names_get'')\<lparr>rq_name := Some robot\<rparr>) c
    = (OkEntry (get_name_row (rg_store (registry_of c)) robot), c, Continue)"
  using assms
  by (simp add: local_dispatch_op_def op_request_def no_fields_def stay_def op_names_get_def request.truncate_def truthy_def
      get_name_def Let_def)

lemma local_lock:
  assumes "resolve_visible local_visible (registry_of c) uid = Inr d" and "\<not> is_detached d" and "uid \<noteq> []"
    and "dget (rg_locks (registry_of c)) (dv_uid d) = None" and "kind \<in> set LOCK_KINDS" and "kind \<noteq> []"
  shows "\<exists>evs conns. local_dispatch_op w pid me (lock_request uid kind) c
    = (Ok, (set_registry ((registry_of c)\<lparr>rg_locks := dset (dv_uid d)
              \<lparr>ls_kind = kind, ls_holder = local_holder pid, ls_label = None, ls_since = wd_wall w\<rparr> (rg_locks (registry_of c)),
              rg_conns := conns\<rparr>) c)
              \<lparr>cn_acquired := List.insert (dv_uid d) (cn_acquired c), cn_events := cn_events c @ evs\<rparr>, Continue)"
  using assms
  by (auto simp: local_dispatch_op_def lock_request_def uid_request_def op_request_def no_fields_def request.truncate_def
      dispatch_lock_def op_lock_def truthy_def acquire_lock_eq stay_def handled_def Let_def)

lemma local_unlock:
  assumes "resolve_visible local_visible (registry_of c) uid = Inr d" and "uid \<noteq> []"
    and "dget (rg_locks (registry_of c)) (dv_uid d) = Some st" and "ls_holder st = local_holder pid"
  shows "\<exists>evs rg'. local_dispatch_op w pid me (uid_request ''unlock'' uid) c
    = (OkReleased True, (set_registry rg' c)\<lparr>cn_acquired := removeAll (dv_uid d) (cn_acquired c), cn_events := cn_events c @ evs\<rparr>, Continue)
    \<and> rg_locks rg' = ddel (dv_uid d) (rg_locks (registry_of c)) \<and> rg_store rg' = rg_store (registry_of c)"
proof -
  let ?rg = "registry_of c"
  let ?d = "dispatch_unlock (wd_tick w) (request.truncate (uid_request ''unlock'' uid)) (local_holder pid) (cn_acquired c) ?rg"
  have unlock: "fst ?d = OkReleased True" "rg_locks (fst (snd ?d)) = ddel (dv_uid d) (rg_locks ?rg)"
    "rg_store (fst (snd ?d)) = rg_store ?rg" "fst (snd (snd ?d)) = removeAll (dv_uid d) (cn_acquired c)"
    using assms
    by (simp_all add: dispatch_unlock_def uid_request_def op_request_def no_fields_def request.truncate_def op_unlock_def truthy_def
        release_lock_eq)
  have "local_dispatch_op w pid me (uid_request ''unlock'' uid) c = stay (handled ?d c)"
    by (simp add: local_dispatch_op_def uid_request_def op_request_def no_fields_def Let_def)
  then show ?thesis
    using unlock by (intro exI [of _ "snd (snd (snd ?d))"] exI [of _ "fst (snd ?d)"]) (simp add: stay_def handled_def case_prod_beta)
qed

lemma free_relay_found:
  assumes "find_free_relay devices host = Some view"
  shows "view \<in> set devices \<and> free_relay host view
     \<and> (dv_host (dw_device view) \<noteq> None \<longrightarrow> (\<forall>v\<in>set devices. free_relay host v \<longrightarrow> dv_host (dw_device v) \<noteq> None))"
proof -
  let ?key = "\<lambda>d. dv_host (dw_device d) \<noteq> None" and ?free = "filter (free_relay host) devices"
  obtain rest where s: "sort_key ?key ?free = view # rest"
    using assms by (auto simp: find_free_relay_def split: list.splits)
  then have "set ?free = set (view # rest)" by (metis set_sort)
  moreover have "sorted (map ?key (view # rest))" using s by (metis sorted_sort_key)
  then have "\<forall>v\<in>set rest. ?key view \<le> ?key v" by simp
  ultimately show ?thesis by auto
qed

lemma device_of_view [simp]: "dw_device (device_dict rg d) = d"
  by (simp add: device_dict_def Let_def split: option.split)

text \<open>The channel and group a session tunes to are those the registry would assign to the robot.\<close>

definition entry_for :: "store \<Rightarrow> string \<Rightarrow> name_entry" where
  "entry_for s robot =
     (case get_name_row s robot of
        Some e \<Rightarrow> e
      | None \<Rightarrow> (case name_to_radio robot of
                  Inr (channel, grp) \<Rightarrow> row_to_entry robot channel grp SOURCE_DERIVED 0
                | Inl _ \<Rightarrow> row_to_entry robot 0 0 SOURCE_DERIVED 0))"

lemma entry_for_resolve:
  assumes "validate robot = Inr robot"
  shows "\<exists>s' e. resolve now robot s = Inr (s', e) \<and> en_channel e = en_channel (entry_for s robot) \<and> en_group e = en_group (entry_for s robot)"
proof (cases "get_name_row s robot")
  case None
  obtain ch gr where "name_to_radio robot = Inr (ch, gr)" using name_to_radio_total [OF assms] by (metis prod.exhaust)
  then show ?thesis
    using assms None
    by (auto simp: resolve_def entry_for_def reread_name_def get_name_row_def insert_name_def row_to_entry_def row_get_def find_append)
next
  case (Some e)
  then show ?thesis using assms by (simp add: resolve_def entry_for_def)
qed

lemma resolve_entry_local:
  assumes "re_mode r = Continue" and "re_worlds r = w # ws" and "calm w" and "validate robot = Inr robot" and "robot \<noteq> []"
  shows "\<exists>r'. resolve_entry (local_request (local_exchange pid me) dial) robot (Some r)
      = (Inr (entry_for (rg_store (registry_of (re_conn r))) robot), Some r')
     \<and> re_mode r' = Continue \<and> re_worlds r' = ws \<and> registry_of (re_conn r') = registry_of (re_conn r)"
proof -
  let ?row = "get_name_row (rg_store (registry_of (re_conn r))) robot"
  let ?r = "r\<lparr>re_conn := (re_conn r)\<lparr>cn_sent := cn_sent (re_conn r) @ [OkEntry ?row]\<rparr>, re_mode := Continue, re_worlds := ws\<rparr>"
  have x: "local_exchange pid me ((op_request ''names_get'')\<lparr>rq_name := Some robot\<rparr>) r = (Some (OkEntry ?row), ?r)"
    using local_exchange_step [OF assms(1-3) local_names_get [OF assms(4,5)]] by (simp add: raises_def)
  obtain ch gr where "name_to_radio robot = Inr (ch, gr)" using name_to_radio_total [OF assms(4)] by (metis prod.exhaust)
  then show ?thesis
    by (intro exI [of _ ?r])
       (auto simp: resolve_entry_def client_names_get_def returning_def local_ask [OF x] reply_ok_def entry_for_def registry_of_def
         split: option.split)
qed

lemma client_list_local:
  assumes "re_mode r = Continue" and "re_worlds r = w # ws" and "calm w"
  shows "\<exists>r'. client_list (local_request (local_exchange pid me) dial) (Some r)
      = (Inr (map (device_dict (registry_of (re_conn r))) (list_devices (rg_store (registry_of (re_conn r))))), Some r')
     \<and> re_mode r' = Continue \<and> re_worlds r' = ws \<and> registry_of (re_conn r') = registry_of (re_conn r)"
proof -
  let ?list = "op_list (registry_of (re_conn r))"
  let ?r = "r\<lparr>re_conn := (re_conn r)\<lparr>cn_sent := cn_sent (re_conn r) @ [?list]\<rparr>, re_mode := Continue, re_worlds := ws\<rparr>"
  have x: "local_exchange pid me (op_request ''list'') r = (Some ?list, ?r)"
    using local_exchange_step [OF assms local_list] by (simp add: raises_def op_list_def)
  then show ?thesis
    by (intro exI [of _ ?r]) (simp add: client_list_def returning_def local_ask [OF x] op_list_def reply_ok_def registry_of_def)
qed

lemma client_lock_local:
  assumes "re_mode r = Continue" and "re_worlds r = w # ws" and "calm w"
    and "resolve_visible local_visible (registry_of (re_conn r)) uid = Inr d" and "\<not> is_detached d" and "uid \<noteq> []"
    and "dget (rg_locks (registry_of (re_conn r))) (dv_uid d) = None" and "kind \<in> set LOCK_KINDS" and "kind \<noteq> []"
  shows "\<exists>r'. client_lock (local_request (local_exchange pid me) dial) uid kind (Some r) = (Inr (), Some r')
     \<and> re_mode r' = Continue \<and> re_worlds r' = ws \<and> rg_store (registry_of (re_conn r')) = rg_store (registry_of (re_conn r))
     \<and> rg_locks (registry_of (re_conn r')) = dset (dv_uid d)
          \<lparr>ls_kind = kind, ls_holder = local_holder pid, ls_label = None, ls_since = wd_wall w\<rparr> (rg_locks (registry_of (re_conn r)))"
proof -
  obtain c where c: "local_dispatch_op w pid me (lock_request uid kind) (re_conn r) = (Ok, c, Continue)"
    "rg_locks (registry_of c) = dset (dv_uid d)
       \<lparr>ls_kind = kind, ls_holder = local_holder pid, ls_label = None, ls_since = wd_wall w\<rparr> (rg_locks (registry_of (re_conn r)))"
    "rg_store (registry_of c) = rg_store (registry_of (re_conn r))" "cn_sent c = cn_sent (re_conn r)"
    using local_lock [OF assms(4-9), of w pid me] by (auto simp: registry_of_def set_registry_def)
  let ?r = "r\<lparr>re_conn := c\<lparr>cn_sent := cn_sent c @ [Ok]\<rparr>, re_mode := Continue, re_worlds := ws\<rparr>"
  have x: "local_exchange pid me (lock_request uid kind) r = (Some Ok, ?r)"
    using local_exchange_step [OF assms(1-3) c(1)] c(4) by (simp add: raises_def)
  show ?thesis
    using c(2,3) by (intro exI [of _ ?r]) (simp add: client_lock_def returning_def local_ask [OF x] reply_ok_def registry_of_def)
qed

lemma client_unlock_local:
  assumes "re_mode r = Continue" and "re_worlds r = w # ws" and "calm w"
    and "resolve_visible local_visible (registry_of (re_conn r)) uid = Inr d" and "uid \<noteq> []"
    and "dget (rg_locks (registry_of (re_conn r))) (dv_uid d) = Some st" and "ls_holder st = local_holder pid"
  shows "\<exists>r'. client_unlock (local_request (local_exchange pid me) dial) uid (Some r) = (Inr True, Some r')
     \<and> re_mode r' = Continue \<and> re_worlds r' = ws \<and> rg_store (registry_of (re_conn r')) = rg_store (registry_of (re_conn r))
     \<and> rg_locks (registry_of (re_conn r')) = ddel (dv_uid d) (rg_locks (registry_of (re_conn r)))"
proof -
  obtain c where c: "local_dispatch_op w pid me (uid_request ''unlock'' uid) (re_conn r) = (OkReleased True, c, Continue)"
    "rg_locks (registry_of c) = ddel (dv_uid d) (rg_locks (registry_of (re_conn r)))"
    "rg_store (registry_of c) = rg_store (registry_of (re_conn r))" "cn_sent c = cn_sent (re_conn r)"
    using local_unlock [OF assms(4-7), of w me] by (auto simp: registry_of_def set_registry_def)
  let ?r = "r\<lparr>re_conn := c\<lparr>cn_sent := cn_sent c @ [OkReleased True]\<rparr>, re_mode := Continue, re_worlds := ws\<rparr>"
  have x: "local_exchange pid me (uid_request ''unlock'' uid) r = (Some (OkReleased True), ?r)"
    using local_exchange_step [OF assms(1-3) c(1)] c(4) by (simp add: raises_def)
  show ?thesis
    using c(2,3) by (intro exI [of _ ?r]) (simp add: client_unlock_def returning_def local_ask [OF x] reply_ok_def registry_of_def)
qed

lemma parse_target_robot:
  assumes "parse_target target = Inr (robot, host)"
  shows "validate robot = Inr robot" and "robot \<noteq> []"
proof -
  obtain part where "validate part = Inr robot"
    using assms by (auto simp: parse_target_def Let_def case_prod_beta split: sum.splits if_splits)
  then show v: "validate robot = Inr robot" by (rule validate_idem)
  then show "robot \<noteq> []" by (auto simp: validate_Inr five_letters_def NAME_LEN_def)
qed


text \<open>A registry with one free relay and a name, seen from a fresh connection, and the relay on its port.\<close>

definition demo_end :: remote_end where
  "demo_end = \<lparr>re_conn = new_conn (demo_host\<lparr>ho_registry := pool_registry
       \<lparr>rg_store := (rg_store pool_registry)\<lparr>st_names := [demo_entry]\<rparr>\<rparr>\<rparr>), re_authenticated = True,
     re_mode = Continue, re_worlds = replicate 4 demo_world\<rparr>"

definition demo_relay_command :: "(nat \<times> string) relay_command" where
  "demo_relay_command = \<lparr>rcm_control = relay_control_defaults, rcm_probe = False, rcm_phase = demo_phase\<rparr>"

lemma session_of_pair:
  assumes "en_channel e = en_channel entry" and "en_group e = en_group entry"
  shows "run_session dev ctl e probing phase c = run_session dev ctl entry probing phase c"
proof -
  have "tune dev e 8000 probing = tune dev entry 8000 probing" using assms by (simp add: tune_def cg_command_def)
  then have "session_body dev ctl e probing phase = session_body dev ctl entry probing phase" by (simp add: session_body_def)
  then show ?thesis unfolding run_session_def by presburger
qed


subsection \<open>How long a script waits\<close>

lemma script_loop_ends:
  assumes "now \<le> deadline"
  shows "snd (snd (fst (script_loop dev pat deadline now q buf c))) \<le> deadline"
  using assms
proof (induction dev pat deadline now q buf c rule: script_loop.induct)
  case (1 dev pat deadline now q buf c)
  obtain a n c' where g: "queue_get dev (min 200 (deadline - now)) c = (a, n, c')" by (metis prod_cases3)
  then have n: "n \<le> deadline - now" using queue_get_le by fastforce
  show ?case
  proof (cases "deadline \<le> now")
    case False
    show ?thesis
      using False n 1 by (subst script_loop.simps) (auto simp: g split: option.split arrival.split)
  qed (use 1(3) in \<open>simp add: script_loop.simps\<close>)
qed

text \<open>With \<open>--expect\<close> a script succeeds exactly when what was printed matches.\<close>

lemma script_loop_seen:
  "fst (fst (script_loop dev (Some f) deadline now q buf c)) \<Longrightarrow> f (fst (snd (fst (script_loop dev (Some f) deadline now q buf c))))"
proof (induction dev "Some f" deadline now q buf c rule: script_loop.induct)
  case (1 dev deadline now q buf c)
  obtain a n c' where g: "queue_get dev (min 200 (deadline - now)) c = (a, n, c')" by (metis prod_cases3)
  have run: "script_loop dev (Some f) deadline now q buf c =
     (if deadline \<le> now then ((False, buf, now), c)
      else case a of None \<Rightarrow> script_loop dev (Some f) deadline (now + n) q buf c'
        | Some ReadFails \<Rightarrow> ((False, buf, now + n), c')
        | Some (Data d) \<Rightarrow> if f (buf @ d) then ((True, buf @ d, now + n), c')
            else script_loop dev (Some f) deadline (now + n) (now + n + SCRIPT_IDLE_GAP) (buf @ d) c')"
    by (subst script_loop.simps) (auto simp: g hit_def split: option.split arrival.split)
  show ?case
    using 1(3) 1(1) [OF _ g [symmetric] _ refl] 1(2) [OF _ g [symmetric] _ refl]
    unfolding run by (auto simp: hit_def split: option.splits arrival.splits if_splits)
qed

subsection \<open>Where the code does not do what it means to\<close>

text \<open>\<open>_find_free_relay\<close> looks at \<open>lock_kind\<close> alone, which the registry leaves empty on every row of another host, and
  never at the state: a relay that another host shows as locked and one that is unplugged count as free.\<close>

lemma unusable_relays_count_as_free:
  "free_relay None (device_dict rg d) \<longleftrightarrow>
     is_relay_role (dv_role d) \<and> (dv_host d = None \<longrightarrow> status (rg_locks rg) (dv_uid d) = None)"
  by (simp add: free_relay_def device_dict_def Let_def split: option.split)

end
