(* ===== verification/MB_Serial.thy ===== *)
theory MB_Serial
  imports MB_RelayCli
begin

text \<open>
  Model of \<open>mbserial\<close>: \<open>src/mbtools/serial/connect.py\<close> (a session on a local port), \<open>serial/remote_connect.py\<close>
  (a session on another host's port) and \<open>serial/cli.py\<close>. pyserial is an argument \<open>ser\<close>: for each call on a
  serial object whether it raises and the next state of the port; the calls made are kept in order. Both kinds of
  session are read through the interface \<open>line_io\<close>. Times are in milliseconds; text is not decoded.
\<close>

subsection \<open>Opening a local port\<close>

datatype ser_call =
    Create | SetPort string | SetDtr bool | SetRts bool | OpenPort | ClosePort | SendBreak nat | Settle nat
  | ResetInput | WriteBytes string | Flush

record 'p serial =
  sp_port :: 'p
  sp_calls :: "ser_call list"

type_synonym 'p pyserial = "ser_call \<Rightarrow> 'p \<Rightarrow> bool \<times> 'p"

datatype serial_exn = ClientError client_exn | ConnectError | PortError

definition call :: "'p pyserial \<Rightarrow> ser_call \<Rightarrow> 'p serial \<Rightarrow> bool \<times> 'p serial" where
  "call ser op s = (let (bad, p) = ser op (sp_port s) in (bad, \<lparr>sp_port = p, sp_calls = sp_calls s @ [op]\<rparr>))"

text \<open>Calls in order, up to the first that raises; \<open>e\<close> is what its exception becomes.\<close>

fun calls :: "'p pyserial \<Rightarrow> serial_exn \<Rightarrow> ser_call list \<Rightarrow> 'p serial \<Rightarrow> (serial_exn + unit) \<times> 'p serial" where
  "calls ser e [] s = (Inr (), s)"
| "calls ser e (op # ops) s = (case call ser op s of (bad, s') \<Rightarrow> if bad then (Inl e, s') else calls ser e ops s')"

definition after :: "(serial_exn + unit) \<times> 'p serial \<Rightarrow> ('p serial \<Rightarrow> (serial_exn + unit) \<times> 'p serial) \<Rightarrow> (serial_exn + unit) \<times> 'p serial" where
  "after r k = (case r of (Inl e, s) \<Rightarrow> (Inl e, s) | (Inr _, s) \<Rightarrow> k s)"

text \<open>\<open>if settle: time.sleep(settle)\<close>; a sleep does not raise.\<close>

definition settle_for :: "'p pyserial \<Rightarrow> nat \<Rightarrow> 'p serial \<Rightarrow> (serial_exn + unit) \<times> 'p serial" where
  "settle_for ser t s = (Inr (), if t = 0 then s else snd (call ser (Settle t) s))"

definition OPEN_SETTLE :: nat where "OPEN_SETTLE = 300"
definition RESET_SETTLE :: nat where "RESET_SETTLE = 300"
definition IDLE_GAP :: nat where "IDLE_GAP = 400"
definition READ_TIMEOUT :: nat where "READ_TIMEOUT = 100"
definition EOF_DRAIN :: nat where "EOF_DRAIN = 400"
definition BREAK_DURATION :: nat where "BREAK_DURATION = 400"
definition LOCK_KIND_SERIAL :: string where "LOCK_KIND_SERIAL = ''serial''"

definition open_no_reboot :: "'p pyserial \<Rightarrow> string \<Rightarrow> nat \<Rightarrow> 'p serial \<Rightarrow> (serial_exn + unit) \<times> 'p serial" where
  "open_no_reboot ser port settle s =
     after (calls ser PortError [Create, SetPort port, SetDtr False, SetRts False] s) (\<lambda>s1.
     after (calls ser ConnectError [OpenPort] s1) (settle_for ser settle))"

definition reset_via_break :: "'p pyserial \<Rightarrow> nat \<Rightarrow> nat \<Rightarrow> 'p serial \<Rightarrow> (serial_exn + unit) \<times> 'p serial" where
  "reset_via_break ser duration settle s =
     after (calls ser ConnectError [SendBreak duration] s) (settle_for ser settle)"

definition reset_via_reopen :: "'p pyserial \<Rightarrow> string \<Rightarrow> nat \<Rightarrow> 'p serial \<Rightarrow> (serial_exn + unit) \<times> 'p serial" where
  "reset_via_reopen ser port settle s =
     after (calls ser ConnectError [Create, SetPort port, OpenPort] (snd (call ser ClosePort s))) (\<lambda>s1.
     after (settle_for ser settle s1) (calls ser PortError [SetDtr False, SetRts False]))"

definition open_and_reset :: "'p pyserial \<Rightarrow> bool \<Rightarrow> bool \<Rightarrow> string \<Rightarrow> 'p serial \<Rightarrow> (serial_exn + unit) \<times> 'p serial" where
  "open_and_reset ser linux reset port s =
     after (open_no_reboot ser port OPEN_SETTLE s) (\<lambda>s1.
       if \<not> reset then (Inr (), s1)
       else if linux then reset_via_break ser BREAK_DURATION RESET_SETTLE s1
       else reset_via_reopen ser port RESET_SETTLE s1)"

text \<open>\<open>connect\<close>: the uid of the session, or the exception.\<close>

definition connect ::
    "'s requester \<Rightarrow> 'p pyserial \<Rightarrow> bool \<Rightarrow> bool \<Rightarrow> string \<Rightarrow> 's option \<Rightarrow> 'p serial \<Rightarrow> (serial_exn + string) \<times> 's option \<times> 'p serial" where
  "connect rq ser linux reset target link s =
     (case client_find rq target link of
        (Inl e, link1) \<Rightarrow> (Inl (ClientError e), link1, s)
      | (Inr view, link1) \<Rightarrow>
          (let uid = dv_uid (dw_device view) in
           if \<not> truthy (dv_port (dw_device view)) then (Inl ConnectError, link1, s)
           else case client_lock rq uid LOCK_KIND_SERIAL link1 of
             (Inl e, link2) \<Rightarrow> (Inl (ClientError e), link2, s)
           | (Inr _, link2) \<Rightarrow>
               (case open_and_reset ser linux reset (the (dv_port (dw_device view))) s of
                  (Inr _, s1) \<Rightarrow> (Inr uid, link2, s1)
                | (Inl e, s1) \<Rightarrow>
                    (case client_unlock rq uid link2 of
                       (Inl e', link3) \<Rightarrow> (Inl (if is_client_error e' then e else ClientError e'), link3, s1)
                     | (Inr _, link3) \<Rightarrow> (Inl e, link3, s1)))))"

text \<open>\<open>Session.close\<close>: a port that does not close is ignored, and so is a client error; \<open>Some\<close> is what escapes.\<close>

definition session_close ::
    "'s requester \<Rightarrow> 'p pyserial \<Rightarrow> string \<Rightarrow> bool \<Rightarrow> 's option \<Rightarrow> 'p serial \<Rightarrow> client_exn option \<times> bool \<times> 's option \<times> 'p serial" where
  "session_close rq ser uid was_closed link s =
     (if was_closed then (None, True, link, s)
      else let s1 = snd (call ser ClosePort s) in
           (case client_unlock rq uid link of
              (Inl e, link1) \<Rightarrow> (if is_client_error e then None else Some e, True, link1, s1)
            | (Inr _, link1) \<Rightarrow> (None, True, link1, s1)))"

subsection \<open>Talking to a board\<close>

text \<open>The part of a session that \<open>send_command\<close> uses: dropping input, writing (and flushing), and reading a line, which
  takes some time and may return nothing or part of a line.\<close>

record 's line_io =
  io_reset :: "'s \<Rightarrow> bool \<times> 's"
  io_write :: "string \<Rightarrow> 's \<Rightarrow> bool \<times> 's"
  io_readline :: "'s \<Rightarrow> (nat \<times> string) \<times> 's"

definition rstrip_eol :: "string \<Rightarrow> string" where
  "rstrip_eol s = rev (dropWhile (\<lambda>c. c = CHR 0x0D \<or> c = newline) (rev s))"

text \<open>The loop of \<open>send_command\<close>; everything but the \<open>n\<close>-th \<open>readline\<close> takes \<open>lag n\<close>. \<open>None\<close> is a loop that never ends.\<close>

partial_function (option) reply_loop ::
    "('s \<Rightarrow> (nat \<times> string) \<times> 's) \<Rightarrow> (nat \<Rightarrow> nat) \<Rightarrow> nat \<Rightarrow> nat \<Rightarrow> nat \<Rightarrow> nat \<Rightarrow> nat \<Rightarrow> string list \<Rightarrow> 's
       \<Rightarrow> (string list \<times> nat \<times> nat \<times> 's) option" where
  "reply_loop readline lag idle_gap deadline quiet_after n now lines s =
     (if deadline \<le> now \<or> (lines \<noteq> [] \<and> quiet_after \<le> now) then Some (lines, n, now, s)
      else let ((t, raw), s') = readline s; now' = now + t + lag n
           in if raw = [] then reply_loop readline lag idle_gap deadline quiet_after (Suc n) now' lines s'
              else reply_loop readline lag idle_gap deadline (now' + idle_gap) (Suc n) now'
                     (if rstrip_eol raw = [] then lines else lines @ [rstrip_eol raw]) s')"

text \<open>\<open>send_command\<close>: \<open>Inl\<close> when the session raises.\<close>

definition send_command ::
    "'s line_io \<Rightarrow> (nat \<Rightarrow> nat) \<Rightarrow> string \<Rightarrow> nat \<Rightarrow> nat \<Rightarrow> 's \<Rightarrow> ((unit + string list) \<times> 's) option" where
  "send_command io lag message timeout idle_gap s =
     (case io_reset io s of (bad1, s1) \<Rightarrow>
        if bad1 then Some (Inl (), s1)
        else case io_write io (message @ [newline]) s1 of (bad2, s2) \<Rightarrow>
          if bad2 then Some (Inl (), s2)
          else case reply_loop (io_readline io) lag idle_gap timeout timeout 0 0 [] s2 of
                 None \<Rightarrow> None
               | Some (lines, _, _, s3) \<Rightarrow> Some (Inr lines, s3))"

text \<open>What the user types at \<open>interact\<close>; the end of the list is Ctrl-D.\<close>

datatype keyboard = Line string | CtrlC

fun interact :: "(string \<Rightarrow> 's \<Rightarrow> bool \<times> 's) \<Rightarrow> keyboard list \<Rightarrow> 's \<Rightarrow> (unit + int) \<times> 's" where
  "interact write [] s = (Inr EXIT_OK, s)"
| "interact write (CtrlC # ks) s = (Inr EXIT_OK, s)"
| "interact write (Line l # ks) s =
     (if l = [] then (Inr EXIT_OK, s)
      else case write l s of (bad, s') \<Rightarrow> if bad then (Inl (), s') else interact write ks s')"

subsection \<open>A session on another host's port\<close>

text \<open>\<open>RemoteSession\<close>. \<open>rm_feed\<close> is what its reader thread will get from the stream, millisecond by millisecond;
  a closed stream and a failing \<open>read\<close> are both the end.\<close>

datatype payload = Payload string | StreamEnd

record remote_session =
  rm_buf :: string
  rm_eof :: bool
  rm_feed :: "payload list list"

text \<open>\<open>_pump\<close>: after the end the thread is gone.\<close>

fun pump_payloads :: "payload list \<Rightarrow> remote_session \<Rightarrow> remote_session" where
  "pump_payloads [] s = s"
| "pump_payloads (p # ps) s =
     (if rm_eof s then s
      else case p of StreamEnd \<Rightarrow> s\<lparr>rm_eof := True\<rparr> | Payload d \<Rightarrow> pump_payloads ps (s\<lparr>rm_buf := rm_buf s @ d\<rparr>))"

definition tick :: "remote_session \<Rightarrow> remote_session" where
  "tick s = (case rm_feed s of [] \<Rightarrow> s | ps # feed \<Rightarrow> pump_payloads ps (s\<lparr>rm_feed := feed\<rparr>))"

text \<open>\<open>self._cond.wait\<close> in a loop until \<open>ready\<close>, the end of the stream or the deadline.\<close>

fun wait_until :: "(string \<Rightarrow> bool) \<Rightarrow> nat \<Rightarrow> remote_session \<Rightarrow> nat \<times> remote_session" where
  "wait_until ready 0 s = (0, s)"
| "wait_until ready (Suc t) s =
     (if ready (rm_buf s) \<or> rm_eof s then (0, s)
      else case wait_until ready t (tick s) of (n, s') \<Rightarrow> (Suc n, s'))"

definition remote_readline :: "remote_session \<Rightarrow> (nat \<times> string) \<times> remote_session" where
  "remote_readline s =
     (case wait_until (\<lambda>b. newline \<in> set b) READ_TIMEOUT s of
        (n, s1) \<Rightarrow>
          let k = (if newline \<in> set (rm_buf s1) then Suc (length (takeWhile (\<lambda>c. c \<noteq> newline) (rm_buf s1))) else length (rm_buf s1))
          in ((n, take k (rm_buf s1)), s1\<lparr>rm_buf := drop k (rm_buf s1)\<rparr>))"

definition remote_read :: "int \<Rightarrow> remote_session \<Rightarrow> (nat \<times> string) \<times> remote_session" where
  "remote_read wanted s =
     (if wanted \<le> 0 then ((0, []), s)
      else case wait_until (\<lambda>b. nat wanted \<le> length b) READ_TIMEOUT s of
             (n, s1) \<Rightarrow> let k = min (nat wanted) (length (rm_buf s1))
                        in ((n, take k (rm_buf s1)), s1\<lparr>rm_buf := drop k (rm_buf s1)\<rparr>))"

definition remote_reset_input :: "remote_session \<Rightarrow> remote_session" where
  "remote_reset_input s = s\<lparr>rm_buf := []\<rparr>"

text \<open>\<open>remote_connect.connect\<close>: what \<open>stream.send_break\<close> answers is an argument (\<open>None\<close>: sent). The stream of the session.\<close>

definition remote_connect ::
    "'r exchange \<Rightarrow> 'r option \<Rightarrow> ('r \<Rightarrow> client_exn option) \<Rightarrow> bool \<Rightarrow> string \<Rightarrow> 'r option \<Rightarrow> (client_exn + string \<times> 'r) \<times> 'r option" where
  "remote_connect exchange dial break_sent reset target link =
     (let rq = remote_request exchange dial None in
      case client_find rq target link of
        (Inl e, link1) \<Rightarrow> (Inl e, link1)
      | (Inr view, link1) \<Rightarrow>
          (let uid = dv_uid (dw_device view) in
           case client_lock rq uid LOCK_KIND_SERIAL link1 of
             (Inl e, link2) \<Rightarrow> (Inl e, link2)
           | (Inr _, link2) \<Rightarrow>
               (case client_open_stream exchange dial None uid link2 of
                  (Inl e, link3) \<Rightarrow>
                    (case client_unlock rq uid link3 of
                       (Inl e', link4) \<Rightarrow> (Inl (if is_client_error e' then e else e'), link4)
                     | (Inr _, link4) \<Rightarrow> (Inl e, link4))
                | (Inr stream, link3) \<Rightarrow>
                    (case (if reset then break_sent stream else None) of
                       Some e \<Rightarrow> (Inl e, link3)
                     | None \<Rightarrow> (Inr (uid, stream), link3)))))"

subsection \<open>\<open>mbserial\<close>\<close>

text \<open>What a session is used for: a command and its reply, or the terminal. \<open>Inl\<close> is an exception of the session,
  the number of lines is that of a reply.\<close>

datatype usage = Reply "unit + string list" | Terminal "unit + int"

definition session_code :: "usage \<Rightarrow> int option" where
  "session_code u =
     (case u of
        Reply (Inl _) \<Rightarrow> None
      | Reply (Inr lines) \<Rightarrow> Some (if lines = [] then EXIT_ERROR else EXIT_OK)
      | Terminal (Inl _) \<Rightarrow> None
      | Terminal (Inr code) \<Rightarrow> Some code)"

text \<open>\<open>_run_session\<close> on a local session: \<open>use\<close> is what \<open>send_command\<close> or \<open>interact\<close> does to the port. The session is
  closed in any case.\<close>

definition run_serial_session ::
    "'s requester \<Rightarrow> 'p pyserial \<Rightarrow> string \<Rightarrow> ('p serial \<Rightarrow> usage \<times> 'p serial) \<Rightarrow> 's option \<Rightarrow> 'p serial
       \<Rightarrow> (connect_exn + int) \<times> 's option \<times> 'p serial" where
  "run_serial_session rq ser uid use link s =
     (case use s of
        (u, s1) \<Rightarrow>
          (case session_close rq ser uid False link s1 of
             (escaped, _, link1, s2) \<Rightarrow>
               (case escaped of
                  Some e \<Rightarrow> Inl (ClientEscaped e)
                | None \<Rightarrow> (case session_code u of None \<Rightarrow> Inl ChannelEscaped | Some code \<Rightarrow> Inr code), link1, s2)))"

definition serial_connect_local ::
    "'s requester \<Rightarrow> 'p pyserial \<Rightarrow> bool \<Rightarrow> bool \<Rightarrow> string \<Rightarrow> ('p serial \<Rightarrow> usage \<times> 'p serial) \<Rightarrow> 's option \<Rightarrow> 'p serial
       \<Rightarrow> (connect_exn + int) \<times> 's option \<times> 'p serial" where
  "serial_connect_local rq ser linux reset target use link s =
     (case connect rq ser linux reset target link s of
        (Inl (ClientError e), link1, s1) \<Rightarrow>
          (case exit_code e of None \<Rightarrow> Inl (ClientEscaped e) | Some code \<Rightarrow> Inr code, link1, s1)
      | (Inl ConnectError, link1, s1) \<Rightarrow> (Inr EXIT_HARDWARE, link1, s1)
      | (Inl PortError, link1, s1) \<Rightarrow> (Inl ChannelEscaped, link1, s1)
      | (Inr uid, link1, s1) \<Rightarrow> run_serial_session rq ser uid use link1 s1)"

text \<open>\<open>_run_connect_remote\<close>: the session ends when its connection does. \<open>use\<close> gives the usage of the stream.\<close>

definition serial_connect_remote ::
    "(string \<Rightarrow> int \<Rightarrow> 'r exchange \<times> 'r option) \<Rightarrow> ('r \<Rightarrow> client_exn option) \<Rightarrow> ('r \<Rightarrow> usage) \<Rightarrow> bool \<Rightarrow> device_view \<Rightarrow> connect_exn + int" where
  "serial_connect_remote visit break_sent use reset view =
     (case parse_port (case dw_endpoint view of None \<Rightarrow> [] | Some e \<Rightarrow> e) of
        None \<Rightarrow> Inr EXIT_ERROR
      | Some (host, port) \<Rightarrow>
          (let (exchange, dial) = visit host port;
               failed = (\<lambda>e. case exit_code e of
                           Some code \<Rightarrow> Inr code
                         | None \<Rightarrow> if e = RegistryUnavailable then Inr EXIT_NO_DAEMON else Inl (ClientEscaped e))
           in case connect_remote exchange dial None None of
             (Inl e, _) \<Rightarrow> if e = RegistryUnavailable then Inr EXIT_NO_DAEMON else Inl (ClientEscaped e)
           | (Inr _, link) \<Rightarrow>
               (case remote_connect exchange dial break_sent reset (dv_uid (dw_device view)) link of
                  (Inl e, _) \<Rightarrow> failed e
                | (Inr (uid, stream), _) \<Rightarrow>
                    (case session_code (use stream) of None \<Rightarrow> Inr EXIT_NO_DAEMON | Some code \<Rightarrow> Inr code))))"

text \<open>\<open>_run_connect\<close>: a name no attached board has is looked for behind a relay, which is \<open>MB_RelayCli\<close>'s
  \<open>run_connect\<close> (\<open>relay\<close>).\<close>

definition serial_run_connect ::
    "'s requester \<Rightarrow> 'p pyserial \<Rightarrow> (string \<Rightarrow> int \<Rightarrow> 'r exchange \<times> 'r option) \<Rightarrow> ('r \<Rightarrow> client_exn option) \<Rightarrow> ('r \<Rightarrow> usage)
       \<Rightarrow> (string \<times> string option \<Rightarrow> 's option \<Rightarrow> (connect_exn + int) \<times> 's option)
       \<Rightarrow> bool \<Rightarrow> bool \<Rightarrow> string \<Rightarrow> ('p serial \<Rightarrow> usage \<times> 'p serial) \<Rightarrow> 's option \<Rightarrow> 'p serial
       \<Rightarrow> (connect_exn + int) \<times> 's option \<times> 'p serial" where
  "serial_run_connect rq ser visit break_sent use_remote relay linux reset target use link s =
     (case client_find rq target link of
        (Inl e, link1) \<Rightarrow>
          if e = DeviceNotFoundError
          then (case parse_target target of
                  Inl _ \<Rightarrow> (Inr EXIT_NO_DEVICE, link1, s)
                | Inr t \<Rightarrow> (let (r, link2) = relay t link1 in (r, link2, s)))
          else (case exit_code e of None \<Rightarrow> Inl (ClientEscaped e) | Some code \<Rightarrow> Inr code, link1, s)
      | (Inr view, link1) \<Rightarrow>
          (case dv_host (dw_device view) of
             None \<Rightarrow> serial_connect_local rq ser linux reset target use link1 s
           | Some _ \<Rightarrow> (serial_connect_remote visit break_sent use_remote reset view, link1, s)))"

subsection \<open>Reading loses nothing\<close>

text \<open>A source of lines: \<open>left\<close> is what it has yet to deliver. A read takes what it returns from the front and does not
  take longer than the read timeout.\<close>

locale line_source =
  fixes readline :: "'s \<Rightarrow> (nat \<times> string) \<times> 's" and left :: "'s \<Rightarrow> string"
  assumes lossless: "readline s = ((t, raw), s') \<Longrightarrow> left s = raw @ left s'"
    and timely: "readline s = ((t, raw), s') \<Longrightarrow> t \<le> READ_TIMEOUT"
begin

text \<open>\<open>k\<close> milliseconds before the deadline at most \<open>k\<close> reads are left, each of which takes a millisecond with the
  work around it.\<close>

lemma reply_loop_returns:
  assumes "\<forall>n. 1 \<le> lag n \<and> lag n \<le> work" and "deadline - now \<le> k"
  shows "\<exists>raws n' end s'. reply_loop readline lag gap deadline q n now lines s
      = Some (lines @ filter (\<lambda>l. l \<noteq> []) (map rstrip_eol raws), n', end, s')
    \<and> left s = concat raws @ left s' \<and> n' \<le> n + k \<and> end \<le> max now (deadline + READ_TIMEOUT + work)"
  using assms(2)
proof (induction k arbitrary: q n now lines s)
  case 0
  then show ?case by (intro exI [of _ "[]"]) (simp add: reply_loop.simps)
next
  case (Suc k)
  show ?case
  proof (cases "deadline \<le> now \<or> (lines \<noteq> [] \<and> q \<le> now)")
    case True
    then show ?thesis by (intro exI [of _ "[]"]) (simp add: reply_loop.simps)
  next
    case False
    obtain t raw s1 where r: "readline s = ((t, raw), s1)" by (metis prod.collapse)
    define now' where "now' = now + t + lag n"
    have lag: "1 \<le> lag n" "lag n \<le> work" using assms(1) by auto
    have now': "deadline - now' \<le> k" using Suc.prems lag(1) by (simp add: now'_def)
    have slack: "max now' (deadline + READ_TIMEOUT + work) \<le> max now (deadline + READ_TIMEOUT + work)"
      using timely [OF r] lag(2) False by (simp add: now'_def)
    have step: "reply_loop readline lag gap deadline q n now lines s
        = (if raw = [] then reply_loop readline lag gap deadline q (Suc n) now' lines s1
           else reply_loop readline lag gap deadline (now' + gap) (Suc n) now'
                  (if rstrip_eol raw = [] then lines else lines @ [rstrip_eol raw]) s1)"
      using False r by (subst reply_loop.simps) (auto simp: now'_def Let_def)
    have more: "lines @ filter (\<lambda>l. l \<noteq> []) (map rstrip_eol (raw # raws))
        = (if rstrip_eol raw = [] then lines else lines @ [rstrip_eol raw]) @ filter (\<lambda>l. l \<noteq> []) (map rstrip_eol raws)" for raws
      by simp
    show ?thesis
    proof (cases "raw = []")
      case True
      obtain raws n' e s' where "reply_loop readline lag gap deadline q (Suc n) now' lines s1
          = Some (lines @ filter (\<lambda>l. l \<noteq> []) (map rstrip_eol raws), n', e, s')" "left s1 = concat raws @ left s'"
        "n' \<le> Suc n + k" "e \<le> max now' (deadline + READ_TIMEOUT + work)"
        using Suc.IH [OF now'] by blast
      then show ?thesis
        using step True lossless [OF r] slack by (intro exI [of _ raws] exI [of _ n'] exI [of _ e] exI [of _ s']) simp
    next
      case False
      obtain raws n' e s' where "reply_loop readline lag gap deadline (now' + gap) (Suc n) now'
            (if rstrip_eol raw = [] then lines else lines @ [rstrip_eol raw]) s1
          = Some ((if rstrip_eol raw = [] then lines else lines @ [rstrip_eol raw]) @ filter (\<lambda>l. l \<noteq> []) (map rstrip_eol raws), n', e, s')"
        "left s1 = concat raws @ left s'" "n' \<le> Suc n + k" "e \<le> max now' (deadline + READ_TIMEOUT + work)"
        using Suc.IH [OF now'] by blast
      then show ?thesis
        using step False lossless [OF r] slack more [of raws]
        by (intro exI [of _ "raw # raws"] exI [of _ n'] exI [of _ e] exI [of _ s']) simp
    qed
  qed
qed

end

text \<open>What the stream of a remote session will still deliver.\<close>

fun payload_text :: "payload list \<Rightarrow> string" where
  "payload_text [] = []"
| "payload_text (StreamEnd # ps) = []"
| "payload_text (Payload d # ps) = d @ payload_text ps"

definition undelivered :: "remote_session \<Rightarrow> string" where
  "undelivered s = rm_buf s @ (if rm_eof s then [] else payload_text (concat (rm_feed s)))"

lemma pump_undelivered: "rm_feed s = feed \<Longrightarrow> undelivered (pump_payloads ps s) =
    rm_buf s @ (if rm_eof s then [] else payload_text (ps @ concat feed))"
proof (induction ps s rule: pump_payloads.induct)
  case (1 s)
  then show ?case by (simp add: undelivered_def)
next
  case (2 p ps s)
  then show ?case by (cases p) (auto simp: undelivered_def)
qed

lemma tick_undelivered: "undelivered (tick s) = undelivered s"
proof (cases "rm_feed s")
  case Nil
  then show ?thesis by (simp add: tick_def)
next
  case (Cons ps feed)
  have "undelivered (pump_payloads ps (s\<lparr>rm_feed := feed\<rparr>)) = rm_buf s @ (if rm_eof s then [] else payload_text (ps @ concat feed))"
    using pump_undelivered [of "s\<lparr>rm_feed := feed\<rparr>" feed ps] by simp
  then show ?thesis by (simp add: tick_def undelivered_def Cons)
qed

lemma wait_undelivered: "wait_until ready t s = (n, s') \<Longrightarrow> undelivered s' = undelivered s \<and> n \<le> t"
  by (induction ready t s arbitrary: n s' rule: wait_until.induct)
     (auto simp: tick_undelivered split: if_splits prod.splits)

lemma undelivered_take: "take k (rm_buf s) @ undelivered (s\<lparr>rm_buf := drop k (rm_buf s)\<rparr>) = undelivered s"
  by (simp add: undelivered_def)

interpretation remote: line_source remote_readline undelivered
proof (unfold_locales, goal_cases)
  case (1 s t raw s')
  obtain n s1 where w: "wait_until (\<lambda>b. newline \<in> set b) READ_TIMEOUT s = (n, s1)" by force
  then show ?case
    using 1 wait_undelivered [OF w] undelivered_take [of _ s1] by (auto simp: remote_readline_def Let_def)
next
  case (2 s t raw s')
  obtain n s1 where w: "wait_until (\<lambda>b. newline \<in> set b) READ_TIMEOUT s = (n, s1)" by force
  then show ?case using 2 wait_undelivered [OF w] by (auto simp: remote_readline_def Let_def)
qed

lemma remote_read_lossless: "remote_read k s = ((t, raw), s') \<Longrightarrow> undelivered s = raw @ undelivered s' \<and> t \<le> READ_TIMEOUT"
proof -
  assume r: "remote_read k s = ((t, raw), s')"
  obtain n s1 where w: "wait_until (\<lambda>b. nat k \<le> length b) READ_TIMEOUT s = (n, s1)" by force
  then show ?thesis
    using r wait_undelivered [OF w] undelivered_take [of _ s1] by (auto simp: remote_read_def Let_def split: if_splits)
qed

subsection \<open>A local session and its lock\<close>

text \<open>The calls that open a port without resetting the board: DTR and RTS are low before it is opened.\<close>

definition quiet_open :: "string \<Rightarrow> ser_call list" where
  "quiet_open port = [Create, SetPort port, SetDtr False, SetRts False, OpenPort, Settle OPEN_SETTLE]"

lemma call_calls [simp]: "sp_calls (snd (call ser op s)) = sp_calls s @ [op]"
  by (simp add: call_def case_prod_beta)

lemma calls_prefix:
  "\<exists>k\<le>length ops. sp_calls (snd (calls ser e ops s)) = sp_calls s @ take k ops
     \<and> (fst (calls ser e ops s) = Inr () \<longrightarrow> k = length ops) \<and> (fst (calls ser e ops s) \<in> {Inr (), Inl e})"
proof (induction ops arbitrary: s)
  case Nil
  then show ?case by simp
next
  case (Cons op ops)
  obtain bad s1 where c: "call ser op s = (bad, s1)" by force
  then have s1: "sp_calls s1 = sp_calls s @ [op]" using call_calls [of ser op s] by simp
  show ?case
  proof (cases bad)
    case True
    then show ?thesis using c s1 by (intro exI [of _ 1]) simp
  next
    case False
    obtain k where "k \<le> length ops" "sp_calls (snd (calls ser e ops s1)) = sp_calls s1 @ take k ops"
      "fst (calls ser e ops s1) = Inr () \<longrightarrow> k = length ops" "fst (calls ser e ops s1) \<in> {Inr (), Inl e}"
      using Cons by blast
    then show ?thesis using c s1 False by (intro exI [of _ "Suc k"]) simp
  qed
qed

lemma open_quietly:
  "\<exists>k. sp_calls (snd (open_no_reboot ser port OPEN_SETTLE s)) = sp_calls s @ take k (quiet_open port)
     \<and> (if k < 6 then fst (open_no_reboot ser port OPEN_SETTLE s) \<in> {Inl ConnectError, Inl PortError}
        else fst (open_no_reboot ser port OPEN_SETTLE s) = Inr ())"
proof -
  let ?ops = "[Create, SetPort port, SetDtr False, SetRts False]"
  obtain r s1 where r: "calls ser PortError ?ops s = (r, s1)" by force
  obtain k where k: "k \<le> length ?ops" "sp_calls s1 = sp_calls s @ take k ?ops" "r = Inr () \<longrightarrow> k = length ?ops" "r \<in> {Inr (), Inl PortError}"
    using calls_prefix [of ?ops ser PortError s] unfolding r fst_conv snd_conv by blast
  have short: "take k ?ops = take k (quiet_open port)" using k(1) by (simp add: quiet_open_def take_Cons' split: if_splits)
  show ?thesis
  proof (cases r)
    case (Inl e)
    then show ?thesis
      using r k short by (intro exI [of _ k]) (simp add: open_no_reboot_def after_def)
  next
    case (Inr u)
    obtain bad s2 where c: "call ser OpenPort s1 = (bad, s2)" by force
    then have "sp_calls s2 = sp_calls s1 @ [OpenPort]" using call_calls [of ser OpenPort s1] by simp
    then show ?thesis
      using r k Inr c
      by (intro exI [of _ "if bad then 5 else 6"])
         (simp add: open_no_reboot_def after_def settle_for_def OPEN_SETTLE_def quiet_open_def)
  qed
qed

lemma open_without_reset: "open_and_reset ser linux False port s = open_no_reboot ser port OPEN_SETTLE s"
  by (auto simp: open_and_reset_def after_def split: prod.split sum.split)

subsection \<open>Properties\<close>

lemma client_find_local:
  assumes "re_mode r = Continue" and "re_worlds r = w # ws" and "calm w"
    and "resolve_visible local_visible (registry_of (re_conn r)) target = Inr d" and "target \<noteq> []"
  shows "\<exists>r'. client_find (local_request (local_exchange pid me) dial) target (Some r)
      = (Inr (device_dict (registry_of (re_conn r)) d), Some r')
     \<and> re_mode r' = Continue \<and> re_worlds r' = ws \<and> registry_of (re_conn r') = registry_of (re_conn r)"
proof -
  let ?ok = "OkDevice (device_dict (registry_of (re_conn r)) d)"
  let ?r = "r\<lparr>re_conn := (re_conn r)\<lparr>cn_sent := cn_sent (re_conn r) @ [?ok]\<rparr>, re_mode := Continue, re_worlds := ws\<rparr>"
  have "local_dispatch_op w pid me (uid_request ''find'' target) (re_conn r) = (?ok, re_conn r, Continue)"
    using assms(4,5)
    by (simp add: local_dispatch_op_def uid_request_def op_request_def no_fields_def stay_def op_find_def request.truncate_def truthy_def Let_def)
  then have x: "local_exchange pid me (uid_request ''find'' target) r = (Some ?ok, ?r)"
    using local_exchange_step [OF assms(1-3)] by (simp add: raises_def)
  then show ?thesis
    by (intro exI [of _ ?r]) (simp add: client_find_def returning_def local_ask [OF x] reply_ok_def registry_of_def)
qed

text \<open>C24: a \<open>mbserial\<close> session on a board attached here does not reset the board and leaves the registry as it was.
  Whatever pyserial and the user do, without \<open>--reset\<close> the calls on the port are the six that open it with DTR and
  RTS low (or the first of them, up to one that raises, and then the command fails with exit code 6 or the
  exception), what the session does, and the close; the lock the command took is released.\<close>

theorem serial_session_is_quiet:
  assumes "re_mode r = Continue" and "re_worlds r = w1 # w2 # w3 # ws" and "\<forall>w\<in>{w1, w2, w3}. calm w"
    and "resolve_visible local_visible (registry_of (re_conn r)) target = Inr d" and "target \<noteq> []"
    and "\<not> is_detached d" and "CHR ''@'' \<notin> set (dv_uid d)" and "dv_uid d \<noteq> []" and "dv_port d = Some port" and "port \<noteq> []"
    and "dget (rg_locks (registry_of (re_conn r))) (dv_uid d) = None"
    and "devices_unique (rg_store (registry_of (re_conn r)))"
    and "\<forall>s. \<exists>l. sp_calls (snd (use s)) = sp_calls s @ l"
  shows "\<exists>result r' s' k rest. serial_connect_local (local_request (local_exchange pid me) dial) ser linux False target use (Some r) s
       = (result, Some r', s')
     \<and> sp_calls s' = sp_calls s @ take k (quiet_open port) @ rest
     \<and> (if k < 6 then rest = [] \<and> result \<in> {Inr EXIT_HARDWARE, Inl ChannelEscaped}
        else \<exists>used s1. rest = used @ [ClosePort] \<and> sp_calls (snd (use s1)) = sp_calls s1 @ used
           \<and> result = (case session_code (fst (use s1)) of None \<Rightarrow> Inl ChannelEscaped | Some code \<Rightarrow> Inr code))
     \<and> rg_store (registry_of (re_conn r')) = rg_store (registry_of (re_conn r))
     \<and> (\<forall>u. status (rg_locks (registry_of (re_conn r'))) u = status (rg_locks (registry_of (re_conn r))) u)"
proof -
  let ?rg = "registry_of (re_conn r)" and ?rq = "local_request (local_exchange pid me) dial"
  have d: "d \<in> set (st_devices (rg_store ?rg))"
    using assms(4) find_device_in by (auto simp: resolve_visible_def split: sum.splits option.splits py_error.splits if_splits)
  have seen: "resolve_visible local_visible ?rg (dv_uid d) = Inr d"
    using find_device_uid [OF devices_get [OF assms(12) d] assms(7)] by (simp add: resolve_visible_def local_visible_def)
  have kind: "LOCK_KIND_SERIAL \<in> set LOCK_KINDS" "LOCK_KIND_SERIAL \<noteq> []"
    by (simp_all add: LOCK_KINDS_def kind_defs LOCK_KIND_SERIAL_def)
  obtain r1 where r1: "client_find ?rq target (Some r) = (Inr (device_dict ?rg d), Some r1)" "re_mode r1 = Continue"
    "re_worlds r1 = w2 # w3 # ws" "registry_of (re_conn r1) = ?rg"
    using client_find_local [OF assms(1,2) _ assms(4,5), of pid me dial] assms(3) by auto
  let ?st = "\<lparr>ls_kind = LOCK_KIND_SERIAL, ls_holder = local_holder pid, ls_label = None, ls_since = wd_wall w2\<rparr>"
  obtain r2 where r2: "client_lock ?rq (dv_uid d) LOCK_KIND_SERIAL (Some r1) = (Inr (), Some r2)" "re_mode r2 = Continue"
    "re_worlds r2 = w3 # ws" "rg_store (registry_of (re_conn r2)) = rg_store ?rg"
    "rg_locks (registry_of (re_conn r2)) = dset (dv_uid d) ?st (rg_locks ?rg)"
    using client_lock_local [OF r1(2,3) _ _ assms(6,8) _ kind, of pid me dial] assms(3,11) seen r1(4) by auto
  have "resolve_visible local_visible (registry_of (re_conn r2)) (dv_uid d) = Inr d"
    using seen by (simp add: resolve_visible_def r2(4))
  then obtain r3 where r3: "client_unlock ?rq (dv_uid d) (Some r2) = (Inr True, Some r3)"
    "rg_store (registry_of (re_conn r3)) = rg_store ?rg"
    "rg_locks (registry_of (re_conn r3)) = ddel (dv_uid d) (dset (dv_uid d) ?st (rg_locks ?rg))"
    using client_unlock_local [OF r2(2,3) _ _ assms(8), of d ?st pid me dial] assms(3) r2(4,5) by auto
  have kept: "rg_store (registry_of (re_conn r3)) = rg_store ?rg"
    "status (rg_locks (registry_of (re_conn r3))) u = status (rg_locks ?rg) u" for u
    using r3(2,3) assms(11) by (simp_all add: status_def)
  obtain q s1 where q: "open_no_reboot ser port OPEN_SETTLE s = (q, s1)" by force
  obtain k where k: "sp_calls s1 = sp_calls s @ take k (quiet_open port)"
    "if k < 6 then q \<in> {Inl ConnectError, Inl PortError} else q = Inr ()"
    using open_quietly [of ser port s] unfolding q fst_conv snd_conv by blast
  show ?thesis
  proof (cases "k < 6")
    case True
    then have "q = Inl ConnectError \<or> q = Inl PortError" using k(2) by simp
    then show ?thesis
      using r1(1) r2(1) r3(1) q k(1) kept True assms(9,10)
      by (intro exI [of _ "if q = Inl ConnectError then Inr EXIT_HARDWARE else Inl ChannelEscaped"] exI [of _ r3] exI [of _ s1]
            exI [of _ k] exI [of _ "[]"])
         (auto simp: serial_connect_local_def connect_def truthy_def open_without_reset)
  next
    case False
    obtain used where used: "sp_calls (snd (use s1)) = sp_calls s1 @ used" using assms(13) by blast
    let ?result = "case session_code (fst (use s1)) of None \<Rightarrow> Inl ChannelEscaped | Some code \<Rightarrow> Inr code"
    have "serial_connect_local ?rq ser linux False target use (Some r) s
      = (?result, Some r3, snd (call ser ClosePort (snd (use s1))))"
      using r1(1) r2(1) r3(1) q False k(2) assms(9,10)
      by (simp add: serial_connect_local_def connect_def truthy_def open_without_reset run_serial_session_def session_close_def case_prod_beta)
    moreover have "\<exists>s1'. sp_calls (snd (use s1')) = sp_calls s1' @ used
        \<and> ?result = (case session_code (fst (use s1')) of None \<Rightarrow> Inl ChannelEscaped | Some code \<Rightarrow> Inr code)"
      using used by (intro exI [of _ s1]) simp
    ultimately show ?thesis
      using used k(1) kept False
      by (intro exI [of _ ?result] exI [of _ r3] exI [of _ "snd (call ser ClosePort (snd (use s1)))"] exI [of _ k] exI [of _ "used @ [ClosePort]"])
         auto
  qed
qed

text \<open>The session as \<open>send_command\<close> sees it; \<open>alive\<close> says whether the stream accepts the message.\<close>

definition remote_io :: "bool \<Rightarrow> remote_session line_io" where
  "remote_io alive = \<lparr>io_reset = (\<lambda>s. (False, remote_reset_input s)), io_write = (\<lambda>data s. (\<not> alive, s)), io_readline = remote_readline\<rparr>"

text \<open>C25: a one-shot command on another host's board always returns, and loses nothing of the reply. As long as each
  turn of the loop takes at least a millisecond, it ends after at most \<open>timeout\<close> reads, whatever the stream delivers
  and when; the lines it returns are the non-empty pieces it read, without their line ends, in order, and these
  pieces are exactly the front of what the stream delivers after the input was dropped.\<close>

theorem remote_command_returns:
  assumes "\<forall>n. 1 \<le> lag n \<and> lag n \<le> work"
  shows "\<exists>raws s'. send_command (remote_io True) lag message timeout gap s
      = Some (Inr (filter (\<lambda>l. l \<noteq> []) (map rstrip_eol raws)), s')
    \<and> undelivered (remote_reset_input s) = concat raws @ undelivered s'"
proof -
  obtain raws n' e s' where "reply_loop remote_readline lag gap timeout timeout 0 0 [] (remote_reset_input s)
      = Some ([] @ filter (\<lambda>l. l \<noteq> []) (map rstrip_eol raws), n', e, s')"
    "undelivered (remote_reset_input s) = concat raws @ undelivered s'"
    using remote.reply_loop_returns [OF assms, of timeout 0 timeout gap timeout 0 "[]" "remote_reset_input s"] by auto
  then show ?thesis by (intro exI [of _ raws] exI [of _ s']) (simp add: send_command_def remote_io_def)
qed

theorem remote_command_returns_witness:
  "\<exists>raws s'. send_command (remote_io True) (\<lambda>_. 1) ''VER'' 2000 IDLE_GAP
        \<lparr>rm_buf = ''old'', rm_eof = False, rm_feed = [[], [Payload ''ver 1''], [Payload [CHR ''2'', newline], StreamEnd]]\<rparr>
      = Some (Inr (filter (\<lambda>l. l \<noteq> []) (map rstrip_eol raws)), s')
    \<and> ''ver 12'' @ [newline] = concat raws @ undelivered s'"
  using remote_command_returns [of "\<lambda>_. 1" 1 "''VER''" 2000 IDLE_GAP
      "\<lparr>rm_buf = ''old'', rm_eof = False, rm_feed = [[], [Payload ''ver 1''], [Payload [CHR ''2'', newline], StreamEnd]]\<rparr>"]
  by (simp add: undelivered_def remote_reset_input_def)

text \<open>The whole registry of \<open>MB_RelayCli\<close>'s example, whose one board is used as a serial port.\<close>

definition quiet_serial :: "unit pyserial" where
  "quiet_serial op p = (False, p)"

definition demo_use :: "unit serial \<Rightarrow> usage \<times> unit serial" where
  "demo_use s = (Reply (Inr [''ok'']), snd (call quiet_serial (WriteBytes (''PING'' @ [newline])) s))"

theorem serial_session_is_quiet_witness:
  "\<exists>result r' s'. serial_connect_local (local_request (local_exchange 42 1) None) quiet_serial True False ''relay-1'' demo_use (Some demo_end)
        \<lparr>sp_port = (), sp_calls = []\<rparr> = (result, Some r', s')
     \<and> status (rg_locks (registry_of (re_conn r'))) ''relay-1'' = None
     \<and> (\<exists>k. take (min k 6) (sp_calls s') = take k (quiet_open ''/dev/ttyACM0''))"
proof -
  let ?rg = "registry_of (re_conn demo_end)"
  have rg: "?rg = pool_registry\<lparr>rg_store := (rg_store pool_registry)\<lparr>st_names := [demo_entry]\<rparr>\<rparr>"
    by (simp add: demo_end_def registry_of_def new_conn_def)
  have calm: "re_mode demo_end = Continue" "re_worlds demo_end = [demo_world, demo_world, demo_world, demo_world]" "calm demo_world"
    by (simp_all add: demo_end_def numeral_eq_Suc calm_def demo_world_def)
  have found: "resolve_visible local_visible ?rg ''relay-1'' = Inr pool_relay" unfolding rg by code_simp
  have plain: "\<not> is_detached pool_relay" "CHR ''@'' \<notin> set (dv_uid pool_relay)" "dv_uid pool_relay \<noteq> []"
    "dv_port pool_relay = Some ''/dev/ttyACM0''" "devices_unique (rg_store ?rg)" "dv_uid pool_relay = ''relay-1''"
    unfolding rg by code_simp+
  have free: "dget (rg_locks ?rg) (dv_uid pool_relay) = None" by (simp add: rg pool_registry_def dget_def)
  have use: "\<forall>s. \<exists>l. sp_calls (snd (demo_use s)) = sp_calls s @ l" by (auto simp: demo_use_def)
  have hyps: "re_worlds demo_end = demo_world # demo_world # demo_world # [demo_world]" "\<forall>w\<in>{demo_world, demo_world, demo_world}. calm w"
    "''relay-1'' \<noteq> []" "''/dev/ttyACM0'' \<noteq> []"
    using calm by simp_all
  obtain result r' s' k rest where run: "serial_connect_local (local_request (local_exchange 42 1) None) quiet_serial True False ''relay-1''
      demo_use (Some demo_end) \<lparr>sp_port = (), sp_calls = []\<rparr> = (result, Some r', s')"
    "sp_calls s' = sp_calls \<lparr>sp_port = (), sp_calls = []\<rparr> @ take k (quiet_open ''/dev/ttyACM0'') @ rest"
    "if k < 6 then rest = [] \<and> result \<in> {Inr EXIT_HARDWARE, Inl ChannelEscaped}
     else \<exists>used s1. rest = used @ [ClosePort] \<and> sp_calls (snd (demo_use s1)) = sp_calls s1 @ used
       \<and> result = (case session_code (fst (demo_use s1)) of None \<Rightarrow> Inl ChannelEscaped | Some code \<Rightarrow> Inr code)"
    "\<forall>u. status (rg_locks (registry_of (re_conn r'))) u = status (rg_locks ?rg) u"
    using serial_session_is_quiet [OF calm(1) hyps(1,2) found hyps(3) plain(1-4) hyps(4) free plain(5) use] by blast
  have calls: "\<exists>k. take (min k 6) (sp_calls s') = take k (quiet_open ''/dev/ttyACM0'')"
    using run(2,3) by (intro exI [of _ k], cases "k < 6") (auto simp: quiet_open_def)
  have "status (rg_locks (registry_of (re_conn r'))) ''relay-1'' = None"
    using run(4) free plain(6) by (simp add: status_def)
  then show ?thesis using run(1) calls by blast
qed

subsection \<open>Where the code does not do what it means to\<close>

text \<open>\<open>readline\<close> returns what it has when its timeout runs out, and \<open>send_command\<close> takes every piece for a line: a reply
  that pauses in the middle of a line comes back as two lines.\<close>

lemma pause_splits_a_line:
  "let s = \<lparr>rm_buf = [], rm_eof = False, rm_feed = [Payload ''ver 1''] # replicate 100 [] @ [[Payload ''2'']]\<rparr>;
       ((t1, first), s1) = remote_readline s; ((t2, second), s2) = remote_readline s1
   in first = ''ver 1'' \<and> second = ''2''"
  by code_simp

end
