(* ===== verification/MB_Channel.thy ===== *)
theory MB_Channel
  imports MB_Serial "HOL-Library.Sublist"
begin

text \<open>
  Model of \<open>src/mbtools/relay/channel.py\<close>: the two byte channels the relay protocol runs on, over a local serial port
  and over the stream of another host's registry. Each has a thread that reads and hands on what arrives; \<open>pump\<close> is its
  loop, over the reads it makes and what it sees of the stop flag. pyserial is the argument \<open>ser\<close> of \<open>MB_Serial\<close>, the
  stream that of \<open>MB_Client\<close>.
\<close>

subsection \<open>The reading thread\<close>

text \<open>What a read gives: bytes, \<open>None\<close>, or an exception. \<open>pt_stopped_before\<close> and \<open>pt_stopped_after\<close> are the stop flag at the
  head of the loop and after the read.\<close>

datatype read_result = Arrived "byte list" | ReadNone | ReadFailed

record pump_turn =
  pt_stopped_before :: bool
  pt_read :: read_result
  pt_stopped_after :: bool

text \<open>\<open>LocalRelayChannel._pump\<close>: the calls of \<open>on_data\<close> and of \<open>on_error\<close>.\<close>

fun local_pump :: "pump_turn list \<Rightarrow> byte list list \<times> read_result list" where
  "local_pump [] = ([], [])"
| "local_pump (t # ts) =
     (if pt_stopped_before t then ([], [])
      else case pt_read t of
             ReadFailed \<Rightarrow> ([], if pt_stopped_after t then [] else [ReadFailed])
           | ReadNone \<Rightarrow> local_pump ts
           | Arrived bytes \<Rightarrow> (case local_pump ts of (given, errors) \<Rightarrow> (if bytes = [] then given else bytes # given, errors)))"

text \<open>\<open>RemoteRelayChannel._pump\<close>, which looks at the flag again after a read.\<close>

fun remote_pump :: "pump_turn list \<Rightarrow> byte list list \<times> read_result list" where
  "remote_pump [] = ([], [])"
| "remote_pump (t # ts) =
     (if pt_stopped_before t then ([], [])
      else if pt_read t = ReadFailed then ([], if pt_stopped_after t then [] else [ReadFailed])
      else if pt_stopped_after t then ([], [])
      else case pt_read t of
             Arrived bytes \<Rightarrow> (case remote_pump ts of (given, errors) \<Rightarrow> (if bytes = [] then given else bytes # given, errors))
           | _ \<Rightarrow> ([], [ReadNone]))"

subsection \<open>Starting and stopping it\<close>

text \<open>\<open>rd_thread\<close> is \<open>self._thread is not None\<close>; \<open>rd_pumps\<close> counts the threads in \<open>_pump\<close>, which the code does not.\<close>

record reading =
  rd_thread :: bool
  rd_stop :: bool
  rd_pumps :: nat

definition not_reading :: reading where
  "not_reading = \<lparr>rd_thread = False, rd_stop = False, rd_pumps = 0\<rparr>"

text \<open>\<open>start_reading\<close>, in both classes: a thread that is alive only gets new callbacks.\<close>

definition start_reading :: "bool \<Rightarrow> reading \<Rightarrow> reading" where
  "start_reading alive r =
     (if rd_thread r \<and> alive then r
      else r\<lparr>rd_stop := False, rd_thread := True, rd_pumps := Suc (rd_pumps r)\<rparr>)"

text \<open>The thread leaves \<open>_pump\<close> by itself.\<close>

definition pump_ended :: "reading \<Rightarrow> reading" where
  "pump_ended r = r\<lparr>rd_pumps := rd_pumps r - 1\<rparr>"

text \<open>\<open>stop_reading\<close> after the stop flag and, remotely, the stream: \<open>joined\<close> says that the thread, if alive, ended within the
  second that \<open>join\<close> waits; it is forgotten in any case.\<close>

definition forget_thread :: "bool \<Rightarrow> bool \<Rightarrow> reading \<Rightarrow> reading" where
  "forget_thread alive joined r =
     (if rd_thread r then r\<lparr>rd_thread := False, rd_pumps := rd_pumps r - (if alive \<and> joined then 1 else 0)\<rparr> else r)"

definition local_stop_reading :: "bool \<Rightarrow> bool \<Rightarrow> reading \<Rightarrow> reading" where
  "local_stop_reading alive joined r = forget_thread alive joined (r\<lparr>rd_stop := True\<rparr>)"

definition remote_stop_reading :: "bool \<Rightarrow> bool \<Rightarrow> bool \<Rightarrow> reading \<times> remote_stream \<Rightarrow> reading \<times> remote_stream" where
  "remote_stop_reading sock_alive alive joined c =
     (forget_thread alive joined ((fst c)\<lparr>rd_stop := True\<rparr>), stream_close sock_alive (snd c))"

subsection \<open>The channels\<close>

record 'p local_channel =
  lc_serial :: "'p serial"
  lc_ser_set :: bool
  lc_reading :: reading

definition local_open :: "'p pyserial \<Rightarrow> string \<Rightarrow> 'p local_channel \<Rightarrow> (serial_exn + unit) \<times> 'p local_channel" where
  "local_open ser port c =
     (case open_no_reboot ser port OPEN_SETTLE (lc_serial c) of
        (Inl e, s) \<Rightarrow> (Inl e, c\<lparr>lc_serial := s\<rparr>)
      | (Inr _, s) \<Rightarrow> (Inr (), c\<lparr>lc_serial := s, lc_ser_set := True\<rparr>))"

text \<open>\<open>close\<close>: a port that cannot be closed is dropped all the same.\<close>

definition local_close :: "'p pyserial \<Rightarrow> bool \<Rightarrow> bool \<Rightarrow> 'p local_channel \<Rightarrow> 'p local_channel" where
  "local_close ser alive joined c =
     (let c1 = c\<lparr>lc_reading := local_stop_reading alive joined (lc_reading c)\<rparr> in
      if lc_ser_set c1 then c1\<lparr>lc_serial := snd (call ser ClosePort (lc_serial c1)), lc_ser_set := False\<rparr> else c1)"

text \<open>On a channel that is not open \<open>self._ser\<close> is \<open>None\<close>, and the call raises.\<close>

definition local_call :: "'p pyserial \<Rightarrow> ser_call \<Rightarrow> 'p local_channel \<Rightarrow> (serial_exn + unit) \<times> 'p local_channel" where
  "local_call ser op c =
     (if \<not> lc_ser_set c then (Inl PortError, c)
      else case call ser op (lc_serial c) of (bad, s) \<Rightarrow> (if bad then Inl PortError else Inr (), c\<lparr>lc_serial := s\<rparr>))"

definition local_write_nowait :: "'p pyserial \<Rightarrow> string \<Rightarrow> 'p local_channel \<Rightarrow> (serial_exn + unit) \<times> 'p local_channel" where
  "local_write_nowait ser bytes c = local_call ser (WriteBytes bytes) c"

definition local_send_break :: "'p pyserial \<Rightarrow> nat \<Rightarrow> 'p local_channel \<Rightarrow> (serial_exn + unit) \<times> 'p local_channel" where
  "local_send_break ser duration c = local_call ser (SendBreak duration) c"

definition remote_open :: "reading \<times> remote_stream \<Rightarrow> reading \<times> remote_stream" where "remote_open c = c"

definition remote_close_channel :: "bool \<Rightarrow> bool \<Rightarrow> bool \<Rightarrow> reading \<times> remote_stream \<Rightarrow> reading \<times> remote_stream" where
  "remote_close_channel sock_alive alive joined c = remote_stop_reading sock_alive alive joined c"

definition remote_write_nowait ::
    "bool \<Rightarrow> byte list \<Rightarrow> reading \<times> remote_stream \<Rightarrow> (client_exn + unit) \<times> reading \<times> remote_stream" where
  "remote_write_nowait sock_alive bytes c = (case stream_write sock_alive bytes (snd c) of (r, rs) \<Rightarrow> (r, fst c, rs))"

definition remote_send_break ::
    "bool \<Rightarrow> nat \<Rightarrow> reading \<times> remote_stream \<Rightarrow> (client_exn + unit) \<times> reading \<times> remote_stream" where
  "remote_send_break sock_alive duration c = (case stream_send_break sock_alive (snd c) of (r, rs) \<Rightarrow> (r, fst c, rs))"

definition pending_bytes :: nat where "pending_bytes = 0"

text \<open>The reads a remote channel makes of a socket, up to the one that ends the pump.\<close>

lemma stream_read_consumes: "stream_read conn = (Inr (Some payload), conn') \<Longrightarrow> length (concat conn') < length (concat conn)"
  by (auto simp: stream_read_def simp del: length_concat intro: read_frame_consumes split: prod.splits sum.splits option.splits if_splits)

function remote_reads :: "socket \<Rightarrow> read_result list" where
  "remote_reads conn =
     (case stream_read conn of
        (Inl e, conn') \<Rightarrow> [ReadFailed]
      | (Inr None, conn') \<Rightarrow> [ReadNone]
      | (Inr (Some bytes), conn') \<Rightarrow> Arrived bytes # remote_reads conn')"
  by pat_completeness auto
termination
  by (relation "measure (\<lambda>conn. length (concat conn))") (auto simp del: length_concat intro: stream_read_consumes dest!: sym [of "(Inr (Some _), _)"])

declare remote_reads.simps [simp del]

subsection \<open>The contract of a pump\<close>

text \<open>The flag is only ever raised while a thread runs.\<close>

fun flag_rises :: "pump_turn list \<Rightarrow> bool" where
  "flag_rises [] \<longleftrightarrow> True"
| "flag_rises (t # ts) \<longleftrightarrow> (pt_stopped_before t \<longrightarrow> pt_stopped_after t)
     \<and> (pt_stopped_after t \<longrightarrow> (\<forall>u\<in>set ts. pt_stopped_before u)) \<and> flag_rises ts"

fun arrived :: "read_result \<Rightarrow> byte list" where
  "arrived (Arrived bytes) = bytes"
| "arrived _ = []"

definition unstopped :: "read_result \<Rightarrow> pump_turn" where
  "unstopped r = \<lparr>pt_stopped_before = False, pt_read = r, pt_stopped_after = False\<rparr>"

locale byte_pump =
  fixes pump :: "pump_turn list \<Rightarrow> byte list list \<times> read_result list"
    and possible :: "read_result \<Rightarrow> bool"
  assumes pump_nil: "pump [] = ([], [])"
    and pump_stopped: "pt_stopped_before t \<Longrightarrow> pump (t # ts) = ([], [])"
    and pump_ends: "\<not> pt_stopped_before t \<Longrightarrow> possible (pt_read t) \<Longrightarrow> pt_read t \<notin> range Arrived \<Longrightarrow>
          pump (t # ts) = ([], if pt_stopped_after t then [] else [pt_read t])"
    and pump_delivers: "\<not> pt_stopped_before t \<Longrightarrow> \<not> pt_stopped_after t \<Longrightarrow> pt_read t = Arrived bytes \<Longrightarrow>
          pump (t # ts) = ((if bytes = [] then fst (pump ts) else bytes # fst (pump ts)), snd (pump ts))"
    and pump_last: "\<not> pt_stopped_before t \<Longrightarrow> pt_stopped_after t \<Longrightarrow> pt_read t = Arrived bytes \<Longrightarrow> pump ts = ([], []) \<Longrightarrow>
          snd (pump (t # ts)) = [] \<and> concat (fst (pump (t # ts))) \<in> {[], bytes}"
begin

lemma all_stopped: "\<forall>u\<in>set ts. pt_stopped_before u \<Longrightarrow> pump ts = ([], [])"
  by (cases ts) (simp_all add: pump_nil pump_stopped)

text \<open>What is handed on is a prefix of what was read, in order and with nothing in between left out.\<close>

lemma in_order:
  "flag_rises ts \<Longrightarrow> \<forall>t\<in>set ts. possible (pt_read t) \<Longrightarrow>
     prefix (concat (fst (pump ts))) (concat (map (arrived \<circ> pt_read) ts))"
proof (induction ts)
  case (Cons t ts)
  consider "pt_stopped_before t" | "\<not> pt_stopped_before t" "pt_read t \<notin> range Arrived"
    | bytes where "\<not> pt_stopped_before t" "pt_read t = Arrived bytes" "\<not> pt_stopped_after t"
    | bytes where "\<not> pt_stopped_before t" "pt_read t = Arrived bytes" "pt_stopped_after t" by blast
  then show ?case
  proof cases
    case 4
    then have "concat (fst (pump (t # ts))) \<in> {[], bytes}" using pump_last all_stopped Cons.prems(1) by simp
    moreover have "concat (map (arrived \<circ> pt_read) (t # ts)) = bytes @ concat (map (arrived \<circ> pt_read) ts)" using 4 by simp
    ultimately show ?thesis by (metis Nil_prefix empty_iff insert_iff prefixI)
  qed (use Cons in \<open>simp_all add: pump_nil pump_stopped pump_ends pump_delivers\<close>)
qed (simp add: pump_nil)

text \<open>At most one error is reported, one that was read while the channel was not being stopped.\<close>

lemma quiet_stop:
  "flag_rises ts \<Longrightarrow> \<forall>t\<in>set ts. possible (pt_read t) \<Longrightarrow>
     snd (pump ts) = [] \<or> (\<exists>t\<in>set ts. \<not> pt_stopped_after t \<and> pt_read t \<notin> range Arrived \<and> snd (pump ts) = [pt_read t])"
proof (induction ts)
  case (Cons t ts)
  consider "pt_stopped_before t" | "\<not> pt_stopped_before t" "pt_read t \<notin> range Arrived"
    | bytes where "\<not> pt_stopped_before t" "pt_read t = Arrived bytes" "\<not> pt_stopped_after t"
    | bytes where "\<not> pt_stopped_before t" "pt_read t = Arrived bytes" "pt_stopped_after t" by blast
  then show ?case
  proof cases
    case 4
    then show ?thesis using pump_last all_stopped Cons.prems(1) by simp
  qed (use Cons in \<open>auto simp: pump_nil pump_stopped pump_ends pump_delivers\<close>)
qed (simp add: pump_nil)

text \<open>Without a stop, all of it is handed on up to the first read that gives no bytes, which is reported.\<close>

lemma complete:
  assumes "possible r" and "r \<notin> range Arrived"
  shows "pump (map unstopped (map Arrived pieces @ r # rest)) = (filter (\<lambda>p. p \<noteq> []) pieces, [r])"
  using assms by (induction pieces) (simp_all add: unstopped_def pump_ends pump_delivers)

end

interpretation over_port: byte_pump local_pump "\<lambda>r. r \<noteq> ReadNone"
  by unfold_locales (auto split: read_result.splits prod.splits)

interpretation over_stream: byte_pump remote_pump "\<lambda>_. True"
  by unfold_locales (auto split: read_result.splits prod.splits)

section \<open>Properties\<close>

definition faithful :: "pump_turn list \<Rightarrow> byte list list \<times> read_result list \<Rightarrow> bool" where
  "faithful ts out \<longleftrightarrow>
     prefix (concat (fst out)) (concat (map (arrived \<circ> pt_read) ts))
   \<and> (snd out = [] \<or> (\<exists>t\<in>set ts. \<not> pt_stopped_after t \<and> pt_read t \<notin> range Arrived \<and> snd out = [pt_read t]))"

lemma remote_reads_session:
  assumes "list_all2 (\<lambda>p bs. encode_frame FRAME_DATA p = Inr bs \<and> length p \<le> MAX_FRAME_PAYLOAD) pieces bss"
    and "encode_frame FRAME_CLOSE [] = Inr close" and "socket_ok conn" and "concat conn = concat bss @ close @ junk"
  shows "remote_reads conn = map Arrived pieces @ [ReadNone]"
  using assms(1,3,4)
proof (induction pieces bss arbitrary: conn rule: list_all2_induct)
  case Nil
  then obtain conn' where "read_frame socket_read_exact conn = (Inr (Some (FRAME_CLOSE, [])), conn')"
    using read_frame_socket [OF Nil.prems(1)] read_frame_encoded [OF assms(2)] by fastforce
  then show ?case by (subst remote_reads.simps) (simp add: stream_read_def)
next
  case (Cons p ps bs bss)
  then obtain conn' where "read_frame socket_read_exact conn = (Inr (Some (FRAME_DATA, p)), conn')" "socket_ok conn'"
      "concat conn' = concat bss @ close @ junk"
    using read_frame_socket [OF Cons.prems(1)] read_frame_encoded [of FRAME_DATA p bs "concat bss @ close @ junk"] by fastforce
  with Cons.IH [of conn'] show ?case by (subst remote_reads.simps) (simp add: stream_read_def frame_types FRAME_CLOSE_def)
qed



text \<open>Closing a channel whose thread can be joined leaves no thread in the pump, and the port closed; and a second \<open>close\<close> does
  nothing more.\<close>

lemma local_close_is_final:
  assumes "rd_pumps (lc_reading c) = (if rd_thread (lc_reading c) \<and> alive then 1 else 0)"
  shows "rd_pumps (lc_reading (local_close ser alive True c)) = 0" and "\<not> lc_ser_set (local_close ser alive True c)"
    and "local_close ser alive' joined' (local_close ser alive True c) = local_close ser alive True c"
  using assms by (simp_all add: local_close_def local_stop_reading_def forget_thread_def Let_def)

text \<open>Closing a remote channel ends the stream, once: nothing is written after it.\<close>

lemma remote_close_ends_the_stream:
  "rs_closed (snd (remote_close_channel sock_alive alive joined c))"
  "fst (remote_write_nowait sock_alive' bytes (remote_close_channel sock_alive alive joined c)) \<noteq> Inr ()"
  "snd (remote_close_channel a b d (remote_close_channel sock_alive alive joined c)) = snd (remote_close_channel sock_alive alive joined c)"
  by (simp_all add: remote_close_channel_def remote_stop_reading_def stream_close_def remote_write_nowait_def stream_write_def
      send_frame_def split: sum.split prod.split)

subsection \<open>Observation\<close>

text \<open>\<open>stop_reading\<close> forgets a thread that does not end within the second of its \<open>join\<close>; a \<open>start_reading\<close> after it clears the flag
  that thread was to see, so that two threads read the same port and share out its bytes.\<close>

lemma forgotten_thread_reads_on:
  "let r = start_reading alive (local_stop_reading True False (start_reading False not_reading)) in rd_pumps r = 2 \<and> \<not> rd_stop r"
  by (simp add: not_reading_def start_reading_def local_stop_reading_def forget_thread_def)

end
