(* ===== verification/MB_Pipe.thy ===== *)
theory MB_Pipe
  imports MB_Server "HOL-Library.Word" "HOL-Library.Multiset"
begin

text \<open>
  Model of \<open>src/mbtools/registry/api_windows.py\<close>, the local server on Windows: the calls of the Win32 pipe
  transport, the line framing over a pipe, the table of operations, a connection from its first byte to its
  \<open>finally\<close> block, and the accept loop with the \<open>stop\<close> that has to interrupt it. The handlers are those of
  \<open>MB_Api\<close>, the loop over the lines that of \<open>MB_Server\<close>. The kernel is an argument: a record of what its calls
  answer. Characters are bytes; an \<open>OSError\<close> is \<open>None\<close>.
\<close>

subsection \<open>The Win32 calls\<close>

type_synonym handle = "64 word"
type_synonym dword = "32 word"

definition PIPE_SECURITY_DESCRIPTOR_SDDL :: string where
  "PIPE_SECURITY_DESCRIPTOR_SDDL = ''D:P(A;;GA;;;BA)(A;;GA;;;OW)''"

definition PIPE_BUFFER_SIZE :: nat where "PIPE_BUFFER_SIZE = 4096"
definition PIPE_ACCESS_DUPLEX :: dword where "PIPE_ACCESS_DUPLEX = 3"
definition PIPE_TYPE_BYTE :: dword where "PIPE_TYPE_BYTE = 0"
definition PIPE_READMODE_BYTE :: dword where "PIPE_READMODE_BYTE = 0"
definition PIPE_WAIT :: dword where "PIPE_WAIT = 0"
definition PIPE_UNLIMITED_INSTANCES :: dword where "PIPE_UNLIMITED_INSTANCES = 255"
definition ERROR_PIPE_CONNECTED :: dword where "ERROR_PIPE_CONNECTED = 535"
definition ERROR_NOT_FOUND :: dword where "ERROR_NOT_FOUND = 1168"
definition PROCESS_QUERY_LIMITED_INFORMATION :: dword where "PROCESS_QUERY_LIMITED_INFORMATION = 0x1000"
definition STILL_ACTIVE :: dword where "STILL_ACTIVE = 259"
definition THREAD_TERMINATE :: dword where "THREAD_TERMINATE = 1"
definition GENERIC_READ :: dword where "GENERIC_READ = 0x80000000"
definition GENERIC_WRITE :: dword where "GENERIC_WRITE = 0x40000000"
definition OPEN_EXISTING :: dword where "OPEN_EXISTING = 3"

text \<open>\<open>ctypes.c_void_p(-1).value\<close>.\<close>

definition INVALID_HANDLE_VALUE :: handle where "INVALID_HANDLE_VALUE = - 1"

record security_attributes =
  sa_length :: nat
  sa_descriptor :: handle
  sa_inherit :: bool

record pipe_settings =
  ps_open_mode :: dword
  ps_pipe_mode :: dword
  ps_instances :: dword
  ps_out_buffer :: nat
  ps_in_buffer :: nat
  ps_timeout :: nat
  ps_attributes :: "security_attributes option"

text \<open>What the kernel answers to each call. A \<open>BOOL\<close> call that fails answers the code \<open>GetLastError\<close> then
  returns, or \<open>None\<close> where the program does not ask for it.\<close>

record kernel =
  kn_convert :: "string \<Rightarrow> dword \<Rightarrow> handle option"
  kn_create_pipe :: "string \<Rightarrow> pipe_settings \<Rightarrow> handle"
  kn_connect :: "handle \<Rightarrow> dword option"
  kn_read :: "handle \<Rightarrow> nat \<Rightarrow> string option"
  kn_write :: "handle \<Rightarrow> string \<Rightarrow> bool"
  kn_client_pid :: "handle \<Rightarrow> dword option"
  kn_create_file :: "string \<Rightarrow> dword \<Rightarrow> dword \<Rightarrow> handle"
  kn_open_thread :: "dword \<Rightarrow> dword \<Rightarrow> handle"
  kn_cancel_io :: "handle \<Rightarrow> dword option"
  kn_open_process :: "dword \<Rightarrow> dword \<Rightarrow> handle"
  kn_exit_code :: "handle \<Rightarrow> dword option"

text \<open>The structure has 24 bytes on a 64-bit Windows.\<close>

definition security_attributes_of :: "kernel \<Rightarrow> security_attributes option" where
  "security_attributes_of k =
     (case kn_convert k PIPE_SECURITY_DESCRIPTOR_SDDL 1 of
        None \<Rightarrow> None
      | Some sd \<Rightarrow> Some \<lparr>sa_length = 24, sa_descriptor = sd, sa_inherit = False\<rparr>)"

definition valid_handle :: "handle \<Rightarrow> handle option" where
  "valid_handle h = (if h = 0 \<or> h = INVALID_HANDLE_VALUE then None else Some h)"

definition create_named_pipe :: "kernel \<Rightarrow> string \<Rightarrow> handle option" where
  "create_named_pipe k name =
     (case security_attributes_of k of
        None \<Rightarrow> None
      | Some sa \<Rightarrow>
          valid_handle (kn_create_pipe k name
            \<lparr>ps_open_mode = PIPE_ACCESS_DUPLEX, ps_pipe_mode = or (or PIPE_TYPE_BYTE PIPE_READMODE_BYTE) PIPE_WAIT,
             ps_instances = PIPE_UNLIMITED_INSTANCES, ps_out_buffer = PIPE_BUFFER_SIZE, ps_in_buffer = PIPE_BUFFER_SIZE,
             ps_timeout = 0, ps_attributes = Some sa\<rparr>))"

definition connect_named_pipe :: "kernel \<Rightarrow> handle \<Rightarrow> bool" where
  "connect_named_pipe k h = (case kn_connect k h of None \<Rightarrow> True | Some e \<Rightarrow> e = ERROR_PIPE_CONNECTED)"

definition read_file :: "kernel \<Rightarrow> handle \<Rightarrow> nat \<Rightarrow> string" where
  "read_file k h n = (case kn_read k h n of None \<Rightarrow> [] | Some bytes \<Rightarrow> take n bytes)"

definition write_file :: "kernel \<Rightarrow> handle \<Rightarrow> string \<Rightarrow> bool" where
  "write_file k h bytes = kn_write k h bytes"

definition get_client_process_id :: "kernel \<Rightarrow> handle \<Rightarrow> int option" where
  "get_client_process_id k h = map_option uint (kn_client_pid k h)"

definition open_client_pipe :: "kernel \<Rightarrow> string \<Rightarrow> handle option" where
  "open_client_pipe k name = valid_handle (kn_create_file k name (or GENERIC_READ GENERIC_WRITE) OPEN_EXISTING)"

text \<open>\<open>cancel_pending_connect\<close>: whether it returned, and the handles it closed.\<close>

definition cancel_pending_connect :: "kernel \<Rightarrow> dword \<Rightarrow> bool \<times> handle list" where
  "cancel_pending_connect k thread_id =
     (let th = kn_open_thread k THREAD_TERMINATE thread_id in
      if th = 0 then (True, [])
      else (case kn_cancel_io k th of None \<Rightarrow> True | Some e \<Rightarrow> e = ERROR_NOT_FOUND, [th]))"

text \<open>A Python int becomes a \<open>DWORD\<close> modulo \<open>2 ^ 32\<close>.\<close>

definition default_is_pid_alive_windows :: "kernel \<Rightarrow> int \<Rightarrow> bool \<times> handle list" where
  "default_is_pid_alive_windows k pid =
     (if pid \<le> 0 then (False, [])
      else let h = kn_open_process k PROCESS_QUERY_LIMITED_INFORMATION (word_of_int pid) in
           if h = 0 then (False, [])
           else (kn_exit_code k h = Some STILL_ACTIVE, [h]))"

subsection \<open>Lines over a pipe\<close>

text \<open>\<open>_PipeLineReader\<close>. \<open>pr_chunks\<close> is what the coming calls of \<open>read_file\<close> answer; when the list is used up they
  answer nothing, as at the end of the pipe.\<close>

record pipe_reader =
  pr_buf :: string
  pr_eof :: bool
  pr_chunks :: "string list"

definition new_reader :: "string list \<Rightarrow> pipe_reader" where
  "new_reader chunks = \<lparr>pr_buf = [], pr_eof = False, pr_chunks = chunks\<rparr>"

fun fill_buffer :: "string \<Rightarrow> string list \<Rightarrow> pipe_reader" where
  "fill_buffer buf [] = \<lparr>pr_buf = buf, pr_eof = (newline \<notin> set buf), pr_chunks = []\<rparr>"
| "fill_buffer buf (chunk # chunks) =
     (if newline \<in> set buf then \<lparr>pr_buf = buf, pr_eof = False, pr_chunks = chunk # chunks\<rparr>
      else if chunk = [] then \<lparr>pr_buf = buf, pr_eof = True, pr_chunks = chunks\<rparr>
      else fill_buffer (buf @ chunk) chunks)"

definition pipe_readline :: "pipe_reader \<Rightarrow> string \<times> pipe_reader" where
  "pipe_readline r =
     (let r1 = (if pr_eof r then r else fill_buffer (pr_buf r) (pr_chunks r)); buf = pr_buf r1 in
      if newline \<in> set buf
      then (takeWhile (\<lambda>c. c \<noteq> newline) buf @ [newline], r1\<lparr>pr_buf := tl (dropWhile (\<lambda>c. c \<noteq> newline) buf)\<rparr>)
      else (buf, r1\<lparr>pr_buf := []\<rparr>))"

text \<open>What is still to come, and how every line read makes it shorter.\<close>

definition unread :: "pipe_reader \<Rightarrow> string" where
  "unread r = pr_buf r @ concat (pr_chunks r)"

lemma fill_buffer_unread [simp]: "unread (fill_buffer buf chunks) = buf @ concat chunks"
  by (induction buf chunks rule: fill_buffer.induct) (auto simp: unread_def)

lemma split_at_newline: "newline \<in> set s \<Longrightarrow> takeWhile (\<lambda>c. c \<noteq> newline) s @ newline # tl (dropWhile (\<lambda>c. c \<noteq> newline) s) = s"
  by (induction s) auto

lemma readline_conserves: "pipe_readline r = (line, r') \<Longrightarrow> line @ unread r' = unread r"
proof -
  assume a: "pipe_readline r = (line, r')"
  define r1 where "r1 = (if pr_eof r then r else fill_buffer (pr_buf r) (pr_chunks r))"
  have "unread r1 = unread r" by (simp add: r1_def) (simp add: unread_def)
  moreover have "line @ pr_buf r' = pr_buf r1" "pr_chunks r' = pr_chunks r1"
    using a split_at_newline [of "pr_buf r1"] by (auto simp: pipe_readline_def r1_def [symmetric] Let_def split: if_splits)
  ultimately show "line @ unread r' = unread r" by (simp add: unread_def flip: append_assoc)
qed

lemma readline_shorter: "pipe_readline r = (line, r') \<Longrightarrow> line \<noteq> [] \<Longrightarrow> length (unread r') < length (unread r)"
  using readline_conserves [of r line r'] by (metis length_append length_greater_0_conv less_add_same_cancel2)

text \<open>The iteration over the reader: it stops at the first empty line.\<close>

function pipe_lines :: "pipe_reader \<Rightarrow> string list" where
  "pipe_lines r = (case pipe_readline r of (line, r') \<Rightarrow> if line = [] then [] else line # pipe_lines r')"
  by pat_completeness auto
termination
  by (relation "measure (\<lambda>r. length (unread r))") (auto dest: readline_shorter [OF sym])

declare pipe_lines.simps [simp del]

text \<open>The lines of a string, each with its newline.\<close>

fun lines_of :: "string \<Rightarrow> string list" where
  "lines_of [] = []"
| "lines_of (c # cs) =
     (if c = newline then [c] # lines_of cs
      else (case lines_of cs of [] \<Rightarrow> [[c]] | l # ls \<Rightarrow> (c # l) # ls))"

lemma lines_of_newline:
  "newline \<in> set s \<Longrightarrow>
     lines_of s = (takeWhile (\<lambda>c. c \<noteq> newline) s @ [newline]) # lines_of (tl (dropWhile (\<lambda>c. c \<noteq> newline) s))"
  by (induction s) auto

lemma lines_of_rest: "newline \<notin> set s \<Longrightarrow> lines_of s = (if s = [] then [] else [s])"
  by (induction s) auto

definition received :: "pipe_reader \<Rightarrow> string" where
  "received r = pr_buf r @ (if pr_eof r then [] else concat (takeWhile (\<lambda>chunk. chunk \<noteq> []) (pr_chunks r)))"

lemma fill_buffer_received:
  "received (fill_buffer buf chunks) = buf @ concat (takeWhile (\<lambda>chunk. chunk \<noteq> []) chunks)
   \<and> (newline \<notin> set (pr_buf (fill_buffer buf chunks)) \<longrightarrow> pr_eof (fill_buffer buf chunks))"
  by (induction buf chunks rule: fill_buffer.induct) (auto simp: received_def)

lemma readline_received:
  assumes "pipe_readline r = (line, r')"
  shows "lines_of (received r) = (if line = [] then [] else line # lines_of (received r'))"
proof -
  define r1 where "r1 = (if pr_eof r then r else fill_buffer (pr_buf r) (pr_chunks r))"
  have r1: "received r1 = received r" "newline \<notin> set (pr_buf r1) \<Longrightarrow> pr_eof r1"
    using fill_buffer_received [of "pr_buf r" "pr_chunks r"] by (auto simp: r1_def received_def)
  show ?thesis
  proof (cases "newline \<in> set (pr_buf r1)")
    case True
    then have r': "line = takeWhile (\<lambda>c. c \<noteq> newline) (pr_buf r1) @ [newline]"
      "r' = r1\<lparr>pr_buf := tl (dropWhile (\<lambda>c. c \<noteq> newline) (pr_buf r1))\<rparr>"
      using assms by (auto simp: pipe_readline_def r1_def [symmetric] Let_def)
    have front: "takeWhile (\<lambda>c. c \<noteq> newline) (pr_buf r1 @ t) = takeWhile (\<lambda>c. c \<noteq> newline) (pr_buf r1)"
      "tl (dropWhile (\<lambda>c. c \<noteq> newline) (pr_buf r1 @ t)) = tl (dropWhile (\<lambda>c. c \<noteq> newline) (pr_buf r1)) @ t" for t
      using True split_at_newline [OF True] by (auto simp: takeWhile_append dropWhile_append)
    show ?thesis
      using True lines_of_newline [of "received r1"] front r' by (simp add: r1(1) [symmetric]) (simp add: received_def)
  next
    case False
    then have "line = pr_buf r1" "r' = r1\<lparr>pr_buf := []\<rparr>" "pr_eof r1"
      using assms r1(2) by (auto simp: pipe_readline_def r1_def [symmetric] Let_def)
    then show ?thesis using lines_of_rest [OF False] r1(1) by (simp add: received_def)
  qed
qed

lemma pipe_lines_received: "pipe_lines r = lines_of (received r)"
proof (induction r rule: pipe_lines.induct)
  case (1 r)
  obtain line r' where r: "pipe_readline r = (line, r')" by fastforce
  with 1 show ?case using readline_received [OF r] by (subst pipe_lines.simps) simp
qed

text \<open>\<open>_PipeWriter\<close>, and \<open>BaseAPIServer._write\<close> on it; \<open>ok\<close> says whether the one \<open>write_file\<close> succeeds.\<close>

record pipe_writer =
  pw_buf :: string
  pw_sent :: "string list"

definition pipe_write :: "string \<Rightarrow> pipe_writer \<Rightarrow> pipe_writer" where
  "pipe_write t w = w\<lparr>pw_buf := pw_buf w @ t\<rparr>"

definition pipe_flush :: "bool \<Rightarrow> pipe_writer \<Rightarrow> bool \<times> pipe_writer" where
  "pipe_flush ok w =
     (if pw_buf w = [] then (True, w)
      else if ok then (True, \<lparr>pw_buf = [], pw_sent = pw_sent w @ [pw_buf w]\<rparr>)
      else (False, w))"

definition write_message :: "bool \<Rightarrow> string \<Rightarrow> pipe_writer \<Rightarrow> bool \<times> pipe_writer" where
  "write_message ok message w = pipe_flush ok (pipe_write [newline] (pipe_write message w))"

fun write_messages :: "string list \<Rightarrow> pipe_writer \<Rightarrow> pipe_writer" where
  "write_messages [] w = w"
| "write_messages (m # ms) w = write_messages ms (snd (write_message True m w))"

lemma write_messages_sent:
  "pw_buf w = [] \<Longrightarrow> pw_buf (write_messages ms w) = [] \<and> pw_sent (write_messages ms w) = pw_sent w @ map (\<lambda>m. m @ [newline]) ms"
  by (induction ms arbitrary: w) (simp_all add: write_message_def pipe_flush_def pipe_write_def)

lemma lines_of_messages: "\<forall>m\<in>set ms. newline \<notin> set m \<Longrightarrow> lines_of (concat (map (\<lambda>m. m @ [newline]) ms)) = map (\<lambda>m. m @ [newline]) ms"
proof (induction ms)
  case (Cons m ms)
  then have "takeWhile (\<lambda>c. c \<noteq> newline) (m @ newline # t) = m" "dropWhile (\<lambda>c. c \<noteq> newline) (m @ newline # t) = newline # t" for t
    by (auto simp: takeWhile_append dropWhile_append)
  with Cons show ?case by (simp add: lines_of_newline)
qed simp

subsection \<open>The operations\<close>

text \<open>\<open>_holder_for_connection\<close> and \<open>_local_holder\<close>: the process the kernel says is at the other end.\<close>

definition pipe_holder :: "kernel \<Rightarrow> handle \<Rightarrow> holder_ref option" where
  "pipe_holder k h = map_option local_holder (get_client_process_id k h)"

text \<open>\<open>_dispatch_line\<close> on an object.\<close>

definition pipe_dispatch_op :: "world \<Rightarrow> holder_ref \<Rightarrow> client_request \<Rightarrow> conn \<Rightarrow> response \<times> conn \<times> mode" where
  "pipe_dispatch_op w holder q c =
     (let req = request.truncate q; rg = registry_of c; acq = cn_acquired c in
      case cr_op q of
        None \<Rightarrow> (Failed InvalidRequest, c, Continue)
      | Some op \<Rightarrow>
          if op = ''list'' then stay (op_list rg, c)
          else if op = ''get'' \<or> op = ''find'' then stay (op_find local_visible req rg, c)
          else if op = ''lock'' then stay (handled (op_lock local_visible (wd_wall w) req holder acq rg) c)
          else if op = ''unlock'' then stay (handled (op_unlock local_visible (wd_tick w) req holder acq rg) c)
          else if op = ''mark_flashed''
          then (let (resp, rg') = op_mark_flashed local_visible req holder rg in stay (resp, set_registry rg' c))
          else if op = ''rescan''
          then (let (resp, rg', evs) = op_rescan req rg in stay (handled (resp, rg', acq, evs) c))
          else if op = ''names_get'' then stay (op_names_get req rg, c)
          else if op = ''names_set''
          then (let (resp, rg', evs) = op_names_set (wd_wall w) req rg in stay (handled (resp, rg', acq, evs) c))
          else if op = ''names_clear''
          then (let (resp, rg', evs) = op_names_clear req rg in stay (handled (resp, rg', acq, evs) c))
          else if op = ''names_list'' then stay (op_names_list rg, c)
          else (Failed InvalidRequest, c, Continue))"

text \<open>\<open>_is_holder_alive\<close> and one turn of \<open>_sweep_loop\<close>.\<close>

definition pipe_holder_alive :: "kernel \<Rightarrow> holder_ref \<Rightarrow> bool" where
  "pipe_holder_alive k =
     local_holder_alive (\<lambda>pid. case pid of None \<Rightarrow> False | Some n \<Rightarrow> fst (default_is_pid_alive_windows k n))"

definition pipe_sweep :: "real \<Rightarrow> kernel \<Rightarrow> registry \<Rightarrow> registry \<times> uid list \<times> reg_event list" where
  "pipe_sweep tick k rg = sweep_once tick (pipe_holder_alive k) rg"

subsection \<open>A connection\<close>

datatype handle_op = DisconnectPipe handle | CloseHandle handle

text \<open>\<open>_handle_connection\<close>: \<open>parse\<close> is \<open>strip\<close> and \<open>json.loads\<close> on the decoded line, \<open>worlds\<close> what the world does while
  each line is served. The result has the operations on the pipe's handle. A line that is not UTF-8 raises out of
  the loop.\<close>

definition pipe_served :: "(string \<Rightarrow> client_line) \<Rightarrow> (nat \<Rightarrow> world) \<Rightarrow> string list \<Rightarrow> (world \<times> client_line) list" where
  "pipe_served parse worlds chunks = map (\<lambda>(i, line). (worlds i, parse line)) (enumerate 0 (pipe_lines (new_reader chunks)))"

definition pipe_handle_connection ::
    "kernel \<Rightarrow> (string \<Rightarrow> client_line) \<Rightarrow> (nat \<Rightarrow> world) \<Rightarrow> real \<Rightarrow> handle \<Rightarrow> string list \<Rightarrow> host \<Rightarrow> conn \<times> mode \<times> handle_op list" where
  "pipe_handle_connection k parse worlds tick h chunks st =
     (case pipe_holder k h of
        None \<Rightarrow> (new_conn st, Closed, [CloseHandle h])
      | Some holder \<Rightarrow>
          let (c, m) = serve_lines (\<lambda>w q. pipe_dispatch_op w holder q) None True (pipe_served parse worlds chunks) (new_conn st);
              (rg, evs) = release_all tick holder (cn_acquired c) (registry_of c) []
          in ((set_registry rg c)\<lparr>cn_events := cn_events c @ evs\<rparr>, m, [DisconnectPipe h, CloseHandle h]))"

text \<open>The third server keeps to the contract of \<open>line_server\<close>.\<close>

lemma pipe_dispatch_covered:
  assumes "covered holder c" and "pipe_dispatch_op w holder q c = (resp, c', m)"
  shows "covered holder c'"
proof -
  let ?req = "request.truncate q" and ?rg = "registry_of c" and ?acq = "cn_acquired c"
  obtain lr lrg lacq le where lock: "op_lock local_visible (wd_wall w) ?req holder ?acq ?rg = (lr, lrg, lacq, le)" by (metis prod_cases4)
  obtain ur urg uacq ue where unlock: "op_unlock local_visible (wd_tick w) ?req holder ?acq ?rg = (ur, urg, uacq, ue)" by (metis prod_cases4)
  obtain sr srg se where rescan: "op_rescan ?req ?rg = (sr, srg, se)" by (metis prod_cases3)
  obtain nr nrg ne where nset: "op_names_set (wd_wall w) ?req ?rg = (nr, nrg, ne)" by (metis prod_cases3)
  obtain cr crg ce where nclear: "op_names_clear ?req ?rg = (cr, crg, ce)" by (metis prod_cases3)
  obtain mr mrg where mark: "op_mark_flashed local_visible ?req holder ?rg = (mr, mrg)" by fastforce
  have same: "covered holder (snd (handled (r, rg1, ?acq, e) c))" if "rg_locks rg1 = rg_locks ?rg" for r rg1 e
    using held_by_locks [OF that] by (intro covered_handled [OF assms(1), of rg1 ?acq r e]) auto
  have "covered holder (snd (handled (lr, lrg, lacq, le) c))"
    using op_lock_held [OF lock] op_lock_grows [OF lock] by (intro covered_handled [OF assms(1), of lrg lacq lr le]) auto
  moreover have "covered holder (snd (handled (ur, urg, uacq, ue) c))"
    using op_unlock_held [OF unlock] op_unlock_shrinks [OF unlock] by (intro covered_handled [OF assms(1), of urg uacq ur ue]) auto
  moreover have "covered holder (snd (handled (sr, srg, ?acq, se) c))" by (rule same) (rule rescan_locks [OF rescan])
  moreover have "covered holder (snd (handled (nr, nrg, ?acq, ne) c))" by (rule same) (rule names_locks(1) [OF nset])
  moreover have "covered holder (snd (handled (cr, crg, ?acq, ce) c))" by (rule same) (rule names_locks(2) [OF nclear])
  moreover have "covered holder (set_registry mrg c)" using assms(1) covered_set_registry [OF mark_flashed_locks [OF mark]] by simp
  ultimately show ?thesis
    using assms lock unlock rescan nset nclear mark
    by (fastforce simp: pipe_dispatch_op_def stay_def Let_def split: if_splits option.splits prod.splits)
qed

interpretation pipe: line_server "\<lambda>w q. pipe_dispatch_op w holder q" "covered holder" "private_world holder" for holder
  by unfold_locales (auto intro: pipe_dispatch_covered interleave_covered)

subsection \<open>The accept loop\<close>

text \<open>Where the accept thread is in \<open>_accept_loop\<close>: at the head of the loop; with an instance it has just created, before the
  gate; past the gate, before the call of \<open>ConnectNamedPipe\<close>; blocked in it; back from it, before the second test of the stop
  flag; past that test, before the handler thread is started; or out of the loop.\<close>

datatype accept_at =
    LoopHead
  | Created handle
  | Gated handle
  | Waiting handle
  | Connected handle
  | Starting handle
  | Ended

record accept_state =
  ac_at :: accept_at
  ac_stop :: bool
  ac_pending :: "handle option"
  ac_created :: "handle list"
  ac_closed :: "handle list"
  ac_served :: "handle list"

text \<open>What can happen: the thread's own next step, with the answer of the kernel where the step is a call; a client that
  connects, or a connect that fails; \<open>stop\<close> setting the flag, and its \<open>CancelSynchronousIo\<close>.\<close>

datatype accept_event =
    Proceed "handle option"
  | ClientArrives bool
  | SetStop
  | CancelIo

definition drop_instance :: "handle \<Rightarrow> accept_state \<Rightarrow> accept_state" where
  "drop_instance h s = s\<lparr>ac_at := Ended, ac_pending := None, ac_closed := ac_closed s @ [h]\<rparr>"

fun accept_exec :: "accept_event \<Rightarrow> accept_state \<Rightarrow> accept_state option" where
  "accept_exec SetStop s = Some (s\<lparr>ac_stop := True\<rparr>)"
| "accept_exec CancelIo s = Some (case ac_at s of Waiting h \<Rightarrow> drop_instance h s | _ \<Rightarrow> s)"
| "accept_exec (ClientArrives ok) s =
     (case ac_at s of
        Waiting h \<Rightarrow> Some (if ok then s\<lparr>ac_at := Connected h, ac_pending := None\<rparr> else drop_instance h s)
      | _ \<Rightarrow> None)"
| "accept_exec (Proceed answered) s =
     (case ac_at s of
        LoopHead \<Rightarrow>
          Some (if ac_stop s then s\<lparr>ac_at := Ended\<rparr>
                else (case answered of
                        None \<Rightarrow> s\<lparr>ac_at := Ended\<rparr>
                      | Some h \<Rightarrow> s\<lparr>ac_at := Created h, ac_created := ac_created s @ [h]\<rparr>))
      | Created h \<Rightarrow> Some (if ac_stop s then drop_instance h s else s\<lparr>ac_at := Gated h, ac_pending := Some h\<rparr>)
      | Gated h \<Rightarrow> Some (s\<lparr>ac_at := Waiting h\<rparr>)
      | Connected h \<Rightarrow> Some (if ac_stop s then drop_instance h s else s\<lparr>ac_at := Starting h\<rparr>)
      | Starting h \<Rightarrow> Some (s\<lparr>ac_at := LoopHead, ac_served := ac_served s @ [h]\<rparr>)
      | _ \<Rightarrow> None)"

definition accept_start :: accept_state where
  "accept_start = \<lparr>ac_at = LoopHead, ac_stop = False, ac_pending = None, ac_created = [], ac_closed = [], ac_served = []\<rparr>"

inductive accept_reach :: "accept_state \<Rightarrow> bool" where
  reach_start: "accept_reach accept_start"
| reach_step: "accept_reach s \<Longrightarrow> accept_exec e s = Some s' \<Longrightarrow> accept_reach s'"

fun accept_run :: "accept_event list \<Rightarrow> accept_state \<Rightarrow> accept_state" where
  "accept_run [] s = s"
| "accept_run (e # es) s = accept_run es (case accept_exec e s of None \<Rightarrow> s | Some s' \<Rightarrow> s')"

text \<open>\<open>_cancel_accept_thread_pending_io\<close>: the clock at the head of each turn of its loop, and what happens in the accept thread
  during the \<open>join\<close> of 0.05 s after each cancel.\<close>

fun cancel_loop :: "real \<Rightarrow> (real \<times> accept_event list) list \<Rightarrow> accept_state \<Rightarrow> accept_state" where
  "cancel_loop deadline [] s = s"
| "cancel_loop deadline ((now, window) # turns) s =
     (if ac_at s \<noteq> Ended \<and> now < deadline
      then cancel_loop deadline turns (accept_run window (accept_run [CancelIo] s))
      else s)"

text \<open>\<open>stop\<close>, up to the \<open>join\<close> of the other threads.\<close>

definition stop_accepting :: "real \<Rightarrow> (real \<times> accept_event list) list \<Rightarrow> accept_state \<Rightarrow> accept_state" where
  "stop_accepting started turns s = cancel_loop (started + 2) turns (accept_run [SetStop] s)"

fun in_flight :: "accept_at \<Rightarrow> handle list" where
  "in_flight (Created h) = [h]"
| "in_flight (Gated h) = [h]"
| "in_flight (Waiting h) = [h]"
| "in_flight (Connected h) = [h]"
| "in_flight (Starting h) = [h]"
| "in_flight _ = []"

fun shown_pending :: "accept_at \<Rightarrow> handle option" where
  "shown_pending (Gated h) = Some h"
| "shown_pending (Waiting h) = Some h"
| "shown_pending _ = None"

lemma accept_invariant:
  "accept_reach s \<Longrightarrow> mset (ac_created s) = mset (ac_closed s) + mset (ac_served s) + mset (in_flight (ac_at s))
     \<and> ac_pending s = shown_pending (ac_at s)"
proof (induction rule: accept_reach.induct)
  case reach_start
  then show ?case by (simp add: accept_start_def)
next
  case (reach_step s e s')
  then show ?case
    by (cases e; cases "ac_at s") (auto simp: drop_instance_def split: if_splits option.splits)
qed

text \<open>How many steps a thread can still make once the flag is set.\<close>

fun stop_rank :: "accept_at \<Rightarrow> nat" where
  "stop_rank Ended = 0"
| "stop_rank LoopHead = 1"
| "stop_rank (Created h) = 1"
| "stop_rank (Connected h) = 1"
| "stop_rank (Starting h) = 2"
| "stop_rank (Waiting h) = 2"
| "stop_rank (Gated h) = 3"

lemma stopped_step:
  "accept_exec e s = Some s' \<Longrightarrow> ac_stop s \<Longrightarrow>
     ac_stop s' \<and> (s' = s \<and> e \<in> {SetStop, CancelIo} \<or> stop_rank (ac_at s') < stop_rank (ac_at s))
   \<and> length (ac_served s') + (if \<exists>h. ac_at s' = Starting h then 1 else 0) \<le> length (ac_served s) + (if \<exists>h. ac_at s = Starting h then 1 else 0)"
  by (cases e; cases "ac_at s") (auto simp: drop_instance_def split: if_splits)

lemma accept_run_reach: "accept_reach s \<Longrightarrow> accept_reach (accept_run es s)"
  by (induction es arbitrary: s) (auto split: option.split intro: reach_step)

lemma stopped_run:
  "ac_stop s \<Longrightarrow> ac_stop (accept_run es s) \<and> stop_rank (ac_at (accept_run es s)) \<le> stop_rank (ac_at s)
   \<and> length (ac_served (accept_run es s)) + (if \<exists>h. ac_at (accept_run es s) = Starting h then 1 else 0)
       \<le> length (ac_served s) + (if \<exists>h. ac_at s = Starting h then 1 else 0)"
proof (induction es arbitrary: s)
  case (Cons e es)
  show ?case
  proof (cases "accept_exec e s")
    case (Some s')
    have "ac_stop s'" "stop_rank (ac_at s') \<le> stop_rank (ac_at s)" using stopped_step [OF Some Cons.prems] by auto
    then show ?thesis using Cons.IH [of s'] stopped_step [OF Some Cons.prems] Some by simp
  qed (use Cons in simp)
qed simp

lemma ended_run [simp]: "ac_at s = Ended \<Longrightarrow> ac_at (accept_run es s) = Ended \<and> ac_served (accept_run es s) = ac_served s
    \<and> ac_closed (accept_run es s) = ac_closed s"
proof (induction es arbitrary: s)
  case (Cons e es)
  then show ?case by (cases e) auto
qed simp

section \<open>Properties\<close>

text \<open>The framing over a pipe is exact. Whatever messages without a newline are written one after the other, however
  the pipe cuts the bytes into reads, the reader's lines are those messages, in order and each with its newline.\<close>

theorem pipe_messages_roundtrip:
  assumes "\<forall>m\<in>set messages. newline \<notin> set m" and "[] \<notin> set chunks"
    and "concat chunks = concat (pw_sent (write_messages messages \<lparr>pw_buf = [], pw_sent = []\<rparr>))"
  shows "pipe_lines (new_reader chunks) = map (\<lambda>m. m @ [newline]) messages"
proof -
  have "\<forall>chunk\<in>set chunks. chunk \<noteq> []" using assms(2) by auto
  then have whole: "takeWhile (\<lambda>chunk. chunk \<noteq> []) chunks = chunks" by (simp only: takeWhile_eq_all_conv)
  have "received (new_reader chunks) = concat (map (\<lambda>m. m @ [newline]) messages)"
    unfolding received_def new_reader_def pipe_reader.simps if_False whole
    using assms(3) write_messages_sent [of "\<lparr>pw_buf = [], pw_sent = []\<rparr>" messages] by simp
  then show ?thesis using lines_of_messages [OF assms(1)] by (simp add: pipe_lines_received)
qed

text \<open>Two messages, read in three pieces.\<close>

theorem pipe_messages_roundtrip_witness:
  "pipe_lines (new_reader [''{}'', [newline, CHR ''['', CHR '']''], [newline]]) = [''{}'' @ [newline], ''[]'' @ [newline]]"
  using pipe_messages_roundtrip [of "[''{}'', ''[]'']" "[''{}'', [newline, CHR ''['', CHR '']''], [newline]]"]
  by (simp add: newline_def write_message_def pipe_flush_def pipe_write_def)

text \<open>A connection over a pipe leaves nothing behind, however it ends. No lock is held in its name, its handle is closed
  exactly once, as the last thing done with it, and a connection whose process the kernel does not name is closed without a
  look at what it sent.\<close>

theorem pipe_connection_leaves_nothing:
  assumes "\<forall>holder. pipe_holder k h = Some holder \<longrightarrow>
      (\<forall>u. \<not> held_by holder (ho_registry st) u) \<and> (\<forall>i. private_world holder (worlds i))"
  shows "case pipe_handle_connection k parse worlds tick h chunks st of (c, m, ops) \<Rightarrow>
      (\<forall>holder. pipe_holder k h = Some holder \<longrightarrow> (\<forall>u. \<not> held_by holder (registry_of c) u))
    \<and> (\<exists>before. ops = before @ [CloseHandle h] \<and> CloseHandle h \<notin> set before)
    \<and> (pipe_holder k h = None \<longrightarrow> c = new_conn st)"
proof (cases "pipe_holder k h")
  case None
  then show ?thesis by (simp add: pipe_handle_connection_def)
next
  case (Some holder)
  let ?lines = "pipe_served parse worlds chunks"
  obtain c m where s: "serve_lines (\<lambda>w q. pipe_dispatch_op w holder q) None True ?lines (new_conn st) = (c, m)" by fastforce
  obtain rg evs where r: "release_all tick holder (cn_acquired c) (registry_of c) [] = (rg, evs)" by fastforce
  have "covered holder (new_conn st)" using assms Some by (simp add: covered_def new_conn_def registry_of_def)
  moreover have "\<forall>(w, line)\<in>set ?lines. private_world holder w" using assms Some by (auto simp: pipe_served_def)
  ultimately have "covered holder c" using pipe.serve_lines_inv [OF _ _ s] by blast
  then have "\<not> held_by holder rg u" for u
    using release_all_held [of holder tick "cn_acquired c" "registry_of c" "[]" u] r by (auto simp: covered_def)
  then show ?thesis
    using Some s r by (simp add: pipe_handle_connection_def)
qed

text \<open>A kernel that answers, and a client that locks a board and hangs up.\<close>

definition demo_kernel :: kernel where
  "demo_kernel = \<lparr>kn_convert = (\<lambda>_ _. Some 1), kn_create_pipe = (\<lambda>_ _. 8), kn_connect = (\<lambda>_. None), kn_read = (\<lambda>_ _. None),
     kn_write = (\<lambda>_ _. True), kn_client_pid = (\<lambda>_. Some 42), kn_create_file = (\<lambda>_ _ _. 9), kn_open_thread = (\<lambda>_ _. 0),
     kn_cancel_io = (\<lambda>_. None), kn_open_process = (\<lambda>_ _. 0), kn_exit_code = (\<lambda>_. None)\<rparr>"

definition demo_parse :: "string \<Rightarrow> client_line" where
  "demo_parse line = (if line = ''lock'' @ [newline] then Request (demo_request ''lock'') else BadJson)"

theorem pipe_connection_leaves_nothing_witness:
  "case pipe_handle_connection demo_kernel demo_parse (\<lambda>_. demo_world) 3 8 [''lo'', ''ck'' @ [newline]] demo_host of (c, m, ops) \<Rightarrow>
     cn_sent c = [Ok] \<and> \<not> held_by (local_holder 42) (registry_of c) ''aa'' \<and> CloseHandle 8 \<in> set ops"
proof -
  let ?r = "pipe_handle_connection demo_kernel demo_parse (\<lambda>_. demo_world) 3 8 [''lo'', ''ck'' @ [newline]] demo_host"
  have pid: "pipe_holder demo_kernel 8 = Some (local_holder 42)"
    by (simp add: pipe_holder_def get_client_process_id_def demo_kernel_def)
  have lines: "pipe_served demo_parse (\<lambda>_. demo_world) [''lo'', ''ck'' @ [newline]] = [(demo_world, Request (demo_request ''lock''))]"
    by (simp add: pipe_served_def pipe_lines_received received_def new_reader_def newline_def demo_parse_def)
  have lock: "\<exists>rg evs. op_lock local_visible 1 (request.truncate (demo_request ''lock'')) (local_holder 42) [] bench = (Ok, rg, [''aa''], evs)"
    using demo_find demo_device_here
    by (simp add: op_lock_def resolve_visible_def local_visible_def truthy_def demo_request_def request.truncate_def LOCK_KINDS_def
        kind_defs acquire_lock_eq bench_def)
  have "\<exists>c. serve_lines (\<lambda>w q. pipe_dispatch_op w (local_holder 42) q) None True [(demo_world, Request (demo_request ''lock''))]
      (new_conn demo_host) = (c, Closed) \<and> cn_sent c = [Ok]"
    using lock
    by (auto simp: serve_line_def pipe_dispatch_op_def demo_request_def request.truncate_def new_conn_def demo_host_def
        demo_world_def interleave_def registry_of_def stay_def handled_def set_registry_def answer_def raises_def Let_def)
  then obtain c where c: "serve_lines (\<lambda>w q. pipe_dispatch_op w (local_holder 42) q) None True
      (pipe_served demo_parse (\<lambda>_. demo_world) [''lo'', ''ck'' @ [newline]]) (new_conn demo_host) = (c, Closed)" "cn_sent c = [Ok]"
    unfolding lines by blast
  then have sent: "cn_sent (fst ?r) = [Ok]"
    unfolding pipe_handle_connection_def pid option.case Let_def by (simp split: prod.split)
  have "\<forall>holder. pipe_holder demo_kernel 8 = Some holder \<longrightarrow>
      (\<forall>u. \<not> held_by holder (ho_registry demo_host) u) \<and> (\<forall>i::nat. private_world holder ((\<lambda>_. demo_world) i))"
    using demo_fair(1) by (simp add: held_by_def demo_host_def bench_def)
  from pipe_connection_leaves_nothing [OF this, of demo_parse 3 "[''lo'', ''ck'' @ [newline]]"]
  show ?thesis using sent pid by (auto split: prod.splits)
qed

text \<open>A client finds the same registry behind the pipe as behind the socket. The operations both servers have answer alike,
  whatever the request and the state, and change the connection and the registry in the same way but for the socket server's
  table of connections; every other request is refused and changes nothing.\<close>

definition PIPE_OPS :: "string list" where
  "PIPE_OPS = [''list'', ''get'', ''find'', ''lock'', ''unlock'', ''mark_flashed'', ''rescan'', ''names_get'', ''names_set'',
     ''names_clear'', ''names_list'']"

definition without_conns :: "conn \<Rightarrow> conn" where
  "without_conns c = set_registry ((registry_of c)\<lparr>rg_conns := []\<rparr>) c"

lemma without_conns_handled:
  "rg1\<lparr>rg_conns := []\<rparr> = rg2\<lparr>rg_conns := []\<rparr> \<Longrightarrow> without_conns (snd (handled (r, rg1, a, e) c)) = without_conns (snd (handled (r, rg2, a, e) c))"
  by (simp add: without_conns_def handled_def set_registry_def registry_of_def)

theorem pipe_serves_as_the_socket:
  "case pipe_dispatch_op w (local_holder pid) q c of (resp, c1, m) \<Rightarrow> case local_dispatch_op w pid me q c of (resp', c2, m') \<Rightarrow>
     if cr_op q \<in> Some ` set PIPE_OPS then resp = resp' \<and> without_conns c1 = without_conns c2 \<and> m = Continue \<and> m' = Continue
     else resp = Failed InvalidRequest \<and> c1 = c \<and> m = Continue"
proof -
  let ?req = "request.truncate q" and ?rg = "registry_of c" and ?acq = "cn_acquired c" and ?h = "local_holder pid"
  obtain r g a e where lo: "op_lock local_visible (wd_wall w) ?req ?h ?acq ?rg = (r, g, a, e)" by (metis prod_cases4)
  obtain r' g' a' e' where di: "dispatch_lock (wd_wall w) me ?req ?h ?acq ?rg = (r', g', a', e')" by (metis prod_cases4)
  have lock: "r = r' \<and> a = a' \<and> e = e' \<and> g\<lparr>rg_conns := []\<rparr> = g'\<lparr>rg_conns := []\<rparr>"
    using same_but_conns(1) [where v = local_visible and wall = "wd_wall w" and me = me and req = ?req and holder = ?h and acq = ?acq and rg = ?rg]
    by (simp add: lo di)
  obtain s k b f where uo: "op_unlock local_visible (wd_tick w) ?req ?h ?acq ?rg = (s, k, b, f)" by (metis prod_cases4)
  obtain s' k' b' f' where ud: "dispatch_unlock (wd_tick w) ?req ?h ?acq ?rg = (s', k', b', f')" by (metis prod_cases4)
  have unlock: "s = s' \<and> b = b' \<and> f = f' \<and> k\<lparr>rg_conns := []\<rparr> = k'\<lparr>rg_conns := []\<rparr>"
    using same_but_conns(2) [where v = local_visible and tick = "wd_tick w" and req = ?req and holder = ?h and acq = ?acq and rg = ?rg]
    by (simp add: uo ud)
  have fst_handled: "fst (handled (x, y) c) = x" for x y by (simp add: handled_def split: prod.split)
  show ?thesis
  proof (cases "cr_op q")
    case (Some op)
    consider "op = ''lock''" | "op = ''unlock''" | "op \<noteq> ''lock''" "op \<noteq> ''unlock''" by blast
    then show ?thesis
    proof cases
      case 1
      then show ?thesis
        using lock without_conns_handled [of g g'] Some
        by (simp add: pipe_dispatch_op_def local_dispatch_op_def PIPE_OPS_def stay_def lo di fst_handled)
    next
      case 2
      then show ?thesis
        using unlock without_conns_handled [of k k'] Some
        by (simp add: pipe_dispatch_op_def local_dispatch_op_def PIPE_OPS_def stay_def uo ud fst_handled)
    next
      case 3
      then show ?thesis
        using Some by (auto simp: pipe_dispatch_op_def local_dispatch_op_def PIPE_OPS_def stay_def Let_def split: prod.splits)
    qed
  qed (auto simp: pipe_dispatch_op_def split: prod.split)
qed



subsection \<open>Observations\<close>

text \<open>One cancel is not enough: a thread that is past the gate but not yet in the call goes on and blocks.\<close>

lemma single_cancel_can_miss:
  "ac_at (accept_run [Proceed (Some h), Proceed None, SetStop, CancelIo, Proceed None] accept_start) = Waiting h"
  by (simp add: accept_start_def)

text \<open>A connect that fails ends the accept loop although nobody stopped the server, which answers no further client; a client
  that opens the pipe and closes it again before \<open>ConnectNamedPipe\<close> is called makes it fail.\<close>

lemma failed_connect_ends_the_server:
  assumes "s = accept_run [Proceed (Some h), Proceed None, Proceed None, ClientArrives False] accept_start"
  shows "ac_at s = Ended" and "\<not> ac_stop s" and "ac_served (accept_run es s) = []"
proof -
  show a: "ac_at s = Ended" "\<not> ac_stop s" by (simp_all add: assms accept_start_def drop_instance_def)
  have "ac_served s = []" by (simp add: assms accept_start_def drop_instance_def)
  then show "ac_served (accept_run es s) = []" using ended_run [OF a(1)] by simp
qed

text \<open>The sweep asks after exactly the process that holds the lock: a client's process id is a \<open>DWORD\<close>, so that nothing is cut
  off on its way back to the kernel. The handle opened for the question is closed.\<close>

lemma sweep_asks_the_client_process:
  assumes "kn_client_pid k h = Some d" and "d \<noteq> 0" and "pipe_holder k h = Some holder"
  shows "pipe_holder_alive k' holder \<longleftrightarrow>
      (let p = kn_open_process k' PROCESS_QUERY_LIMITED_INFORMATION d in p \<noteq> 0 \<and> kn_exit_code k' p = Some STILL_ACTIVE)"
proof -
  have "0 < uint d" using assms(2) uint_ge_0 [of d] by (metis less_le uint_0_iff)
  then show ?thesis
    using assms(1,3)
    by (auto simp: pipe_holder_def get_client_process_id_def pipe_holder_alive_def local_holder_alive_def local_holder_def
        default_is_pid_alive_windows_def Let_def split: if_splits)
qed

lemma alive_closes_what_it_opens:
  "snd (default_is_pid_alive_windows k pid) = [p] \<Longrightarrow> p = kn_open_process k PROCESS_QUERY_LIMITED_INFORMATION (word_of_int pid) \<and> p \<noteq> 0"
  by (simp add: default_is_pid_alive_windows_def Let_def split: if_splits)

end
