(* ===== verification/MB_Service.thy ===== *)
theory MB_Service
  imports MB_Deploy
begin

text \<open>
  Model of the registry as a service of the operating system: \<open>src/mbtools/registry/paths.py\<close> (where its files
  live), \<open>service.py\<close> (launchd and systemd), \<open>service_windows.py\<close> and the \<open>service\<close> subcommands of
  \<open>registry/cli.py\<close>. An operation maps the host it runs on (\<open>box\<close>: the file tree, the commands run so far, what
  was printed, and \<open>'s\<close>, all that the executed programs read and write) to its result and the host
  afterwards. The programs themselves are \<open>mc_exec\<close>: the exit status, \<open>None\<close> where there is no such program.
  A path is kept in parts, as \<open>pathlib\<close> does. The texts printed are values of \<open>notice\<close>.
\<close>

subsection \<open>Paths\<close>

datatype platform = Darwin | LinuxOS | Windows | OtherOS string

datatype path = Path string "string list"

definition py_path :: "string \<Rightarrow> path" where
  "py_path s =
     Path (if starts_with ''//'' s \<and> \<not> starts_with ''///'' s then ''//'' else if starts_with ''/'' s then ''/'' else '''')
       (filter (\<lambda>p. p \<noteq> [] \<and> p \<noteq> ''.'') (split_on (CHR ''/'') s))"

definition joined :: "path \<Rightarrow> string list \<Rightarrow> path" where
  "joined p names = (case p of Path r parts \<Rightarrow> Path r (parts @ names))"

definition path_parent :: "path \<Rightarrow> path" where
  "path_parent p = (case p of Path r parts \<Rightarrow> Path r (butlast parts))"

definition path_str :: "path \<Rightarrow> string" where
  "path_str p = (case p of Path r parts \<Rightarrow> if r = [] \<and> parts = [] then ''.'' else r @ join_with (CHR ''/'') parts)"

definition path_stem :: "path \<Rightarrow> string" where
  "path_stem p =
     (case p of Path r parts \<Rightarrow>
        if parts = [] then []
        else (case rpartition (CHR ''.'') (last parts) of
                None \<Rightarrow> last parts
              | Some (a, b) \<Rightarrow> if a = [] \<or> b = [] then last parts else a))"

text \<open>\<open>p\<close> and the directories it is in, outermost first.\<close>

definition path_chain :: "path \<Rightarrow> path list" where
  "path_chain p = (case p of Path r parts \<Rightarrow> map (\<lambda>n. Path r (take n parts)) [0..<Suc (length parts)])"

definition path_under :: "path \<Rightarrow> path \<Rightarrow> bool" where
  "path_under d p \<longleftrightarrow> d \<in> set (path_chain p)"

subsection \<open>The host\<close>

record launchd_plist =
  pl_label :: string
  pl_arguments :: "string list"
  pl_environment :: "(string \<times> string) list"
  pl_working_directory :: string
  pl_run_at_load :: bool
  pl_keep_alive_on_success :: bool
  pl_throttle :: nat
  pl_stdout :: string
  pl_stderr :: string

datatype content = Plist launchd_plist | Text string

datatype node = Directory | File content

datatype lost_file = NoSuchPath path | NoSuchProgram

datatype service_exn =
    UnknownScope string
  | FileNotFoundError lost_file
  | CalledProcessError "string list" int
  | LinuxUserPreflightError string bool bool
  | OSFailure path
  | NotImplementedError

record service_status =
  sst_scope :: string
  sst_path :: path
  sst_installed :: bool
  sst_running :: bool

datatype uninstall_outcome = NotInstalled string path "path option" | Removed string path

datatype notice =
    WouldRun "string list"
  | AddedToGroup string
  | CannotInstallUser string bool bool
  | NotSupported string
  | InstallDone bool string path
  | UninstallDone uninstall_outcome
  | StatusLine service_status
  | NothingInstalled
  | BothInstalled string
  | ScopeNotInstalled string lost_file
  | ControlFailed string "string list" int
  | Controlled bool string string
  | Deprecated
  | Wrote path
  | RunAsAdministrator "string list"

text \<open>What does not change: the platform, the user, the environment, the account data base, which paths the
  process may not write, and the programs. \<open>mc_program_data\<close> is \<open>$PROGRAMDATA\<close>, or its default, as a path.\<close>

record 's machine =
  mc_platform :: platform
  mc_root :: bool
  mc_uid :: "nat option"
  mc_home :: path
  mc_temp :: path
  mc_program_data :: path
  mc_var :: "string \<Rightarrow> string option"
  mc_executable :: string
  mc_login :: string
  mc_pwnam :: "string \<Rightarrow> nat option"
  mc_grgid :: "nat \<Rightarrow> string option"
  mc_grnam :: "string \<Rightarrow> string list option"
  mc_denied :: "path \<Rightarrow> bool"
  mc_exec :: "string list \<Rightarrow> 's \<Rightarrow> int option \<times> 's"

record 's box =
  bx_nodes :: "(path, node) dict"
  bx_ran :: "string list list"
  bx_says :: "notice list"
  bx_sys :: 's

type_synonym ('s, 'a) op = "'s box \<Rightarrow> (service_exn + 'a) \<times> 's box"

subsection \<open>Operations and their composition\<close>

definition ret :: "'a \<Rightarrow> ('s, 'a) op" where "ret x b = (Inr x, b)"

definition throw :: "service_exn \<Rightarrow> ('s, 'a) op" where "throw e b = (Inl e, b)"

definition seq :: "('s, 'a) op \<Rightarrow> ('a \<Rightarrow> ('s, 'b) op) \<Rightarrow> ('s, 'b) op" where
  "seq f g b = (case f b of (Inl e, b1) \<Rightarrow> (Inl e, b1) | (Inr x, b1) \<Rightarrow> g x b1)"

text \<open>\<open>try: x = f() except ...: h else: g(x)\<close>.\<close>

definition handling :: "('s, 'a) op \<Rightarrow> (service_exn \<Rightarrow> ('s, 'b) op) \<Rightarrow> ('a \<Rightarrow> ('s, 'b) op) \<Rightarrow> ('s, 'b) op" where
  "handling f h g b = (case f b of (Inl e, b1) \<Rightarrow> h e b1 | (Inr x, b1) \<Rightarrow> g x b1)"

text \<open>\<open>except subprocess.CalledProcessError: pass\<close>.\<close>

definition tolerating :: "('s, 'a) op \<Rightarrow> ('s, unit) op" where
  "tolerating f = handling f (\<lambda>e. case e of CalledProcessError _ _ \<Rightarrow> ret () | _ \<Rightarrow> throw e) (\<lambda>_. ret ())"

definition unless :: "bool \<Rightarrow> ('s, unit) op \<Rightarrow> ('s, unit) op" where
  "unless c f = (if c then ret () else f)"

definition say :: "notice \<Rightarrow> ('s, unit) op" where
  "say n b = (Inr (), b\<lparr>bx_says := bx_says b @ [n]\<rparr>)"

definition path_exists :: "path \<Rightarrow> ('s, bool) op" where
  "path_exists p b = (Inr (dget (bx_nodes b) p \<noteq> None), b)"

definition put_node :: "path \<Rightarrow> node \<Rightarrow> ('s, unit) op" where
  "put_node p n b = (Inr (), b\<lparr>bx_nodes := dset p n (bx_nodes b)\<rparr>)"

definition drop_node :: "path \<Rightarrow> ('s, unit) op" where
  "drop_node p b = (Inr (), b\<lparr>bx_nodes := ddel p (bx_nodes b)\<rparr>)"

definition is_file :: "node option \<Rightarrow> bool" where
  "is_file n = (case n of Some (File _) \<Rightarrow> True | _ \<Rightarrow> False)"

text \<open>\<open>mkdir(parents=True, exist_ok=True)\<close>.\<close>

definition mkdir_one :: "'s machine \<Rightarrow> path \<Rightarrow> ('s, unit) op" where
  "mkdir_one m p b =
     (case dget (bx_nodes b) p of
        Some Directory \<Rightarrow> (Inr (), b)
      | Some (File _) \<Rightarrow> (Inl (OSFailure p), b)
      | None \<Rightarrow> if mc_denied m p then (Inl (OSFailure p), b) else put_node p Directory b)"

fun each :: "('x \<Rightarrow> ('s, unit) op) \<Rightarrow> 'x list \<Rightarrow> ('s, unit) op" where
  "each f [] = ret ()"
| "each f (x # xs) = seq (f x) (\<lambda>_. each f xs)"

definition mkdir_parents :: "'s machine \<Rightarrow> path \<Rightarrow> ('s, unit) op" where
  "mkdir_parents m p = each (mkdir_one m) (path_chain p)"

definition write_text :: "'s machine \<Rightarrow> path \<Rightarrow> content \<Rightarrow> ('s, unit) op" where
  "write_text m p c b =
     (if mc_denied m p \<or> dget (bx_nodes b) p = Some Directory \<or> dget (bx_nodes b) (path_parent p) \<noteq> Some Directory
      then (Inl (OSFailure p), b) else put_node p (File c) b)"

text \<open>\<open>unlink(missing_ok=True)\<close>.\<close>

definition unlink_missing_ok :: "'s machine \<Rightarrow> path \<Rightarrow> ('s, unit) op" where
  "unlink_missing_ok m p b =
     (case dget (bx_nodes b) p of
        None \<Rightarrow> (if list_ex (\<lambda>q. is_file (dget (bx_nodes b) q)) (path_chain p) then Inl (OSFailure p) else Inr (), b)
      | Some Directory \<Rightarrow> (Inl (OSFailure p), b)
      | Some (File _) \<Rightarrow> if mc_denied m p then (Inl (OSFailure p), b) else drop_node p b)"

text \<open>\<open>shutil.rmtree\<close>: what is inside before what holds it, up to the first failure.\<close>

definition rm_one :: "'s machine \<Rightarrow> path \<Rightarrow> ('s, unit) op" where
  "rm_one m p b = (if mc_denied m p then (Inl (OSFailure p), b) else drop_node p b)"

definition rmtree :: "'s machine \<Rightarrow> path \<Rightarrow> ('s, unit) op" where
  "rmtree m d b =
     (if dget (bx_nodes b) d \<noteq> Some Directory then (Inl (OSFailure d), b)
      else each (rm_one m) (rev (filter (\<lambda>p. path_under d p \<and> p \<noteq> d) (map fst (bx_nodes b))) @ [d]) b)"

subsection \<open>Running commands\<close>

datatype runner = DryRunCommandRunner | SubprocessCommandRunner bool

definition run_command :: "'s machine \<Rightarrow> runner \<Rightarrow> string list \<Rightarrow> ('s, int) op" where
  "run_command m r argv b =
     (case r of
        DryRunCommandRunner \<Rightarrow> seq (say (WouldRun argv)) (\<lambda>_. ret 0) b
      | SubprocessCommandRunner check \<Rightarrow>
          (case mc_exec m argv (bx_sys b) of
             (None, s) \<Rightarrow> (Inl (FileNotFoundError NoSuchProgram), b\<lparr>bx_sys := s\<rparr>)
           | (Some code, s) \<Rightarrow>
               (if check \<and> code \<noteq> 0 then Inl (CalledProcessError argv code) else Inr code,
                b\<lparr>bx_ran := bx_ran b @ [argv], bx_sys := s\<rparr>)))"

definition default_runner :: "bool \<Rightarrow> runner" where
  "default_runner dry_run = (if dry_run then DryRunCommandRunner else SubprocessCommandRunner True)"

definition or_default :: "runner option \<Rightarrow> bool \<Rightarrow> runner" where
  "or_default runner dry_run = (case runner of Some r \<Rightarrow> r | None \<Rightarrow> default_runner dry_run)"

definition or_query :: "runner option \<Rightarrow> runner" where
  "or_query runner = (case runner of Some r \<Rightarrow> r | None \<Rightarrow> SubprocessCommandRunner False)"

definition do_run :: "'s machine \<Rightarrow> runner \<Rightarrow> string list \<Rightarrow> ('s, unit) op" where
  "do_run m r argv = seq (run_command m r argv) (\<lambda>_. ret ())"

subsection \<open>Where the registry's files are\<close>

definition APP :: string where "APP = ''mbregistry''"
definition LAUNCHD_LABEL :: string where "LAUNCHD_LABEL = ''org.jointheleague.mbregistry''"
definition default_pipe_name :: string where "default_pipe_name = [CHR 0x5C, CHR 0x5C, CHR ''.'', CHR 0x5C] @ ''pipe'' @ [CHR 0x5C] @ APP"

definition is_root :: "'s machine \<Rightarrow> bool" where
  "is_root m = (if mc_platform m = Windows then False else mc_root m)"

definition system_db_path :: "'s machine \<Rightarrow> path" where
  "system_db_path m =
     (case mc_platform m of
        Windows \<Rightarrow> joined (mc_program_data m) [APP, ''devices.db'']
      | Darwin \<Rightarrow> joined (py_path ''/Library/Application Support'') [APP, ''devices.db'']
      | _ \<Rightarrow> joined (py_path ''/var/lib'') [APP, ''devices.db''])"

text \<open>\<open>os.environ.get(name)\<close> where the empty string counts as unset.\<close>

definition var_set :: "'s machine \<Rightarrow> string \<Rightarrow> string option" where
  "var_set m v = (case mc_var m v of Some x \<Rightarrow> if x = [] then None else Some x | None \<Rightarrow> None)"

definition user_db_path :: "'s machine \<Rightarrow> path" where
  "user_db_path m =
     (case mc_platform m of
        Windows \<Rightarrow> system_db_path m
      | Darwin \<Rightarrow> joined (mc_home m) [''Library'', ''Application Support'', APP, ''devices.db'']
      | _ \<Rightarrow> joined (case var_set m ''XDG_STATE_HOME'' of Some d \<Rightarrow> py_path d | None \<Rightarrow> joined (mc_home m) [''.local'', ''state''])
               [APP, ''devices.db''])"

definition default_db_path :: "'s machine \<Rightarrow> path" where
  "default_db_path m = (if is_root m then system_db_path m else user_db_path m)"

text \<open>There is no Unix socket on Windows: \<open>NotImplementedError\<close>.\<close>

definition system_socket_path :: "'s machine \<Rightarrow> service_exn + path" where
  "system_socket_path m =
     (case mc_platform m of
        Windows \<Rightarrow> Inl NotImplementedError
      | Darwin \<Rightarrow> Inr (joined (py_path ''/var/run'') [APP, ''api.sock''])
      | _ \<Rightarrow> Inr (joined (py_path ''/run'') [APP, ''api.sock'']))"

definition user_socket_path :: "'s machine \<Rightarrow> (path, node) dict \<Rightarrow> service_exn + path" where
  "user_socket_path m nodes =
     (case mc_platform m of
        Windows \<Rightarrow> Inl NotImplementedError
      | Darwin \<Rightarrow> Inr (joined (mc_home m) [''Library'', ''Application Support'', APP, ''api.sock''])
      | _ \<Rightarrow> (case var_set m ''XDG_RUNTIME_DIR'' of
                 Some d \<Rightarrow> if dget nodes (py_path d) = Some Directory then Inr (joined (py_path d) [APP, ''api.sock''])
                           else Inr (joined (mc_home m) [''.cache'', APP, ''api.sock''])
               | None \<Rightarrow> Inr (joined (mc_home m) [''.cache'', APP, ''api.sock''])))"

definition default_socket_path :: "'s machine \<Rightarrow> (path, node) dict \<Rightarrow> service_exn + path" where
  "default_socket_path m nodes = (if is_root m then system_socket_path m else user_socket_path m nodes)"

definition client_socket_candidates :: "'s machine \<Rightarrow> (path, node) dict \<Rightarrow> service_exn + path list" where
  "client_socket_candidates m nodes =
     (case (system_socket_path m, user_socket_path m nodes) of
        (Inr s, Inr u) \<Rightarrow>
          (let firstly = (if is_root m then s else u); secondly = (if is_root m then u else s)
           in Inr (if firstly = secondly then [firstly] else [firstly, secondly]))
      | (Inl e, _) \<Rightarrow> Inl e
      | (_, Inl e) \<Rightarrow> Inl e)"

definition find_client_socket :: "'s machine \<Rightarrow> (path, node) dict \<Rightarrow> service_exn + path" where
  "find_client_socket m nodes =
     (case client_socket_candidates m nodes of
        Inl e \<Rightarrow> Inl e
      | Inr cands \<Rightarrow> (case find (\<lambda>p. dget nodes p \<noteq> None) cands of Some p \<Rightarrow> Inr p | None \<Rightarrow> Inr (hd cands)))"

definition claims_dir_path :: "'s machine \<Rightarrow> path" where
  "claims_dir_path m = joined (mc_temp m) [''mbtools'', ''claims'']"

text \<open>The address a client dials and a daemon binds: \<open>client.py\<close>.\<close>

datatype address = PipeName string | SocketPath path

definition given :: "'s machine \<Rightarrow> string option \<Rightarrow> string \<Rightarrow> string option" where
  "given m flag env_var = (case flag of Some f \<Rightarrow> if f = [] then var_set m env_var else Some f | None \<Rightarrow> var_set m env_var)"

definition resolve_local_api_address :: "'s machine \<Rightarrow> (path, node) dict \<Rightarrow> string option \<Rightarrow> string \<Rightarrow> service_exn + address" where
  "resolve_local_api_address m nodes flag env_var =
     (if mc_platform m = Windows
      then Inr (PipeName (case given m flag env_var of Some a \<Rightarrow> a | None \<Rightarrow> default_pipe_name))
      else case given m flag env_var of
             Some a \<Rightarrow> Inr (SocketPath (py_path a))
           | None \<Rightarrow> (case default_socket_path m nodes of Inl e \<Rightarrow> Inl e | Inr p \<Rightarrow> Inr (SocketPath p)))"

definition find_local_api_address :: "'s machine \<Rightarrow> (path, node) dict \<Rightarrow> string option \<Rightarrow> string \<Rightarrow> service_exn + address" where
  "find_local_api_address m nodes flag env_var =
     (if mc_platform m = Windows then resolve_local_api_address m nodes flag env_var
      else case given m flag env_var of
             Some a \<Rightarrow> Inr (SocketPath (py_path a))
           | None \<Rightarrow> (case find_client_socket m nodes of Inl e \<Rightarrow> Inl e | Inr p \<Rightarrow> Inr (SocketPath p)))"

subsection \<open>macOS: launchd\<close>

definition known_scope :: "string \<Rightarrow> bool" where
  "known_scope scope \<longleftrightarrow> scope = ''user'' \<or> scope = ''system''"

text \<open>\<open>_validate_macos_scope\<close> and \<open>_validate_linux_scope\<close>, and what runs after them.\<close>

definition checked_scope :: "string \<Rightarrow> ('s, 'a) op \<Rightarrow> ('s, 'a) op" where
  "checked_scope scope f = (if known_scope scope then f else throw (UnknownScope scope))"

definition macos_launch_agent_path :: "'s machine \<Rightarrow> path" where
  "macos_launch_agent_path m = joined (mc_home m) [''Library'', ''LaunchAgents'', LAUNCHD_LABEL @ ''.plist'']"

definition macos_launch_daemon_path :: path where
  "macos_launch_daemon_path = joined (py_path ''/Library/LaunchDaemons'') [LAUNCHD_LABEL @ ''.plist'']"

definition macos_user_log_path :: "'s machine \<Rightarrow> path" where
  "macos_user_log_path m = joined (mc_home m) [''Library'', ''Logs'', APP @ ''.log'']"

definition macos_system_log_path :: path where
  "macos_system_log_path = joined (py_path ''/Library/Logs'') [APP @ ''.log'']"

definition macos_plist_path :: "'s machine \<Rightarrow> string \<Rightarrow> path" where
  "macos_plist_path m scope = (if scope = ''user'' then macos_launch_agent_path m else macos_launch_daemon_path)"

definition macos_log_path :: "'s machine \<Rightarrow> string \<Rightarrow> path" where
  "macos_log_path m scope = (if scope = ''user'' then macos_user_log_path m else macos_system_log_path)"

definition macos_domain :: "'s machine \<Rightarrow> string \<Rightarrow> string" where
  "macos_domain m scope =
     (if scope = ''system'' then ''system''
      else ''gui/'' @ show_nat (case mc_uid m of Some u \<Rightarrow> u | None \<Rightarrow> 0))"

definition macos_working_directory :: "'s machine \<Rightarrow> string \<Rightarrow> string" where
  "macos_working_directory m scope = (if scope = ''system'' then ''/'' else path_str (mc_home m))"

definition render_launchd_plist :: "'s machine \<Rightarrow> string \<Rightarrow> string option \<Rightarrow> launchd_plist" where
  "render_launchd_plist m scope exec_path =
     \<lparr>pl_label = path_stem (macos_plist_path m scope),
      pl_arguments = [case exec_path of Some p \<Rightarrow> p | None \<Rightarrow> mc_executable m, ''-m'', ''mbtools.registry.cli'', ''service'', ''run''],
      pl_environment = [(''PYTHONUNBUFFERED'', ''1''), (''PYTHONDONTWRITEBYTECODE'', ''1'')],
      pl_working_directory = macos_working_directory m scope,
      pl_run_at_load = True, pl_keep_alive_on_success = False, pl_throttle = 10,
      pl_stdout = path_str (macos_log_path m scope), pl_stderr = path_str (macos_log_path m scope)\<rparr>"

definition service_target :: "'s machine \<Rightarrow> string \<Rightarrow> string" where
  "service_target m scope = macos_domain m scope @ ''/'' @ path_stem (macos_plist_path m scope)"

definition other_scope :: "string \<Rightarrow> string" where
  "other_scope scope = (if scope = ''user'' then ''system'' else ''user'')"

definition macos_install :: "'s machine \<Rightarrow> string \<Rightarrow> bool \<Rightarrow> runner option \<Rightarrow> ('s, path) op" where
  "macos_install m scope dry_run runner = checked_scope scope
     (let plist_path = macos_plist_path m scope; r = or_default runner dry_run
      in seq (unless dry_run
               (seq (mkdir_parents m (path_parent plist_path)) (\<lambda>_.
                seq (mkdir_parents m (path_parent (macos_log_path m scope))) (\<lambda>_.
                write_text m plist_path (Plist (render_launchd_plist m scope None)))))) (\<lambda>_.
         seq (tolerating (run_command m r [''launchctl'', ''bootout'', service_target m scope])) (\<lambda>_.
         seq (do_run m r [''launchctl'', ''enable'', service_target m scope]) (\<lambda>_.
         seq (do_run m r [''launchctl'', ''bootstrap'', macos_domain m scope, path_str plist_path]) (\<lambda>_.
         ret plist_path)))))"

definition not_installed :: "string \<Rightarrow> path \<Rightarrow> path \<Rightarrow> ('s, uninstall_outcome) op" where
  "not_installed scope p other =
     seq (path_exists other) (\<lambda>there. ret (NotInstalled scope p (if there then Some other else None)))"

text \<open>The socket of a scope, unlinked where there are Unix sockets.\<close>

definition unlink_socket :: "'s machine \<Rightarrow> string \<Rightarrow> ('s, unit) op" where
  "unlink_socket m scope b =
     (case (if scope = ''system'' then system_socket_path m else user_socket_path m (bx_nodes b)) of
        Inl e \<Rightarrow> (Inl e, b)
      | Inr p \<Rightarrow> unlink_missing_ok m p b)"

definition state_dir :: "'s machine \<Rightarrow> string \<Rightarrow> path" where
  "state_dir m scope = path_parent (if scope = ''system'' then system_db_path m else user_db_path m)"

definition purge_state :: "'s machine \<Rightarrow> string \<Rightarrow> ('s, unit) op" where
  "purge_state m scope = seq (path_exists (state_dir m scope)) (\<lambda>there. unless (\<not> there) (rmtree m (state_dir m scope)))"

definition macos_uninstall :: "'s machine \<Rightarrow> string \<Rightarrow> bool \<Rightarrow> bool \<Rightarrow> runner option \<Rightarrow> ('s, uninstall_outcome) op" where
  "macos_uninstall m scope wipe dry_run runner = checked_scope scope
     (let plist_path = macos_plist_path m scope; r = or_default runner dry_run
      in seq (path_exists plist_path) (\<lambda>there.
         if \<not> there then not_installed scope plist_path (macos_plist_path m (other_scope scope))
         else seq (tolerating (run_command m r [''launchctl'', ''bootout'', service_target m scope])) (\<lambda>_.
              seq (unless dry_run
                    (seq (unlink_missing_ok m plist_path) (\<lambda>_.
                     seq (unlink_socket m scope) (\<lambda>_.
                     seq (unlink_missing_ok m (macos_log_path m scope)) (\<lambda>_.
                     unless (\<not> wipe) (purge_state m scope)))))) (\<lambda>_.
              ret (Removed scope plist_path)))))"

definition macos_status :: "'s machine \<Rightarrow> string \<Rightarrow> runner option \<Rightarrow> ('s, service_status) op" where
  "macos_status m scope runner = checked_scope scope
     (let plist_path = macos_plist_path m scope
      in seq (path_exists plist_path) (\<lambda>installed.
         seq (if installed
              then seq (run_command m (or_query runner) [''launchctl'', ''print'', service_target m scope]) (\<lambda>code. ret (code = 0))
              else ret False) (\<lambda>running.
         ret \<lparr>sst_scope = scope, sst_path = plist_path, sst_installed = installed, sst_running = running\<rparr>)))"

definition macos_control :: "'s machine \<Rightarrow> string \<Rightarrow> string \<Rightarrow> bool \<Rightarrow> runner option \<Rightarrow> ('s, path) op" where
  "macos_control m action scope dry_run runner = checked_scope scope
     (let plist_path = macos_plist_path m scope; r = or_default runner dry_run
      in seq (path_exists plist_path) (\<lambda>there.
         if \<not> there then throw (FileNotFoundError (NoSuchPath plist_path))
         else if action = ''stop''
         then seq (tolerating (run_command m r [''launchctl'', ''bootout'', service_target m scope])) (\<lambda>_. ret plist_path)
         else seq (tolerating (run_command m r [''launchctl'', ''bootstrap'', macos_domain m scope, path_str plist_path])) (\<lambda>_.
              seq (do_run m r ([''launchctl'', ''kickstart''] @ (if action = ''restart'' then [''-k''] else []) @ [service_target m scope])) (\<lambda>_.
              ret plist_path))))"

subsection \<open>Linux: systemd\<close>

definition LINUX_SYSTEM_UNIT_PATH :: path where
  "LINUX_SYSTEM_UNIT_PATH = Path ''/'' [''etc'', ''systemd'', ''system'', ''mbregistry.service'']"

definition LINUX_UDEV_RULE_PATH :: path where
  "LINUX_UDEV_RULE_PATH = Path ''/'' [''etc'', ''udev'', ''rules.d'', ''99-mbregistry-cmsis-dap.rules'']"

definition linux_user_unit_path :: "'s machine \<Rightarrow> path" where
  "linux_user_unit_path m = joined (mc_home m) [''.config'', ''systemd'', ''user'', APP @ ''.service'']"

definition LINUX_UNIT_NAME :: string where "LINUX_UNIT_NAME = ''mbregistry.service''"
definition USB_VENDOR_ID :: string where "USB_VENDOR_ID = ''0d28''"
definition USB_PRODUCT_ID :: string where "USB_PRODUCT_ID = ''0204''"
definition UDEV_GROUP :: string where "UDEV_GROUP = ''plugdev''"

definition linux_unit_path :: "'s machine \<Rightarrow> string \<Rightarrow> path" where
  "linux_unit_path m scope = (if scope = ''user'' then linux_user_unit_path m else LINUX_SYSTEM_UNIT_PATH)"

definition resolve_linux_operating_user :: "'s machine \<Rightarrow> string option \<Rightarrow> string" where
  "resolve_linux_operating_user m flag =
     (case flag of
        Some (c # cs) \<Rightarrow> c # cs
      | _ \<Rightarrow> (case var_set m ''SUDO_USER'' of
                Some u \<Rightarrow> u
              | None \<Rightarrow> (case var_set m ''USER'' of Some u \<Rightarrow> u | None \<Rightarrow> mc_login m)))"

definition linux_user_in_plugdev :: "'s machine \<Rightarrow> string \<Rightarrow> bool" where
  "linux_user_in_plugdev m user =
     (case mc_pwnam m user of
        None \<Rightarrow> False
      | Some gid \<Rightarrow>
          if mc_grgid m gid = Some UDEV_GROUP then True
          else (case mc_grnam m UDEV_GROUP of None \<Rightarrow> False | Some members \<Rightarrow> user \<in> set members))"

definition text_lines :: "string list \<Rightarrow> string" where
  "text_lines ls = concat (map (\<lambda>l. l @ [newline]) ls)"

definition render_systemd_unit :: "'s machine \<Rightarrow> string option \<Rightarrow> string \<Rightarrow> string" where
  "render_systemd_unit m exec_start scope =
     (let start = ''ExecStart='' @ (case exec_start of Some e \<Rightarrow> e | None \<Rightarrow> mc_executable m @ '' -m mbtools.registry.cli service run'');
          common = [''[Unit]'', ''Description=mbregistry -- micro:bit device registry daemon'', ''After=network.target'', '''',
                    ''[Service]'', ''Type=simple'', start]
      in text_lines
           (if scope = ''system''
            then common @
              [''# Running as root, the daemon would otherwise write root-owned __pycache__'',
               ''# into the (user-owned) venv, which breaks the next non-root reinstall.'',
               ''Environment=PYTHONDONTWRITEBYTECODE=1'', ''Restart=on-failure'', ''RestartSec=2'',
               ''RuntimeDirectory=mbregistry'', ''StateDirectory=mbregistry'', '''', ''[Install]'', ''WantedBy=multi-user.target'']
            else common @
              [''Restart=on-failure'', ''RestartSec=2'', '''', ''[Install]'', ''WantedBy=default.target'']))"

definition render_udev_rule :: string where
  "render_udev_rule =
     (let q = [CHR 0x22];
          rule = (\<lambda>m. m @ '', ATTRS{idVendor}=='' @ q @ USB_VENDOR_ID @ q @ '', ATTRS{idProduct}=='' @ q @ USB_PRODUCT_ID @ q
                    @ '', GROUP='' @ q @ UDEV_GROUP @ q @ '', MODE='' @ q @ ''0660'' @ q @ '', TAG+='' @ q @ ''uaccess'' @ q)
      in text_lines
           [''# mbregistry -- non-root access to the micro:bit DAPLink interface'',
            ''# (VID:PID '' @ USB_VENDOR_ID @ '':'' @ USB_PRODUCT_ID @ ''). Written by `mbregistry service install`'',
            ''# (ticket 006-003) -- re-running it overwrites this file with identical'',
            ''# content, so re-running install is idempotent. See'',
            ''# mbtools.registry.service.render_udev_rule()'' @ [CHR 0x27] @ ''s docstring for why each rule'',
            ''# below grants access via both the '' @ UDEV_GROUP @ '' group and uaccess rather than'',
            ''# just one of the two.'',
            '''',
            ''# CDC-ACM tty device node (mbserial, and pyOCD'' @ [CHR 0x27] @ ''s DAPLink serial transport)'',
            rule (''SUBSYSTEM=='' @ q @ ''tty'' @ q @ '', SUBSYSTEMS=='' @ q @ ''usb'' @ q),
            '''',
            ''# Raw USB device node (CMSIS-DAP v2 / WinUSB transport, opened directly by pyOCD)'',
            rule (''SUBSYSTEM=='' @ q @ ''usb'' @ q),
            '''',
            ''# hidraw device node (CMSIS-DAP v1 / HID transport)'',
            rule (''KERNEL=='' @ q @ ''hidraw*'' @ q)])"

definition linux_install_system :: "'s machine \<Rightarrow> bool \<Rightarrow> runner \<Rightarrow> string option \<Rightarrow> ('s, path) op" where
  "linux_install_system m dry_run r operating_user =
     (let unit_path = linux_unit_path m ''system''; user = resolve_linux_operating_user m operating_user
      in seq (unless dry_run
               (seq (mkdir_parents m (path_parent unit_path)) (\<lambda>_.
                seq (write_text m unit_path (Text (render_systemd_unit m None ''system''))) (\<lambda>_.
                seq (mkdir_parents m (path_parent LINUX_UDEV_RULE_PATH)) (\<lambda>_.
                write_text m LINUX_UDEV_RULE_PATH (Text render_udev_rule)))))) (\<lambda>_.
         seq (each (do_run m r)
               [[''systemctl'', ''daemon-reload''], [''systemctl'', ''enable'', ''--now'', LINUX_UNIT_NAME],
                [''udevadm'', ''control'', ''--reload-rules''], [''udevadm'', ''trigger''],
                [''usermod'', ''-aG'', UDEV_GROUP, user]]) (\<lambda>_.
         seq (say (AddedToGroup user)) (\<lambda>_.
         ret unit_path))))"

definition linux_install_user :: "'s machine \<Rightarrow> bool \<Rightarrow> runner \<Rightarrow> string option \<Rightarrow> ('s, path) op" where
  "linux_install_user m dry_run r operating_user =
     (let unit_path = linux_unit_path m ''user''; user = resolve_linux_operating_user m operating_user;
          in_plugdev = linux_user_in_plugdev m user
      in seq (path_exists LINUX_UDEV_RULE_PATH) (\<lambda>rule_present.
         if \<not> in_plugdev \<or> \<not> rule_present
         then seq (say (CannotInstallUser user in_plugdev rule_present)) (\<lambda>_.
              throw (LinuxUserPreflightError user in_plugdev rule_present))
         else seq (unless dry_run
                    (seq (mkdir_parents m (path_parent unit_path)) (\<lambda>_.
                     write_text m unit_path (Text (render_systemd_unit m None ''user''))))) (\<lambda>_.
              seq (each (do_run m r)
                    [[''systemctl'', ''--user'', ''daemon-reload''], [''systemctl'', ''--user'', ''enable'', ''--now'', LINUX_UNIT_NAME],
                     [''loginctl'', ''enable-linger'', user]]) (\<lambda>_.
              ret unit_path))))"

definition linux_install :: "'s machine \<Rightarrow> string \<Rightarrow> bool \<Rightarrow> runner option \<Rightarrow> string option \<Rightarrow> ('s, path) op" where
  "linux_install m scope dry_run runner operating_user = checked_scope scope
     (if scope = ''user'' then linux_install_user m dry_run (or_default runner dry_run) operating_user
      else linux_install_system m dry_run (or_default runner dry_run) operating_user)"

definition systemctl :: "string \<Rightarrow> string list" where
  "systemctl scope = (if scope = ''user'' then [''systemctl'', ''--user''] else [''systemctl''])"

definition linux_uninstall :: "'s machine \<Rightarrow> string \<Rightarrow> bool \<Rightarrow> bool \<Rightarrow> runner option \<Rightarrow> ('s, uninstall_outcome) op" where
  "linux_uninstall m scope wipe dry_run runner = checked_scope scope
     (let unit_path = linux_unit_path m scope; r = or_default runner dry_run
      in seq (path_exists unit_path) (\<lambda>there.
         if \<not> there then not_installed scope unit_path (linux_unit_path m (other_scope scope))
         else seq (tolerating (run_command m r (systemctl scope @ [''disable'', ''--now'', LINUX_UNIT_NAME]))) (\<lambda>_.
              seq (unless dry_run (seq (unlink_missing_ok m unit_path) (\<lambda>_. unlink_socket m scope))) (\<lambda>_.
              seq (unless (scope \<noteq> ''system'')
                    (seq (unless dry_run (unlink_missing_ok m LINUX_UDEV_RULE_PATH)) (\<lambda>_.
                     seq (do_run m r [''systemctl'', ''daemon-reload'']) (\<lambda>_.
                     tolerating (run_command m r [''udevadm'', ''control'', ''--reload-rules'']))))) (\<lambda>_.
              seq (unless (dry_run \<or> \<not> wipe) (purge_state m scope)) (\<lambda>_.
              ret (Removed scope unit_path)))))))"

definition linux_status :: "'s machine \<Rightarrow> string \<Rightarrow> runner option \<Rightarrow> ('s, service_status) op" where
  "linux_status m scope runner = checked_scope scope
     (let unit_path = linux_unit_path m scope
      in seq (path_exists unit_path) (\<lambda>installed.
         seq (if installed
              then seq (run_command m (or_query runner) (systemctl scope @ [''is-active'', ''mbregistry''])) (\<lambda>code. ret (code = 0))
              else ret False) (\<lambda>running.
         ret \<lparr>sst_scope = scope, sst_path = unit_path, sst_installed = installed, sst_running = running\<rparr>)))"

definition linux_control :: "'s machine \<Rightarrow> string \<Rightarrow> string \<Rightarrow> bool \<Rightarrow> runner option \<Rightarrow> ('s, path) op" where
  "linux_control m action scope dry_run runner = checked_scope scope
     (let unit_path = linux_unit_path m scope; r = or_default runner dry_run
      in seq (path_exists unit_path) (\<lambda>there.
         if \<not> there then throw (FileNotFoundError (NoSuchPath unit_path))
         else seq (do_run m r (systemctl scope @ [action, LINUX_UNIT_NAME])) (\<lambda>_. ret unit_path)))"

subsection \<open>The \<open>service\<close> subcommands\<close>

definition EXIT_LINUX_USER_PREFLIGHT :: int where "EXIT_LINUX_USER_PREFLIGHT = 7"

text \<open>What a platform offers: the functions the subcommands dispatch to, with their defaults filled in.\<close>

record 's backend =
  bk_path :: "string \<Rightarrow> path"
  bk_install :: "string \<Rightarrow> bool \<Rightarrow> ('s, path) op"
  bk_uninstall :: "string \<Rightarrow> bool \<Rightarrow> bool \<Rightarrow> ('s, uninstall_outcome) op"
  bk_status :: "string \<Rightarrow> ('s, service_status) op"
  bk_control :: "string \<Rightarrow> string \<Rightarrow> bool \<Rightarrow> ('s, path) op"

definition macos_backend :: "'s machine \<Rightarrow> 's backend" where
  "macos_backend m =
     \<lparr>bk_path = macos_plist_path m,
      bk_install = (\<lambda>scope dry_run. macos_install m scope dry_run None),
      bk_uninstall = (\<lambda>scope wipe dry_run. macos_uninstall m scope wipe dry_run None),
      bk_status = (\<lambda>scope. macos_status m scope None),
      bk_control = (\<lambda>action scope dry_run. macos_control m action scope dry_run None)\<rparr>"

definition linux_backend :: "'s machine \<Rightarrow> 's backend" where
  "linux_backend m =
     \<lparr>bk_path = linux_unit_path m,
      bk_install = (\<lambda>scope dry_run. linux_install m scope dry_run None None),
      bk_uninstall = (\<lambda>scope wipe dry_run. linux_uninstall m scope wipe dry_run None),
      bk_status = (\<lambda>scope. linux_status m scope None),
      bk_control = (\<lambda>action scope dry_run. linux_control m action scope dry_run None)\<rparr>"

definition backend_of :: "'s machine \<Rightarrow> 's backend option" where
  "backend_of m =
     (case mc_platform m of
        Darwin \<Rightarrow> Some (macos_backend m)
      | LinuxOS \<Rightarrow> Some (linux_backend m)
      | _ \<Rightarrow> None)"

record service_args =
  sv_user :: bool
  sv_system :: bool
  sv_purge :: bool
  sv_dry_run :: bool

definition service_not_supported :: "string \<Rightarrow> ('s, int) op" where
  "service_not_supported subcommand = seq (say (NotSupported subcommand)) (\<lambda>_. ret EXIT_ERROR)"

definition service_scope :: "service_args \<Rightarrow> string" where
  "service_scope a = (if sv_user a then ''user'' else ''system'')"

definition service_install_on :: "'s backend \<Rightarrow> service_args \<Rightarrow> ('s, int) op" where
  "service_install_on k a =
     handling (bk_install k (service_scope a) (sv_dry_run a))
       (\<lambda>e. case e of LinuxUserPreflightError _ _ _ \<Rightarrow> ret EXIT_LINUX_USER_PREFLIGHT | _ \<Rightarrow> throw e)
       (\<lambda>p. seq (say (InstallDone (sv_dry_run a) (service_scope a) p)) (\<lambda>_. ret EXIT_OK))"

definition cmd_service_install :: "'s machine \<Rightarrow> service_args \<Rightarrow> ('s, int) op" where
  "cmd_service_install m a =
     (case backend_of m of None \<Rightarrow> service_not_supported ''install'' | Some k \<Rightarrow> service_install_on k a)"

definition service_uninstall_on :: "'s backend \<Rightarrow> service_args \<Rightarrow> ('s, int) op" where
  "service_uninstall_on k a =
     seq (bk_uninstall k (service_scope a) (sv_purge a) (sv_dry_run a)) (\<lambda>out.
     seq (say (UninstallDone out)) (\<lambda>_. ret EXIT_OK))"

definition cmd_service_uninstall :: "'s machine \<Rightarrow> service_args \<Rightarrow> ('s, int) op" where
  "cmd_service_uninstall m a =
     (case backend_of m of None \<Rightarrow> service_not_supported ''uninstall'' | Some k \<Rightarrow> service_uninstall_on k a)"

definition service_status_on :: "'s backend \<Rightarrow> ('s, int) op" where
  "service_status_on k =
     seq (each (\<lambda>scope. seq (bk_status k scope) (\<lambda>st. say (StatusLine st))) [''user'', ''system'']) (\<lambda>_. ret EXIT_OK)"

definition cmd_service_status :: "'s machine \<Rightarrow> ('s, int) op" where
  "cmd_service_status m =
     (case backend_of m of None \<Rightarrow> service_not_supported ''status'' | Some k \<Rightarrow> service_status_on k)"

definition installed_service_scope :: "'s backend \<Rightarrow> service_args \<Rightarrow> string \<Rightarrow> ('s, string option) op" where
  "installed_service_scope k a subcommand =
     (if sv_user a \<or> sv_system a then ret (Some (service_scope a))
      else seq (bk_status k ''user'') (\<lambda>u.
           seq (bk_status k ''system'') (\<lambda>y.
           if sst_installed u \<noteq> sst_installed y then ret (Some (if sst_installed u then ''user'' else ''system''))
           else if \<not> sst_installed u then seq (say NothingInstalled) (\<lambda>_. ret None)
           else seq (say (BothInstalled subcommand)) (\<lambda>_. ret None))))"

definition service_control_on :: "'s backend \<Rightarrow> service_args \<Rightarrow> string \<Rightarrow> ('s, int) op" where
  "service_control_on k a action =
     seq (installed_service_scope k a action) (\<lambda>found.
     case found of
       None \<Rightarrow> ret EXIT_ERROR
     | Some scope \<Rightarrow>
         handling (bk_control k action scope (sv_dry_run a))
           (\<lambda>e. case e of
                  FileNotFoundError what \<Rightarrow> seq (say (ScopeNotInstalled scope what)) (\<lambda>_. ret EXIT_ERROR)
                | CalledProcessError argv code \<Rightarrow> seq (say (ControlFailed action argv code)) (\<lambda>_. ret EXIT_ERROR)
                | _ \<Rightarrow> throw e)
           (\<lambda>_. seq (say (Controlled (sv_dry_run a) action scope)) (\<lambda>_. ret EXIT_OK)))"

definition cmd_service_control :: "'s machine \<Rightarrow> service_args \<Rightarrow> string \<Rightarrow> ('s, int) op" where
  "cmd_service_control m a action =
     (case backend_of m of None \<Rightarrow> service_not_supported action | Some k \<Rightarrow> service_control_on k a action)"

subsection \<open>Windows, and the deprecated \<open>install-service\<close>\<close>

definition SERVICE_NAME :: string where "SERVICE_NAME = ''mbregistry''"

definition render_windows_service_install :: "'s machine \<Rightarrow> string option \<Rightarrow> string" where
  "render_windows_service_install m exec_path =
     ''sc.exe create '' @ SERVICE_NAME @ '' binPath= '' @ [CHR 0x22]
       @ (case exec_path of Some e \<Rightarrow> e | None \<Rightarrow> mc_executable m @ '' -m mbtools.registry.cli run'') @ [CHR 0x22]
       @ '' start= auto DisplayName= '' @ [CHR 0x22] @ ''mbtools micro:bit registry daemon'' @ [CHR 0x22]"

definition render_windows_service_failure_actions :: "string \<Rightarrow> string" where
  "render_windows_service_failure_actions service_name =
     ''sc.exe failure '' @ service_name @ '' actions= restart/60000/restart/60000/restart/60000 reset= 86400''"

definition cmd_install_service_windows :: "'s machine \<Rightarrow> string option \<Rightarrow> ('s, int) op" where
  "cmd_install_service_windows m exec_path =
     seq (say (RunAsAdministrator [render_windows_service_install m exec_path, render_windows_service_failure_actions SERVICE_NAME,
                                   ''sc.exe start '' @ SERVICE_NAME])) (\<lambda>_. ret EXIT_OK)"

definition cmd_install_service :: "'s machine \<Rightarrow> string option \<Rightarrow> ('s, int) op" where
  "cmd_install_service m user =
     (if mc_platform m = Windows
      then cmd_install_service_windows m (Some (mc_executable m @ '' -m mbtools.registry.cli run --windows-service''))
      else seq (say Deprecated) (\<lambda>_.
           seq (if mc_platform m = Darwin then macos_install m ''system'' False (Some DryRunCommandRunner)
                else linux_install m ''system'' False (Some DryRunCommandRunner) user) (\<lambda>p.
           seq (say (Wrote p)) (\<lambda>_. ret EXIT_OK))))"

text \<open>The process as a Windows service: the states it reports and the stop event its main function polls.\<close>

datatype service_state = SERVICE_RUNNING | SERVICE_STOP_PENDING | SERVICE_STOPPED

record win_service =
  ws_reported :: "service_state list"
  ws_stop :: bool

definition SERVICE_CONTROL_STOP :: nat where "SERVICE_CONTROL_STOP = 1"

definition set_status :: "service_state \<Rightarrow> win_service \<Rightarrow> win_service" where
  "set_status st w = w\<lparr>ws_reported := ws_reported w @ [st]\<rparr>"

definition control_handler :: "nat \<Rightarrow> win_service \<Rightarrow> win_service" where
  "control_handler control w =
     (if control = SERVICE_CONTROL_STOP then (set_status SERVICE_STOP_PENDING w)\<lparr>ws_stop := True\<rparr> else w)"

text \<open>\<open>main\<close> runs with the controls the service manager delivers meanwhile; it may raise (\<open>Inl\<close>).\<close>

definition run_as_windows_service :: "(win_service \<Rightarrow> ('e + int) \<times> win_service) \<Rightarrow> ('e + int) \<times> win_service" where
  "run_as_windows_service main =
     (case main (set_status SERVICE_RUNNING \<lparr>ws_reported = [], ws_stop = False\<rparr>) of
        (res, w) \<Rightarrow> (res, set_status SERVICE_STOPPED w))"

subsection \<open>What an operation may change\<close>

text \<open>\<open>R\<close> relates the host before to the host after; it does not see what is printed.\<close>

definition stays :: "('s box \<Rightarrow> 's box \<Rightarrow> bool) \<Rightarrow> ('s, 'a) op \<Rightarrow> bool" where
  "stays R f \<longleftrightarrow> (\<forall>b. R b (snd (f b)))"

lemma staysD: "stays R f \<Longrightarrow> f b = (r, b1) \<Longrightarrow> R b b1"
  unfolding stays_def by (metis snd_conv)

locale frame =
  fixes R :: "'s box \<Rightarrow> 's box \<Rightarrow> bool"
  assumes refl: "R b b"
    and trans: "R a b \<Longrightarrow> R b c \<Longrightarrow> R a c"
    and printing: "R b (b\<lparr>bx_says := x\<rparr>)"
begin

lemma stays_ret: "stays R (ret x)"
  by (simp add: stays_def ret_def refl)

lemma stays_throw: "stays R (throw e)"
  by (simp add: stays_def throw_def refl)

lemma stays_seq: "stays R f \<Longrightarrow> (\<And>x. stays R (g x)) \<Longrightarrow> stays R (seq f g)"
  unfolding stays_def seq_def by (auto split: prod.splits sum.splits intro: trans dest: spec)
    (metis snd_conv trans)

lemma stays_handling: "stays R f \<Longrightarrow> (\<And>e. stays R (h e)) \<Longrightarrow> (\<And>x. stays R (g x)) \<Longrightarrow> stays R (handling f h g)"
  unfolding stays_def handling_def by (auto split: prod.splits sum.splits) (metis snd_conv trans)+

lemma stays_tolerating: "stays R f \<Longrightarrow> stays R (tolerating f)"
  unfolding tolerating_def by (rule stays_handling) (auto intro: stays_ret stays_throw split: service_exn.split)

lemma stays_if: "(c \<Longrightarrow> stays R f) \<Longrightarrow> (\<not> c \<Longrightarrow> stays R g) \<Longrightarrow> stays R (if c then f else g)"
  by simp

lemma stays_unless: "(\<not> c \<Longrightarrow> stays R f) \<Longrightarrow> stays R (unless c f)"
  by (simp add: unless_def stays_ret)

lemma stays_each: "(\<And>x. x \<in> set xs \<Longrightarrow> stays R (f x)) \<Longrightarrow> stays R (each f xs)"
  by (induction xs) (auto intro: stays_ret stays_seq)

lemma stays_say: "stays R (say n)"
  by (simp add: stays_def say_def printing)

lemma stays_exists: "stays R (path_exists p)"
  by (simp add: stays_def path_exists_def refl)

lemma stays_scope: "(known_scope scope \<Longrightarrow> stays R f) \<Longrightarrow> stays R (checked_scope scope f)"
  by (simp add: checked_scope_def stays_throw)

lemma stays_not_installed: "stays R (not_installed scope p q)"
  unfolding not_installed_def by (intro stays_seq stays_exists stays_ret)

lemma stays_dry: "stays R (run_command m DryRunCommandRunner argv)"
  by (simp add: stays_def run_command_def seq_def say_def ret_def printing)

lemma stays_do_run: "stays R (run_command m r argv) \<Longrightarrow> stays R (do_run m r argv)"
  unfolding do_run_def by (intro stays_seq stays_ret)

lemmas rules = stays_handling stays_ret stays_throw stays_seq stays_tolerating stays_unless stays_each stays_say stays_exists
  stays_scope stays_not_installed stays_dry stays_do_run stays_if

end

text \<open>Nothing but printing; only commands; files outside a set; nothing new.\<close>

definition untouched :: "'s box \<Rightarrow> 's box \<Rightarrow> bool" where
  "untouched b c \<longleftrightarrow> bx_nodes c = bx_nodes b \<and> bx_ran c = bx_ran b \<and> bx_sys c = bx_sys b"

definition only_runs :: "string list set \<Rightarrow> 's box \<Rightarrow> 's box \<Rightarrow> bool" where
  "only_runs Q b c \<longleftrightarrow> bx_nodes c = bx_nodes b \<and> (\<exists>xs. bx_ran c = bx_ran b @ xs \<and> set xs \<subseteq> Q)"

definition same_outside :: "path set \<Rightarrow> 's box \<Rightarrow> 's box \<Rightarrow> bool" where
  "same_outside S b c \<longleftrightarrow> (\<forall>p. p \<notin> S \<longrightarrow> dget (bx_nodes c) p = dget (bx_nodes b) p)"

definition nothing_new :: "'s box \<Rightarrow> 's box \<Rightarrow> bool" where
  "nothing_new b c \<longleftrightarrow> (\<forall>p. dget (bx_nodes b) p = None \<longrightarrow> dget (bx_nodes c) p = None)"

definition nothing_lost :: "'s box \<Rightarrow> 's box \<Rightarrow> bool" where
  "nothing_lost b c \<longleftrightarrow> (\<forall>p. dget (bx_nodes b) p \<noteq> None \<longrightarrow> dget (bx_nodes c) p \<noteq> None)"

interpretation dry: frame untouched
  by unfold_locales (auto simp: untouched_def)

interpretation runs: frame "only_runs Q" for Q
proof
  fix a b c :: "'s box" assume "only_runs Q a b" "only_runs Q b c"
  thus "only_runs Q a c" unfolding only_runs_def by (metis append.assoc set_append Un_least)
qed (auto simp: only_runs_def)

interpretation outside: frame "same_outside S" for S
  by unfold_locales (auto simp: same_outside_def)

interpretation shrinks: frame nothing_new
  by unfold_locales (auto simp: nothing_new_def)

interpretation grows: frame nothing_lost
  by unfold_locales (auto simp: nothing_lost_def)

lemma runs_command: "argv \<in> Q \<Longrightarrow> stays (only_runs Q) (run_command m r argv)"
  unfolding stays_def run_command_def only_runs_def
  by (auto simp: seq_def say_def ret_def split: runner.splits prod.splits option.splits)

lemma outside_command: "stays (same_outside S) (run_command m r argv)"
  unfolding stays_def run_command_def same_outside_def
  by (auto simp: seq_def say_def ret_def split: runner.splits prod.splits option.splits)

lemma shrinks_command: "stays nothing_new (run_command m r argv)"
  unfolding stays_def run_command_def nothing_new_def
  by (auto simp: seq_def say_def ret_def split: runner.splits prod.splits option.splits)

lemma grows_command: "stays nothing_lost (run_command m r argv)"
  unfolding stays_def run_command_def nothing_lost_def
  by (auto simp: seq_def say_def ret_def split: runner.splits prod.splits option.splits)

lemma grows_write: "stays nothing_lost (write_text m p c)"
  by (auto simp: stays_def write_text_def nothing_lost_def put_node_def)

lemma grows_mkdir: "stays nothing_lost (mkdir_parents m p)"
  unfolding mkdir_parents_def
  by (intro grows.stays_each) (auto simp: stays_def mkdir_one_def nothing_lost_def put_node_def split: option.split node.split)

lemma outside_unlink: "p \<in> S \<Longrightarrow> stays (same_outside S) (unlink_missing_ok m p)"
  unfolding stays_def unlink_missing_ok_def same_outside_def drop_node_def
  by (auto split: option.splits node.splits)

lemma shrinks_unlink: "stays nothing_new (unlink_missing_ok m p)"
  unfolding stays_def unlink_missing_ok_def nothing_new_def drop_node_def
  by (auto split: option.splits node.splits)

lemma outside_rm_one: "p \<in> S \<Longrightarrow> stays (same_outside S) (rm_one m p)"
  by (auto simp: stays_def rm_one_def same_outside_def drop_node_def)

lemma shrinks_rm_one: "stays nothing_new (rm_one m p)"
  by (auto simp: stays_def rm_one_def nothing_new_def drop_node_def)

subsection \<open>What the subcommands rely on\<close>

text \<open>The commands a status query may run, and the files an uninstall may remove.\<close>

definition queries :: "'s machine \<Rightarrow> string list set" where
  "queries m =
     (\<Union>scope\<in>{''user'', ''system''}. {[''launchctl'', ''print'', service_target m scope], systemctl scope @ [''is-active'', ''mbregistry'']})"

definition socket_paths :: "'s machine \<Rightarrow> path set" where
  "socket_paths m =
     {p. system_socket_path m = Inr p \<or> (\<exists>nodes. user_socket_path m nodes = Inr p)}"

definition service_files :: "'s machine \<Rightarrow> path set" where
  "service_files m =
     (\<Union>scope\<in>{''user'', ''system''}. {macos_plist_path m scope, macos_log_path m scope, linux_unit_path m scope})
       \<union> socket_paths m \<union> {LINUX_UDEV_RULE_PATH}"

definition state_files :: "'s machine \<Rightarrow> string \<Rightarrow> path set" where
  "state_files m scope = {p. path_under (state_dir m scope) p}"

locale service_backend =
  fixes m :: "'s machine" and k :: "'s backend"
  assumes install_dry: "stays untouched (bk_install k scope True)"
    and uninstall_dry: "stays untouched (bk_uninstall k scope wipe True)"
    and control_dry: "stays untouched (bk_control k action scope True)"
    and status_runs: "stays (only_runs (queries m)) (bk_status k scope)"
    and status_silent: "bk_status k scope b = (Inr st, b1) \<Longrightarrow> bx_says b1 = bx_says b"
    and status_installed: "bk_status k scope b = (Inr st, b1) \<Longrightarrow> sst_installed st \<longleftrightarrow> dget (bx_nodes b) (bk_path k scope) \<noteq> None"
    and status_absent:
      "known_scope scope \<Longrightarrow> dget (bx_nodes b) (bk_path k scope) = None \<Longrightarrow> \<exists>st. bk_status k scope b = (Inr st, b) \<and> \<not> sst_installed st"
    and install_puts: "bk_install k scope False b = (Inr p, b1) \<Longrightarrow> dget (bx_nodes b1) (bk_path k scope) \<noteq> None"
    and uninstall_outside:
      "stays (same_outside (service_files m \<union> (if wipe then state_files m scope else {}))) (bk_uninstall k scope wipe dry)"
    and uninstall_removes: "bk_uninstall k scope wipe False b = (Inr out, b1) \<Longrightarrow> dget (bx_nodes b1) (bk_path k scope) = None"
    and uninstall_purges:
      "bk_uninstall k scope True False b = (Inr out, b1) \<Longrightarrow> dget (bx_nodes b) (bk_path k scope) \<noteq> None \<Longrightarrow> dget (bx_nodes b) (state_dir m scope) = Some Directory
         \<Longrightarrow> q \<in> state_files m scope \<Longrightarrow> dget (bx_nodes b1) q = None"
    and uninstall_absent:
      "known_scope scope \<Longrightarrow> dget (bx_nodes b) (bk_path k scope) = None \<Longrightarrow> \<exists>out. bk_uninstall k scope wipe dry b = (Inr out, b)"
    and control_absent:
      "known_scope scope \<Longrightarrow> dget (bx_nodes b) (bk_path k scope) = None
         \<Longrightarrow> bk_control k action scope dry b = (Inl (FileNotFoundError (NoSuchPath (bk_path k scope))), b)"
    and control_files: "stays (same_outside {}) (bk_control k action scope dry)"
begin

lemma scope_known: "known_scope (service_scope a)"
  by (simp add: known_scope_def service_scope_def)

lemma dry_install: "sv_dry_run a \<Longrightarrow> stays untouched (service_install_on k a)"
  unfolding service_install_on_def
  by (intro dry.stays_handling dry.stays_seq dry.stays_say dry.stays_ret)
    (auto simp: install_dry intro: dry.rules split: service_exn.split)

lemma dry_uninstall: "sv_dry_run a \<Longrightarrow> stays untouched (service_uninstall_on k a)"
  unfolding service_uninstall_on_def
  by (intro dry.stays_seq dry.stays_say dry.stays_ret) (simp add: uninstall_dry)

end

subsection \<open>Both platforms keep to it\<close>

lemma queries_I [simp]:
  "known_scope scope \<Longrightarrow> [''launchctl'', ''print'', service_target m scope] \<in> queries m"
  "known_scope scope \<Longrightarrow> systemctl scope @ [''is-active'', ''mbregistry''] \<in> queries m"
  by (auto simp: known_scope_def queries_def)

lemma macos_status_runs: "stays (only_runs (queries m)) (macos_status m scope r)"
  unfolding macos_status_def Let_def
  by (intro runs.rules runs_command) auto

lemma linux_status_runs: "stays (only_runs (queries m)) (linux_status m scope r)"
  unfolding linux_status_def Let_def
  by (intro runs.rules runs_command) auto

lemma macos_install_dry: "stays untouched (macos_install m scope True None)"
  unfolding macos_install_def Let_def or_default_def default_runner_def
  by (simp only: option.case if_True) (intro dry.rules; simp)

lemma linux_install_dry: "stays untouched (linux_install m scope True None u)"
  unfolding linux_install_def linux_install_user_def linux_install_system_def Let_def or_default_def default_runner_def
  by (simp only: option.case if_True) (intro dry.rules; simp)

lemma macos_uninstall_dry: "stays untouched (macos_uninstall m scope wipe True None)"
  unfolding macos_uninstall_def Let_def or_default_def default_runner_def
  by (simp only: option.case if_True) (intro dry.rules; simp)

lemma linux_uninstall_dry: "stays untouched (linux_uninstall m scope wipe True None)"
  unfolding linux_uninstall_def Let_def or_default_def default_runner_def
  by (simp only: option.case if_True) (intro dry.rules; simp)

lemma macos_control_dry: "stays untouched (macos_control m action scope True None)"
  unfolding macos_control_def Let_def or_default_def default_runner_def
  by (simp only: option.case if_True) (intro dry.rules; simp)

lemma linux_control_dry: "stays untouched (linux_control m action scope True None)"
  unfolding linux_control_def Let_def or_default_def default_runner_def
  by (simp only: option.case if_True) (intro dry.rules; simp)

subsection \<open>What a completed operation leaves\<close>

lemma seq_exists [simp]: "seq (path_exists p) g b = g (dget (bx_nodes b) p \<noteq> None) b"
  by (simp add: seq_def path_exists_def)

lemma seq_Inr: "seq f g b = (Inr y, c) \<longleftrightarrow> (\<exists>x b1. f b = (Inr x, b1) \<and> g x b1 = (Inr y, c))"
  by (auto simp: seq_def split: prod.splits sum.splits)

definition leaves :: "('s box \<Rightarrow> bool) \<Rightarrow> ('s, 'a) op \<Rightarrow> bool" where
  "leaves P f \<longleftrightarrow> (\<forall>b r c. f b = (Inr r, c) \<longrightarrow> P c)"

lemma leaves_later: "(\<And>x. leaves P (g x)) \<Longrightarrow> leaves P (seq f g)"
  unfolding leaves_def seq_Inr by blast

lemma leaves_before: "leaves P f \<Longrightarrow> (\<And>x. stays R (g x)) \<Longrightarrow> (\<And>b c. R b c \<Longrightarrow> P b \<Longrightarrow> P c) \<Longrightarrow> leaves P (seq f g)"
  unfolding leaves_def seq_Inr by (metis staysD)

lemma leaves_throw: "leaves P (throw e)"
  by (simp add: leaves_def throw_def)

definition gone :: "path \<Rightarrow> 's box \<Rightarrow> bool" where
  "gone p b \<longleftrightarrow> dget (bx_nodes b) p = None"

definition present :: "path \<Rightarrow> 's box \<Rightarrow> bool" where
  "present p b \<longleftrightarrow> dget (bx_nodes b) p \<noteq> None"

lemma gone_later: "leaves (gone p) f \<Longrightarrow> (\<And>x. stays nothing_new (g x)) \<Longrightarrow> leaves (gone p) (seq f g)"
  by (rule leaves_before[where R = nothing_new]) (auto simp: gone_def nothing_new_def)

lemma present_later: "leaves (present p) f \<Longrightarrow> (\<And>x. stays nothing_lost (g x)) \<Longrightarrow> leaves (present p) (seq f g)"
  by (rule leaves_before[where R = nothing_lost]) (auto simp: present_def nothing_lost_def)

lemma gone_unlink: "leaves (gone p) (unlink_missing_ok m p)"
  unfolding leaves_def unlink_missing_ok_def gone_def drop_node_def
  by (auto split: option.splits node.splits if_splits)

lemma present_write: "leaves (present p) (write_text m p c)"
  unfolding leaves_def write_text_def present_def put_node_def by (auto split: if_splits)

lemma outside_more: "stays (same_outside S) f \<Longrightarrow> S \<subseteq> T \<Longrightarrow> stays (same_outside T) f"
  unfolding stays_def same_outside_def by blast

lemma outside_rmtree: "stays (same_outside {p. path_under d p}) (rmtree m d)"
proof -
  have "path_under d d" by (cases d) (auto simp: path_under_def path_chain_def image_iff intro!: bexI[of _ "length _"])
  hence "stays (same_outside {p. path_under d p}) (each (rm_one m) (rev (filter (\<lambda>p. path_under d p \<and> p \<noteq> d) ps) @ [d]))" for ps
    by (intro outside.stays_each outside_rm_one) auto
  thus ?thesis
    unfolding stays_def rmtree_def by (auto simp: outside.refl)
qed

lemma shrinks_rmtree: "stays nothing_new (rmtree m d)"
proof -
  have "stays nothing_new (each (rm_one m) xs)" for xs
    by (intro shrinks.stays_each shrinks_rm_one)
  thus ?thesis
    unfolding stays_def rmtree_def by (auto simp: shrinks.refl)
qed

lemma each_rm_one:
  "each (rm_one m) xs b = (Inr u, c) \<Longrightarrow> dget (bx_nodes c) p = (if p \<in> set xs then None else dget (bx_nodes b) p)"
  by (induction xs arbitrary: b) (auto simp: ret_def seq_Inr rm_one_def drop_node_def split: if_splits)

lemma rmtree_leaves_nothing:
  assumes "rmtree m d b = (Inr u, c)" "path_under d p"
  shows "dget (bx_nodes c) p = None"
proof -
  have "each (rm_one m) (rev (filter (\<lambda>p. path_under d p \<and> p \<noteq> d) (map fst (bx_nodes b))) @ [d]) b = (Inr u, c)"
    using assms(1) by (simp add: rmtree_def split: if_splits)
  from each_rm_one[OF this, of p] assms(2) show ?thesis
    by (auto simp: dget_None_iff image_iff split: if_splits)
qed

lemma outside_socket: "stays (same_outside (service_files m)) (unlink_socket m scope)"
proof -
  have "p \<in> service_files m" if "(if scope = ''system'' then system_socket_path m else user_socket_path m nodes) = Inr p" for p nodes
    using that by (auto simp: service_files_def socket_paths_def split: if_splits)
  thus ?thesis
    using outside_unlink[of _ "service_files m" m]
    unfolding stays_def unlink_socket_def by (auto simp: outside.refl split: sum.splits)
qed

lemma shrinks_socket: "stays nothing_new (unlink_socket m scope)"
  using shrinks_unlink[of m] unfolding stays_def unlink_socket_def by (auto simp: shrinks.refl split: sum.splits)

lemma outside_purge: "stays (same_outside (state_files m scope)) (purge_state m scope)"
  unfolding purge_state_def state_files_def
  by (intro outside.stays_seq outside.stays_exists outside.stays_unless outside_rmtree)

lemma shrinks_purge: "stays nothing_new (purge_state m scope)"
  unfolding purge_state_def by (intro shrinks.rules shrinks_rmtree)

lemma macos_control_files: "stays (same_outside {}) (macos_control m action scope dry r)"
  unfolding macos_control_def Let_def by (intro outside.rules outside_command)

lemma linux_control_files: "stays (same_outside {}) (linux_control m action scope dry r)"
  unfolding linux_control_def Let_def by (intro outside.rules outside_command)

lemma service_files_I:
  "known_scope scope \<Longrightarrow> macos_plist_path m scope \<in> service_files m"
  "known_scope scope \<Longrightarrow> macos_log_path m scope \<in> service_files m"
  "known_scope scope \<Longrightarrow> linux_unit_path m scope \<in> service_files m"
  "LINUX_UDEV_RULE_PATH \<in> service_files m"
  by (auto simp: known_scope_def service_files_def)

lemma macos_uninstall_outside:
  "stays (same_outside (service_files m \<union> (if wipe then state_files m scope else {}))) (macos_uninstall m scope wipe dry r)"
  unfolding macos_uninstall_def Let_def
  by (intro outside.rules outside_command outside_unlink outside_more[OF outside_socket] outside_more[OF outside_purge])
    (auto simp: service_files_I)

lemma linux_uninstall_outside:
  "stays (same_outside (service_files m \<union> (if wipe then state_files m scope else {}))) (linux_uninstall m scope wipe dry r)"
  unfolding linux_uninstall_def Let_def
  by (intro outside.rules outside_command outside_unlink outside_more[OF outside_socket] outside_more[OF outside_purge])
    (auto simp: service_files_I)

lemmas shrinking = shrinks.rules shrinks_command shrinks_unlink shrinks_socket shrinks_purge

lemma leaves_scope: "leaves P f \<Longrightarrow> leaves P (checked_scope scope f)"
  by (simp add: checked_scope_def leaves_throw)

lemma leaves_exists:
  "leaves P (g True) \<Longrightarrow> (\<And>b r c. dget (bx_nodes b) p = None \<Longrightarrow> g False b = (Inr r, c) \<Longrightarrow> P c) \<Longrightarrow> leaves P (seq (path_exists p) g)"
  unfolding leaves_def seq_exists by (metis (full_types))

lemma not_installed_same: "not_installed scope p q b = (Inr (NotInstalled scope p (if dget (bx_nodes b) q \<noteq> None then Some q else None)), b)"
  by (simp add: not_installed_def ret_def)

lemma macos_uninstall_removes: "leaves (gone (macos_plist_path m scope)) (macos_uninstall m scope wipe False r)"
  unfolding macos_uninstall_def Let_def unless_def if_False
  apply (rule leaves_scope, rule leaves_exists)
   apply (simp only: not_True_eq_False if_False)
   apply (rule leaves_later, rule gone_later, rule gone_later, rule gone_unlink)
    apply (intro shrinking; simp)+
  apply (auto simp: not_installed_same gone_def)
  done

lemma linux_uninstall_removes: "leaves (gone (linux_unit_path m scope)) (linux_uninstall m scope wipe False r)"
  unfolding linux_uninstall_def Let_def
  apply (rule leaves_scope, rule leaves_exists)
   apply (simp only: not_True_eq_False if_False)
   apply (rule leaves_later, rule gone_later)
    apply (simp only: unless_def if_False, rule gone_later, rule gone_unlink)
    apply (intro shrinking; simp)+
  apply (auto simp: not_installed_same gone_def)
  done

lemma uninstall_absent_same:
  "known_scope scope \<Longrightarrow> dget (bx_nodes b) (macos_plist_path m scope) = None \<Longrightarrow> \<exists>out. macos_uninstall m scope wipe dry r b = (Inr out, b)"
  "known_scope scope \<Longrightarrow> dget (bx_nodes b) (linux_unit_path m scope) = None \<Longrightarrow> \<exists>out. linux_uninstall m scope wipe dry r b = (Inr out, b)"
  by (auto simp: macos_uninstall_def linux_uninstall_def checked_scope_def not_installed_same Let_def)

lemma control_absent_error:
  "known_scope scope \<Longrightarrow> dget (bx_nodes b) (macos_plist_path m scope) = None
     \<Longrightarrow> macos_control m action scope dry r b = (Inl (FileNotFoundError (NoSuchPath (macos_plist_path m scope))), b)"
  "known_scope scope \<Longrightarrow> dget (bx_nodes b) (linux_unit_path m scope) = None
     \<Longrightarrow> linux_control m action scope dry r b = (Inl (FileNotFoundError (NoSuchPath (linux_unit_path m scope))), b)"
  by (auto simp: macos_control_def linux_control_def checked_scope_def throw_def Let_def)

lemma run_query_silent: "run_command m (SubprocessCommandRunner False) argv b = (Inr code, c) \<Longrightarrow> bx_says c = bx_says b"
  by (auto simp: run_command_def split: prod.splits option.splits)

lemma status_prints_nothing:
  "macos_status m scope None b = (Inr st, c) \<Longrightarrow> bx_says c = bx_says b"
  "linux_status m scope None b = (Inr st, c) \<Longrightarrow> bx_says c = bx_says b"
  by (auto simp: macos_status_def linux_status_def checked_scope_def throw_def seq_Inr ret_def Let_def or_query_def
      dest: run_query_silent split: if_splits)

lemma status_sees:
  "macos_status m scope r b = (Inr st, c) \<Longrightarrow> sst_installed st \<longleftrightarrow> dget (bx_nodes b) (macos_plist_path m scope) \<noteq> None"
  "linux_status m scope r b = (Inr st, c) \<Longrightarrow> sst_installed st \<longleftrightarrow> dget (bx_nodes b) (linux_unit_path m scope) \<noteq> None"
  by (auto simp: macos_status_def linux_status_def checked_scope_def throw_def seq_Inr ret_def Let_def split: if_splits)

lemmas growing = grows.rules grows_command grows_write grows_mkdir

lemma macos_install_puts: "leaves (present (macos_plist_path m scope)) (macos_install m scope False r)"
  unfolding macos_install_def Let_def unless_def if_False
  by (rule leaves_scope, rule present_later, rule leaves_later, rule leaves_later, rule present_write) (intro growing)

lemma linux_install_user_puts: "leaves (present (linux_unit_path m ''user'')) (linux_install_user m False r u)"
  unfolding linux_install_user_def Let_def unless_def if_False
  apply (rule leaves_exists)
   apply (cases "linux_user_in_plugdev m (resolve_linux_operating_user m u)")
    apply (simp only: not_True_eq_False not_False_eq_True simp_thms if_False)
    apply (rule present_later, rule leaves_later, rule present_write)
    apply (intro growing)
   apply (simp only: not_True_eq_False not_False_eq_True simp_thms if_True)
   apply (rule leaves_later, rule leaves_throw)
  apply (auto simp: seq_Inr throw_def)
  done

lemma linux_install_system_puts: "leaves (present (linux_unit_path m ''system'')) (linux_install_system m False r u)"
  unfolding linux_install_system_def Let_def unless_def if_False
  by (rule present_later, rule leaves_later, rule present_later, rule present_write) (intro growing)+

lemma linux_install_puts: "leaves (present (linux_unit_path m scope)) (linux_install m scope False r u)"
  using linux_install_user_puts[of m _ u] linux_install_system_puts[of m _ u]
  by (auto simp: linux_install_def checked_scope_def known_scope_def leaves_throw)

subsection \<open>Purging\<close>

definition keeps_directories :: "'s box \<Rightarrow> 's box \<Rightarrow> bool" where
  "keeps_directories b c \<longleftrightarrow> (\<forall>p. dget (bx_nodes b) p = Some Directory \<longrightarrow> dget (bx_nodes c) p = Some Directory)"

interpretation dirs: frame keeps_directories
  by unfold_locales (auto simp: keeps_directories_def)

lemma dirs_command: "stays keeps_directories (run_command m r argv)"
  unfolding stays_def run_command_def keeps_directories_def
  by (auto simp: seq_def say_def ret_def split: runner.splits prod.splits option.splits)

lemma dirs_unlink: "stays keeps_directories (unlink_missing_ok m p)"
  unfolding stays_def unlink_missing_ok_def keeps_directories_def drop_node_def
  by (auto split: option.splits node.splits)

lemma dirs_socket: "stays keeps_directories (unlink_socket m scope)"
  using dirs_unlink[of m] unfolding stays_def unlink_socket_def by (auto simp: dirs.refl split: sum.splits)

lemmas keeping = dirs.rules dirs_command dirs_unlink dirs_socket

text \<open>\<open>f\<close> empties the directory \<open>d\<close> if it is there.\<close>

definition empties :: "path \<Rightarrow> ('s, 'a) op \<Rightarrow> bool" where
  "empties d f \<longleftrightarrow> (\<forall>b r c. dget (bx_nodes b) d = Some Directory \<longrightarrow> f b = (Inr r, c) \<longrightarrow> (\<forall>q. path_under d q \<longrightarrow> dget (bx_nodes c) q = None))"

lemma empties_purge: "empties (state_dir m scope) (purge_state m scope)"
  unfolding empties_def purge_state_def seq_exists unless_def by (auto dest: rmtree_leaves_nothing)

lemma empties_later: "stays keeps_directories f \<Longrightarrow> (\<And>x. empties d (g x)) \<Longrightarrow> empties d (seq f g)"
  unfolding empties_def seq_Inr by (metis keeps_directories_def staysD)

lemma empties_before: "empties d f \<Longrightarrow> (\<And>x. stays nothing_new (g x)) \<Longrightarrow> empties d (seq f g)"
  unfolding empties_def seq_Inr by (metis nothing_new_def staysD)

lemma macos_uninstall_purges:
  assumes "macos_uninstall m scope True False r b = (Inr out, c)" "dget (bx_nodes b) (macos_plist_path m scope) \<noteq> None" "dget (bx_nodes b) (state_dir m scope) = Some Directory"
    "path_under (state_dir m scope) q"
  shows "dget (bx_nodes c) q = None"
proof -
  have e: "empties (state_dir m scope)
     (seq (tolerating (run_command m (or_default r False) [''launchctl'', ''bootout'', service_target m scope])) (\<lambda>_.
      seq (seq (unlink_missing_ok m (macos_plist_path m scope)) (\<lambda>_.
           seq (unlink_socket m scope) (\<lambda>_.
           seq (unlink_missing_ok m (macos_log_path m scope)) (\<lambda>_. purge_state m scope)))) (\<lambda>_.
      ret (Removed scope (macos_plist_path m scope)))))"
    by (intro empties_later empties_before empties_purge keeping shrinks.stays_ret)
  show ?thesis
    using assms e[unfolded empties_def]
    by (auto simp: macos_uninstall_def checked_scope_def throw_def Let_def not_installed_same unless_def split: if_splits)
qed

lemma linux_uninstall_purges:
  assumes "linux_uninstall m scope True False r b = (Inr out, c)" "dget (bx_nodes b) (linux_unit_path m scope) \<noteq> None" "dget (bx_nodes b) (state_dir m scope) = Some Directory"
    "path_under (state_dir m scope) q"
  shows "dget (bx_nodes c) q = None"
proof -
  have e: "empties (state_dir m scope)
     (seq (tolerating (run_command m (or_default r False) (systemctl scope @ [''disable'', ''--now'', LINUX_UNIT_NAME]))) (\<lambda>_.
      seq (seq (unlink_missing_ok m (linux_unit_path m scope)) (\<lambda>_. unlink_socket m scope)) (\<lambda>_.
      seq (unless (scope \<noteq> ''system'')
            (seq (unlink_missing_ok m LINUX_UDEV_RULE_PATH) (\<lambda>_.
             seq (do_run m (or_default r False) [''systemctl'', ''daemon-reload'']) (\<lambda>_.
             tolerating (run_command m (or_default r False) [''udevadm'', ''control'', ''--reload-rules'']))))) (\<lambda>_.
      seq (purge_state m scope) (\<lambda>_.
      ret (Removed scope (linux_unit_path m scope)))))))"
    by (intro empties_later empties_before[OF empties_purge] keeping shrinks.stays_ret)
  show ?thesis
    using assms e[unfolded empties_def]
    by (auto simp: linux_uninstall_def checked_scope_def throw_def Let_def not_installed_same unless_def split: if_splits)
qed

lemma status_absent_same:
  "known_scope scope \<Longrightarrow> dget (bx_nodes b) (macos_plist_path m scope) = None \<Longrightarrow> \<exists>st. macos_status m scope r b = (Inr st, b) \<and> \<not> sst_installed st"
  "known_scope scope \<Longrightarrow> dget (bx_nodes b) (linux_unit_path m scope) = None \<Longrightarrow> \<exists>st. linux_status m scope r b = (Inr st, b) \<and> \<not> sst_installed st"
  by (auto simp: macos_status_def linux_status_def checked_scope_def seq_def ret_def path_exists_def Let_def)

interpretation mac: service_backend m "macos_backend m" for m
  by unfold_locales
    (auto simp: macos_backend_def macos_install_dry macos_uninstall_dry macos_control_dry macos_status_runs status_sees status_prints_nothing
       status_absent_same uninstall_absent_same control_absent_error macos_control_files state_files_def
       macos_uninstall_outside[of m True, unfolded state_files_def if_True] macos_uninstall_outside[of m False, unfolded if_False Un_empty_right]
     intro: macos_uninstall_purges dest: macos_install_puts[unfolded leaves_def present_def, rule_format]
       macos_uninstall_removes[unfolded leaves_def gone_def, rule_format])

interpretation lin: service_backend m "linux_backend m" for m
  by unfold_locales
    (auto simp: linux_backend_def linux_install_dry linux_uninstall_dry linux_control_dry linux_status_runs status_sees status_prints_nothing
       status_absent_same uninstall_absent_same control_absent_error linux_control_files state_files_def
       linux_uninstall_outside[of m True, unfolded state_files_def if_True] linux_uninstall_outside[of m False, unfolded if_False Un_empty_right]
     intro: linux_uninstall_purges dest: linux_install_puts[unfolded leaves_def present_def, rule_format]
       linux_uninstall_removes[unfolded leaves_def gone_def, rule_format])

context service_backend begin

lemma runs_of_untouched: "stays untouched f \<Longrightarrow> stays (only_runs Q) f"
  unfolding stays_def untouched_def only_runs_def by auto

lemma runs_install_scope: "stays (only_runs (queries m)) (installed_service_scope k a sub)"
  unfolding installed_service_scope_def by (intro runs.rules status_runs)

lemma dry_control: "sv_dry_run a \<Longrightarrow> stays (only_runs (queries m)) (service_control_on k a action)"
  unfolding service_control_on_def
  by (intro runs.stays_seq runs_install_scope)
    (auto intro!: runs.rules runs_of_untouched[OF control_dry] split: option.split service_exn.split)

lemma control_keeps_files: "stays (same_outside {}) (service_control_on k a action)"
proof -
  have "stays (same_outside {}) (installed_service_scope k a action)"
    using runs_install_scope[of a action] unfolding stays_def only_runs_def same_outside_def by auto
  thus ?thesis
    unfolding service_control_on_def
    by (intro outside.stays_seq) (auto intro!: outside.rules control_files split: option.split service_exn.split)
qed

text \<open>Where nothing is installed, starting and stopping is refused and nothing runs.\<close>

lemma control_nothing_installed:
  assumes "dget (bx_nodes b) (bk_path k ''user'') = None" "dget (bx_nodes b) (bk_path k ''system'') = None"
  shows "\<exists>n. service_control_on k a action b = (Inr EXIT_ERROR, b\<lparr>bx_says := bx_says b @ [n]\<rparr>)"
proof (cases "sv_user a \<or> sv_system a")
  case True
  moreover have "dget (bx_nodes b) (bk_path k (service_scope a)) = None"
    using assms by (simp add: service_scope_def)
  ultimately show ?thesis
    by (intro exI[of _ "ScopeNotInstalled (service_scope a) (NoSuchPath (bk_path k (service_scope a)))"])
      (simp add: service_control_on_def installed_service_scope_def seq_def ret_def handling_def control_absent[OF scope_known] say_def)
next
  case False
  have "known_scope ''user''" "known_scope ''system''" by (simp_all add: known_scope_def)
  from status_absent[OF this(1) assms(1)] status_absent[OF this(2) assms(2)] False show ?thesis
    by (auto simp: service_control_on_def installed_service_scope_def seq_def ret_def say_def)
qed

text \<open>With one scope installed, no flag is the flag of that scope after the two status queries.\<close>

lemma control_default_scope:
  assumes flags: "\<not> sv_user a" "\<not> sv_system a"
    and here: "dget (bx_nodes b) (bk_path k scope) \<noteq> None" and not_there: "dget (bx_nodes b) (bk_path k (other_scope scope)) = None"
    and known: "known_scope scope" and res: "service_control_on k a action b = (Inr code, c)"
  shows "\<exists>b1. only_runs (queries m) b b1
           \<and> service_control_on k (a\<lparr>sv_user := scope = ''user'', sv_system := scope = ''system''\<rparr>) action b1 = (Inr code, c)"
proof -
  obtain found b1 where f: "installed_service_scope k a action b = (Inr found, b1)"
      and rest: "(case found of None \<Rightarrow> ret EXIT_ERROR
                  | Some scope \<Rightarrow> handling (bk_control k action scope (sv_dry_run a))
                      (\<lambda>e. case e of
                             FileNotFoundError what \<Rightarrow> seq (say (ScopeNotInstalled scope what)) (\<lambda>_. ret EXIT_ERROR)
                           | CalledProcessError argv code \<Rightarrow> seq (say (ControlFailed action argv code)) (\<lambda>_. ret EXIT_ERROR)
                           | _ \<Rightarrow> throw e)
                      (\<lambda>_. seq (say (Controlled (sv_dry_run a) action scope)) (\<lambda>_. ret EXIT_OK))) b1 = (Inr code, c)"
    using res unfolding service_control_on_def seq_Inr[of "installed_service_scope k a action"] by blast
  have b1: "only_runs (queries m) b b1"
    by (rule staysD[OF runs_install_scope f])
  obtain u y b0 b2 where u: "bk_status k ''user'' b = (Inr u, b0)" and y: "bk_status k ''system'' b0 = (Inr y, b2)"
      and found: "found = (if sst_installed u \<noteq> sst_installed y then Some (if sst_installed u then ''user'' else ''system'') else None)"
    using f flags by (auto simp: installed_service_scope_def seq_Inr say_def ret_def split: if_splits)
  have "bx_nodes b0 = bx_nodes b" using staysD[OF status_runs u] by (simp add: only_runs_def)
  hence "sst_installed u \<longleftrightarrow> scope = ''user''" "sst_installed y \<longleftrightarrow> scope = ''system''"
    using status_installed[OF u] status_installed[OF y] here not_there known
    by (auto simp: known_scope_def other_scope_def)
  hence "found = Some scope" using found known by (auto simp: known_scope_def)
  with rest b1 known show ?thesis
    by (intro exI[of _ b1])
      (auto simp: service_control_on_def installed_service_scope_def known_scope_def service_scope_def seq_def ret_def)
qed

text \<open>Installing, then uninstalling.\<close>

lemma install_leaves_it: "\<not> sv_dry_run a \<Longrightarrow> service_install_on k a b = (Inr EXIT_OK, c) \<Longrightarrow> dget (bx_nodes c) (bk_path k (service_scope a)) \<noteq> None"
  by (auto simp: service_install_on_def handling_def seq_def say_def ret_def throw_def EXIT_OK_def EXIT_LINUX_USER_PREFLIGHT_def
      dest: install_puts split: prod.splits sum.splits service_exn.splits)

lemma uninstall_takes_it: "\<not> sv_dry_run a \<Longrightarrow> service_uninstall_on k a b = (Inr code, c) \<Longrightarrow> dget (bx_nodes c) (bk_path k (service_scope a)) = None"
  by (auto simp: service_uninstall_on_def seq_Inr say_def ret_def dest: uninstall_removes)

lemma uninstall_again:
  "dget (bx_nodes b) (bk_path k (service_scope a)) = None
     \<Longrightarrow> \<exists>out. service_uninstall_on k a b = (Inr EXIT_OK, b\<lparr>bx_says := bx_says b @ [UninstallDone out]\<rparr>)"
  using uninstall_absent[OF scope_known, of b a "sv_purge a" "sv_dry_run a"]
  by (auto simp: service_uninstall_on_def seq_def say_def ret_def)

lemma status_of_both:
  "service_status_on k b = (Inr code, c)
     \<Longrightarrow> \<exists>u y. bx_says c = bx_says b @ [StatusLine u, StatusLine y]
            \<and> (sst_installed u \<longleftrightarrow> dget (bx_nodes b) (bk_path k ''user'') \<noteq> None)
            \<and> (sst_installed y \<longleftrightarrow> dget (bx_nodes b) (bk_path k ''system'') \<noteq> None)"
proof -
  assume "service_status_on k b = (Inr code, c)"
  then obtain u y b0 b1 where u: "bk_status k ''user'' b = (Inr u, b0)"
      and y: "bk_status k ''system'' (b0\<lparr>bx_says := bx_says b0 @ [StatusLine u]\<rparr>) = (Inr y, b1)"
      and c: "c = b1\<lparr>bx_says := bx_says b1 @ [StatusLine y]\<rparr>"
    by (auto simp: service_status_on_def seq_Inr say_def ret_def)
  have "bx_nodes b0 = bx_nodes b" using staysD[OF status_runs u] by (simp add: only_runs_def)
  with status_installed[OF u] status_installed[OF y] status_silent[OF u] status_silent[OF y] c show ?thesis
    by auto
qed

end

section \<open>Properties of the service commands\<close>

lemma backend_cases:
  assumes "backend_of m = Some k" shows "service_backend m k"
  using assms mac.service_backend_axioms[of m] lin.service_backend_axioms[of m]
  by (auto simp: backend_of_def split: platform.splits)

lemma unsupported_untouched: "stays untouched (service_not_supported sub)"
  unfolding service_not_supported_def by (intro dry.rules)

lemma cmd_outside_uninstall:
  assumes "\<not> sv_purge a" shows "stays (same_outside (service_files m)) (cmd_service_uninstall m a)"
proof (cases "backend_of m")
  case None
  thus ?thesis by (auto simp: cmd_service_uninstall_def service_not_supported_def intro!: outside.rules)
next
  case (Some k)
  from service_backend.uninstall_outside[OF backend_cases[OF this], of False] Some assms show ?thesis
    by (auto simp: cmd_service_uninstall_def service_uninstall_on_def intro!: outside.rules)
qed

text \<open>No path of the service is a database.\<close>

definition path_name :: "path \<Rightarrow> string" where
  "path_name p = (case p of Path r parts \<Rightarrow> if parts = [] then [] else last parts)"

lemma path_name_joined [simp]: "ns \<noteq> [] \<Longrightarrow> path_name (joined p ns) = last ns"
  by (auto simp: path_name_def joined_def split: path.split)

lemma service_file_names:
  "p \<in> service_files m \<Longrightarrow> path_name p \<in> {LAUNCHD_LABEL @ ''.plist'', APP @ ''.log'', APP @ ''.service'', ''api.sock'', ''99-mbregistry-cmsis-dap.rules''}"
  by (auto simp: service_files_def socket_paths_def macos_plist_path_def macos_log_path_def linux_unit_path_def macos_launch_agent_path_def
      macos_launch_daemon_path_def macos_user_log_path_def macos_system_log_path_def linux_user_unit_path_def LINUX_SYSTEM_UNIT_PATH_def
      LINUX_UDEV_RULE_PATH_def system_socket_path_def user_socket_path_def APP_def path_name_def[of "Path _ _"]
      split: platform.splits option.splits if_splits)

lemma db_path_name: "path_name (system_db_path m) = ''devices.db''" "path_name (user_db_path m) = ''devices.db''"
  by (auto simp: system_db_path_def user_db_path_def split: platform.splits)

lemma db_not_service_file: "system_db_path m \<notin> service_files m" "user_db_path m \<notin> service_files m"
  using service_file_names[of "system_db_path m" m] service_file_names[of "user_db_path m" m] db_path_name[of m]
  by (auto simp: APP_def LAUNCHD_LABEL_def)

text \<open>C29: a dry run touches nothing: under \<open>--dry-run\<close> no \<open>service\<close> subcommand on any platform changes a file, runs a
  command or lets one change the host, whatever else was asked for; \<open>start\<close>, \<open>stop\<close> and \<open>restart\<close> run at most the
  status queries that pick the scope.\<close>

theorem dry_run_touches_nothing:
  assumes "sv_dry_run a"
  shows "untouched b (snd (cmd_service_install m a b)) \<and> untouched b (snd (cmd_service_uninstall m a b))
         \<and> only_runs (queries m) b (snd (cmd_service_control m a action b))"
proof (cases "backend_of m")
  case None
  have "only_runs (queries m) b (snd (service_not_supported action b))"
    unfolding service_not_supported_def by (rule runs.stays_seq[unfolded stays_def, rule_format])
      (auto intro: runs.rules[unfolded stays_def, rule_format])
  with None show ?thesis
    by (simp add: cmd_service_install_def cmd_service_uninstall_def cmd_service_control_def
        unsupported_untouched[unfolded stays_def, rule_format])
next
  case (Some k)
  note backend = backend_cases[OF this]
  show ?thesis
    using service_backend.dry_install[OF backend assms] service_backend.dry_uninstall[OF backend assms]
      service_backend.dry_control[OF backend assms, of action]
    unfolding stays_def by (simp add: cmd_service_install_def cmd_service_uninstall_def cmd_service_control_def Some)
qed

text \<open>A Linux host with the system service installed, its database and socket in place, and programs that all exit 0.\<close>

definition example_host :: "unit machine" where
  "example_host = \<lparr>mc_platform = LinuxOS, mc_root = True, mc_uid = Some 0, mc_home = py_path ''/root'', mc_temp = py_path ''/tmp'',
     mc_program_data = py_path ''/'', mc_var = (\<lambda>_. None), mc_executable = ''/usr/bin/python3'', mc_login = ''root'',
     mc_pwnam = (\<lambda>_. None), mc_grgid = (\<lambda>_. None), mc_grnam = (\<lambda>_. None), mc_denied = (\<lambda>_. False),
     mc_exec = (\<lambda>argv s. (Some 0, s))\<rparr>"

definition example_box :: "unit box" where
  "example_box = \<lparr>bx_nodes = (LINUX_SYSTEM_UNIT_PATH, File (Text [])) #
       map (\<lambda>p. (p, Directory)) (path_chain (py_path ''/var/lib/mbregistry'')) @
       [(py_path ''/var/lib/mbregistry/devices.db'', File (Text []))],
     bx_ran = [], bx_says = [], bx_sys = ()\<rparr>"

definition system_args :: "bool \<Rightarrow> bool \<Rightarrow> service_args" where
  "system_args wipe dry = \<lparr>sv_user = False, sv_system = True, sv_purge = wipe, sv_dry_run = dry\<rparr>"

lemmas example_eval = cmd_service_uninstall_def cmd_service_install_def backend_of_def example_host_def linux_backend_def service_uninstall_on_def
  service_install_on_def system_args_def service_scope_def linux_uninstall_def linux_install_def linux_install_system_def checked_scope_def
  known_scope_def Let_def or_default_def default_runner_def unless_def seq_def ret_def say_def do_run_def run_command_def tolerating_def
  handling_def systemctl_def linux_unit_path_def path_exists_def example_box_def dget_def unlink_missing_ok_def drop_node_def ddel_def
  LINUX_SYSTEM_UNIT_PATH_def LINUX_UDEV_RULE_PATH_def unlink_socket_def system_socket_path_def py_path_def starts_with_def joined_def
  APP_def path_chain_def is_file_def purge_state_def state_dir_def path_parent_def system_db_path_def rmtree_def path_under_def rm_one_def
  EXIT_OK_def mkdir_parents_def mkdir_one_def put_node_def write_text_def dset_def

theorem dry_run_touches_nothing_witness:
  "untouched example_box (snd (cmd_service_install example_host (system_args True True) example_box))
   \<and> untouched example_box (snd (cmd_service_uninstall example_host (system_args True True) example_box))
   \<and> only_runs (queries example_host) example_box (snd (cmd_service_control example_host (system_args True True) ''stop'' example_box))"
  by (rule dry_run_touches_nothing) (simp add: system_args_def)

text \<open>C30: the database is removed by \<open>--purge\<close> and by nothing else. Without it an uninstall changes, however it ends, only
  the service's own files, and no database is one of them. With it, an uninstall of an installed service that
  returns leaves nothing of the state directory.\<close>

theorem purge_is_opt_in:
  assumes "cmd_service_uninstall m a b = (res, c)"
  shows "(\<not> sv_purge a \<longrightarrow> same_outside (service_files m) b c
            \<and> dget (bx_nodes c) (system_db_path m) = dget (bx_nodes b) (system_db_path m)
            \<and> dget (bx_nodes c) (user_db_path m) = dget (bx_nodes b) (user_db_path m))
       \<and> (\<forall>k code q. sv_purge a \<and> \<not> sv_dry_run a \<and> backend_of m = Some k \<and> res = Inr code
              \<and> dget (bx_nodes b) (bk_path k (service_scope a)) \<noteq> None
              \<and> dget (bx_nodes b) (state_dir m (service_scope a)) = Some Directory
              \<and> q \<in> state_files m (service_scope a) \<longrightarrow> dget (bx_nodes c) q = None)"
proof (intro conjI impI allI)
  assume "\<not> sv_purge a"
  from staysD[OF cmd_outside_uninstall[OF this] assms] show "same_outside (service_files m) b c" .
  with db_not_service_file[of m]
  show "dget (bx_nodes c) (system_db_path m) = dget (bx_nodes b) (system_db_path m)"
    and "dget (bx_nodes c) (user_db_path m) = dget (bx_nodes b) (user_db_path m)"
    by (auto simp: same_outside_def)
next
  fix k code q
  assume h: "sv_purge a \<and> \<not> sv_dry_run a \<and> backend_of m = Some k \<and> res = Inr code
              \<and> dget (bx_nodes b) (bk_path k (service_scope a)) \<noteq> None
              \<and> dget (bx_nodes b) (state_dir m (service_scope a)) = Some Directory
              \<and> q \<in> state_files m (service_scope a)"
  hence k: "service_backend m k" and some: "backend_of m = Some k" by (auto intro: backend_cases)
  obtain out b1 where "bk_uninstall k (service_scope a) True False b = (Inr out, b1)" "bx_nodes c = bx_nodes b1"
    using assms h by (auto simp: cmd_service_uninstall_def some service_uninstall_on_def seq_Inr say_def ret_def)
  with service_backend.uninstall_purges[OF k] h show "dget (bx_nodes c) q = None" by auto
qed

theorem purge_is_opt_in_witness:
  "same_outside (service_files example_host) example_box (snd (cmd_service_uninstall example_host (system_args False False) example_box))
   \<and> dget (bx_nodes (snd (cmd_service_uninstall example_host (system_args True False) example_box)))
       (py_path ''/var/lib/mbregistry/devices.db'') = None"
proof -
  let ?db = "py_path ''/var/lib/mbregistry/devices.db''"
  obtain r c where c: "cmd_service_uninstall example_host (system_args False False) example_box = (r, c)" by fastforce
  have 1: "same_outside (service_files example_host) example_box c"
    using conjunct1[OF purge_is_opt_in[OF c]] by (simp add: system_args_def)
  have "fst (cmd_service_uninstall example_host (system_args True False) example_box) = Inr EXIT_OK" by (simp add: example_eval)
  then obtain d where d: "cmd_service_uninstall example_host (system_args True False) example_box = (Inr EXIT_OK, d)"
    by (metis prod.collapse)
  have "dget (bx_nodes example_box) (linux_unit_path example_host ''system'') \<noteq> None"
    "dget (bx_nodes example_box) (state_dir example_host ''system'') = Some Directory"
    "path_under (state_dir example_host ''system'') ?db" by (simp_all add: example_eval)
  hence "dget (bx_nodes d) ?db = None"
    using conjunct2[OF purge_is_opt_in[OF d], rule_format, of "linux_backend example_host" EXIT_OK ?db]
    by (simp add: system_args_def service_scope_def backend_of_def example_host_def state_files_def linux_backend_def)
  with 1 c d show ?thesis by simp
qed

text \<open>Installing and uninstalling are inverse, and both are seen by \<open>status\<close>. After an install that reports success the
  service file is there; after an uninstall that returns it is not, another uninstall changes nothing and exits 0, and
  starting what is not installed is refused with exit code 1, without running anything.\<close>

theorem service_lifecycle:
  assumes k: "backend_of m = Some k" and real: "\<not> sv_dry_run a"
    and ins: "cmd_service_install m a b = (Inr EXIT_OK, b1)" and uns: "cmd_service_uninstall m a b1 = (Inr code, b2)"
  shows "dget (bx_nodes b1) (bk_path k (service_scope a)) \<noteq> None
       \<and> dget (bx_nodes b2) (bk_path k (service_scope a)) = None
       \<and> (\<exists>out. cmd_service_uninstall m a b2 = (Inr EXIT_OK, b2\<lparr>bx_says := bx_says b2 @ [UninstallDone out]\<rparr>))
       \<and> (dget (bx_nodes b2) (bk_path k (other_scope (service_scope a))) = None
            \<longrightarrow> (\<exists>n. cmd_service_control m a action b2 = (Inr EXIT_ERROR, b2\<lparr>bx_says := bx_says b2 @ [n]\<rparr>)))"
proof -
  note backend = backend_cases[OF k]
  have gone: "dget (bx_nodes b2) (bk_path k (service_scope a)) = None"
    using service_backend.uninstall_takes_it[OF backend real] uns by (simp add: cmd_service_uninstall_def k)
  moreover have "dget (bx_nodes b1) (bk_path k (service_scope a)) \<noteq> None"
    using service_backend.install_leaves_it[OF backend real] ins by (simp add: cmd_service_install_def k)
  moreover have "\<exists>n. cmd_service_control m a action b2 = (Inr EXIT_ERROR, b2\<lparr>bx_says := bx_says b2 @ [n]\<rparr>)"
    if "dget (bx_nodes b2) (bk_path k (other_scope (service_scope a))) = None"
    using service_backend.control_nothing_installed[OF backend, of b2 a action] that gone
    by (auto simp: cmd_service_control_def k other_scope_def service_scope_def split: if_splits)
  ultimately show ?thesis
    using service_backend.uninstall_again[OF backend gone] by (simp add: cmd_service_uninstall_def k)
qed

theorem service_lifecycle_witness:
  "\<exists>b1 b2 out. cmd_service_install example_host (system_args False False) example_box = (Inr EXIT_OK, b1)
     \<and> cmd_service_uninstall example_host (system_args False False) b1 = (Inr EXIT_OK, b2)
     \<and> dget (bx_nodes b2) LINUX_SYSTEM_UNIT_PATH = None
     \<and> cmd_service_uninstall example_host (system_args False False) b2 = (Inr EXIT_OK, b2\<lparr>bx_says := bx_says b2 @ [UninstallDone out]\<rparr>)"
proof -
  have "fst (cmd_service_install example_host (system_args False False) example_box) = Inr EXIT_OK" by (simp add: example_eval)
  then obtain b1 where b1: "cmd_service_install example_host (system_args False False) example_box = (Inr EXIT_OK, b1)"
    by (metis prod.collapse)
  have "fst (cmd_service_uninstall example_host (system_args False False)
          (snd (cmd_service_install example_host (system_args False False) example_box))) = Inr EXIT_OK" by (simp add: example_eval)
  then obtain b2 where b2: "cmd_service_uninstall example_host (system_args False False) b1 = (Inr EXIT_OK, b2)"
    using b1 by (metis prod.collapse snd_conv)
  have "backend_of example_host = Some (linux_backend example_host)" by (simp add: backend_of_def example_host_def)
  moreover have "\<not> sv_dry_run (system_args False False)" by (simp add: system_args_def)
  moreover have "bk_path (linux_backend example_host) (service_scope (system_args False False)) = LINUX_SYSTEM_UNIT_PATH"
    by (simp add: linux_backend_def service_scope_def system_args_def linux_unit_path_def)
  ultimately show ?thesis
    using service_lifecycle[OF _ _ b1 b2, of "linux_backend example_host"] b1 b2 by auto
qed

subsection \<open>Observations\<close>

text \<open>The system install says that it added the user to the group also when no command was run.\<close>

lemma dry_install_claims_the_group:
  assumes "mc_platform m = LinuxOS" "sv_dry_run a" "\<not> sv_user a"
  shows "AddedToGroup (resolve_linux_operating_user m None) \<in> set (bx_says (snd (cmd_service_install m a b)))"
  using assms
  by (simp add: cmd_service_install_def backend_of_def linux_backend_def service_install_on_def service_scope_def linux_install_def
      linux_install_system_def checked_scope_def known_scope_def or_default_def default_runner_def unless_def handling_def seq_def
      ret_def say_def do_run_def run_command_def Let_def)

text \<open>A service manager that is not there is reported as a service that is not installed.\<close>

lemma missing_program_is_reported_as_not_installed:
  assumes "mc_platform m = LinuxOS" "sv_system a" "\<not> sv_user a" "\<not> sv_dry_run a" "dget (bx_nodes b) LINUX_SYSTEM_UNIT_PATH \<noteq> None"
    "fst (mc_exec m [''systemctl'', action, LINUX_UNIT_NAME] (bx_sys b)) = None"
  shows "ScopeNotInstalled ''system'' NoSuchProgram \<in> set (bx_says (snd (cmd_service_control m a action b)))"
  using assms
  by (auto simp: cmd_service_control_def backend_of_def linux_backend_def service_control_on_def installed_service_scope_def
      service_scope_def linux_control_def checked_scope_def known_scope_def or_default_def default_runner_def handling_def seq_def
      ret_def say_def do_run_def run_command_def systemctl_def linux_unit_path_def path_exists_def split: prod.split)

text \<open>A client looks for a socket file, not for a daemon that listens on it: one that a dead daemon left behind hides the
  other daemon.\<close>

lemma stale_socket_hides_the_system_daemon:
  assumes "mc_platform m \<noteq> Windows" "\<not> mc_root m" "user_socket_path m nodes = Inr u" "dget nodes u \<noteq> None"
  shows "find_client_socket m nodes = Inr u"
  using assms
  by (auto simp: find_client_socket_def client_socket_candidates_def is_root_def system_socket_path_def Let_def split: platform.splits)

text \<open>The service process reports that it runs first and that it stopped last, also when its main function raises.\<close>

lemma service_reports_its_end:
  assumes "\<And>w. \<exists>new. ws_reported (snd (main w)) = ws_reported w @ new"
  shows "\<exists>mid. ws_reported (snd (run_as_windows_service main)) = SERVICE_RUNNING # mid @ [SERVICE_STOPPED]"
proof -
  obtain new where "ws_reported (snd (main (set_status SERVICE_RUNNING \<lparr>ws_reported = [], ws_stop = False\<rparr>))) = [SERVICE_RUNNING] @ new"
    using assms[of "set_status SERVICE_RUNNING \<lparr>ws_reported = [], ws_stop = False\<rparr>"] by (auto simp: set_status_def)
  thus ?thesis
    by (auto simp: run_as_windows_service_def set_status_def split: prod.split)
qed

end
