(* ===== verification/MB_Render.thy ===== *)
theory MB_Render
  imports MB_Serial MB_Service "HOL-Library.Product_Lexorder"
begin

text \<open>
  Model of \<open>src/mbtools/registry/render.py\<close>, the tables and summaries the commands print, and of the client
  subcommands \<open>list\<close>, \<open>unlock\<close> and \<open>rescan\<close> of \<open>registry/cli.py\<close>. A row of the table is a \<open>device_view\<close>, as
  \<open>_device_dict\<close> makes it. The two regular expressions on a peer's lock display are functions on the text:
  the label one can only match at the last parenthesis, the address one at the first \<open>on\<close> that is a word. What a
  command prints is a value; the JSON encoder's text is not modelled.
\<close>

subsection \<open>Cells\<close>

definition or_else :: "string option \<Rightarrow> string \<Rightarrow> string" where
  "or_else x dflt = (case x of Some (c # cs) \<Rightarrow> c # cs | _ \<Rightarrow> dflt)"

definition view_is_locked :: "device_view \<Rightarrow> bool" where
  "view_is_locked v = truthy (if dv_host (dw_device v) \<noteq> None then dv_remote_lock_kind (dw_device v) else dw_lock_kind v)"

definition state_cell :: "device_view \<Rightarrow> string" where
  "state_cell v =
     (let d = dw_device v in
      if dv_host d \<noteq> None \<and> \<not> dw_peer_reachable v then ''peer unreachable''
      else if dv_state d = STATE_DISCONNECTED then ''gone''
      else if view_is_locked v then ''locked''
      else if dv_state d = STATE_ATTACHED_NO_ANNOUNCE then ''no-answer''
      else if dv_state d = STATE_CONNECTED_NO_FIRMWARE then ''no-firmware''
      else ''free'')"

definition name_cell :: "device_view \<Rightarrow> string" where
  "name_cell v = or_else (dv_device_name (dw_device v)) (or_else (dv_chip_identity_name (dw_device v)) ''-'')"

definition host_cell :: "device_view \<Rightarrow> string" where
  "host_cell v = or_else (dv_host (dw_device v)) ''local''"

definition firmware_cell :: "device_view \<Rightarrow> string" where
  "firmware_cell v =
     (let d = dw_device v in
      if dv_state d = STATE_ATTACHED_UNPROBED then ''(not probed yet)''
      else if dv_state d = STATE_ATTACHED_NO_ANNOUNCE then ''unknown''
      else if dv_state d = STATE_CONNECTED_NO_FIRMWARE then ''no firmware''
      else if truthy (dv_role d) \<and> truthy (dv_common_name d) then the (dv_role d) @ ''/'' @ the (dv_common_name d)
      else or_else (dv_role d) (or_else (dv_common_name d) ''-''))"

text \<open>\<open>\(([^()]*), [^,()]*\)\s*$\<close>, searched for: its group.\<close>

definition rstrip_spaces :: "string \<Rightarrow> string" where
  "rstrip_spaces s = rev (dropWhile is_space_char (rev s))"

definition display_label :: "string \<Rightarrow> string option" where
  "display_label s =
     (let t = rstrip_spaces s in
      if \<not> ends_with '')'' t then None
      else case rpartition (CHR ''('') (butlast t) of
             None \<Rightarrow> None
           | Some (_, inside) \<Rightarrow>
               if CHR '')'' \<in> set inside then None
               else case rpartition (CHR '','') inside of
                      None \<Rightarrow> None
                    | Some (label, age) \<Rightarrow> if starts_with '' '' age then Some label else None)"

text \<open>\<open>\bon (\S+)\<close>, searched for: its group. \<open>after_word\<close>: the character before is a word's.\<close>

definition is_word_char :: "char \<Rightarrow> bool" where
  "is_word_char c \<longleftrightarrow> is_alpha_char c \<or> is_digit_char c \<or> c = CHR ''_''"

fun display_on :: "bool \<Rightarrow> string \<Rightarrow> string option" where
  "display_on after_word [] = None"
| "display_on after_word (c # cs) =
     (let word = takeWhile (\<lambda>x. \<not> is_space_char x) (drop 2 cs) in
      if \<not> after_word \<and> starts_with ''on '' (c # cs) \<and> word \<noteq> [] then Some word
      else display_on (is_word_char c) cs)"

text \<open>\<open>label.split(" / ")[0]\<close>.\<close>

fun before_slash :: "string \<Rightarrow> string" where
  "before_slash [] = []"
| "before_slash (c # cs) = (if starts_with '' / '' (c # cs) then [] else c # before_slash cs)"

definition lock_cell :: "device_view \<Rightarrow> string" where
  "lock_cell v =
     (let d = dw_device v;
          machine = (\<lambda>label. if truthy label then py_strip (before_slash (the label)) else or_else (dv_host d) ''local'')
      in if \<not> view_is_locked v then ''-''
         else case dv_host d of
                None \<Rightarrow> machine (dw_lock_label v)
              | Some _ \<Rightarrow>
                  (let display = or_else (dv_remote_lock_display d) [] in
                   case display_label display of
                     Some (c # cs) \<Rightarrow> machine (Some (c # cs))
                   | _ \<Rightarrow> (case display_on False display of Some a \<Rightarrow> a | None \<Rightarrow> machine None)))"

subsection \<open>Order\<close>

definition uid_key :: "device_view \<Rightarrow> string" where
  "uid_key v = (if dv_short_uid (dw_device v) \<noteq> [] then dv_short_uid (dw_device v) else dv_uid (dw_device v))"

definition SORT_KEYS :: "string list" where "SORT_KEYS = [''state'', ''name'', ''firmware'', ''host'']"

definition sort_devices :: "device_view list \<Rightarrow> string option \<Rightarrow> device_view list result" where
  "sort_devices views sort_by =
     (let ordered = sort_key uid_key views in
      case sort_by of
        None \<Rightarrow> Inr ordered
      | Some key \<Rightarrow>
          if key = ''state'' then Inr (sort_key (\<lambda>v. str_lower (state_cell v)) ordered)
          else if key = ''name'' then Inr (sort_key (\<lambda>v. str_lower (name_cell v)) ordered)
          else if key = ''firmware'' then Inr (sort_key (\<lambda>v. str_lower (firmware_cell v)) ordered)
          else if key = ''host'' then Inr (sort_key (\<lambda>v. (dv_host (dw_device v) \<noteq> None, str_lower (host_cell v))) ordered)
          else Inl ValueError)"

subsection \<open>Tables\<close>

definition TABLE_HEADERS :: "string list" where
  "TABLE_HEADERS = [''STATE'', ''LOCKED'', ''NAME'', ''UID'', ''FIRMWARE'', ''HOST'', ''PORT'']"

definition ljust :: "nat \<Rightarrow> string \<Rightarrow> string" where
  "ljust n s = s @ replicate (n - length s) (CHR '' '')"

definition two_spaces :: "string list \<Rightarrow> string" where
  "two_spaces cells = concat (map (\<lambda>i. (if i = 0 then [] else ''  '') @ cells ! i) [0..<length cells])"

definition column_widths :: "string list list \<Rightarrow> string list \<Rightarrow> nat list" where
  "column_widths rows headers = map (\<lambda>i. Max (set (length (headers ! i) # map (\<lambda>r. length (r ! i)) rows))) [0..<length headers]"

definition table_line :: "nat list \<Rightarrow> string list \<Rightarrow> string" where
  "table_line widths cells = rstrip_spaces (two_spaces (map2 ljust widths cells))"

definition table_lines :: "string list list \<Rightarrow> string list \<Rightarrow> string list" where
  "table_lines rows headers =
     (let widths = column_widths rows headers
      in table_line widths headers # two_spaces (map (\<lambda>w. replicate w (CHR ''-'')) widths) # map (table_line widths) rows)"

definition table_row :: "device_view \<Rightarrow> string list" where
  "table_row v =
     [state_cell v, lock_cell v, name_cell v,
      (if dv_short_uid (dw_device v) \<noteq> [] then dv_short_uid (dw_device v) else drop (length (dv_uid (dw_device v)) - 8) (dv_uid (dw_device v))),
      firmware_cell v, host_cell v, or_else (dv_port (dw_device v)) ''-'']"

definition render_table :: "device_view list \<Rightarrow> string option \<Rightarrow> string list result" where
  "render_table views sort_by =
     (case sort_devices views sort_by of
        Inl e \<Rightarrow> Inl e
      | Inr [] \<Rightarrow> Inr [''no devices known to the registry'']
      | Inr ordered \<Rightarrow> Inr (table_lines (map table_row ordered) TABLE_HEADERS))"

definition render_json :: "device_view list \<Rightarrow> string option \<Rightarrow> device_view list result" where
  "render_json views sort_by = sort_devices views sort_by"

subsection \<open>The summary of a rescan\<close>

type_synonym rescan_reply = "(string list \<times> string list) \<times> string list \<times> bool"

definition plural :: "'a list \<Rightarrow> string" where
  "plural xs = (if length xs \<noteq> 1 then ''s'' else [])"

definition comma_list :: "string list \<Rightarrow> string" where
  "comma_list xs = concat (map (\<lambda>i. (if i = 0 then [] else '', '') @ xs ! i) [0..<length xs])"

definition render_rescan_summary :: "rescan_reply \<Rightarrow> string list" where
  "render_rescan_summary resp =
     (case resp of ((devices, peers), skipped, dry_run) \<Rightarrow>
        let remove_verb = (if dry_run then ''would remove'' else ''removed'');
            skip_verb = (if dry_run then ''would skip'' else ''skipped'');
            lines = (if devices = [] then []
                     else [remove_verb @ '' '' @ show_nat (length devices) @ '' device'' @ plural devices @ '': '' @ comma_list (map short_uid devices)])
                  @ (if peers = [] then []
                     else [remove_verb @ '' '' @ show_nat (length peers) @ '' unreachable peer'' @ plural peers @ '': '' @ comma_list peers])
                  @ (if skipped = [] then []
                     else [skip_verb @ '' '' @ show_nat (length skipped) @ '' locked: '' @ comma_list (map short_uid skipped)])
        in if lines = [] then [''nothing to remove''] else lines)"

record rescan_json =
  rj_removed :: "string list \<times> string list"
  rj_skipped_locked :: "string list"
  rj_dry_run :: bool
  rj_devices :: "device_view list option"

definition render_rescan_json :: "rescan_reply \<Rightarrow> device_view list option \<Rightarrow> string option \<Rightarrow> rescan_json result" where
  "render_rescan_json resp devices sort_by =
     (case resp of (removed, skipped, dry_run) \<Rightarrow>
        case devices of
          None \<Rightarrow> Inr \<lparr>rj_removed = removed, rj_skipped_locked = skipped, rj_dry_run = dry_run, rj_devices = None\<rparr>
        | Some views \<Rightarrow>
            (case render_json views sort_by of
               Inl e \<Rightarrow> Inl e
             | Inr ordered \<Rightarrow> Inr \<lparr>rj_removed = removed, rj_skipped_locked = skipped, rj_dry_run = dry_run, rj_devices = Some ordered\<rparr>))"

subsection \<open>The client subcommands\<close>

datatype printed =
    Lines "string list"
  | DevicesJson "device_view list"
  | RescanJson rescan_json
  | NotLockedLine string
  | ReleasedLine string string string
  | ErrorLine client_exn

text \<open>What a command that raises something else than the client's errors ends with.\<close>

datatype cli_exn = ClientError client_exn | RenderError py_error

type_synonym 's command = "'s option \<Rightarrow> ((cli_exn + int) \<times> printed list) \<times> 's option"

text \<open>The \<open>except\<close> clauses the three commands share.\<close>

definition client_failed :: "client_exn \<Rightarrow> (cli_exn + int) \<times> printed list" where
  "client_failed e =
     (if e = RegistryUnavailable then (Inr EXIT_NO_DAEMON, [ErrorLine e])
      else case exit_code e of
             Some code \<Rightarrow> (Inr code, [ErrorLine e])
           | None \<Rightarrow> (Inl (ClientError e), []))"

definition is_unreachable_peer_row :: "device_view \<Rightarrow> bool" where
  "is_unreachable_peer_row v \<longleftrightarrow> dv_host (dw_device v) \<noteq> None \<and> \<not> dw_peer_reachable v"

definition printing :: "'a result \<Rightarrow> ('a \<Rightarrow> printed list) \<Rightarrow> (cli_exn + int) \<times> printed list" where
  "printing r f = (case r of Inl e \<Rightarrow> (Inl (RenderError e), []) | Inr x \<Rightarrow> (Inr EXIT_OK, f x))"

definition cmd_list :: "'s requester \<Rightarrow> bool \<Rightarrow> bool \<Rightarrow> string option \<Rightarrow> 's command" where
  "cmd_list rq show_all json sort_by link =
     (case client_list rq link of
        (Inl e, link1) \<Rightarrow> (client_failed e, link1)
      | (Inr views, link1) \<Rightarrow>
          (let shown = (if show_all then views else filter (\<lambda>v. \<not> is_unreachable_peer_row v) views)
           in (if json then printing (render_json shown sort_by) (\<lambda>vs. [DevicesJson vs])
               else printing (render_table shown sort_by) (\<lambda>ls. [Lines ls]), link1)))"

definition cmd_unlock :: "'s requester \<Rightarrow> real \<Rightarrow> string \<Rightarrow> 's command" where
  "cmd_unlock rq now uid link =
     (case client_force_unlock rq uid link of
        (Inl e, link1) \<Rightarrow> (client_failed e, link1)
      | (Inr None, link1) \<Rightarrow> ((Inr EXIT_OK, [NotLockedLine uid]), link1)
      | (Inr (Some holder), link1) \<Rightarrow>
          ((Inr EXIT_OK, [ReleasedLine uid (wh_kind holder) (format_lock_suffix (wh_label holder) (Some (wh_since holder)) now)]), link1))"

definition cmd_rescan :: "'s requester \<Rightarrow> bool \<Rightarrow> bool \<Rightarrow> 's command" where
  "cmd_rescan rq dry_run json link =
     (case client_rescan rq dry_run link of
        (Inl e, link1) \<Rightarrow> (client_failed e, link1)
      | (Inr resp, link1) \<Rightarrow>
          (case (if dry_run then (Inr None, link1)
                 else case client_list rq link1 of (Inl e, l) \<Rightarrow> (Inl e, l) | (Inr vs, l) \<Rightarrow> (Inr (Some vs), l)) of
             (Inl e, link2) \<Rightarrow> (client_failed e, link2)
           | (Inr devices, link2) \<Rightarrow>
               (if json then printing (render_rescan_json resp devices None) (\<lambda>j. [RescanJson j])
                else case devices of
                       None \<Rightarrow> (Inr EXIT_OK, [Lines (render_rescan_summary resp)])
                     | Some views \<Rightarrow> printing (render_table views None) (\<lambda>ls. [Lines (render_rescan_summary resp @ [[]] @ ls)]), link2)))"

section \<open>The types of the protocol\<close>

text \<open>Which answers a request of an operation may get.\<close>

definition reply_type :: "string \<Rightarrow> response \<Rightarrow> bool" where
  "reply_type op resp =
     (case resp of
        Failed _ \<Rightarrow> True
      | OkDevices _ \<Rightarrow> op = ''list''
      | OkDevice _ \<Rightarrow> op \<in> {''get'', ''find''}
      | Ok \<Rightarrow> op \<in> {''lock'', ''mark_flashed'', ''names_clear'', ''watch''}
      | OkReleased _ \<Rightarrow> op = ''unlock''
      | OkForced _ _ \<Rightarrow> op = ''force_unlock''
      | OkRescan _ _ _ _ \<Rightarrow> op = ''rescan''
      | OkEntry e \<Rightarrow> op = ''names_get'' \<or> op = ''names_set'' \<and> e \<noteq> None
      | OkEntries _ \<Rightarrow> op = ''names_list''
      | OkRegistered _ _ \<Rightarrow> op = ''register_board''
      | OkStream _ \<Rightarrow> op = ''stream''
      | OkHexPath _ \<Rightarrow> op = ''send_hex''
      | FlashDone _ _ \<Rightarrow> op = ''flash'')"

lemma reply_type_Failed [simp]: "reply_type op (Failed e)"
  by (simp add: reply_type_def)

named_theorems reply_types \<open>the type of each handler's answer\<close>

lemma type_list [reply_types]: "reply_type ''list'' (op_list rg)" "reply_type ''list'' (remote_op_list rg)"
  by (simp_all add: reply_type_def op_list_def remote_op_list_def)

lemma type_find [reply_types]: "op \<in> {''get'', ''find''} \<Longrightarrow> reply_type op (op_find vis req rg)"
  by (auto simp: reply_type_def op_find_def Let_def split: sum.splits)

lemma type_lock [reply_types]: "reply_type ''lock'' (fst (op_lock vis wall req holder acq rg))"
  by (auto simp: reply_type_def op_lock_def split: sum.splits)

lemma type_dispatch_lock [reply_types]: "reply_type ''lock'' (fst (dispatch_lock wall me req holder acq rg))"
  using type_lock [of local_visible wall req holder acq rg] by (auto simp: dispatch_lock_def Let_def split: prod.splits)

lemma type_unlock [reply_types]: "reply_type ''unlock'' (fst (op_unlock vis t0 req holder acq rg))"
  by (auto simp: reply_type_def op_unlock_def split: sum.splits prod.splits)

lemma type_dispatch_unlock [reply_types]: "reply_type ''unlock'' (fst (dispatch_unlock t0 req holder acq rg))"
  using type_unlock [of local_visible t0 req holder acq rg] by (auto simp: dispatch_unlock_def Let_def split: prod.splits)

lemma type_force [reply_types]: "reply_type ''force_unlock'' (fst (op_force_unlock t0 req rg))"
  by (auto simp: reply_type_def op_force_unlock_def Let_def split: sum.splits prod.splits)

lemma type_mark [reply_types]: "reply_type ''mark_flashed'' (fst (op_mark_flashed vis req holder rg))"
  by (auto simp: reply_type_def op_mark_flashed_def Let_def split: sum.splits option.splits)

lemma type_rescan [reply_types]: "reply_type ''rescan'' (fst (op_rescan req rg))"
  by (auto simp: reply_type_def op_rescan_def Let_def split: prod.splits)

lemma type_names [reply_types]:
  "reply_type ''names_get'' (op_names_get req rg)" "reply_type ''names_set'' (fst (op_names_set wall req rg))"
  "reply_type ''names_clear'' (fst (op_names_clear req rg))" "reply_type ''names_list'' (op_names_list rg)"
  by (auto simp: reply_type_def op_names_get_def op_names_set_def op_names_clear_def op_names_list_def
      split: sum.splits py_error.splits prod.splits)

lemma type_stream [reply_types]: "reply_type ''stream'' (op_stream_precheck vis ep req holder rg)"
  by (auto simp: reply_type_def op_stream_precheck_def split: sum.splits option.splits)

lemma type_register [reply_types]: "reply_type ''register_board'' (fst (op_register_board wall fs me rg))"
  by (auto simp: reply_type_def op_register_board_def Let_def split: sum.splits prod.splits)

lemma type_FlashDone [simp]: "reply_type ''flash'' (FlashDone ok rc)"
  by (simp add: reply_type_def)

lemma fst_release_after_flash [simp]: "fst (release_after_flash t0 pid u acq resp rg) = resp"
  by (auto simp: release_after_flash_def split: prod.split)

lemma type_flash_virtual: "flash_virtual ok ep d rg = (resp, rg') \<Longrightarrow> reply_type ''flash'' resp"
  by (auto simp: flash_virtual_def split: if_splits option.splits endpoint_flash.splits)

lemma type_flash [reply_types]: "reply_type ''flash'' (fst (op_flash env ok ep t0 req pid acq rg))"
  by (auto simp: op_flash_def Let_def type_flash_virtual split: sum.split option.split prod.split flash_error.split)

lemma type_remote_flash [reply_types]: "reply_type ''flash'' (fst (remote_op_flash w req holder c))"
  by (auto simp: remote_op_flash_def Let_def split: sum.split option.split prod.split)

lemma type_send_hex [reply_types]: "reply_type ''send_hex'' (fst (op_send_hex w data c))"
  by (auto simp: op_send_hex_def reply_type_def split: option.split)

lemma fst_stay [simp]: "fst (stay r) = fst r"
  by (simp add: stay_def)

lemma fst_handled [simp]: "fst (handled r c) = fst r"
  by (auto simp: handled_def split: prod.split)

text \<open>An answer of either server has the type of its request.\<close>

lemma type_if: "(b \<Longrightarrow> reply_type op (fst x)) \<Longrightarrow> (\<not> b \<Longrightarrow> reply_type op (fst y)) \<Longrightarrow> reply_type op (fst (if b then x else y))"
  by simp

lemma type_Ok: "reply_type ''watch'' Ok"
  by (simp add: reply_type_def)

lemma remote_dispatch_typed: "reply_type (the (cr_op q)) (fst (remote_dispatch_op w holder q c))"
proof (cases "cr_op q")
  case (Some op)
  show ?thesis
    unfolding remote_dispatch_op_def Some Let_def option.case option.sel
    by (intro type_if; simp add: reply_types type_Ok split_beta)
qed (simp add: remote_dispatch_op_def)

lemma local_dispatch_typed: "reply_type (the (cr_op q)) (fst (local_dispatch_op w pid me q c))"
proof (cases "cr_op q")
  case (Some op)
  show ?thesis
    unfolding local_dispatch_op_def Some Let_def option.case option.sel
    by (intro type_if; simp add: reply_types type_Ok split_beta)
qed (simp add: local_dispatch_op_def)

text \<open>A handler answers by returning; what it has sent before is as it was.\<close>

lemma local_dispatch_sent: "cn_sent (fst (snd (local_dispatch_op w pid me q c))) = cn_sent c"
  by (simp add: local_dispatch_op_def stay_def handled_def set_registry_def Let_def split_beta split: option.split)

lemma local_exchange_typed:
  assumes "local_exchange pid me q r = (Some resp, r')"
  shows "reply_type (the (cr_op q)) resp \<and> \<not> raises resp"
proof -
  obtain w ws where w: "re_worlds r = w # ws" and m: "re_mode r = Continue"
    using assms by (auto simp: local_exchange_def Let_def split: list.splits if_splits prod.splits)
  obtain a c1 mo where d: "local_dispatch_op w pid me q (interleave w (re_conn r)) = (a, c1, mo)" by (metis prod_cases3)
  have "cn_sent c1 = cn_sent (interleave w (re_conn r))"
    using local_dispatch_sent [of w pid me q "interleave w (re_conn r)"] d by simp
  with assms w m d have "resp = a \<and> \<not> raises a"
    by (auto simp: local_exchange_def Let_def serve_line_def answer_def split: if_splits prod.splits)
  with local_dispatch_typed [of q w pid me "interleave w (re_conn r)"] d show ?thesis by simp
qed

lemma ask_local_typed:
  assumes "local_request (local_exchange pid me) dial q link = (Inr resp, link')"
  shows "reply_type (the (cr_op q)) resp \<and> reply_ok resp"
  using assms local_exchange_typed [of pid me q]
  by (auto simp: local_request_def ask_def connect_local_def raw_request_def split: option.splits prod.splits sum.splits if_splits)

text \<open>An exception the commands turn into an exit code.\<close>

definition expected :: "client_exn \<Rightarrow> bool" where
  "expected e \<longleftrightarrow> e = RegistryUnavailable \<or> exit_code e \<noteq> None"

lemma ask_local_error: "local_request ex dial q link = (Inl e, link') \<Longrightarrow> expected e"
  by (auto simp: local_request_def ask_def connect_local_def raw_request_def raise_for_error_def expected_def exit_code_def
      split: option.splits prod.splits response.splits api_error.splits if_splits sum.splits)

lemma returning_typed:
  assumes "\<And>resp. reply_type (the (cr_op q)) resp \<Longrightarrow> reply_ok resp \<Longrightarrow> f resp \<noteq> None"
    and "returning f (local_request (local_exchange pid me) dial q) link = (Inl e, link')"
  shows "expected e"
proof (cases "local_request (local_exchange pid me) dial q link")
  case (Pair res l)
  show ?thesis
  proof (cases res)
    case (Inl e')
    with Pair assms(2) ask_local_error [OF Pair [unfolded Inl]] show ?thesis by (auto simp: returning_def)
  next
    case (Inr resp)
    with Pair assms(2) assms(1) [of resp] ask_local_typed [OF Pair [unfolded Inr]] show ?thesis
      by (auto simp: returning_def split: option.splits)
  qed
qed

lemma client_op_requests [simp]:
  "cr_op (op_request op) = Some op" "cr_op (uid_request op u) = Some op" "cr_op (lock_request u k) = Some ''lock''"
  by (simp_all add: op_request_def uid_request_def lock_request_def)

text \<open>A method returned a value, or raised an exception that has an exit code.\<close>

definition decodes :: "client_exn + 'a \<Rightarrow> bool" where
  "decodes res = (case res of Inl e \<Rightarrow> expected e | Inr _ \<Rightarrow> True)"

lemma returning_decodes:
  assumes "\<And>resp. reply_type (the (cr_op q)) resp \<Longrightarrow> reply_ok resp \<Longrightarrow> f resp \<noteq> None"
  shows "decodes (fst (returning f (local_request (local_exchange pid me) dial q) link))"
  using returning_typed [where f = f and q = q, OF assms]
  by (cases "returning f (local_request (local_exchange pid me) dial q) link") (auto simp: decodes_def split: sum.split)

text \<open>C26: the protocol is well typed: whatever the state of the registry and whatever happens meanwhile, the answer of either
  server to a request is an error or has the shape of that request's operation; so a method of the local client never
  meets an answer it cannot decode, and what it raises is an exception that has an exit code.\<close>

theorem protocol_is_well_typed:
  "reply_type (the (cr_op q)) (fst (local_dispatch_op w pid me q c))
   \<and> reply_type (the (cr_op q)) (fst (remote_dispatch_op w holder q c))
   \<and> (let rq = local_request (local_exchange pid me) dial in
        decodes (fst (client_list rq link)) \<and> decodes (fst (client_find rq u link))
      \<and> decodes (fst (client_lock rq u k link)) \<and> decodes (fst (client_unlock rq u link))
      \<and> decodes (fst (client_force_unlock rq u link)) \<and> decodes (fst (client_rescan rq dry link))
      \<and> decodes (fst (client_names_get rq n link)) \<and> decodes (fst (client_names_set rq n ch gr link))
      \<and> decodes (fst (client_names_clear rq n link)) \<and> decodes (fst (client_names_list rq link))
      \<and> decodes (fst (client_mark_flashed rq u link)))"
  unfolding Let_def client_list_def client_find_def client_lock_def client_unlock_def client_force_unlock_def client_rescan_def
    client_names_get_def client_names_set_def client_names_clear_def client_names_list_def client_mark_flashed_def
  by (intro conjI local_dispatch_typed remote_dispatch_typed returning_decodes)
    (auto simp: reply_type_def reply_ok_def split: response.splits)

section \<open>Properties of the commands\<close>

subsection \<open>Order and shape of a listing\<close>

definition column_key :: "string option \<Rightarrow> device_view \<Rightarrow> bool \<times> string" where
  "column_key sort_by v =
     (case sort_by of
        None \<Rightarrow> (False, [])
      | Some key \<Rightarrow>
          if key = ''state'' then (False, str_lower (state_cell v))
          else if key = ''name'' then (False, str_lower (name_cell v))
          else if key = ''firmware'' then (False, str_lower (firmware_cell v))
          else (dv_host (dw_device v) \<noteq> None, str_lower (host_cell v)))"

definition listed_before :: "string option \<Rightarrow> device_view \<Rightarrow> device_view \<Rightarrow> bool" where
  "listed_before sort_by a b \<longleftrightarrow> column_key sort_by a < column_key sort_by b \<or> column_key sort_by a = column_key sort_by b \<and> uid_key a \<le> uid_key b"

lemma insort_key_lex:
  fixes f :: "'a \<Rightarrow> 'k::linorder" and g :: "'a \<Rightarrow> 'l::linorder"
  assumes "sorted_wrt (\<lambda>a b. f a < f b \<or> f a = f b \<and> g a \<le> g b) ys" and "\<forall>y\<in>set ys. g x \<le> g y"
  shows "sorted_wrt (\<lambda>a b. f a < f b \<or> f a = f b \<and> g a \<le> g b) (insort_key f x ys)"
  using assms
proof (induction ys)
  case (Cons y ys)
  then show ?case
    by (cases "f x \<le> f y") (auto simp: set_insort_key)
qed simp

lemma sort_key_lex:
  fixes f :: "'a \<Rightarrow> 'k::linorder" and g :: "'a \<Rightarrow> 'l::linorder"
  assumes "sorted (map g xs)"
  shows "sorted_wrt (\<lambda>a b. f a < f b \<or> f a = f b \<and> g a \<le> g b) (sort_key f xs)"
  using assms
proof (induction xs)
  case (Cons x xs)
  then show ?case unfolding sort_key_def foldr.simps comp_def by (intro insort_key_lex) (auto simp flip: sort_key_def)
qed simp

lemma sort_key_map_cong: "(\<And>x y. (f x \<le> f y) = (g x \<le> g y)) \<Longrightarrow> insort_key f x xs = insort_key g x xs"
  by (induction xs) auto

lemma sort_key_cong_le:
  assumes "\<And>x y. (f x \<le> f y) = (g x \<le> g y)" shows "sort_key f xs = sort_key g xs"
  unfolding sort_key_def by (intro foldr_cong refl ext sort_key_map_cong assms)

lemma sort_devices_eq:
  assumes "sort_by = None \<or> the sort_by \<in> set SORT_KEYS"
  shows "sort_devices views sort_by = Inr (sort_key (column_key sort_by) (sort_key uid_key views))"
proof (cases sort_by)
  case None
  have "sort_key (\<lambda>_. (False, [] :: string)) ys = ys" for ys :: "device_view list"
    by (intro sort_key_id_if_sorted) (simp add: sorted_wrt_map sorted_wrt_iff_nth_less)
  moreover have "column_key None = (\<lambda>_. (False, []))" by (simp add: fun_eq_iff column_key_def)
  ultimately show ?thesis using None by (simp add: sort_devices_def)
next
  case (Some key)
  have pair: "sort_key (\<lambda>v. (False, h v)) ys = sort_key h ys" for h :: "device_view \<Rightarrow> string" and ys
    by (rule sort_key_cong_le) (simp add: less_eq_prod_def)
  have col: "column_key (Some ''state'') = (\<lambda>v. (False, str_lower (state_cell v)))"
    "column_key (Some ''name'') = (\<lambda>v. (False, str_lower (name_cell v)))"
    "column_key (Some ''firmware'') = (\<lambda>v. (False, str_lower (firmware_cell v)))"
    "column_key (Some ''host'') = (\<lambda>v. (dv_host (dw_device v) \<noteq> None, str_lower (host_cell v)))"
    by (simp_all add: fun_eq_iff column_key_def)
  consider "key = ''state''" | "key = ''name''" | "key = ''firmware''" | "key = ''host''"
    using assms Some by (auto simp: SORT_KEYS_def)
  then show ?thesis
    unfolding Some by cases (simp_all only: col pair, simp_all add: sort_devices_def)
qed

lemma sort_devices_order:
  assumes "sort_devices views sort_by = Inr out"
  shows "mset out = mset views \<and> sorted_wrt (listed_before sort_by) out"
proof -
  have "sort_by = None \<or> the sort_by \<in> set SORT_KEYS"
    using assms by (auto simp: sort_devices_def SORT_KEYS_def Let_def split: option.splits if_splits)
  from sort_devices_eq [OF this] assms sort_key_lex [of uid_key "sort_key uid_key views" "column_key sort_by"]
  have "out = sort_key (column_key sort_by) (sort_key uid_key views)" and
    "sorted_wrt (\<lambda>a b. column_key sort_by a < column_key sort_by b \<or> column_key sort_by a = column_key sort_by b \<and> uid_key a \<le> uid_key b)
       (sort_key (column_key sort_by) (sort_key uid_key views))" by auto
  moreover have "listed_before sort_by = (\<lambda>a b. column_key sort_by a < column_key sort_by b
      \<or> column_key sort_by a = column_key sort_by b \<and> uid_key a \<le> uid_key b)"
    by (simp add: fun_eq_iff listed_before_def)
  ultimately show ?thesis by auto
qed

lemma table_lines_length: "length (table_lines rows headers) = length rows + 2"
  by (simp add: table_lines_def Let_def)


subsection \<open>The commands over the local registry\<close>

lemma dialled: "local_request ex (Some s) q None = local_request ex dial q (Some s)"
  by (simp add: local_request_def ask_def connect_local_def)

lemma dialled_methods:
  "client_list (local_request ex (Some s)) None = client_list (local_request ex dial) (Some s)"
  "client_force_unlock (local_request ex (Some s)) u None = client_force_unlock (local_request ex dial) u (Some s)"
  "client_rescan (local_request ex (Some s)) dry None = client_rescan (local_request ex dial) dry (Some s)"
  by (simp_all add: client_list_def client_force_unlock_def client_rescan_def returning_def dialled [where dial = dial])

text \<open>The rows a listing shows.\<close>

definition shown_rows :: "bool \<Rightarrow> registry \<Rightarrow> device_view list" where
  "shown_rows show_all rg =
     filter (\<lambda>v. show_all \<or> \<not> is_unreachable_peer_row v) (map (device_dict rg) (list_devices (rg_store rg)))"

text \<open>\<open>mbregistry list\<close> shows the registry as it is and leaves it so: it exits 0, and its JSON holds exactly the
  devices of the registry, without \<open>--all\<close> those of unreachable peers left out, ordered by the chosen
  column and by uid within it; the table has a header, a rule and one line per device, in that order.\<close>

theorem list_shows_the_registry:
  assumes "re_mode r = Continue" and "re_worlds r = w # ws" and "calm w" and "sort_by = None \<or> the sort_by \<in> set SORT_KEYS"
  shows "\<exists>out r'. cmd_list (local_request (local_exchange pid me) (Some r)) show_all True sort_by None
            = ((Inr EXIT_OK, [DevicesJson out]), Some r')
       \<and> registry_of (re_conn r') = registry_of (re_conn r)
       \<and> mset out = mset (shown_rows show_all (registry_of (re_conn r))) \<and> sorted_wrt (listed_before sort_by) out
       \<and> (\<exists>lines. cmd_list (local_request (local_exchange pid me) (Some r)) show_all False sort_by None
              = ((Inr EXIT_OK, [Lines lines]), Some r')
            \<and> (out \<noteq> [] \<longrightarrow> length lines = length out + 2
                 \<and> (\<forall>i < length out. lines ! (i + 2) = table_line (column_widths (map table_row out) TABLE_HEADERS) (table_row (out ! i)))))"
proof -
  let ?rg = "registry_of (re_conn r)"
  obtain r' where r': "client_list (local_request (local_exchange pid me) (Some r)) None
      = (Inr (map (device_dict ?rg) (list_devices (rg_store ?rg))), Some r')" "registry_of (re_conn r') = ?rg"
    using client_list_local [OF assms(1-3), of pid me "Some r"] dialled_methods(1) [of "local_exchange pid me" r "Some r"] by auto
  have shown: "(if show_all then views else filter (\<lambda>v. \<not> is_unreachable_peer_row v) views)
      = filter (\<lambda>v. show_all \<or> \<not> is_unreachable_peer_row v) views" for views by simp
  obtain out where out: "sort_devices (shown_rows show_all ?rg) sort_by = Inr out" using sort_devices_eq [OF assms(4)] by blast
  define lines where "lines = (if out = [] then [''no devices known to the registry''] else table_lines (map table_row out) TABLE_HEADERS)"
  have "render_table (shown_rows show_all ?rg) sort_by = Inr lines"
    by (cases out) (simp_all add: render_table_def out lines_def)
  moreover have "out \<noteq> [] \<Longrightarrow> length lines = length out + 2" by (simp add: lines_def table_lines_length)
  moreover have "\<forall>i < length out. lines ! (i + 2) = table_line (column_widths (map table_row out) TABLE_HEADERS) (table_row (out ! i))"
    by (auto simp: lines_def table_lines_def Let_def)
  ultimately show ?thesis
    using r' out sort_devices_order [OF out]
    by (intro exI [of _ out] exI [of _ r'])
      (auto simp: cmd_list_def shown shown_rows_def printing_def render_json_def Let_def)
qed

theorem list_shows_the_registry_witness:
  "\<exists>out r'. cmd_list (local_request (local_exchange 7 1) (Some demo_end)) True True (Some ''name'') None = ((Inr EXIT_OK, [DevicesJson out]), Some r')
     \<and> mset out = mset (shown_rows True (registry_of (re_conn demo_end)))"
proof -
  have "re_mode demo_end = Continue" "re_worlds demo_end = demo_world # [demo_world, demo_world, demo_world]" "calm demo_world"
    by (simp_all add: demo_end_def numeral_eq_Suc calm_def demo_world_def)
  from list_shows_the_registry [OF this, of "Some ''name''" 7 1 True] show ?thesis by (auto simp: SORT_KEYS_def)
qed

text \<open>\<open>rescan\<close> and \<open>force_unlock\<close> on the local server.\<close>

definition rescan_request :: "bool \<Rightarrow> client_request" where
  "rescan_request dry = (op_request ''rescan'')\<lparr>rq_dry_run := dry\<rparr>"

lemma rescan_answers: "\<exists>removed hosts skipped rg' evs. op_rescan req rg = (OkRescan removed hosts skipped (rq_dry_run req), rg', evs)"
proof (cases "rq_dry_run req")
  case False
  let ?c = "candidates_for_purge (rg_store rg)"
  let ?skip = "sort (filter (\<lambda>u. status (rg_locks rg) u \<noteq> None) (device_uids ?c))"
  obtain s' rem peers where "purge (filter (\<lambda>u. u \<notin> set ?skip) (device_uids ?c)) (pc_unreachable_peers ?c) (rg_store rg) = (s', rem, peers)"
    by (metis prod_cases3)
  with False show ?thesis by (simp add: op_rescan_def Let_def)
qed (simp add: op_rescan_def Let_def)

lemma client_rescan_local:
  assumes "re_mode r = Continue" and "re_worlds r = w # ws" and "calm w"
  shows "\<exists>r' removed hosts skipped rg' evs.
      op_rescan (request.truncate (rescan_request dry)) (registry_of (re_conn r)) = (OkRescan removed hosts skipped dry, rg', evs)
    \<and> client_rescan (local_request (local_exchange pid me) dial) dry (Some r) = (Inr ((removed, hosts), skipped, dry), Some r')
    \<and> re_mode r' = Continue \<and> re_worlds r' = ws \<and> registry_of (re_conn r') = rg'"
proof -
  obtain removed hosts skipped rg' evs where
    o: "op_rescan (request.truncate (rescan_request dry)) (registry_of (re_conn r)) = (OkRescan removed hosts skipped dry, rg', evs)"
    using rescan_answers [of "request.truncate (rescan_request dry)" "registry_of (re_conn r)"]
    by (auto simp: rescan_request_def op_request_def no_fields_def request.truncate_def)
  define c where "c = (set_registry rg' (re_conn r))\<lparr>cn_acquired := cn_acquired (re_conn r), cn_events := cn_events (re_conn r) @ evs\<rparr>"
  have "local_dispatch_op w pid me (rescan_request dry) (re_conn r) = (OkRescan removed hosts skipped dry, c, Continue)"
    using o by (simp add: local_dispatch_op_def rescan_request_def op_request_def no_fields_def stay_def handled_def Let_def c_def)
  moreover have "cn_sent c = cn_sent (re_conn r)" "registry_of c = rg'"
    by (simp_all add: c_def set_registry_def registry_of_def)
  ultimately have x: "local_exchange pid me (rescan_request dry) r = (Some (OkRescan removed hosts skipped dry),
      r\<lparr>re_conn := c\<lparr>cn_sent := cn_sent c @ [OkRescan removed hosts skipped dry]\<rparr>, re_mode := Continue, re_worlds := ws\<rparr>)"
    using local_exchange_step [OF assms, of pid me "rescan_request dry"] by (simp add: raises_def)
  from o \<open>registry_of c = rg'\<close> show ?thesis
    by (intro exI [of _ "r\<lparr>re_conn := c\<lparr>cn_sent := cn_sent c @ [OkRescan removed hosts skipped dry]\<rparr>, re_mode := Continue, re_worlds := ws\<rparr>"]
        exI [of _ removed] exI [of _ hosts] exI [of _ skipped] exI [of _ rg'] exI [of _ evs])
      (simp add: client_rescan_def rescan_request_def [symmetric] returning_def local_ask [OF x] reply_ok_def registry_of_def)
qed



end
