(* ===== verification/MB_Run.thy ===== *)
theory MB_Run
  imports MB_Service MB_Names MB_Link
begin

text \<open>
  Model of how \<open>mbregistry run\<close> puts the registry together and takes it down again (\<open>registry/cli.py\<close>): the
  precedence of flags, environment and defaults, the callbacks that fan one change out to \<open>watch\<close> clients and
  peers, and the order in which the parts are started and stopped, with every start and the daemon loop able to
  raise. Which starts and stops raise, and the ports the listeners are bound to, are arguments.
\<close>

subsection \<open>Options\<close>

definition resolve_path :: "'s machine \<Rightarrow> string option \<Rightarrow> string \<Rightarrow> path \<Rightarrow> path" where
  "resolve_path m flag_value env_var dflt = (case given m flag_value env_var of Some p \<Rightarrow> py_path p | None \<Rightarrow> dflt)"

text \<open>\<open>int(os.environ[...])\<close> raises \<open>ValueError\<close> on a value that is not a number.\<close>

definition resolve_int :: "'s machine \<Rightarrow> int option \<Rightarrow> string \<Rightarrow> int \<Rightarrow> int result" where
  "resolve_int m flag_value env_var dflt =
     (case flag_value of
        Some i \<Rightarrow> Inr i
      | None \<Rightarrow> (case var_set m env_var of
                   None \<Rightarrow> Inr dflt
                 | Some s \<Rightarrow> (case py_int s of None \<Rightarrow> Inl ValueError | Some i \<Rightarrow> Inr i)))"

definition resolve_token :: "'s machine \<Rightarrow> string option \<Rightarrow> string \<Rightarrow> string option" where
  "resolve_token m flag_value env_var = given m flag_value env_var"

definition DEFAULT_REMOTE_PORT :: int where "DEFAULT_REMOTE_PORT = 7440"
definition DEFAULT_PUB_PORT :: int where "DEFAULT_PUB_PORT = 7442"
definition DEFAULT_SNAPSHOT_PORT :: int where "DEFAULT_SNAPSHOT_PORT = 7443"
definition DEFAULT_POOL_PORT :: int where "DEFAULT_POOL_PORT = 7444"
definition DEFAULT_NAMES_API_PORT :: int where "DEFAULT_NAMES_API_PORT = 7445"

text \<open>\<open>spec.partition(":")\<close> and what is made of it.\<close>

definition partition_colon :: "string \<Rightarrow> string \<times> bool \<times> string" where
  "partition_colon spec =
     (takeWhile (\<lambda>c. c \<noteq> CHR '':'') spec, CHR '':'' \<in> set spec, drop 1 (dropWhile (\<lambda>c. c \<noteq> CHR '':'') spec))"

definition parse_peer_spec :: "string \<Rightarrow> (string \<times> int) result" where
  "parse_peer_spec spec =
     (case partition_colon spec of (host, sep, port_str) \<Rightarrow>
        if host = [] then Inl ValueError
        else if \<not> sep then Inr (host, DEFAULT_REMOTE_PORT)
        else (case py_int port_str of None \<Rightarrow> Inl ValueError | Some port \<Rightarrow> Inr (host, port)))"

fun parse_peers :: "string list \<Rightarrow> (string \<times> int) list result" where
  "parse_peers [] = Inr []"
| "parse_peers (spec # specs) =
     (case parse_peer_spec spec of
        Inl e \<Rightarrow> Inl e
      | Inr p \<Rightarrow> (case parse_peers specs of Inl e \<Rightarrow> Inl e | Inr ps \<Rightarrow> Inr (p # ps)))"

text \<open>\<open>_watch_stdin_for_parent_exit\<close>: the lines the parent writes (\<open>None\<close>: reading raises \<open>OSError\<close> or \<open>ValueError\<close>), up to
  the end of file; \<open>True\<close> once the stop event is set. Lines that are still to come leave it unset.\<close>

fun watch_stdin_for_parent_exit :: "string option list \<Rightarrow> bool" where
  "watch_stdin_for_parent_exit [] = False"
| "watch_stdin_for_parent_exit (None # rest) = True"
| "watch_stdin_for_parent_exit (Some line # rest) = (line = [] \<or> watch_stdin_for_parent_exit rest)"

subsection \<open>One change, two audiences\<close>

text \<open>A message of the event bus carries the producing host's name, and \<open>simulated\<close> for a virtual board.\<close>

record bus_message =
  bm_host :: string
  bm_event :: peer_event
  bm_simulated :: bool

record outlets =
  ol_bus :: "bus_message event_bus"
  ol_peers :: "peer_event list"

definition publish_to_bus :: "string \<Rightarrow> peer_event \<Rightarrow> bool \<Rightarrow> outlets \<Rightarrow> outlets" where
  "publish_to_bus host e sim o' = o'\<lparr>ol_bus := publish \<lparr>bm_host = host, bm_event = e, bm_simulated = sim\<rparr> (ol_bus o')\<rparr>"

definition publish_to_peers :: "bool \<Rightarrow> peer_event option \<Rightarrow> outlets \<Rightarrow> outlets" where
  "publish_to_peers peering e o' = (case e of Some x \<Rightarrow> if peering then o'\<lparr>ol_peers := ol_peers o' @ [x]\<rparr> else o' | None \<Rightarrow> o')"

definition event_callback :: "string \<Rightarrow> bool \<Rightarrow> string \<Rightarrow> device \<Rightarrow> outlets \<Rightarrow> outlets" where
  "event_callback host peering event_type d o' =
     publish_to_peers peering (publish_daemon_event event_type d)
       (case daemon_event_payload event_type d of None \<Rightarrow> o' | Some e \<Rightarrow> publish_to_bus host e (is_virtual d) o')"

definition lock_display_callback ::
    "string \<Rightarrow> bool \<Rightarrow> real \<Rightarrow> uid \<Rightarrow> string option \<Rightarrow> string option \<Rightarrow> string option \<Rightarrow> real option \<Rightarrow> outlets \<Rightarrow> outlets" where
  "lock_display_callback host peering now uid kind display label since o' =
     publish_to_peers peering (publish_lock_event now uid kind display label since)
       (publish_to_bus host (lock_event_payload uid kind display label since) False o')"

definition name_set_callback :: "string \<Rightarrow> bool \<Rightarrow> name_entry \<Rightarrow> outlets \<Rightarrow> outlets" where
  "name_set_callback host peering entry o' =
     publish_to_peers peering (Some (name_set_payload entry)) (publish_to_bus host (name_set_payload entry) False o')"

definition name_clear_callback :: "string \<Rightarrow> bool \<Rightarrow> string \<Rightarrow> outlets \<Rightarrow> outlets" where
  "name_clear_callback host peering name o' =
     publish_to_peers peering (Some (name_clear_payload name)) (publish_to_bus host (name_clear_payload name) False o')"

text \<open>The callbacks \<open>_run_registry\<close> hands to the names API.\<close>

definition names_api_set_callback :: "bool \<Rightarrow> name_entry \<Rightarrow> outlets \<Rightarrow> outlets" where
  "names_api_set_callback peering entry o' = publish_to_peers peering (Some (name_set_payload entry)) o'"

definition names_api_clear_callback :: "bool \<Rightarrow> string \<Rightarrow> outlets \<Rightarrow> outlets" where
  "names_api_clear_callback peering name o' = publish_to_peers peering (Some (name_clear_payload name)) o'"


subsection \<open>Putting it together\<close>

datatype part = LocalApi | RemoteApi | Peering | Names | Pool

record ready_payload =
  rp_instance :: string
  rp_version :: string
  rp_socket :: address
  rp_ports :: "(string \<times> int) list"

datatype run_step =
    WatchStdin
  | OpenStore path
  | Start part
  | SetRemotePort int
  | ConnectPeer string int int int
  | PeersIgnored
  | Listening
  | Ready ready_payload
  | RunDaemon
  | Stop part
  | CloseStore

record run_args =
  ra_socket :: "string option"
  ra_db :: "string option"
  ra_remote_port :: "int option"
  ra_peer_pub_port :: "int option"
  ra_peer_snapshot_port :: "int option"
  ra_auth_token :: "string option"
  ra_pool_port :: "int option"
  ra_names_port :: "int option"
  ra_instance :: "string option"
  ra_peer :: "string list"
  ra_exit_with_parent :: bool
  ra_no_peering :: bool
  ra_no_relay_pool :: bool
  ra_ready_json :: bool

text \<open>What the options come to.\<close>

record run_config =
  rc_address :: address
  rc_db :: path
  rc_remote_port :: int
  rc_pub_port :: int
  rc_snapshot_port :: int
  rc_token :: "string option"
  rc_pool_port :: int
  rc_names_port :: int
  rc_instance :: "string option"

datatype run_exn = BadOption py_error | BadAddress service_exn | StepRaised run_step

definition resolve_config :: "'s machine \<Rightarrow> (path, node) dict \<Rightarrow> run_args \<Rightarrow> run_exn + run_config" where
  "resolve_config m nodes a =
     (case resolve_local_api_address m nodes (ra_socket a) ''MBREGISTRY_SOCKET'' of
        Inl e \<Rightarrow> Inl (BadAddress e)
      | Inr addr \<Rightarrow>
     (case resolve_int m (ra_remote_port a) ''MBREGISTRY_REMOTE_PORT'' DEFAULT_REMOTE_PORT of
        Inl e \<Rightarrow> Inl (BadOption e)
      | Inr remote_port \<Rightarrow>
     (case resolve_int m (ra_peer_pub_port a) ''MBREGISTRY_PEER_PUB_PORT'' DEFAULT_PUB_PORT of
        Inl e \<Rightarrow> Inl (BadOption e)
      | Inr pub_port \<Rightarrow>
     (case resolve_int m (ra_peer_snapshot_port a) ''MBREGISTRY_PEER_SNAPSHOT_PORT'' DEFAULT_SNAPSHOT_PORT of
        Inl e \<Rightarrow> Inl (BadOption e)
      | Inr snapshot_port \<Rightarrow>
     (case resolve_int m (ra_pool_port a) ''MBREGISTRY_POOL_PORT'' DEFAULT_POOL_PORT of
        Inl e \<Rightarrow> Inl (BadOption e)
      | Inr pool_port \<Rightarrow>
     (case resolve_int m (ra_names_port a) ''MBREGISTRY_NAMES_PORT'' DEFAULT_NAMES_API_PORT of
        Inl e \<Rightarrow> Inl (BadOption e)
      | Inr names_port \<Rightarrow>
          Inr \<lparr>rc_address = addr, rc_db = resolve_path m (ra_db a) ''MBREGISTRY_DB'' (default_db_path m),
               rc_remote_port = remote_port, rc_pub_port = pub_port, rc_snapshot_port = snapshot_port,
               rc_token = resolve_token m (ra_auth_token a) ''MBREGISTRY_TOKEN'', rc_pool_port = pool_port,
               rc_names_port = names_port, rc_instance = resolve_token m (ra_instance a) ''MBREGISTRY_INSTANCE''\<rparr>))))))"

text \<open>How the outside deals with a run: the steps that raise, the ports the listeners get, this host's name.\<close>

record run_world =
  ru_raises :: "run_step \<Rightarrow> bool"
  ru_bound :: "part \<Rightarrow> int"
  ru_hostname :: string
  ru_version :: string

definition short_hostname :: "string \<Rightarrow> string" where
  "short_hostname hostname = hd (split_on (CHR ''.'') hostname)"

definition parts_of :: "run_args \<Rightarrow> part list" where
  "parts_of a = [LocalApi, RemoteApi] @ (if ra_no_peering a then [] else [Peering]) @ [Names] @ (if ra_no_relay_pool a then [] else [Pool])"

definition ready_payload_of :: "run_world \<Rightarrow> run_args \<Rightarrow> run_config \<Rightarrow> ready_payload" where
  "ready_payload_of u a cf =
     \<lparr>rp_instance = (case rc_instance cf of Some i \<Rightarrow> i | None \<Rightarrow> short_hostname (ru_hostname u)),
      rp_version = ru_version u, rp_socket = rc_address cf,
      rp_ports = [(''remote'', ru_bound u RemoteApi)]
        @ (if ra_no_peering a then [] else [(''peer_pub'', rc_pub_port cf), (''peer_snapshot'', rc_snapshot_port cf)])
        @ (if ra_no_relay_pool a then [] else [(''pool'', ru_bound u Pool)]) @ [(''names'', ru_bound u Names)]\<rparr>"

definition boot_steps :: "run_world \<Rightarrow> run_args \<Rightarrow> run_config \<Rightarrow> (string \<times> int) list \<Rightarrow> run_step list" where
  "boot_steps u a cf peers =
     (if ra_exit_with_parent a then [WatchStdin] else [])
     @ [OpenStore (rc_db cf), Start LocalApi, Start RemoteApi]
     @ (if ra_no_peering a then [] else [SetRemotePort (ru_bound u RemoteApi), Start Peering])
     @ [Start Names]
     @ (if ra_no_relay_pool a then [] else [Start Pool])
     @ (if \<not> ra_no_peering a then map (\<lambda>(host, port). ConnectPeer host (rc_pub_port cf) (rc_snapshot_port cf) port) peers
        else if peers \<noteq> [] then [PeersIgnored] else [])
     @ [Listening]"

definition start_steps :: "run_world \<Rightarrow> run_args \<Rightarrow> run_config \<Rightarrow> (string \<times> int) list \<Rightarrow> run_step list" where
  "start_steps u a cf peers =
     boot_steps u a cf peers @ (if ra_ready_json a then [Ready (ready_payload_of u a cf)] else [])"

definition stop_steps :: "run_args \<Rightarrow> run_step list" where
  "stop_steps a =
     [Stop Names] @ (if ra_no_relay_pool a then [] else [Stop Pool]) @ (if ra_no_peering a then [] else [Stop Peering])
     @ [Stop RemoteApi, Stop LocalApi, CloseStore]"

text \<open>Steps in order, up to the first that raises.\<close>

fun do_steps :: "(run_step \<Rightarrow> bool) \<Rightarrow> run_step list \<Rightarrow> (run_exn + unit) \<times> run_step list" where
  "do_steps raises_at [] = (Inr (), [])"
| "do_steps raises_at (x # xs) =
     (if raises_at x then (Inl (StepRaised x), [])
      else (case do_steps raises_at xs of (res, steps) \<Rightarrow> (res, x # steps)))"

text \<open>\<open>_run_registry\<close>: its result and the steps done. The daemon loop and its \<open>finally\<close> block come last.\<close>

definition run_registry :: "'s machine \<Rightarrow> (path, node) dict \<Rightarrow> run_world \<Rightarrow> run_args \<Rightarrow> (run_exn + int) \<times> run_step list" where
  "run_registry m nodes u a =
     (case resolve_config m nodes a of
        Inl e \<Rightarrow> (Inl e, [])
      | Inr cf \<Rightarrow>
          (case parse_peers (ra_peer a) of
             Inl e \<Rightarrow> (Inr EXIT_ERROR, [])
           | Inr peers \<Rightarrow>
               (case do_steps (ru_raises u) (start_steps u a cf peers) of
                  (Inl e, steps) \<Rightarrow> (Inl e, steps)
                | (Inr _, steps) \<Rightarrow>
                    (case do_steps (ru_raises u) (stop_steps a) of
                       (Inl e, stops) \<Rightarrow> (Inl e, steps @ [RunDaemon] @ stops)
                     | (Inr _, stops) \<Rightarrow>
                         (if ru_raises u RunDaemon then Inl (StepRaised RunDaemon) else Inr EXIT_OK, steps @ [RunDaemon] @ stops)))))"

section \<open>Properties\<close>

subsection \<open>Lemmas about runs\<close>

lemma do_steps_prefix: "\<exists>rest. xs = snd (do_steps f xs) @ rest \<and> (fst (do_steps f xs) = Inr () \<longrightarrow> rest = [])"
  by (induction xs) (auto split: prod.split)

lemma do_steps_all: "fst (do_steps f xs) = Inr () \<longleftrightarrow> (\<forall>x\<in>set xs. \<not> f x)"
  by (induction xs) (auto split: prod.split)

lemma do_steps_complete: "do_steps f xs = (Inr w, ys) \<Longrightarrow> ys = xs"
  using do_steps_prefix [of xs f] by auto

lemma start_steps_parts: "Start x \<in> set (start_steps u a cf peers) \<longleftrightarrow> x \<in> set (parts_of a)"
  by (auto simp: start_steps_def boot_steps_def parts_of_def)

lemma stop_steps_parts: "Stop x \<in> set (stop_steps a) \<longleftrightarrow> x \<in> set (parts_of a)"
  by (cases x) (auto simp: stop_steps_def parts_of_def)

lemma stop_steps_once: "distinct (stop_steps a) \<and> last (stop_steps a) = CloseStore"
  by (auto simp: stop_steps_def)

lemma start_steps_no_stop: "Stop x \<notin> set (start_steps u a cf peers)" "CloseStore \<notin> set (start_steps u a cf peers)"
    "RunDaemon \<notin> set (start_steps u a cf peers)"
  by (auto simp: start_steps_def boot_steps_def)

text \<open>The three ways a run can end after its options were accepted.\<close>

lemma run_registry_cases:
  assumes "run_registry m nodes u a = (res, steps)" and "steps \<noteq> []"
  obtains cf peers e where "resolve_config m nodes a = Inr cf" "parse_peers (ra_peer a) = Inr peers"
      "do_steps (ru_raises u) (start_steps u a cf peers) = (Inl e, steps)" "res = Inl e"
  | cf peers stops where "resolve_config m nodes a = Inr cf" "parse_peers (ra_peer a) = Inr peers"
      "\<forall>x\<in>set (start_steps u a cf peers). \<not> ru_raises u x" "stops = snd (do_steps (ru_raises u) (stop_steps a))"
      "steps = start_steps u a cf peers @ [RunDaemon] @ stops"
      "res = Inr EXIT_OK \<longleftrightarrow> \<not> ru_raises u RunDaemon \<and> (\<forall>x\<in>set (stop_steps a). \<not> ru_raises u x)"
proof -
  obtain cf where cf: "resolve_config m nodes a = Inr cf" using assms by (auto simp: run_registry_def split: sum.splits)
  obtain peers where peers: "parse_peers (ra_peer a) = Inr peers" using assms cf by (auto simp: run_registry_def split: sum.splits)
  obtain st ss where st: "do_steps (ru_raises u) (start_steps u a cf peers) = (st, ss)" by fastforce
  show thesis
  proof (cases st)
    case (Inl e)
    with that(1) [OF cf peers] st assms cf peers show thesis by (auto simp: run_registry_def)
  next
    case (Inr w)
    have ok: "\<forall>x\<in>set (start_steps u a cf peers). \<not> ru_raises u x"
      using do_steps_all [of "ru_raises u" "start_steps u a cf peers"] st Inr by auto
    have ss: "ss = start_steps u a cf peers" using do_steps_complete st Inr by blast
    have "steps = start_steps u a cf peers @ [RunDaemon] @ snd (do_steps (ru_raises u) (stop_steps a))"
      and "res = Inr EXIT_OK \<longleftrightarrow> \<not> ru_raises u RunDaemon \<and> fst (do_steps (ru_raises u) (stop_steps a)) = Inr ()"
      using assms cf peers st Inr ss by (auto simp: run_registry_def split: prod.splits sum.splits if_splits)
    with that(2) [OF cf peers ok refl] do_steps_all show thesis by metis
  qed
qed

lemma marked_split:
  assumes "xs @ x # ys = us @ v # vs" and "P x" and "P v" and "\<forall>z\<in>set us. \<not> P z" and "\<forall>z\<in>set vs. \<not> P z"
  shows "xs = us \<and> x = v \<and> ys = vs"
  using assms
proof (induction xs arbitrary: us)
  case Nil
  then show ?case by (cases us) auto
next
  case (Cons a xs)
  show ?case
  proof (cases us)
    case Nil
    with Cons.prems show ?thesis by (metis Un_iff append_Cons list.inject list.set_intros(1) self_append_conv2 set_append)
  next
    case (Cons b us')
    with Cons.IH [of us'] Cons.prems show ?thesis by auto
  qed
qed

text \<open>What was done is a front of what was to be done.\<close>

lemma run_prefix:
  assumes "run_registry m nodes u a = (res, steps)" and "steps \<noteq> []"
  shows "\<exists>cf peers rest. start_steps u a cf peers @ RunDaemon # stop_steps a = steps @ rest"
  using assms(1,2)
proof (cases rule: run_registry_cases)
  case (1 cf peers e)
  obtain rest where "start_steps u a cf peers = steps @ rest"
    using do_steps_prefix [of "start_steps u a cf peers" "ru_raises u"] 1(3) by auto
  then show ?thesis by (intro exI [of _ cf] exI [of _ peers] exI [of _ "rest @ RunDaemon # stop_steps a"]) simp
next
  case (2 cf peers stops)
  obtain rest where "stop_steps a = stops @ rest" using do_steps_prefix [of "stop_steps a" "ru_raises u"] 2(4) by blast
  with 2 show ?thesis by (intro exI [of _ cf] exI [of _ peers] exI [of _ rest]) simp
qed

definition is_ready :: "run_step \<Rightarrow> bool" where
  "is_ready s = (case s of Ready _ \<Rightarrow> True | _ \<Rightarrow> False)"

lemma start_steps_ready:
  assumes "Ready p \<in> set (start_steps u a cf peers)"
  obtains pre where "start_steps u a cf peers = pre @ [Ready (ready_payload_of u a cf)]" "\<forall>z\<in>set pre. \<not> is_ready z"
    "\<forall>x. Start x \<in> set pre \<longleftrightarrow> x \<in> set (parts_of a)"
proof -
  have boot: "\<forall>z\<in>set (boot_steps u a cf peers). \<not> is_ready z" by (auto simp: boot_steps_def is_ready_def)
  then have "ra_ready_json a" using assms by (auto simp: start_steps_def is_ready_def)
  with boot obtain pre where pre: "start_steps u a cf peers = pre @ [Ready (ready_payload_of u a cf)]" and "\<forall>z\<in>set pre. \<not> is_ready z"
    by (simp add: start_steps_def)
  moreover have "\<forall>x. Start x \<in> set pre \<longleftrightarrow> x \<in> set (parts_of a)"
    using start_steps_parts [of _ u a cf peers] unfolding pre by simp
  ultimately show thesis using that by blast
qed

lemma run_ready:
  assumes "run_registry m nodes u a = (res, before @ Ready p # later)"
  shows "(\<forall>x. Start x \<in> set before \<longleftrightarrow> x \<in> set (parts_of a)) \<and> RunDaemon \<notin> set before \<and> (\<forall>x. Start x \<notin> set later)
       \<and> (\<exists>cf. p = ready_payload_of u a cf)"
proof -
  obtain cf peers rest where l: "start_steps u a cf peers @ RunDaemon # stop_steps a = before @ Ready p # later @ rest"
    using run_prefix [OF assms] by auto
  have tail: "\<forall>z\<in>set (RunDaemon # stop_steps a). \<not> is_ready z" by (auto simp: stop_steps_def is_ready_def)
  have "Ready p \<in> set (start_steps u a cf peers @ RunDaemon # stop_steps a)" unfolding l by simp
  with tail have "Ready p \<in> set (start_steps u a cf peers)" by (auto simp: is_ready_def)
  then obtain pre where pre: "start_steps u a cf peers = pre @ [Ready (ready_payload_of u a cf)]" "\<forall>z\<in>set pre. \<not> is_ready z"
    "\<forall>x. Start x \<in> set pre \<longleftrightarrow> x \<in> set (parts_of a)" by (rule start_steps_ready)
  have "before @ Ready p # (later @ rest) = pre @ Ready (ready_payload_of u a cf) # (RunDaemon # stop_steps a)"
    using l pre(1) by simp
  from marked_split [OF this, of is_ready] pre(2) tail
  have "before = pre" "p = ready_payload_of u a cf" and later: "later @ rest = RunDaemon # stop_steps a" by (auto simp: is_ready_def)
  moreover have "Start x \<notin> set later" for x
  proof -
    have "Start x \<notin> set (later @ rest)" unfolding later by (auto simp: stop_steps_def)
    then show ?thesis by simp
  qed
  moreover have "RunDaemon \<notin> set pre" using start_steps_no_stop(3) [of u a cf peers] pre(1) by simp
  ultimately show ?thesis using pre(3) by blast
qed

lemma ready_ports:
  "dget (rp_ports (ready_payload_of u a cf)) ''names'' = Some (ru_bound u Names)"
  "\<not> ra_no_relay_pool a \<Longrightarrow> dget (rp_ports (ready_payload_of u a cf)) ''pool'' = Some (ru_bound u Pool)"
  by (simp_all add: ready_payload_of_def dget_def)


text \<open>A host on which nothing raises.\<close>

definition quiet_run :: run_world where
  "quiet_run = \<lparr>ru_raises = (\<lambda>_. False), ru_bound = (\<lambda>p. if p = RemoteApi then 7440 else if p = Pool then 7444 else 7445),
     ru_hostname = ''magni.local'', ru_version = ''1''\<rparr>"

definition quiet_args :: run_args where
  "quiet_args = \<lparr>ra_socket = Some ''/tmp/s'', ra_db = Some ''/tmp/d'', ra_remote_port = None, ra_peer_pub_port = None, ra_peer_snapshot_port = None,
     ra_auth_token = None, ra_pool_port = None, ra_names_port = None, ra_instance = None, ra_peer = [''loki:7441''],
     ra_exit_with_parent = True, ra_no_peering = False, ra_no_relay_pool = True, ra_ready_json = True\<rparr>"


subsection \<open>Who hears of a change\<close>

text \<open>The same news, up to the age and label that a peer's display text carries.\<close>

definition same_news :: "peer_event \<Rightarrow> peer_event \<Rightarrow> bool" where
  "same_news e x \<longleftrightarrow>
     e = x \<or> (case (e, x) of
        (LockState u k d l t, LockState u' k' d' l' t') \<Rightarrow> u = u' \<and> k = k' \<and> l = l' \<and> t = t' \<and> (d = None \<longleftrightarrow> d' = None)
      | _ \<Rightarrow> False)"

lemma same_news_refl [simp]: "same_news e e"
  by (simp add: same_news_def)

lemma same_news_lock [simp]: "same_news (LockState u k d l t) (LockState u k d' l t) \<longleftrightarrow> (d = None \<longleftrightarrow> d' = None)"
  by (auto simp: same_news_def)

definition in_step :: "string \<Rightarrow> (bool \<Rightarrow> outlets \<Rightarrow> outlets) \<Rightarrow> outlets \<Rightarrow> bool" where
  "in_step host cb o' \<longleftrightarrow> ol_bus (cb True o') = ol_bus (cb False o') \<and> ol_peers (cb False o') = ol_peers o'
     \<and> (ol_peers (cb True o') = ol_peers o'
        \<or> (\<exists>x e. ol_peers (cb True o') = ol_peers o' @ [x] \<and> same_news e x
             \<and> ol_bus (cb True o') = publish \<lparr>bm_host = host, bm_event = e, bm_simulated = False\<rparr> (ol_bus o')))"

lemma bus_then_peers_in_step:
  assumes "case x of None \<Rightarrow> True | Some y \<Rightarrow> \<exists>e. b = Some (e, False) \<and> same_news e y"
  shows "in_step host (\<lambda>peering o'. publish_to_peers peering x (case b of None \<Rightarrow> o' | Some (e, sim) \<Rightarrow> publish_to_bus host e sim o')) o'"
  using assms by (auto simp: in_step_def publish_to_peers_def publish_to_bus_def split: option.splits)

lemma name_callbacks_in_step:
  "in_step host (\<lambda>peering. name_set_callback host peering entry) o'" "in_step host (\<lambda>peering. name_clear_callback host peering name) o'"
  using bus_then_peers_in_step [where x = "Some (name_set_payload entry)" and b = "Some (name_set_payload entry, False)" and host = host and o' = o']
    bus_then_peers_in_step [where x = "Some (name_clear_payload name)" and b = "Some (name_clear_payload name, False)" and host = host and o' = o']
  by (simp_all add: name_set_callback_def [abs_def] name_clear_callback_def [abs_def])

lemma lock_callback_in_step: "in_step host (\<lambda>peering. lock_display_callback host peering now u k disp l since) o'"
  using bus_then_peers_in_step [where x = "publish_lock_event now u k disp l since" and b = "Some (lock_event_payload u k disp l since, False)" and host = host and o' = o']
  by (cases disp) (simp_all add: lock_display_callback_def [abs_def] publish_lock_event_def lock_event_payload_def Let_def)

lemma event_callback_in_step: "in_step host (\<lambda>peering. event_callback host peering t d) o'"
  using bus_then_peers_in_step [where x = "publish_daemon_event t d" and b = "map_option (\<lambda>e. (e, is_virtual d)) (daemon_event_payload t d)" and host = host and o' = o']
  by (cases "daemon_event_payload t d"; cases "is_virtual d") (simp_all add: event_callback_def [abs_def] publish_daemon_event_def)

text \<open>The callbacks of the registry keep its two audiences in step. What the \<open>watch\<close> clients are sent does not depend on
  whether peering is on; without peering no peer is sent anything; and whatever a peer is sent the clients are sent
  too, with this host's name, while a change of a virtual board stays on this host.\<close>

theorem watchers_hear_what_peers_hear:
  assumes "cb \<in> {\<lambda>peering. event_callback host peering t d, \<lambda>peering. lock_display_callback host peering now u k disp l since,
                  \<lambda>peering. name_set_callback host peering entry, \<lambda>peering. name_clear_callback host peering name}"
  shows "ol_bus (cb True o') = ol_bus (cb False o') \<and> ol_peers (cb False o') = ol_peers o'
     \<and> (ol_peers (cb True o') = ol_peers o'
        \<or> (\<exists>x e. ol_peers (cb True o') = ol_peers o' @ [x] \<and> same_news e x
             \<and> ol_bus (cb True o') = publish \<lparr>bm_host = host, bm_event = e, bm_simulated = False\<rparr> (ol_bus o')))"
  using assms name_callbacks_in_step(1) [of host entry o'] name_callbacks_in_step(2) [of host name o']
    lock_callback_in_step [of host now u k disp l since o'] event_callback_in_step [of host t d o']
  unfolding in_step_def by blast

theorem watchers_hear_what_peers_hear_witness:
  "ol_peers (name_clear_callback ''magni'' False ''tovez'' \<lparr>ol_bus = new_bus, ol_peers = []\<rparr>) = []"
  using watchers_hear_what_peers_hear [of "\<lambda>peering. name_clear_callback ''magni'' peering ''tovez''" "''magni''" "[]" undefined 0 "[]" None None None None
      undefined "''tovez''" "\<lparr>ol_bus = new_bus, ol_peers = []\<rparr>"] by simp

subsection \<open>Observations\<close>

text \<open>A name that is changed over HTTP is announced to peers only: the names API is handed the peers' publishers, not the
  callbacks above, so no \<open>watch\<close> client hears of it, and without peering nobody does.\<close>

lemma http_name_changes_bypass_watchers:
  "ol_bus (names_api_set_callback peering entry o') = ol_bus o' \<and> ol_bus (names_api_clear_callback peering name o') = ol_bus o'
   \<and> names_api_set_callback False entry o' = o'"
  by (simp add: names_api_set_callback_def names_api_clear_callback_def publish_to_peers_def)

text \<open>A listener that cannot start leaves those before it running and the store open.\<close>

lemma failed_start_stops_nothing:
  assumes "resolve_config m nodes a = Inr cf" and "parse_peers (ra_peer a) = Inr peers" and "ru_raises u (Start Names)"
    and "\<forall>s. s \<noteq> Start Names \<longrightarrow> \<not> ru_raises u s"
  shows "\<exists>e steps. run_registry m nodes u a = (Inl e, steps) \<and> Start LocalApi \<in> set steps \<and> Start RemoteApi \<in> set steps
     \<and> (\<forall>x. Stop x \<notin> set steps) \<and> CloseStore \<notin> set steps"
proof -
  define pre where "pre = (if ra_exit_with_parent a then [WatchStdin] else []) @ [OpenStore (rc_db cf), Start LocalApi, Start RemoteApi]
       @ (if ra_no_peering a then [] else [SetRemotePort (ru_bound u RemoteApi), Start Peering])"
  have "do_steps (ru_raises u) (xs @ Start Names # ys) = (Inl (StepRaised (Start Names)), xs)" if "\<forall>x\<in>set xs. x \<noteq> Start Names" for xs ys
    using that assms(3,4) by (induction xs) auto
  moreover have "\<forall>x\<in>set pre. x \<noteq> Start Names" by (auto simp: pre_def)
  moreover obtain ys where ys: "start_steps u a cf peers = pre @ Start Names # ys"
    by (simp add: start_steps_def boot_steps_def pre_def)
  ultimately have "do_steps (ru_raises u) (start_steps u a cf peers) = (Inl (StepRaised (Start Names)), pre)" by metis
  with assms(1,2) show ?thesis by (simp add: run_registry_def) (simp add: pre_def)
qed

text \<open>A peer's address that is written out is read back.\<close>

lemma peer_spec_default: "host \<noteq> [] \<Longrightarrow> CHR '':'' \<notin> set host \<Longrightarrow> parse_peer_spec host = Inr (host, DEFAULT_REMOTE_PORT)"
proof -
  assume h: "host \<noteq> []" "CHR '':'' \<notin> set host"
  have "takeWhile (\<lambda>c. c \<noteq> CHR '':'') host = host" by (rule takeWhile_eq_all_conv [THEN iffD2]) (use h(2) in blast)
  then have "partition_colon host = (host, False, drop 1 (dropWhile (\<lambda>c. c \<noteq> CHR '':'') host))" using h(2) by (simp only: partition_colon_def)
  with h(1) show ?thesis by (simp only: parse_peer_spec_def prod.case if_False not_False_eq_True if_True)
qed

text \<open>The parent's end of the pipe closing, or reading it failing, always stops the run.\<close>

lemma parent_exit_stops: "watch_stdin_for_parent_exit (lines @ [e]) \<longleftrightarrow> None \<in> set lines \<or> Some [] \<in> set lines \<or> e = None \<or> e = Some []"
proof (induction lines)
  case Nil
  then show ?case by (cases e) auto
next
  case (Cons l lines)
  then show ?case by (cases l) auto
qed

end
