(* ===== verification/Spec2Isabelle.thy ===== *)
theory Spec2Isabelle
  imports MB_Naming MB_Frames MB_Locks MB_Identity MB_Store MB_NameRegistry MB_Api MB_Link MB_Hex MB_Names MB_Serial MB_Channel MB_Pipe MB_Service MB_Render MB_Run
begin

text \<open>
  Verification of \<open>mbregistry\<close>, the micro:bit registry of \<open>src/src/mbtools\<close>: a background service that
  knows which boards are on this host's bus, which of them answer to which name, who may use them, and
  what the registries of other hosts on the network know; and of the commands built on it.

  \<^bold>\<open>The program and its parts.\<close> One process holds a \<open>Store\<close> (three SQLite tables: devices, peers,
  names) and a \<open>LockManager\<close>, both guarded by one re-entrant lock. The daemon thread compares a USB scan
  with the device table every cycle, attaches and detaches rows, probes new boards over serial and watches
  pending flashes. Clients reach the registry over a local socket (\<open>api.py\<close>) or TCP (\<open>remote_api.py\<close>),
  one JSON object per line; both servers share \<open>_api_base.py\<close>. A granted \<open>stream\<close> request turns its
  connection into length-prefixed frames. The registry of every other host is a peer: it announces itself
  by mDNS, sends one snapshot and then a stream of events, and its boards become rows of this table with
  that host's name. Relays (boards that bridge to the radio) are handed out by a pool on a raw TCP port,
  and the radio name registry is also served over HTTP. Every change is fanned out to \<open>watch\<close> clients.
  The commands \<open>mbdeploy\<close>, \<open>mbserial\<close> and \<open>mbrelay\<close> lock a board through a client and then flash it or talk to it.

  \<^bold>\<open>Theories and the code they model\<close> (file names under \<open>src/src/mbtools\<close>, definitions named as in the code):
    \<^item> \<open>MB_Prelude\<close>: dictionaries and keyed rows, Python strings, integers, JSON values, exceptions.
    \<^item> \<open>MB_Naming\<close>: \<open>relay/naming.py\<close>, the five-letter names and the radio pair each derives.
    \<^item> \<open>MB_Frames\<close>: \<open>registry/stream_frame.py\<close> and the frame loop of \<open>_api_base.py\<close>.
    \<^item> \<open>MB_Locks\<close>: \<open>registry/locks.py\<close>, the lock table, its callbacks and the liveness sweep.
    \<^item> \<open>MB_Identity\<close>: \<open>registry/identity.py\<close>, the announcement parser and the serial probe.
    \<^item> \<open>MB_Device\<close>, \<open>MB_Store\<close>, \<open>MB_NameRegistry\<close>: \<open>registry/store.py\<close>; a table is the list of its rows in
      insertion order, a statement is one function, \<open>row_upd\<close> is an \<open>UPDATE ... WHERE key\<close>.
    \<^item> \<open>MB_Registry\<close>: the state the servers share (store, locks, pending flashes, claims, virtual boards,
      connections) and the callbacks that run inside a lock operation.
    \<^item> \<open>MB_Daemon\<close>: \<open>registry/daemon.py\<close>, \<open>usbwatch.py\<close>, \<open>claims.py\<close>: scan, diff, probe.
    \<^item> \<open>MB_Virtual\<close>: \<open>registry/virtual.py\<close>, boards a program registers.
    \<^item> \<open>MB_Flash\<close>: \<open>registry/flash.py\<close>, \<open>flashlogic.py\<close>: flashing with retry, mass erase and watchdog.
    \<^item> \<open>MB_Hex\<close>: \<open>registry/universal_hex.py\<close>.
    \<^item> \<open>MB_Api\<close>: the handlers of \<open>_api_base.py\<close>, \<open>api.py\<close> and \<open>remote_api.py\<close>.
    \<^item> \<open>MB_Server\<close>: a whole connection of either server, from its first line to its \<open>finally\<close> block.
    \<^item> \<open>MB_Peering\<close>, \<open>MB_Link\<close>: \<open>registry/peering.py\<close>, \<open>netaddr.py\<close>: payloads, events, snapshots, links.
    \<^item> \<open>MB_Relay\<close>: \<open>relay/protocol.py\<close>; \<open>MB_Pool\<close>: \<open>registry/console_compat/relay_pool.py\<close>.
    \<^item> \<open>MB_Names\<close>: \<open>registry/console_compat/names_api.py\<close> and \<open>registry/eventbus.py\<close>.
    \<^item> \<open>MB_Client\<close>: \<open>registry/client.py\<close>, \<open>remote_client.py\<close>, the other end of those connections.
    \<^item> \<open>MB_Deploy\<close>: \<open>deploy/release.py\<close>, \<open>deploy/cli.py\<close>; \<open>MB_RelayCli\<close>: \<open>relay/cli.py\<close>; \<open>MB_Serial\<close>: \<open>serial/\<close>.
    \<^item> \<open>MB_Channel\<close>: \<open>relay/channel.py\<close>, the two byte channels of the relay protocol and their reading thread.
    \<^item> \<open>MB_Pipe\<close>: \<open>registry/api_windows.py\<close>, the local server on Windows, from its Win32 calls to its accept loop.
    \<^item> \<open>MB_Service\<close>: \<open>registry/paths.py\<close>, \<open>service.py\<close>, \<open>service_windows.py\<close> and the \<open>service\<close> subcommands of
      \<open>registry/cli.py\<close>; an operation maps a box (files, commands run, notices printed) to a result or an exception.
    \<^item> \<open>MB_Render\<close>: \<open>registry/render.py\<close> and the client subcommands \<open>list\<close>, \<open>unlock\<close>, \<open>rescan\<close> of \<open>registry/cli.py\<close>.
    \<^item> \<open>MB_Run\<close>: \<open>mbregistry run\<close> of \<open>registry/cli.py\<close>: its options, the callbacks that carry each change to watch
      clients and peers, and the order in which the parts are started and stopped.

  \<^bold>\<open>How state and effects are modelled.\<close> Each method under the registry lock is one function from the state
  to the state, its result and the events it fires; what other threads do between two critical sections is
  a function argument (\<open>others\<close>) or a step of a relation (\<open>session\<close>, \<open>lock_step\<close>, \<open>link_step\<close>). The
  bus scan, the serial port, pyOCD, ZeroMQ, mDNS, sockets, clocks and the file system are arguments. An
  exception is a value: \<open>Inl\<close> of \<open>py_error\<close> or of an exception type of the module. Times are reals or
  milliseconds; Python integers are \<open>int\<close>, bytes are \<open>char\<close> or \<open>8 word\<close>. A client is written over what the other
  end answers (\<open>exchange\<close>), and composed with the servers' own definitions where a property spans both.

  \<^bold>\<open>What the lemmas show.\<close> Naming: the codec is a bijection and the derived radio pairs are unique.
  Frames: reading inverts writing under every chunking. Locks: exclusion along any history, exactness of
  the callbacks. Store: local ownership, exact purges, no guessing between hosts. Daemon: a cycle refines
  a per-board specification, converges on the bus and keeps the invariant. Flashing: no erase without
  evidence, no masked kill. API: grants, and that a closed connection holds nothing. Servers: both answer
  alike, a remote one does nothing without its token and keeps nothing of a connection. Peering: snapshots
  synchronise, events keep in step, no peer reaches beyond its own rows. Relay: a board is handed out only
  after its defaults were read back. Names: the HTTP interface stores, answers and restores. Clients and
  commands: a board is flashed or talked to between a granted lock and its release, without a reset that was not
  asked for, and a release of the cache is the one that was fetched. Answers: every answer of a server has the
  shape its client decodes, and the preview of a rescan names exactly what the rescan removes. Channels: what is read
  is handed on in full, and a stop is no error. Pipe server: it serves as the socket does, and \<open>stop\<close> ends its
  accept loop. The service: a
  dry run touches nothing, an uninstall keeps the database unless told otherwise, install and uninstall are
  inverse. The process: it announces itself only when it can be reached, and stops what it started before the
  store is closed; watch clients hear what peers hear.

  \<^bold>\<open>Interfaces.\<close> \<open>line_server\<close> (\<open>MB_Server\<close>) is what both servers share, \<open>responsive_relay\<close> and \<open>tuning_relay\<close> the
  behaviour of a relay that keeps to its protocol, \<open>line_source\<close> (\<open>MB_Serial\<close>) a session one can read lines from,
  \<open>byte_pump\<close> (\<open>MB_Channel\<close>) what both reading threads do; \<open>line_server\<close> is also kept by the pipe server.
  \<open>frame\<close> (\<open>MB_Service\<close>) is what an operation may change of the machine, instantiated for dry runs, queries, paths and
  growth; \<open>service_backend\<close> is what the service subcommands ask of a platform, kept by launchd and systemd.

  \<^bold>\<open>Termination and bounds.\<close> No model uses fuel: a loop recurses on its remaining input (bytes, rows,
  arrivals, attempts) or carries a measure, and its definition is total. The two loops over a clock that only
  moves if the world lets it (\<open>reprobe_loop\<close>, \<open>reply_loop\<close>) are partial functions, proved to return. Retries
  that the code bounds (three normalise attempts, two hello attempts, one erase) are its numbers.

  \<^bold>\<open>Not modelled.\<close> The \<open>ctypes\<close> calls of \<open>service_windows.py\<close>, signal handlers, the set-up of logging,
  argument parsers and entry points, the test fakes (\<open>testing/fakes.py\<close>), the texts of messages and logs, and the
  threads themselves: what another thread may do in between is an argument or a step of a relation. These are calls
  into the operating system or into libraries.
\<close>

end
